(* ===== verification/Kat_Prelude.thy ===== *)
theory Kat_Prelude
  imports Main "HOL-Library.Char_ord" "HOL-Library.Code_Target_Numeral" "HOL-Library.Word"
begin

text \<open>
  What the component theories share: machine-integer bounds and the saturating arithmetic of
  \<^verbatim>\<open>time_util.h\<close> and \<^verbatim>\<open>response_cache.cc\<close>, the \<^verbatim>\<open>std::string_view\<close> searches the parsers are
  written with, the ASCII classifications, decimal printing (\<^verbatim>\<open>std::to_string\<close>) and
  \<^verbatim>\<open>std::from_chars\<close>.  A C++ string is a \<^typ>\<open>string\<close> (a list of 8-bit characters), a search
  that may yield \<^verbatim>\<open>npos\<close> is a \<^typ>\<open>nat option\<close>, an unsigned machine integer is a \<^typ>\<open>nat\<close> whose
  wrap-around, saturation or range check is written out where the code can reach it.
\<close>

named_theorems str_lems \<open>facts about string searches and pieces of strings\<close>

type_synonym bytes = "8 word list"

subsection \<open>Machine integers\<close>

definition u64_max :: nat where "u64_max = 18446744073709551615"
definition u32_max :: nat where "u32_max = 4294967295"
definition u16_max :: nat where "u16_max = 65535"
definition i64_max :: int where "i64_max = 9223372036854775807"
definition i64_min :: int where "i64_min = - 9223372036854775808"

definition sat_add :: "nat \<Rightarrow> nat \<Rightarrow> nat" where
  "sat_add lhs rhs = (if rhs > u64_max - lhs then u64_max else lhs + rhs)"

definition wrap64 :: "nat \<Rightarrow> nat" where
  "wrap64 n = n mod 18446744073709551616"

lemma sat_add_le [simp]: "lhs \<le> u64_max \<Longrightarrow> sat_add lhs rhs \<le> u64_max"
  by (auto simp: sat_add_def)

lemma sat_add_min: "lhs \<le> u64_max \<Longrightarrow> sat_add lhs rhs = min u64_max (lhs + rhs)"
  by (auto simp: sat_add_def)

lemma sat_add_exact: "lhs + rhs \<le> u64_max \<Longrightarrow> sat_add lhs rhs = lhs + rhs"
  by (auto simp: sat_add_def)

subsection \<open>Guards that fail with None\<close>

lemma if_None_Some_iff [simp]: "(if C then None else X) = Some y \<longleftrightarrow> \<not> C \<and> X = Some y"
  by simp

lemma if_Some_None_iff [simp]: "(if C then X else None) = Some y \<longleftrightarrow> C \<and> X = Some y"
  by simp

subsection \<open>Searching in strings\<close>

fun find_if :: "('a \<Rightarrow> bool) \<Rightarrow> 'a list \<Rightarrow> nat option" where
  "find_if P [] = None"
| "find_if P (x # xs) = (if P x then Some 0 else map_option Suc (find_if P xs))"

definition find_char :: "char \<Rightarrow> string \<Rightarrow> nat option" where
  "find_char c s = find_if (\<lambda>x. x = c) s"

definition find_char_from :: "char \<Rightarrow> nat \<Rightarrow> string \<Rightarrow> nat option" where
  "find_char_from c pos s = map_option (\<lambda>i. pos + i) (find_char c (drop pos s))"

definition rfind_if :: "(char \<Rightarrow> bool) \<Rightarrow> string \<Rightarrow> nat option" where
  "rfind_if P s = map_option (\<lambda>i. length s - 1 - i) (find_if P (rev s))"

definition rfind_char :: "char \<Rightarrow> string \<Rightarrow> nat option" where
  "rfind_char c s = rfind_if (\<lambda>x. x = c) s"

definition substr :: "string \<Rightarrow> nat \<Rightarrow> nat \<Rightarrow> string" where
  "substr s pos n = take n (drop pos s)"

text \<open>\<^verbatim>\<open>s.substr(0, n)\<close> where \<^verbatim>\<open>n\<close> may be \<^verbatim>\<open>npos\<close>.\<close>

definition prefix_upto :: "string \<Rightarrow> nat option \<Rightarrow> string" where
  "prefix_upto s n = (case n of None \<Rightarrow> s | Some k \<Rightarrow> take k s)"

definition starts_with :: "string \<Rightarrow> string \<Rightarrow> bool" where
  "starts_with s p = (take (length p) s = p)"

lemma find_if_None [str_lems]: "find_if P xs = None \<longleftrightarrow> (\<forall>x\<in>set xs. \<not> P x)"
  by (induction xs) auto

lemma find_if_Some [str_lems]:
  "find_if P xs = Some n \<longleftrightarrow> n < length xs \<and> P (xs ! n) \<and> (\<forall>i<n. \<not> P (xs ! i))"
proof (induction xs arbitrary: n)
  case Nil
  then show ?case by simp
next
  case (Cons x xs)
  then show ?case
    by (cases n) (auto simp: All_less_Suc2)
qed

lemma find_if_append:
  "find_if P (xs @ ys) = (case find_if P xs of Some n \<Rightarrow> Some n
     | None \<Rightarrow> map_option (\<lambda>i. length xs + i) (find_if P ys))"
proof (induction xs)
  case Nil
  show ?case by (cases "find_if P ys") auto
next
  case (Cons x xs)
  then show ?case by (cases "find_if P ys") (auto split: option.splits)
qed

lemma find_if_split:
  assumes "find_if P xs = Some n"
  shows "xs = take n xs @ xs ! n # drop (Suc n) xs" "P (xs ! n)" "\<forall>x\<in>set (take n xs). \<not> P x"
    "n < length xs"
  using assms by (auto simp: find_if_Some id_take_nth_drop [symmetric] in_set_conv_nth)

lemma find_char_None [str_lems]: "find_char c s = None \<longleftrightarrow> c \<notin> set s"
  by (auto simp: find_char_def find_if_None)

lemma find_char_append:
  "find_char c (xs @ ys) = (case find_char c xs of Some n \<Rightarrow> Some n
     | None \<Rightarrow> map_option (\<lambda>i. length xs + i) (find_char c ys))"
  by (auto simp: find_char_def find_if_append split: option.splits)

lemma find_char_Nil [simp]: "find_char c [] = None"
  by (simp add: find_char_def)

lemma find_char_Cons: "find_char c (x # xs) = (if x = c then Some 0 else map_option Suc (find_char c xs))"
  by (simp add: find_char_def)

lemma find_char_hit: "c \<notin> set xs \<Longrightarrow> find_char c (xs @ c # ys) = Some (length xs)"
  by (induction xs) (auto simp: find_char_def)

lemma find_if_hit: "\<forall>x\<in>set xs. \<not> P x \<Longrightarrow> P y \<Longrightarrow> find_if P (xs @ y # ys) = Some (length xs)"
  by (induction xs) auto

lemma find_char_split:
  assumes "find_char c s = Some n"
  shows "s = take n s @ c # drop (Suc n) s" "c \<notin> set (take n s)" "n < length s"
proof -
  have "find_if (\<lambda>x. x = c) s = Some n" using assms by (simp add: find_char_def)
  from find_if_split [OF this]
  show "s = take n s @ c # drop (Suc n) s" "c \<notin> set (take n s)" "n < length s" by auto
qed

lemma rfind_if_None [str_lems]: "rfind_if P s = None \<longleftrightarrow> (\<forall>x\<in>set s. \<not> P x)"
  by (auto simp: rfind_if_def find_if_None)

lemma rfind_if_hit: "\<forall>x\<in>set ys. \<not> P x \<Longrightarrow> P y \<Longrightarrow> rfind_if P (xs @ y # ys) = Some (length xs)"
  by (simp add: rfind_if_def find_if_hit)

lemma rfind_if_split:
  assumes "rfind_if P s = Some n"
  shows "s = take n s @ s ! n # drop (Suc n) s" "P (s ! n)" "\<forall>x\<in>set (drop (Suc n) s). \<not> P x"
    "n < length s"
proof -
  from assms obtain i where i: "find_if P (rev s) = Some i" and n: "n = length s - 1 - i"
    by (auto simp: rfind_if_def)
  note f = find_if_split [OF i]
  from f(4) have lt: "n < length s" and i': "i = length s - Suc n" using n by auto
  show "n < length s" by (rule lt)
  show "s = take n s @ s ! n # drop (Suc n) s" using lt by (simp add: id_take_nth_drop [symmetric])
  show "P (s ! n)" using f(2) lt i' by (simp add: rev_nth)
  have "rev (take i (rev s)) = drop (Suc n) s" using lt i' by (simp add: take_rev)
  then show "\<forall>x\<in>set (drop (Suc n) s). \<not> P x" using f(3) by (metis set_rev)
qed

subsection \<open>ASCII classes, case folding, optional white space\<close>

definition is_upper :: "char \<Rightarrow> bool" where
  "is_upper c \<longleftrightarrow> CHR ''A'' \<le> c \<and> c \<le> CHR ''Z''"

definition is_lower :: "char \<Rightarrow> bool" where
  "is_lower c \<longleftrightarrow> CHR ''a'' \<le> c \<and> c \<le> CHR ''z''"

definition is_digit :: "char \<Rightarrow> bool" where
  "is_digit c \<longleftrightarrow> CHR ''0'' \<le> c \<and> c \<le> CHR ''9''"

definition is_alpha :: "char \<Rightarrow> bool" where
  "is_alpha c \<longleftrightarrow> is_upper c \<or> is_lower c"

definition lower_char :: "char \<Rightarrow> char" where
  "lower_char c = (if is_upper c then char_of (of_char c + 32 :: nat) else c)"

definition lower :: "string \<Rightarrow> string" where
  "lower s = map lower_char s"

definition ascii_iequals :: "string \<Rightarrow> string \<Rightarrow> bool" where
  "ascii_iequals a b \<longleftrightarrow>
     length a = length b \<and> list_all (\<lambda>(x, y). lower_char x = lower_char y) (zip a b)"

definition is_ows :: "char \<Rightarrow> bool" where
  "is_ows c \<longleftrightarrow> c = CHR '' '' \<or> c = CHR 0x09"

definition trim_ows :: "string \<Rightarrow> string" where
  "trim_ows s =
     (case find_if (\<lambda>c. \<not> is_ows c) s of
        None \<Rightarrow> []
      | Some b \<Rightarrow>
          (case rfind_if (\<lambda>c. \<not> is_ows c) s of
             None \<Rightarrow> []
           | Some e \<Rightarrow> substr s b (e - b + 1)))"

lemma ascii_iequals_lower: "ascii_iequals a b \<longleftrightarrow> lower a = lower b"
proof -
  have "length a = length b \<Longrightarrow>
      list_all (\<lambda>(x, y). lower_char x = lower_char y) (zip a b) \<longleftrightarrow> lower a = lower b"
    by (induction a b rule: list_induct2) (auto simp: lower_def)
  moreover have "lower a = lower b \<Longrightarrow> length a = length b"
    by (metis length_map lower_def)
  ultimately show ?thesis by (auto simp: ascii_iequals_def)
qed

lemma ascii_iequals_refl [simp]: "ascii_iequals a a"
  by (simp add: ascii_iequals_lower)

lemma ascii_iequals_sym: "ascii_iequals a b \<longleftrightarrow> ascii_iequals b a"
  by (auto simp: ascii_iequals_lower)

lemma ascii_iequals_trans: "ascii_iequals a b \<Longrightarrow> ascii_iequals b c \<Longrightarrow> ascii_iequals a c"
  by (auto simp: ascii_iequals_lower)

lemma trim_ows_Nil_iff: "trim_ows s = [] \<longleftrightarrow> (\<forall>c\<in>set s. is_ows c)"
proof (cases "find_if (\<lambda>c. \<not> is_ows c) s")
  case None
  then show ?thesis by (simp add: trim_ows_def) (simp add: find_if_None)
next
  case (Some b)
  then have bad: "\<exists>c\<in>set s. \<not> is_ows c" by (metis find_if_None option.distinct(1))
  then obtain e where e: "rfind_if (\<lambda>c. \<not> is_ows c) s = Some e"
    by (metis not_None_eq rfind_if_None)
  have "substr s b (e - b + 1) \<noteq> []"
    using find_if_split(4) [OF Some] by (simp add: substr_def)
  then show ?thesis using Some e bad by (auto simp: trim_ows_def)
qed

lemma set_trim_ows: "set (trim_ows s) \<subseteq> set s"
  by (auto simp: trim_ows_def substr_def split: option.splits dest!: in_set_takeD in_set_dropD)

lemma find_if_le_rfind_if:
  assumes "find_if P s = Some b" "rfind_if P s = Some e"
  shows "b \<le> e"
proof (rule ccontr)
  assume "\<not> b \<le> e"
  then have "e < b" by simp
  with assms(1) have "\<not> P (s ! e)" by (simp add: find_if_Some)
  with rfind_if_split(2) [OF assms(2)] show False by simp
qed

lemma trim_ows_id:
  assumes "s \<noteq> []" "\<not> is_ows (hd s)" "\<not> is_ows (last s)"
  shows "trim_ows s = s"
proof -
  from assms(1) obtain x xs where xs: "s = x # xs" by (cases s) auto
  from assms(1) obtain ys y where ys: "s = ys @ [y]" by (cases s rule: rev_cases) auto
  have 1: "find_if (\<lambda>c. \<not> is_ows c) s = Some 0" using assms(2) xs by simp
  have 2: "rfind_if (\<lambda>c. \<not> is_ows c) s = Some (length ys)"
    using rfind_if_hit [of "[]" "\<lambda>c. \<not> is_ows c" y ys] assms(3) ys by simp
  show ?thesis unfolding trim_ows_def 1 2 using ys by (simp add: substr_def)
qed

lemma trim_ows_ends:
  assumes "trim_ows s \<noteq> []"
  shows "\<not> is_ows (hd (trim_ows s))" "\<not> is_ows (last (trim_ows s))"
proof -
  from assms obtain b e where b: "find_if (\<lambda>c. \<not> is_ows c) s = Some b"
    and e: "rfind_if (\<lambda>c. \<not> is_ows c) s = Some e"
    by (auto simp: trim_ows_def split: option.splits)
  have t: "trim_ows s = take (e - b + 1) (drop b s)" by (simp add: trim_ows_def b e substr_def)
  have be: "b \<le> e" by (rule find_if_le_rfind_if [OF b e])
  have el: "e < length s" by (rule rfind_if_split(4) [OF e])
  have "hd (trim_ows s) = s ! b"
    using be el by (simp add: t hd_take hd_drop_conv_nth)
  then show "\<not> is_ows (hd (trim_ows s))" using find_if_split(2) [OF b] by simp
  have "length (trim_ows s) = Suc (e - b)" using be el by (simp add: t)
  then have "last (trim_ows s) = trim_ows s ! (e - b)" using assms by (simp add: last_conv_nth)
  also have "\<dots> = s ! e" using be el by (simp add: t)
  finally have "last (trim_ows s) = s ! e" .
  then show "\<not> is_ows (last (trim_ows s))" using rfind_if_split(2) [OF e] by simp
qed

lemma trim_ows_idem [simp]: "trim_ows (trim_ows s) = trim_ows s"
proof (cases "trim_ows s = []")
  case True
  then show ?thesis by (simp add: trim_ows_def)
next
  case False
  then show ?thesis using trim_ows_ends [OF False] by (intro trim_ows_id)
qed

end
