(* ===== verification/Header_List.thy ===== *)
theory Header_List
  imports Kat_Prelude
begin

text \<open>
  \<^verbatim>\<open>src/core/header_list.{h,cc}\<close>: an ordered list of header fields that keeps duplicates and is
  searched by case-insensitive name.
\<close>

record header =
  h_name :: string
  h_value :: string

type_synonym header_list = "header list"

definition mk_header :: "string \<Rightarrow> string \<Rightarrow> header" where
  "mk_header n v = \<lparr>h_name = n, h_value = v\<rparr>"

definition ieq :: "string \<Rightarrow> string \<Rightarrow> bool" where
  "ieq a b \<longleftrightarrow>
     length a = length b \<and> list_all (\<lambda>(x, y). lower_char x = lower_char y) (zip a b)"

definition hl_add :: "header_list \<Rightarrow> string \<Rightarrow> string \<Rightarrow> header_list" where
  "hl_add hs n v = hs @ [mk_header n v]"

fun hl_get :: "header_list \<Rightarrow> string \<Rightarrow> string" where
  "hl_get [] name = []"
| "hl_get (h # hs) name = (if ieq (h_name h) name then h_value h else hl_get hs name)"

fun hl_get_all :: "header_list \<Rightarrow> string \<Rightarrow> string list" where
  "hl_get_all [] name = []"
| "hl_get_all (h # hs) name =
     (if ieq (h_name h) name then h_value h # hl_get_all hs name else hl_get_all hs name)"

text \<open>A C string ends at the first NUL.\<close>

definition c_str :: "string \<Rightarrow> string" where
  "c_str s = takeWhile (\<lambda>c. c \<noteq> CHR 0x00) s"

definition name_pointers :: "header_list \<Rightarrow> string list" where
  "name_pointers hs = map (\<lambda>h. c_str (h_name h)) hs"

definition value_pointers :: "header_list \<Rightarrow> string list" where
  "value_pointers hs = map (\<lambda>h. c_str (h_value h)) hs"

definition has_header :: "header_list \<Rightarrow> string \<Rightarrow> bool" where
  "has_header hs name = (hl_get_all hs name \<noteq> [])"

subsection \<open>Facts\<close>

lemma ieq_eq [simp]: "ieq = ascii_iequals"
  by (intro ext) (simp add: ieq_def ascii_iequals_def)

lemma mk_header_simps [simp]: "h_name (mk_header n v) = n" "h_value (mk_header n v) = v"
  by (simp_all add: mk_header_def)

lemma hl_get_all_filter:
  "hl_get_all hs n = map h_value (filter (\<lambda>h. ascii_iequals (h_name h) n) hs)"
  by (induction hs) auto

lemma hl_get_all_append [simp]: "hl_get_all (xs @ ys) n = hl_get_all xs n @ hl_get_all ys n"
  by (simp add: hl_get_all_filter)

lemma hl_get_all_add [simp]:
  "hl_get_all (hl_add hs k v) n = hl_get_all hs n @ (if ascii_iequals k n then [v] else [])"
  by (simp add: hl_add_def)

lemma hl_get_hd: "hl_get hs n = (case hl_get_all hs n of [] \<Rightarrow> [] | v # _ \<Rightarrow> v)"
  by (induction hs) auto

lemma hl_get_all_cong: "ascii_iequals m n \<Longrightarrow> hl_get_all hs m = hl_get_all hs n"
  by (simp add: hl_get_all_filter ascii_iequals_lower)

lemma has_header_iff: "has_header hs n \<longleftrightarrow> (\<exists>h\<in>set hs. ascii_iequals (h_name h) n)"
  by (auto simp: has_header_def hl_get_all_filter filter_empty_conv)

lemma hl_get_nonempty_has: "hl_get hs n \<noteq> [] \<Longrightarrow> has_header hs n"
  by (auto simp: hl_get_hd has_header_def split: list.splits)

lemma c_str_id: "CHR 0x00 \<notin> set s \<Longrightarrow> c_str s = s"
  by (auto simp: c_str_def takeWhile_eq_all_conv)

lemma set_c_str: "set (c_str s) \<subseteq> set s"
  by (auto simp: c_str_def dest: set_takeWhileD)

end
