(* ===== verification/Kat_Decimal.thy ===== *)
theory Kat_Decimal
  imports Kat_Prelude
begin

text \<open>
  Decimal text: \<^verbatim>\<open>std::to_string\<close> of an unsigned integer and \<^verbatim>\<open>std::from_chars\<close> in base 10, with
  the three outcomes its callers distinguish (\<^verbatim>\<open>ec == errc{}\<close>, \<^verbatim>\<open>invalid_argument\<close>,
  \<^verbatim>\<open>result_out_of_range\<close>) and the position it stops at.  The callers accept a value only when the
  conversion succeeded and consumed the whole field, which is \<open>parse_all\<close>.
\<close>

subsection \<open>Printing\<close>

definition digit_char :: "nat \<Rightarrow> char" where
  "digit_char d = char_of (48 + d)"

definition digit_value :: "char \<Rightarrow> nat" where
  "digit_value c = of_char c - 48"

fun to_string :: "nat \<Rightarrow> string" where
  "to_string n = (if n < 10 then [digit_char n] else to_string (n div 10) @ [digit_char (n mod 10)])"

declare to_string.simps [simp del]

definition int_to_string :: "int \<Rightarrow> string" where
  "int_to_string i = (if i < 0 then CHR ''-'' # to_string (nat (- i)) else to_string (nat i))"

subsection \<open>Reading\<close>

definition digits_value :: "string \<Rightarrow> nat" where
  "digits_value ds = foldl (\<lambda>v c. 10 * v + digit_value c) 0 ds"

datatype errc = Errc_ok | Errc_invalid_argument | Errc_result_out_of_range

text \<open>Unsigned \<^verbatim>\<open>from_chars\<close>: (error code, value, characters consumed).\<close>

definition from_chars :: "nat \<Rightarrow> string \<Rightarrow> errc \<times> nat \<times> nat" where
  "from_chars max_value s =
     (let ds = takeWhile is_digit s in
      if ds = [] then (Errc_invalid_argument, 0, 0)
      else if digits_value ds > max_value then (Errc_result_out_of_range, 0, length ds)
      else (Errc_ok, digits_value ds, length ds))"

text \<open>Signed \<^verbatim>\<open>from_chars\<close>: one leading minus sign is accepted, a plus sign is not.\<close>

definition from_chars_int :: "int \<Rightarrow> int \<Rightarrow> string \<Rightarrow> errc \<times> int \<times> nat" where
  "from_chars_int lo hi s =
     (let (neg, body) = (case s of c # cs \<Rightarrow> if c = CHR ''-'' then (True, cs) else (False, s)
                                 | [] \<Rightarrow> (False, s));
          ds = takeWhile is_digit body;
          v = (if neg then - int (digits_value ds) else int (digits_value ds));
          n = (if neg then 1 else 0) + length ds
      in if ds = [] then (Errc_invalid_argument, 0, 0)
         else if v < lo \<or> v > hi then (Errc_result_out_of_range, 0, n)
         else (Errc_ok, v, n))"

definition parse_all :: "nat \<Rightarrow> string \<Rightarrow> nat option" where
  "parse_all max_value s =
     (case from_chars max_value s of (ec, v, n) \<Rightarrow>
        if s = [] \<or> ec \<noteq> Errc_ok \<or> n \<noteq> length s then None else Some v)"

definition parse_all_int :: "int \<Rightarrow> int \<Rightarrow> string \<Rightarrow> int option" where
  "parse_all_int lo hi s =
     (case from_chars_int lo hi s of (ec, v, n) \<Rightarrow>
        if s = [] \<or> ec \<noteq> Errc_ok \<or> n \<noteq> length s then None else Some v)"

subsection \<open>Facts\<close>

lemma of_char_digit_char: "d < 10 \<Longrightarrow> of_char (digit_char d) = (48 + d :: nat)"
  by (simp add: digit_char_def)

lemma digit_value_digit_char [simp]: "d < 10 \<Longrightarrow> digit_value (digit_char d) = d"
  by (simp add: digit_value_def of_char_digit_char)

lemma is_digit_of_char: "is_digit c \<longleftrightarrow> 48 \<le> (of_char c :: nat) \<and> (of_char c :: nat) \<le> 57"
  by (simp add: is_digit_def less_eq_char_def)

lemma is_digit_digit_char [simp]: "d < 10 \<Longrightarrow> is_digit (digit_char d)"
  by (simp add: is_digit_of_char of_char_digit_char)

lemma digit_value_lt: "is_digit c \<Longrightarrow> digit_value c < 10"
  by (auto simp: is_digit_of_char digit_value_def)

lemma digit_char_digit_value: "is_digit c \<Longrightarrow> digit_char (digit_value c) = c"
  by (auto simp: is_digit_of_char digit_value_def digit_char_def)

lemma digits_value_Nil [simp]: "digits_value [] = 0"
  by (simp add: digits_value_def)

lemma digits_value_snoc [simp]: "digits_value (ds @ [c]) = 10 * digits_value ds + digit_value c"
  by (simp add: digits_value_def)

lemma to_string_digits: "\<forall>c\<in>set (to_string n). is_digit c"
proof (induction n rule: to_string.induct)
  case (1 n)
  then show ?case by (subst to_string.simps) auto
qed

lemma to_string_not_Nil [simp]: "to_string n \<noteq> []"
  by (subst to_string.simps) auto

lemma digits_value_to_string [simp]: "digits_value (to_string n) = n"
proof (induction n rule: to_string.induct)
  case (1 n)
  show ?case
  proof (cases "n < 10")
    case True
    then show ?thesis
      by (subst to_string.simps) (simp add: digits_value_def)
  next
    case False
    with 1 show ?thesis by (subst to_string.simps) simp
  qed
qed

lemma to_string_inject [simp]: "to_string m = to_string n \<longleftrightarrow> m = n"
  by (metis digits_value_to_string)

lemma takeWhile_all: "\<forall>x\<in>set xs. P x \<Longrightarrow> takeWhile P xs = xs"
  by (simp add: takeWhile_eq_all_conv)

lemma parse_all_eq:
  "parse_all max_value s =
     (if s \<noteq> [] \<and> (\<forall>c\<in>set s. is_digit c) \<and> digits_value s \<le> max_value
      then Some (digits_value s) else None)"
proof (cases "\<forall>c\<in>set s. is_digit c")
  case True
  then show ?thesis by (auto simp: parse_all_def from_chars_def takeWhile_all)
next
  case False
  then have "takeWhile is_digit s \<noteq> s" by (metis set_takeWhileD)
  then have "length (takeWhile is_digit s) \<noteq> length s"
    by (metis takeWhile_eq_take take_all_iff order_refl)
  with False show ?thesis by (auto simp: parse_all_def from_chars_def Let_def)
qed

lemma parse_all_to_string [simp]: "parse_all m (to_string n) = (if n \<le> m then Some n else None)"
  using to_string_digits by (simp add: parse_all_eq)

lemma parse_all_Some:
  "parse_all m s = Some v \<Longrightarrow> s \<noteq> [] \<and> (\<forall>c\<in>set s. is_digit c) \<and> v = digits_value s \<and> v \<le> m"
  by (auto simp: parse_all_eq split: if_splits)

lemma parse_all_le: "parse_all m s = Some v \<Longrightarrow> v \<le> m"
  by (simp add: parse_all_Some)

lemma char_not_in_to_string: "\<not> is_digit c \<Longrightarrow> c \<notin> set (to_string n)"
  using to_string_digits by blast

lemma length_to_string_lt:
  assumes "n < 10 ^ k" "0 < k" shows "length (to_string n) \<le> k"
  using assms
proof (induction n arbitrary: k rule: to_string.induct)
  case (1 n)
  show ?case
  proof (cases "n < 10")
    case True
    then show ?thesis using 1(3) by (subst to_string.simps) simp
  next
    case False
    obtain j where k: "k = Suc j" using 1(3) by (cases k) auto
    with False 1(2) have "0 < j" by (cases j) auto
    moreover have "n div 10 < 10 ^ j" using 1(2) k by (simp add: less_mult_imp_div_less mult.commute)
    ultimately have "length (to_string (n div 10)) \<le> j" using 1(1) False by simp
    then show ?thesis using False k by (subst to_string.simps) simp
  qed
qed

end
