(* ===== verification/Kat_Api.thy ===== *)
theory Kat_Api
  imports Kat_Prelude
begin

text \<open>
  The error codes and event kinds of the C ABI (\<^verbatim>\<open>src/core/kathttp3.h\<close>).  Error values are
  constructors here; \<open>error_code\<close> is the number the header assigns.
\<close>

datatype kat_error =
    KAT_OK
  | ERR_DNS
  | ERR_QUIC
  | ERR_TLS
  | ERR_CERTIFICATE_VERIFY
  | ERR_HOSTNAME_MISMATCH
  | ERR_NO_TRUST_PROVIDER
  | ERR_HTTP3
  | ERR_TIMEOUT
  | ERR_CANCELLED
  | ERR_INVALID_ARG
  | ERR_NOMEM
  | ERR_CLOSED
  | ERR_BODY
  | ERR_DNS_TIMEOUT
  | ERR_CONNECT_TIMEOUT
  | ERR_HANDSHAKE_TIMEOUT
  | ERR_RESPONSE_HEADERS_TIMEOUT
  | ERR_READ_TIMEOUT
  | ERR_WRITE_TIMEOUT
  | ERR_CALL_TIMEOUT
  | ERR_CONSUMER_STALL
  | ERR_NETWORK_LOST
  | ERR_CONNECTION_LIMIT

fun error_code :: "kat_error \<Rightarrow> int" where
  "error_code KAT_OK = 0"
| "error_code ERR_DNS = -1"
| "error_code ERR_QUIC = -3"
| "error_code ERR_TLS = -4"
| "error_code ERR_CERTIFICATE_VERIFY = -5"
| "error_code ERR_HOSTNAME_MISMATCH = -6"
| "error_code ERR_NO_TRUST_PROVIDER = -7"
| "error_code ERR_HTTP3 = -8"
| "error_code ERR_TIMEOUT = -9"
| "error_code ERR_CANCELLED = -10"
| "error_code ERR_INVALID_ARG = -11"
| "error_code ERR_NOMEM = -12"
| "error_code ERR_CLOSED = -13"
| "error_code ERR_BODY = -14"
| "error_code ERR_DNS_TIMEOUT = -15"
| "error_code ERR_CONNECT_TIMEOUT = -16"
| "error_code ERR_HANDSHAKE_TIMEOUT = -17"
| "error_code ERR_RESPONSE_HEADERS_TIMEOUT = -18"
| "error_code ERR_READ_TIMEOUT = -19"
| "error_code ERR_WRITE_TIMEOUT = -20"
| "error_code ERR_CALL_TIMEOUT = -21"
| "error_code ERR_CONSUMER_STALL = -22"
| "error_code ERR_NETWORK_LOST = -23"
| "error_code ERR_CONNECTION_LIMIT = -24"

lemma error_code_inject: "error_code a = error_code b \<longleftrightarrow> a = b"
  by (cases a; cases b) simp_all

lemma error_code_zero: "error_code e = 0 \<longleftrightarrow> e = KAT_OK"
  by (cases e) simp_all

subsection \<open>Events\<close>

text \<open>An event as the callback sees it: the request it belongs to and the fields of its kind.\<close>

datatype event_kind =
    Ev_headers (ev_status: int) (ev_names: "string list") (ev_values: "string list")
  | Ev_body (ev_data: bytes)
  | Ev_complete
  | Ev_error (ev_code: kat_error)

record event =
  ev_request_id :: int
  ev_kind :: event_kind

definition ev_terminal :: "event \<Rightarrow> bool" where
  "ev_terminal ev = (case ev_kind ev of Ev_complete \<Rightarrow> True | Ev_error _ \<Rightarrow> True | _ \<Rightarrow> False)"

end
