(* ===== verification/Kat_System.thy ===== *)
theory Kat_System
  imports Main
begin

text \<open>
  The interface every stateful component offers its proofs: operations on a state and an invariant
  that each of them keeps.  The component's theory interprets the locale on its own step function;
  what holds along a run of operations is proved here once.
\<close>

locale step_system =
  fixes step :: "'s \<Rightarrow> 'op \<Rightarrow> 's"
    and inv :: "'s \<Rightarrow> bool"
  assumes step_inv: "inv s \<Longrightarrow> inv (step s op)"
begin

lemma run_inv: "inv s \<Longrightarrow> inv (foldl step s ops)"
  by (induction ops arbitrary: s) (auto simp: step_inv)

text \<open>A quantity that no step decreases does not decrease along a run.\<close>

lemma run_mono:
  fixes m :: "'s \<Rightarrow> nat"
  assumes "\<And>s op. inv s \<Longrightarrow> m s \<le> m (step s op)" "inv s"
  shows "m s \<le> m (foldl step s ops)"
  using assms(2)
proof (induction ops arbitrary: s)
  case (Cons op ops)
  have "m s \<le> m (step s op)" by (rule assms(1) [OF Cons.prems])
  also have "\<dots> \<le> m (foldl step (step s op) ops)" by (rule Cons.IH [OF step_inv [OF Cons.prems]])
  finally show ?case by simp
qed simp

text \<open>A fact about a state that every step keeps is kept by runs from states with the invariant.\<close>

lemma run_keeps:
  assumes "\<And>s op. inv s \<Longrightarrow> P s \<Longrightarrow> P (step s op)" "inv s" "P s"
  shows "P (foldl step s ops)"
  using assms(2,3)
proof (induction ops arbitrary: s)
  case (Cons op ops)
  then show ?case using assms(1) step_inv by simp
qed simp

end

text \<open>A step system whose states are bounded by a measure the invariant implies.\<close>

locale bounded_system = step_system step inv
  for step :: "'s \<Rightarrow> 'op \<Rightarrow> 's" and inv :: "'s \<Rightarrow> bool" +
  fixes measure_of :: "'s \<Rightarrow> nat" and limit :: nat
  assumes inv_bound: "inv s \<Longrightarrow> measure_of s \<le> limit"
begin

lemma run_bound: "inv s \<Longrightarrow> measure_of (foldl step s ops) \<le> limit"
  by (rule inv_bound [OF run_inv])

end

text \<open>
  Where several threads act on one state, a component is a labelled step relation instead; the states
  of its runs are the reachable ones, and an invariant is proved by rule induction over them.
\<close>

inductive reachable :: "('s \<Rightarrow> bool) \<Rightarrow> ('s \<Rightarrow> 'a \<Rightarrow> 's \<Rightarrow> bool) \<Rightarrow> 's \<Rightarrow> bool"
  for start :: "'s \<Rightarrow> bool" and trans :: "'s \<Rightarrow> 'a \<Rightarrow> 's \<Rightarrow> bool" where
  reachable_start: "start s \<Longrightarrow> reachable start trans s"
| reachable_step: "reachable start trans s \<Longrightarrow> trans s a s' \<Longrightarrow> reachable start trans s'"

locale transition_system =
  fixes start :: "'s \<Rightarrow> bool"
    and trans :: "'s \<Rightarrow> 'a \<Rightarrow> 's \<Rightarrow> bool"
    and inv :: "'s \<Rightarrow> bool"
  assumes start_inv: "start s \<Longrightarrow> inv s"
    and trans_inv: "inv s \<Longrightarrow> trans s a s' \<Longrightarrow> inv s'"
begin

lemma reachable_inv: "reachable start trans s \<Longrightarrow> inv s"
  by (induction rule: reachable.induct) (auto intro: start_inv trans_inv)

end

end
