(* ===== verification/Request.thy ===== *)
theory Request
  imports Header_List Kat_Decimal Kat_Api Kat_System
begin

text \<open>
  \<^verbatim>\<open>src/core/request.{h,cc}\<close>: the request object the C ABI builds, the checks each setter applies,
  and the framing check that runs when the request is executed.  A \<^verbatim>\<open>const char*\<close> argument is a
  \<^typ>\<open>string option\<close> (\<open>None\<close> is the null pointer); allocation does not fail in the model.
\<close>

record request =
  rq_method :: string
  rq_url :: string
  rq_headers :: header_list
  rq_body :: bytes
  rq_body_present :: bool
  rq_streaming_body :: bool
  rq_streaming_body_length :: int
  rq_follow_redirects :: bool
  rq_streaming :: bool
  rq_addresses :: "(string \<times> nat) list"

definition new_request :: "string \<Rightarrow> string \<Rightarrow> request" where
  "new_request m u = \<lparr>rq_method = m, rq_url = u, rq_headers = [], rq_body = [],
     rq_body_present = False, rq_streaming_body = False, rq_streaming_body_length = -1,
     rq_follow_redirects = True, rq_streaming = False, rq_addresses = []\<rparr>"

subsection \<open>Field syntax\<close>

definition token_char :: "char \<Rightarrow> bool" where
  "token_char c \<longleftrightarrow>
     is_digit c \<or> is_upper c \<or> is_lower c \<or> c = CHR 0x27 \<or> c = CHR 0x60 \<or>
     c \<in> set ''!#$%&*+-.^_|~''"

definition valid_token :: "string \<Rightarrow> bool" where
  "valid_token v \<longleftrightarrow> c_str v \<noteq> [] \<and> (\<forall>c\<in>set (c_str v). token_char c)"

definition field_value_char :: "char \<Rightarrow> bool" where
  "field_value_char c \<longleftrightarrow>
     \<not> (c \<noteq> CHR 0x09 \<and> ((of_char c :: nat) < 32 \<or> (of_char c :: nat) = 127))"

definition valid_header :: "string \<Rightarrow> string \<Rightarrow> bool" where
  "valid_header name v \<longleftrightarrow> valid_token name \<and> (\<forall>c\<in>set (c_str v). field_value_char c)"

definition lower_header_name :: "string \<Rightarrow> string" where
  "lower_header_name name = map lower_char (c_str name)"

definition forbidden_http3_header :: "string \<Rightarrow> bool" where
  "forbidden_http3_header name \<longleftrightarrow>
     name = ''connection'' \<or> name = ''proxy-connection'' \<or> name = ''transfer-encoding'' \<or>
     name = ''keep-alive'' \<or> name = ''upgrade'' \<or> name = ''host''"

definition valid_te_value :: "string \<Rightarrow> bool" where
  "valid_te_value v =
     (case find_if (\<lambda>c. \<not> is_ows c) v of
        None \<Rightarrow> False
      | Some b \<Rightarrow>
          (case rfind_if (\<lambda>c. \<not> is_ows c) v of
             None \<Rightarrow> False
           | Some e \<Rightarrow>
               let t = substr v b (e - b + 1) in
               length t = length ''trailers'' \<and>
               list_all (\<lambda>(x, y). lower_char x = y) (zip t ''trailers'')))"

subsection \<open>The setters\<close>

definition request_create :: "string option \<Rightarrow> string option \<Rightarrow> request option" where
  "request_create m u =
     (case (m, u) of
        (Some meth, Some ur) \<Rightarrow>
          if \<not> valid_token meth then None else Some (new_request (c_str meth) (c_str ur))
      | _ \<Rightarrow> None)"

definition add_header :: "request \<Rightarrow> string option \<Rightarrow> string option \<Rightarrow> kat_error \<times> request" where
  "add_header r n v =
     (case (n, v) of
        (Some name, Some val) \<Rightarrow>
          if \<not> valid_header name val then (ERR_INVALID_ARG, r)
          else
            let nn = lower_header_name name in
            if forbidden_http3_header nn then (ERR_INVALID_ARG, r)
            else if nn = ''te'' \<and> \<not> valid_te_value (c_str val) then (ERR_INVALID_ARG, r)
            else (KAT_OK, r\<lparr>rq_headers := hl_add (rq_headers r) nn (c_str val)\<rparr>)
      | _ \<Rightarrow> (ERR_INVALID_ARG, r))"

text \<open>\<^verbatim>\<open>data\<close> and \<^verbatim>\<open>len\<close>: \<open>None\<close> is a null pointer, whose length is the separate argument.\<close>

definition set_body :: "request \<Rightarrow> bytes option \<Rightarrow> nat \<Rightarrow> kat_error \<times> request" where
  "set_body r data len =
     (if data = None \<and> len \<noteq> 0 then (ERR_INVALID_ARG, r)
      else (KAT_OK, r\<lparr>rq_body := (if len \<noteq> 0 then take len (the data) else []),
                      rq_body_present := True, rq_streaming_body := False,
                      rq_streaming_body_length := -1\<rparr>))"

definition set_streaming_body :: "request \<Rightarrow> int \<Rightarrow> kat_error \<times> request" where
  "set_streaming_body r content_length =
     (if content_length < -1 then (ERR_INVALID_ARG, r)
      else (KAT_OK, r\<lparr>rq_body := [], rq_body_present := True, rq_streaming_body := True,
                      rq_streaming_body_length := content_length\<rparr>))"

definition set_follow_redirects :: "request \<Rightarrow> int \<Rightarrow> request" where
  "set_follow_redirects r enable = r\<lparr>rq_follow_redirects := (enable \<noteq> 0)\<rparr>"

definition set_streaming :: "request \<Rightarrow> int \<Rightarrow> request" where
  "set_streaming r enable = r\<lparr>rq_streaming := (enable \<noteq> 0)\<rparr>"

definition add_address :: "request \<Rightarrow> string option \<Rightarrow> nat \<Rightarrow> kat_error \<times> request" where
  "add_address r ip p =
     (case ip of None \<Rightarrow> (ERR_INVALID_ARG, r)
      | Some i \<Rightarrow> (KAT_OK, r\<lparr>rq_addresses := rq_addresses r @ [(c_str i, p)]\<rparr>))"

subsection \<open>Body framing\<close>

text \<open>The loop over the fields: \<open>Inl ()\<close> is the early \<^verbatim>\<open>return false\<close>, \<open>Inr\<close> the agreed length.\<close>

fun scan_content_length :: "header_list \<Rightarrow> nat option \<Rightarrow> unit + nat option" where
  "scan_content_length [] seen = Inr seen"
| "scan_content_length (h # hs) seen =
     (if h_name h \<noteq> ''content-length'' then scan_content_length hs seen
      else case parse_all u64_max (h_value h) of
        None \<Rightarrow> Inl ()
      | Some v \<Rightarrow>
          if int v > i64_max \<or> (case seen of None \<Rightarrow> False | Some w \<Rightarrow> v \<noteq> w) then Inl ()
          else scan_content_length hs (Some v))"

definition validate_request_body_framing :: "request \<Rightarrow> bool \<times> request" where
  "validate_request_body_framing r =
     (case scan_content_length (rq_headers r) None of
        Inl _ \<Rightarrow> (False, r)
      | Inr seen \<Rightarrow>
          if rq_streaming_body r then
            (case seen of
               None \<Rightarrow> (True, r)
             | Some n \<Rightarrow>
                 if rq_streaming_body_length r \<ge> 0 \<and> rq_streaming_body_length r \<noteq> int n
                 then (False, r)
                 else (True, r\<lparr>rq_streaming_body_length := int n\<rparr>))
          else (case seen of None \<Rightarrow> (True, r) | Some n \<Rightarrow> (length (rq_body r) = n, r)))"

subsection \<open>Invariant of a request built through the setters\<close>

text \<open>
  What the builder guarantees to the HTTP/3 layer: every field name is a lower-case token that is
  not connection-specific, a \<^verbatim>\<open>te\<close> field is \<^verbatim>\<open>trailers\<close>, values hold no control character, and a
  streaming body keeps no buffered bytes and a declared length of at least \<open>-1\<close>.
\<close>

definition header_ok :: "header \<Rightarrow> bool" where
  "header_ok h \<longleftrightarrow>
     h_name h \<noteq> [] \<and> (\<forall>c\<in>set (h_name h). token_char c \<and> \<not> is_upper c) \<and>
     \<not> forbidden_http3_header (h_name h) \<and> (h_name h = ''te'' \<longrightarrow> valid_te_value (h_value h)) \<and>
     (\<forall>c\<in>set (h_value h). field_value_char c \<and> c \<noteq> CHR 0x00)"

definition request_ok :: "request \<Rightarrow> bool" where
  "request_ok r \<longleftrightarrow>
     rq_method r \<noteq> [] \<and> (\<forall>c\<in>set (rq_method r). token_char c) \<and>
     (\<forall>h\<in>set (rq_headers r). header_ok h) \<and>
     (rq_streaming_body r \<longrightarrow> rq_body r = [] \<and> rq_body_present r \<and> rq_streaming_body_length r \<ge> -1) \<and>
     (\<not> rq_streaming_body r \<longrightarrow> rq_streaming_body_length r = -1) \<and>
     (rq_body r \<noteq> [] \<longrightarrow> rq_body_present r)"

text \<open>The calls a client can make on a request, as one datatype, and their effect.\<close>

datatype builder_call =
    Call_add_header "string option" "string option"
  | Call_set_body "bytes option" nat
  | Call_set_streaming_body int
  | Call_set_follow_redirects int
  | Call_set_streaming int
  | Call_add_address "string option" nat

fun builder_step :: "request \<Rightarrow> builder_call \<Rightarrow> request" where
  "builder_step r (Call_add_header n v) = snd (add_header r n v)"
| "builder_step r (Call_set_body d l) = snd (set_body r d l)"
| "builder_step r (Call_set_streaming_body l) = snd (set_streaming_body r l)"
| "builder_step r (Call_set_follow_redirects e) = set_follow_redirects r e"
| "builder_step r (Call_set_streaming e) = set_streaming r e"
| "builder_step r (Call_add_address i p) = snd (add_address r i p)"

lemma lower_char_not_upper: "\<not> is_upper (lower_char c)"
proof (cases "is_upper c")
  case True
  then have "(of_char c :: nat) \<le> 90" "65 \<le> (of_char c :: nat)"
    by (auto simp: is_upper_def less_eq_char_def)
  then show ?thesis using True by (simp add: lower_char_def is_upper_def less_eq_char_def)
next
  case False
  then show ?thesis by (simp add: lower_char_def)
qed

lemma lower_char_lower: "is_upper c \<Longrightarrow> is_lower (lower_char c)"
proof -
  assume u: "is_upper c"
  then have "(of_char c :: nat) \<le> 90" "65 \<le> (of_char c :: nat)"
    by (auto simp: is_upper_def less_eq_char_def)
  then show ?thesis using u by (simp add: lower_char_def is_lower_def less_eq_char_def)
qed

lemma token_char_lower: "token_char c \<Longrightarrow> token_char (lower_char c)"
  using lower_char_lower [of c] by (cases "is_upper c") (auto simp: token_char_def lower_char_def)

lemma not_NUL_c_str: "c \<in> set (c_str s) \<Longrightarrow> c \<noteq> CHR 0x00"
  by (auto simp: c_str_def dest: set_takeWhileD)

lemma c_str_idem [simp]: "c_str (c_str s) = c_str s"
  by (intro c_str_id) (auto dest: not_NUL_c_str)

lemma add_header_ok: "request_ok r \<Longrightarrow> request_ok (snd (add_header r n v))"
  by (auto simp: add_header_def request_ok_def Let_def hl_add_def header_ok_def valid_header_def
      valid_token_def lower_header_name_def token_char_lower lower_char_not_upper
      dest: not_NUL_c_str split: option.splits)

lemma request_create_ok: "request_create m u = Some r \<Longrightarrow> request_ok r"
  by (auto simp: request_create_def new_request_def request_ok_def valid_token_def
      split: option.splits)

lemma builder_step_ok: "request_ok r \<Longrightarrow> request_ok (builder_step r c)"
  by (cases c)
     (auto simp: add_header_ok, auto simp: request_ok_def set_body_def set_streaming_body_def
       set_follow_redirects_def set_streaming_def add_address_def split: option.splits)

interpretation builder: step_system builder_step request_ok
  by unfold_locales (rule builder_step_ok)

text \<open>A request created and filled through any sequence of builder calls, accepted or
  rejected, always carries only lower-case, non-connection-specific header names made of token
  characters, values free of control characters and NUL, a \<^verbatim>\<open>te\<close> field that is \<^verbatim>\<open>trailers\<close>, and
  consistent body modes.\<close>

lemma request_builder_invariant:
  assumes "request_create m u = Some r"
  shows "request_ok (foldl builder_step r calls)"
  by (rule builder.run_inv [OF request_create_ok [OF assms]])

lemma request_builder_invariant_witness:
  "request_ok (foldl builder_step (new_request ''POST'' ''https://a/'')
     [Call_add_header (Some ''Host'') (Some ''evil''), Call_add_header (Some ''TE'') (Some '' Trailers''),
      Call_set_streaming_body 7])"
proof -
  have "request_create (Some ''POST'') (Some ''https://a/'') = Some (new_request ''POST'' ''https://a/'')"
    by code_simp
  then show ?thesis by (rule request_builder_invariant)
qed

subsection \<open>Correctness of the framing check\<close>

definition cl_fields :: "request \<Rightarrow> header list" where
  "cl_fields r = filter (\<lambda>h. h_name h = ''content-length'') (rq_headers r)"

text \<open>The specification: all \<^verbatim>\<open>content-length\<close> fields are the same decimal number below \<open>2^63\<close>, and
  it is the size of the body that will be sent.\<close>

definition framing_spec :: "request \<Rightarrow> bool" where
  "framing_spec r \<longleftrightarrow>
     cl_fields r = [] \<or>
     (\<exists>n. (\<forall>h\<in>set (cl_fields r). parse_all u64_max (h_value h) = Some n) \<and> int n \<le> i64_max \<and>
          (if rq_streaming_body r
           then rq_streaming_body_length r < 0 \<or> rq_streaming_body_length r = int n
           else length (rq_body r) = n))"

lemma scan_content_length_Some:
  assumes "int w \<le> i64_max"
  shows "scan_content_length hs (Some w) =
    (if \<forall>h\<in>set (filter (\<lambda>h. h_name h = ''content-length'') hs). parse_all u64_max (h_value h) = Some w
     then Inr (Some w) else Inl ())"
  using assms by (induction hs) (auto split: option.splits)

lemma scan_content_length_None:
  "scan_content_length hs None =
    (case filter (\<lambda>h. h_name h = ''content-length'') hs of
       [] \<Rightarrow> Inr None
     | h # rest \<Rightarrow>
         (case parse_all u64_max (h_value h) of
            None \<Rightarrow> Inl ()
          | Some v \<Rightarrow>
              if int v \<le> i64_max \<and> (\<forall>k\<in>set rest. parse_all u64_max (h_value k) = Some v)
              then Inr (Some v) else Inl ()))"
  by (induction hs) (auto simp: scan_content_length_Some split: option.splits)

text \<open>Property C39: the framing check accepts a request exactly when its \<^verbatim>\<open>content-length\<close> fields agree
  with each other and with the body mode; when it accepts, an unknown streaming length has become the
  declared one and nothing else changed, so the length later enforced is the length announced.\<close>

theorem framing_check_correct:
  "fst (validate_request_body_framing r) = framing_spec r \<and>
   (\<exists>l. snd (validate_request_body_framing r) = r\<lparr>rq_streaming_body_length := l\<rparr> \<and>
        (framing_spec r \<and> rq_streaming_body r \<and> cl_fields r \<noteq> [] \<longrightarrow>
           (\<forall>h\<in>set (cl_fields r). parse_all u64_max (h_value h) = Some (nat l)) \<and> 0 \<le> l) \<and>
        (\<not> rq_streaming_body r \<or> cl_fields r = [] \<longrightarrow> l = rq_streaming_body_length r))"
proof (cases "cl_fields r")
  case Nil
  then have "scan_content_length (rq_headers r) None = Inr None"
    by (simp add: scan_content_length_None cl_fields_def)
  then show ?thesis
    using Nil by (auto simp: validate_request_body_framing_def framing_spec_def
        intro!: exI [of _ "rq_streaming_body_length r"])
next
  case (Cons h rest)
  then have scan: "scan_content_length (rq_headers r) None =
      (case parse_all u64_max (h_value h) of None \<Rightarrow> Inl ()
       | Some v \<Rightarrow> if int v \<le> i64_max \<and> (\<forall>k\<in>set rest. parse_all u64_max (h_value k) = Some v)
                   then Inr (Some v) else Inl ())"
    by (simp add: scan_content_length_None cl_fields_def)
  show ?thesis
  proof (cases "\<exists>v. parse_all u64_max (h_value h) = Some v \<and> int v \<le> i64_max \<and>
                    (\<forall>k\<in>set rest. parse_all u64_max (h_value k) = Some v)")
    case False
    then have "scan_content_length (rq_headers r) None = Inl ()" "\<not> framing_spec r"
      using scan Cons by (auto simp: framing_spec_def split: option.splits)
    then show ?thesis
      by (auto simp: validate_request_body_framing_def
          intro!: exI [of _ "rq_streaming_body_length r"])
  next
    case True
    then obtain v where v: "parse_all u64_max (h_value h) = Some v" "int v \<le> i64_max"
      "\<forall>k\<in>set rest. parse_all u64_max (h_value k) = Some v" by blast
    then have s: "scan_content_length (rq_headers r) None = Inr (Some v)" using scan by simp
    have spec: "framing_spec r \<longleftrightarrow> (if rq_streaming_body r
        then rq_streaming_body_length r < 0 \<or> rq_streaming_body_length r = int v
        else length (rq_body r) = v)"
      using v Cons by (auto simp: framing_spec_def)
    show ?thesis
      by (rule conjI, simp add: validate_request_body_framing_def s spec, force,
          rule exI [of _ "if rq_streaming_body r \<and> framing_spec r then int v
                          else rq_streaming_body_length r"])
         (use v Cons in \<open>auto simp: validate_request_body_framing_def s spec\<close>)
  qed
qed

definition framing_example :: request where
  "framing_example = (new_request ''PUT'' ''https://a/'')
     \<lparr>rq_headers := [mk_header ''content-length'' ''05''], rq_streaming_body := True\<rparr>"

theorem framing_check_correct_witness:
  "\<exists>l. snd (validate_request_body_framing framing_example) =
         framing_example\<lparr>rq_streaming_body_length := l\<rparr> \<and> 0 \<le> l"
proof -
  have p: "parse_all u64_max ''05'' = Some 5" by code_simp
  have cl: "cl_fields framing_example = [mk_header ''content-length'' ''05'']" by code_simp
  have st: "rq_streaming_body framing_example" by code_simp
  have len: "rq_streaming_body_length framing_example < 0" by code_simp
  have "framing_spec framing_example" unfolding framing_spec_def cl
    using p st len by (simp add: i64_max_def)
  then obtain l where "snd (validate_request_body_framing framing_example) =
         framing_example\<lparr>rq_streaming_body_length := l\<rparr>" "0 \<le> l"
    using framing_check_correct [of framing_example] cl st by (metis list.distinct(1))
  then show ?thesis by blast
qed

end
