(* ===== verification/Url.thy ===== *)
theory Url
  imports Header_List Kat_Decimal
begin

text \<open>
  \<^verbatim>\<open>src/core/url.{h,cc}\<close>: the parser of absolute \<^verbatim>\<open>https\<close> URLs and the printer of a parsed URL.
  \<^verbatim>\<open>inet_pton(AF_INET6, \<dots>)\<close> is the parameter \<open>pton6\<close>; the only thing the round trip needs of it is
  that a textual IPv6 address contains a colon.
\<close>

subsection \<open>Data\<close>

record url =
  u_scheme :: string
  u_host :: string
  u_port :: nat
  u_path :: string
  u_query :: string
  u_query_present :: bool

definition empty_url :: url where
  "empty_url = \<lparr>u_scheme = [], u_host = [], u_port = 0, u_path = [], u_query = [],
                u_query_present = False\<rparr>"

definition url_valid :: "url \<Rightarrow> bool" where
  "url_valid u \<longleftrightarrow> u_scheme u \<noteq> [] \<and> u_host u \<noteq> []"

subsection \<open>Character classes\<close>

definition hex_digit :: "char \<Rightarrow> bool" where
  "hex_digit c \<longleftrightarrow>
     is_digit c \<or> (CHR ''A'' \<le> c \<and> c \<le> CHR ''F'') \<or> (CHR ''a'' \<le> c \<and> c \<le> CHR ''f'')"

definition unreserved :: "char \<Rightarrow> bool" where
  "unreserved c \<longleftrightarrow> is_alpha c \<or> is_digit c \<or> c \<in> set ''-._~''"

definition sub_delimiter :: "char \<Rightarrow> bool" where
  "sub_delimiter c \<longleftrightarrow> c = CHR 0x27 \<or> c \<in> set ''!$&()*+,;=''"

fun valid_uri_component :: "string \<Rightarrow> string \<Rightarrow> bool" where
  "valid_uri_component [] extra = True"
| "valid_uri_component (c # cs) extra =
     (if c = CHR ''%'' then
        (case cs of
           h1 # h2 # rest \<Rightarrow> hex_digit h1 \<and> hex_digit h2 \<and> valid_uri_component rest extra
         | _ \<Rightarrow> False)
      else (unreserved c \<or> sub_delimiter c \<or> c \<in> set extra) \<and> valid_uri_component cs extra)"

definition https_scheme :: "string \<Rightarrow> bool" where
  "https_scheme s \<longleftrightarrow>
     length s = length ''https'' \<and> list_all (\<lambda>(x, y). lower_char x = y) (zip s ''https'')"

subsection \<open>Printing\<close>

definition default_port :: "string \<Rightarrow> nat" where
  "default_port scheme =
     (if scheme = ''https'' then 443 else if scheme = ''http'' then 80 else 443)"

definition authority :: "url \<Rightarrow> string" where
  "authority u =
     (let a = (if find_char (CHR '':'') (u_host u) = None then u_host u
               else ''['' @ u_host u @ '']'');
          p = (if u_port u \<noteq> 0 then u_port u else default_port (u_scheme u))
      in if p \<noteq> default_port (u_scheme u) then a @ '':'' @ to_string p else a)"

definition request_target :: "url \<Rightarrow> string" where
  "request_target u =
     (let target = (if u_path u = [] then ''/'' else u_path u)
      in if u_query_present u then target @ ''?'' @ u_query u else target)"

definition url_to_string :: "url \<Rightarrow> string" where
  "url_to_string u = u_scheme u @ ''://'' @ authority u @ request_target u"

subsection \<open>Parsing\<close>

definition parse_port :: "string \<Rightarrow> nat option" where
  "parse_port ps =
     (case from_chars u32_max ps of (ec, v, n) \<Rightarrow>
        if ps = [] \<or> ec \<noteq> Errc_ok \<or> n \<noteq> length ps \<or> v = 0 \<or> v > 65535 then None else Some v)"

definition bracketed_ipv6 :: "string \<Rightarrow> bool" where
  "bracketed_ipv6 auth \<longleftrightarrow> length auth \<ge> 2 \<and> hd auth = CHR ''[''"

text \<open>The authority: (host, port), \<open>None\<close> where the code returns false.\<close>

definition parse_authority :: "(string \<Rightarrow> bool) \<Rightarrow> string \<Rightarrow> (string \<times> nat) option" where
  "parse_authority pton6 auth =
     (if bracketed_ipv6 auth then
        (case find_char (CHR '']'') auth of
           None \<Rightarrow> None
         | Some close \<Rightarrow>
             let h = substr auth 1 (close - 1); p = close + 1 in
             if \<not> pton6 (c_str h) then None
             else if p < length auth then
               (if auth ! p \<noteq> CHR '':'' then None
                else map_option (\<lambda>v. (h, v)) (parse_port (drop (p + 1) auth)))
             else Some (h, 0))
      else
        (case rfind_char (CHR '':'') auth of
           None \<Rightarrow> Some (auth, 0)
         | Some pcolon \<Rightarrow>
             let h = take pcolon auth in
             if find_char (CHR '':'') h \<noteq> None then None
             else map_option (\<lambda>v. (h, v)) (parse_port (drop (pcolon + 1) auth))))"

text \<open>Path, query and fragment: (path, query, query present).\<close>

definition parse_rest :: "string \<Rightarrow> (string \<times> string \<times> bool) option" where
  "parse_rest rest0 =
     (let fragment = find_char (CHR ''#'') rest0 in
      if (case fragment of None \<Rightarrow> False
          | Some f \<Rightarrow> \<not> valid_uri_component (drop (f + 1) rest0) '':@/?'') then None
      else
        let rest = prefix_upto rest0 fragment in
        case find_char (CHR ''?'') rest of
          None \<Rightarrow> if \<not> valid_uri_component rest '':@/'' then None else Some (rest, [], False)
        | Some q \<Rightarrow>
            if \<not> valid_uri_component (take q rest) '':@/''
               \<or> \<not> valid_uri_component (drop (q + 1) rest) '':@/?'' then None
            else Some (take q rest, drop (q + 1) rest, True))"

definition is_auth_end :: "char \<Rightarrow> bool" where
  "is_auth_end c \<longleftrightarrow> c \<in> set ''/?#''"

definition parse_url :: "(string \<Rightarrow> bool) \<Rightarrow> string \<Rightarrow> url option" where
  "parse_url pton6 raw =
     (if raw = [] then None
      else case find_char (CHR '':'') raw of
        None \<Rightarrow> None
      | Some colon \<Rightarrow>
          if \<not> https_scheme (take colon raw) then None
          else if substr raw (colon + 1) 2 \<noteq> ''//'' then None
          else
            let tail = drop (colon + 3) raw;
                auth_end = find_if is_auth_end tail;
                auth = prefix_upto tail auth_end
            in if auth = [] then None
               else if find_char (CHR ''@'') auth \<noteq> None then None
               else case parse_authority pton6 auth of
                 None \<Rightarrow> None
               | Some (h, p) \<Rightarrow>
                   if h = [] then None
                   else if \<not> bracketed_ipv6 auth \<and> \<not> valid_uri_component h [] then None
                   else case parse_rest (case auth_end of None \<Rightarrow> [] | Some n \<Rightarrow> drop n tail) of
                     None \<Rightarrow> None
                   | Some (pa, q, qp) \<Rightarrow>
                       let u = \<lparr>u_scheme = ''https'', u_host = h, u_port = p, u_path = pa,
                                u_query = q, u_query_present = qp\<rparr>
                       in if url_valid u then Some u else None)"

subsection \<open>Facts about the character classes\<close>

lemma hex_digit_unreserved: "hex_digit c \<Longrightarrow> unreserved c"
  by (auto simp: hex_digit_def unreserved_def is_alpha_def is_upper_def is_lower_def less_eq_char_def)

lemma valid_uri_component_chars:
  "valid_uri_component v extra \<Longrightarrow> c \<in> set v \<Longrightarrow>
     c = CHR ''%'' \<or> unreserved c \<or> sub_delimiter c \<or> c \<in> set extra"
  by (induction v extra rule: valid_uri_component.induct)
     (auto split: if_splits list.splits dest: hex_digit_unreserved)

lemma reserved_chars:
  "\<not> unreserved (CHR '':'')" "\<not> unreserved (CHR ''/'')" "\<not> unreserved (CHR ''?'')"
  "\<not> unreserved (CHR ''#'')" "\<not> unreserved (CHR ''@'')" "\<not> unreserved (CHR ''['')"
  "\<not> unreserved (CHR '']'')" "\<not> sub_delimiter (CHR '':'')" "\<not> sub_delimiter (CHR ''/'')"
  "\<not> sub_delimiter (CHR ''?'')" "\<not> sub_delimiter (CHR ''#'')" "\<not> sub_delimiter (CHR ''@'')"
  "\<not> sub_delimiter (CHR ''['')" "\<not> sub_delimiter (CHR '']'')"
  by (simp_all add: unreserved_def sub_delimiter_def is_alpha_def is_upper_def is_lower_def is_digit_def)

lemma valid_component_no_delim:
  assumes "valid_uri_component v extra"
  shows "CHR ''#'' \<notin> set extra \<Longrightarrow> CHR ''#'' \<notin> set v"
    and "CHR ''?'' \<notin> set extra \<Longrightarrow> CHR ''?'' \<notin> set v"
    and "CHR ''/'' \<notin> set extra \<Longrightarrow> CHR ''/'' \<notin> set v"
    and "CHR ''@'' \<notin> set extra \<Longrightarrow> CHR ''@'' \<notin> set v"
    and "CHR '':'' \<notin> set extra \<Longrightarrow> CHR '':'' \<notin> set v"
    and "CHR ''['' \<notin> set extra \<Longrightarrow> CHR ''['' \<notin> set v"
  using valid_uri_component_chars [OF assms] reserved_chars by fastforce+

subsection \<open>Well-formed parsed URLs\<close>

text \<open>What a parsed URL satisfies: the scheme, a host that is either an IPv6 literal accepted by the
  library or a valid registered name, a port in range, and a path and query that hold no delimiter.\<close>

definition host_wf :: "(string \<Rightarrow> bool) \<Rightarrow> string \<Rightarrow> bool" where
  "host_wf pton6 h \<longleftrightarrow> h \<noteq> [] \<and> set h \<inter> set ''/?#@'' = {} \<and>
     (if CHR '':'' \<in> set h then CHR '']'' \<notin> set h \<and> pton6 (c_str h)
      else valid_uri_component h [])"

definition path_wf :: "string \<Rightarrow> bool" where
  "path_wf p \<longleftrightarrow> valid_uri_component p '':@/'' \<and> (p = [] \<or> hd p = CHR ''/'')"

definition url_wf :: "(string \<Rightarrow> bool) \<Rightarrow> url \<Rightarrow> bool" where
  "url_wf pton6 u \<longleftrightarrow>
     u_scheme u = ''https'' \<and> host_wf pton6 (u_host u) \<and> u_port u \<le> 65535 \<and>
     path_wf (u_path u) \<and> valid_uri_component (u_query u) '':@/?'' \<and>
     (\<not> u_query_present u \<longrightarrow> u_query u = [])"

definition normal_url :: "url \<Rightarrow> url" where
  "normal_url u = u\<lparr>u_port := (if u_port u = 443 then 0 else u_port u),
                    u_path := (if u_path u = [] then ''/'' else u_path u)\<rparr>"

lemma parse_port_Some: "parse_port ps = Some v \<Longrightarrow> 0 < v \<and> v \<le> 65535"
  by (auto simp: parse_port_def split: prod.splits if_splits)

lemma parse_port_eq: "parse_port ps = (case parse_all u32_max ps of None \<Rightarrow> None
     | Some v \<Rightarrow> if v = 0 \<or> v > 65535 then None else Some v)"
  by (auto simp: parse_port_def parse_all_def split: prod.splits)

lemma parse_port_to_string: "0 < p \<Longrightarrow> p \<le> 65535 \<Longrightarrow> parse_port (to_string p) = Some p"
  by (simp add: parse_port_eq u32_max_def)

lemma parse_authority_host:
  assumes "parse_authority pton6 auth = Some (h, p)" and "set auth \<inter> set ''/?#@'' = {}"
    and "h \<noteq> []" and "bracketed_ipv6 auth \<or> valid_uri_component h []"
    and colon: "\<And>x. pton6 x \<Longrightarrow> CHR '':'' \<in> set x"
  shows "host_wf pton6 h" "p \<le> 65535"
proof -
  have sub: "set h \<subseteq> set auth"
    using assms(1)
    by (auto simp: parse_authority_def Let_def substr_def split: if_splits option.splits
        dest!: in_set_takeD in_set_dropD)
  show "p \<le> 65535"
    using assms(1)
    by (auto simp: parse_authority_def Let_def split: if_splits option.splits dest: parse_port_Some)
  show "host_wf pton6 h"
  proof (cases "bracketed_ipv6 auth")
    case True
    then obtain close where close: "find_char (CHR '']'') auth = Some close"
      and h: "h = substr auth 1 (close - 1)" and pt: "pton6 (c_str h)"
      using assms(1) by (auto simp: parse_authority_def Let_def split: if_splits option.splits)
    have "h = drop 1 (take close auth)" by (simp add: h substr_def drop_take)
    then have "set h \<subseteq> set (take close auth)" by (simp add: set_drop_subset)
    then have "CHR '']'' \<notin> set h" using find_char_split(2) [OF close] by auto
    moreover have "CHR '':'' \<in> set h" using colon [OF pt] set_c_str by blast
    ultimately show ?thesis using sub assms(2,3) pt by (auto simp: host_wf_def)
  next
    case False
    then have v: "valid_uri_component h []" using assms(4) by simp
    then have "CHR '':'' \<notin> set h" using valid_component_no_delim(5) by simp
    with v sub assms(2,3) show ?thesis by (auto simp: host_wf_def)
  qed
qed

lemma parse_rest_wf:
  assumes "parse_rest rest0 = Some (pa, q, qp)" and "rest0 = [] \<or> is_auth_end (hd rest0)"
  shows "path_wf pa" "valid_uri_component q '':@/?''" "\<not> qp \<longrightarrow> q = []"
proof -
  define rest where "rest = prefix_upto rest0 (find_char (CHR ''#'') rest0)"
  have hd: "rest = [] \<or> hd rest = CHR ''/'' \<or> hd rest = CHR ''?''"
  proof (cases rest0)
    case Nil
    then show ?thesis by (simp add: rest_def prefix_upto_def)
  next
    case (Cons c cs)
    with assms(2) show ?thesis
      by (auto simp: rest_def prefix_upto_def is_auth_end_def find_char_Cons split: option.splits)
  qed
  have body: "(case find_char (CHR ''?'') rest of
      None \<Rightarrow> if \<not> valid_uri_component rest '':@/'' then None else Some (rest, [], False)
    | Some k \<Rightarrow> if \<not> valid_uri_component (take k rest) '':@/''
               \<or> \<not> valid_uri_component (drop (k + 1) rest) '':@/?'' then None
            else Some (take k rest, drop (k + 1) rest, True)) = Some (pa, q, qp)"
    using assms(1) by (simp only: parse_rest_def Let_def if_None_Some_iff flip: rest_def)
  have "path_wf pa \<and> valid_uri_component q '':@/?'' \<and> (\<not> qp \<longrightarrow> q = [])"
  proof (cases "find_char (CHR ''?'') rest")
    case None
    then have "hd rest = CHR ''/'' \<or> rest = []"
      using hd by (metis find_char_None list.set_sel(1))
    with None body show ?thesis by (auto simp: path_wf_def split: if_splits)
  next
    case (Some k)
    have "take k rest = [] \<or> hd (take k rest) = CHR ''/''"
      using find_char_split(2) [OF Some] hd by (cases k; cases rest) auto
    with Some body show ?thesis by (auto simp: path_wf_def split: if_splits)
  qed
  then show "path_wf pa" "valid_uri_component q '':@/?''" "\<not> qp \<longrightarrow> q = []" by auto
qed

lemma parse_url_SomeE:
  assumes "parse_url pton6 raw = Some u"
  obtains colon tail auth_end auth where
    "find_char (CHR '':'') raw = Some colon" "tail = drop (colon + 3) raw"
    "auth_end = find_if is_auth_end tail" "auth = prefix_upto tail auth_end"
    "find_char (CHR ''@'') auth = None"
    "parse_authority pton6 auth = Some (u_host u, u_port u)"
    "u_host u \<noteq> []" "bracketed_ipv6 auth \<or> valid_uri_component (u_host u) []"
    "parse_rest (case auth_end of None \<Rightarrow> [] | Some n \<Rightarrow> drop n tail) =
       Some (u_path u, u_query u, u_query_present u)"
    "u_scheme u = ''https''"
  using assms
  by (auto simp: parse_url_def Let_def split: if_splits option.splits)

lemma parse_url_wf:
  assumes "parse_url pton6 raw = Some u" and colon: "\<And>x. pton6 x \<Longrightarrow> CHR '':'' \<in> set x"
  shows "url_wf pton6 u"
proof -
  from assms(1) obtain co tail ae auth where
    tail: "tail = drop (co + 3) raw" and ae: "ae = find_if is_auth_end tail"
    and auth: "auth = prefix_upto tail ae" and at: "find_char (CHR ''@'') auth = None"
    and pa: "parse_authority pton6 auth = Some (u_host u, u_port u)"
    and ne: "u_host u \<noteq> []" and br: "bracketed_ipv6 auth \<or> valid_uri_component (u_host u) []"
    and rest: "parse_rest (case ae of None \<Rightarrow> [] | Some n \<Rightarrow> drop n tail) =
       Some (u_path u, u_query u, u_query_present u)" and sch: "u_scheme u = ''https''"
    by (rule parse_url_SomeE)
  have "\<forall>c\<in>set auth. \<not> is_auth_end c"
  proof (cases ae)
    case None
    then show ?thesis using ae auth by (simp add: prefix_upto_def) (metis find_if_None)
  next
    case (Some n)
    then show ?thesis using find_if_split(3) [of is_auth_end tail n] ae auth
      by (simp add: prefix_upto_def)
  qed
  moreover have "CHR ''@'' \<notin> set auth" using at by (simp add: find_char_None)
  ultimately have delim: "set auth \<inter> set ''/?#@'' = {}" by (auto simp: is_auth_end_def)
  have "(case ae of None \<Rightarrow> [] | Some n \<Rightarrow> drop n tail) = [] \<or>
        is_auth_end (hd (case ae of None \<Rightarrow> [] | Some n \<Rightarrow> drop n tail))"
    using find_if_split(2,4) [of is_auth_end tail] ae [symmetric]
    by (cases ae) (auto simp: hd_drop_conv_nth)
  from parse_rest_wf [OF rest this] parse_authority_host [OF pa delim ne br colon] sch
  show ?thesis by (simp add: url_wf_def)
qed

subsection \<open>Printing a well-formed URL and parsing it back\<close>

lemma authority_no_delim:
  assumes "url_wf pton6 u"
  shows "\<forall>c\<in>set (authority u). \<not> is_auth_end c \<and> c \<noteq> CHR ''@''"
proof -
  have "c \<notin> set (to_string (u_port u))" if "\<not> is_digit c" for c
    by (rule char_not_in_to_string [OF that])
  then have "\<forall>c\<in>set (to_string (u_port u)). \<not> is_auth_end c \<and> c \<noteq> CHR ''@''"
    using to_string_digits [of "u_port u"]
    by (auto simp: is_auth_end_def is_digit_def)
  moreover have "set (u_host u) \<inter> set ''/?#@'' = {}"
    using assms by (auto simp: url_wf_def host_wf_def)
  ultimately show ?thesis
    by (auto simp: authority_def Let_def default_port_def is_auth_end_def)
qed

lemma authority_https:
  assumes "u_scheme u = ''https''"
  shows "authority u =
    (if CHR '':'' \<in> set (u_host u) then ''['' @ u_host u @ '']'' else u_host u) @
    (if u_port u = 0 \<or> u_port u = 443 then [] else '':'' @ to_string (u_port u))"
  using assms by (auto simp: authority_def Let_def default_port_def find_char_None)

text \<open>The authority of a bracketed IPv6 literal.\<close>

lemma parse_authority_ipv6:
  assumes "url_wf pton6 u" and True: "CHR '':'' \<in> set (u_host u)"
  shows "parse_authority pton6 (authority u) = Some (u_host u, u_port (normal_url u)) \<and> bracketed_ipv6 (authority u)"
proof -
  let ?h = "u_host u" and ?p = "u_port u"
  have sch: "u_scheme u = ''https''" and hw: "host_wf pton6 ?h" and p: "?p \<le> 65535"
    using assms(1) by (auto simp: url_wf_def)
  note A = authority_https [OF sch]
  have port: "?p \<noteq> 0 \<Longrightarrow> parse_port (to_string ?p) = Some ?p"
    using p by (simp add: parse_port_to_string)
  have nb: "CHR '']'' \<notin> set ?h" and pt: "pton6 (c_str ?h)" using hw True by (auto simp: host_wf_def)
  let ?tl = "if ?p = 0 \<or> ?p = 443 then [] else '':'' @ to_string ?p"
  have a: "authority u = (CHR ''['' # ?h) @ CHR '']'' # ?tl" using A True by simp
  have f: "find_char (CHR '']'') (authority u) = Some (Suc (length ?h))"
    unfolding a using find_char_hit [of "CHR '']''" "CHR ''['' # ?h" ?tl] nb by simp
  have b: "bracketed_ipv6 (authority u)" by (simp add: bracketed_ipv6_def a)
  have s: "substr (authority u) 1 (length ?h) = ?h" by (simp add: substr_def a)
  have l: "length (authority u) = length ?h + 2 + length ?tl" by (simp add: a)
  have d: "drop (length ?h + 3) (authority u) = drop 1 ?tl" by (simp add: a eval_nat_numeral)
  have n: "?tl \<noteq> [] \<Longrightarrow> authority u ! (length ?h + 2) = hd ?tl"
    by (cases "?p = 0 \<or> ?p = 443") (auto simp: a nth_append)
  have pa: "parse_authority pton6 (authority u) =
      (if length ?h + 2 < length (authority u) then
         (if authority u ! (length ?h + 2) \<noteq> CHR '':'' then None
          else map_option (\<lambda>v. (?h, v)) (parse_port (drop (length ?h + 3) (authority u))))
       else Some (?h, 0))"
    using pt s by (simp add: parse_authority_def b f Let_def eval_nat_numeral)
  show ?thesis
    unfolding pa using l d n port True b by (auto simp: normal_url_def)
qed

lemma parse_authority_authority:
  assumes "url_wf pton6 u"
  shows "parse_authority pton6 (authority u) = Some (u_host u, u_port (normal_url u))"
    and "bracketed_ipv6 (authority u) \<longleftrightarrow> CHR '':'' \<in> set (u_host u)"
proof -
  let ?h = "u_host u" and ?p = "u_port u"
  have sch: "u_scheme u = ''https''" and hw: "host_wf pton6 ?h" and p: "?p \<le> 65535"
    using assms by (auto simp: url_wf_def)
  note A = authority_https [OF sch]
  have hne: "?h \<noteq> []" using hw by (simp add: host_wf_def)
  have port: "?p \<noteq> 0 \<Longrightarrow> parse_port (to_string ?p) = Some ?p"
    using p by (simp add: parse_port_to_string)
  have "parse_authority pton6 (authority u) = Some (?h, u_port (normal_url u)) \<and>
        (bracketed_ipv6 (authority u) \<longleftrightarrow> CHR '':'' \<in> set ?h)"
  proof (cases "CHR '':'' \<in> set ?h")
    case True
    then show ?thesis using parse_authority_ipv6 [OF assms True] by simp
  next
    case False
    then have v: "valid_uri_component ?h []" using hw by (simp add: host_wf_def)
    then have "CHR ''['' \<notin> set ?h" using valid_component_no_delim(6) by simp
    then have nb: "\<not> bracketed_ipv6 (authority u)"
      using False hne A by (cases ?h) (auto simp: bracketed_ipv6_def)
    show ?thesis
    proof (cases "?p = 0 \<or> ?p = 443")
      case True
      then have a: "authority u = ?h" using A False by simp
      then have "rfind_char (CHR '':'') (authority u) = None"
        using False by (auto simp: rfind_char_def rfind_if_None)
      then show ?thesis using nb a False True by (auto simp: parse_authority_def normal_url_def)
    next
      case pp: False
      then have a: "authority u = ?h @ CHR '':'' # to_string ?p" using A False by simp
      have "\<forall>c\<in>set (to_string ?p). c \<noteq> CHR '':''"
        using char_not_in_to_string [of "CHR '':''"] by (auto simp: is_digit_def)
      then have "rfind_char (CHR '':'') (authority u) = Some (length ?h)"
        unfolding a rfind_char_def by (intro rfind_if_hit) auto
      moreover have "find_char (CHR '':'') ?h = None" using False by (simp add: find_char_None)
      ultimately show ?thesis
        using nb port pp False by (simp add: parse_authority_def a normal_url_def)
    qed
  qed
  then show "parse_authority pton6 (authority u) = Some (?h, u_port (normal_url u))"
    "bracketed_ipv6 (authority u) \<longleftrightarrow> CHR '':'' \<in> set ?h" by auto
qed

lemma parse_rest_target:
  assumes "url_wf pton6 u"
  shows "parse_rest (request_target u) = Some (u_path (normal_url u), u_query u, u_query_present u)"
proof -
  let ?p = "u_path (normal_url u)"
  have path: "valid_uri_component ?p '':@/''"
    using assms by (auto simp: url_wf_def path_wf_def normal_url_def)
  have q: "valid_uri_component (u_query u) '':@/?''" and qn: "\<not> u_query_present u \<longrightarrow> u_query u = []"
    using assms by (auto simp: url_wf_def)
  have t: "request_target u = (if u_query_present u then ?p @ CHR ''?'' # u_query u else ?p)"
    by (simp add: request_target_def Let_def normal_url_def)
  have "CHR ''#'' \<notin> set (request_target u)"
    using valid_component_no_delim(1) [OF path] valid_component_no_delim(1) [OF q] by (simp add: t)
  then have frag: "find_char (CHR ''#'') (request_target u) = None" by (simp add: find_char_None)
  have nq: "CHR ''?'' \<notin> set ?p" using valid_component_no_delim(2) [OF path] by simp
  show ?thesis
  proof (cases "u_query_present u")
    case True
    then have tt: "request_target u = ?p @ CHR ''?'' # u_query u" using t by simp
    have "find_char (CHR ''?'') (request_target u) = Some (length ?p)"
      unfolding tt by (rule find_char_hit [OF nq])
    then show ?thesis
      using frag path q True by (simp add: parse_rest_def prefix_upto_def Let_def) (simp add: tt)
  next
    case False
    then have tt: "request_target u = ?p" using t by simp
    have "find_char (CHR ''?'') (request_target u) = None" using nq tt by (simp add: find_char_None)
    then show ?thesis
      using frag path qn False by (simp add: parse_rest_def prefix_upto_def Let_def) (simp add: tt)
  qed
qed

lemma target_start: "url_wf pton6 u \<Longrightarrow> \<exists>t. request_target u = CHR ''/'' # t"
  by (cases "u_path u") (auto simp: request_target_def Let_def url_wf_def path_wf_def)

lemma parse_url_to_string:
  assumes "url_wf pton6 u"
  shows "parse_url pton6 (url_to_string u) = Some (normal_url u)"
proof -
  let ?s = "url_to_string u" and ?a = "authority u" and ?t = "request_target u"
  have sch: "u_scheme u = ''https''" using assms by (simp add: url_wf_def)
  have s: "?s = ''https'' @ CHR '':'' # (''//'' @ ?a @ ?t)" by (simp add: url_to_string_def sch)
  have c: "find_char (CHR '':'') ?s = Some 5" unfolding s by (subst find_char_hit) auto
  have h: "https_scheme (take 5 ?s)" unfolding s by code_simp
  have ss: "substr ?s 6 2 = ''//''" by (simp add: s substr_def eval_nat_numeral)
  have d: "drop 8 ?s = ?a @ ?t" by (simp add: s eval_nat_numeral)
  obtain t where t: "?t = CHR ''/'' # t" using target_start [OF assms] by blast
  have nd: "\<forall>c\<in>set ?a. \<not> is_auth_end c" using authority_no_delim [OF assms] by blast
  have e: "find_if is_auth_end (?a @ ?t) = Some (length ?a)"
    unfolding t by (rule find_if_hit [OF nd]) (simp add: is_auth_end_def)
  have at: "find_char (CHR ''@'') ?a = None"
    using authority_no_delim [OF assms] by (auto simp: find_char_None)
  have hn: "u_host u \<noteq> []" using assms by (simp add: url_wf_def host_wf_def)
  then have an: "?a \<noteq> []" by (simp add: authority_https [OF sch])
  have v: "bracketed_ipv6 ?a \<or> valid_uri_component (u_host u) []"
    using assms parse_authority_authority(2) [OF assms] by (auto simp: url_wf_def host_wf_def)
  note pa = parse_authority_authority(1) [OF assms] and pr = parse_rest_target [OF assms]
  have "parse_url pton6 ?s = Some \<lparr>u_scheme = ''https'', u_host = u_host u,
      u_port = u_port (normal_url u), u_path = u_path (normal_url u), u_query = u_query u,
      u_query_present = u_query_present u\<rparr>"
    unfolding parse_url_def c using h ss d e at an hn v pa pr
    by (simp add: s [symmetric] Let_def prefix_upto_def url_valid_def) (simp add: s)
  then show ?thesis using sch by (simp add: normal_url_def)
qed

text \<open>Whatever follows an absolute path, the text of a URL is read back with the same host and
  the same effective port.\<close>

lemma parse_url_same_authority:
  assumes "u_scheme u = ''https''" "host_wf pton6 (u_host u)" "u_port u \<le> 65535"
    and path: "u_path u = CHR ''/'' # q" and parse: "parse_url pton6 (url_to_string u) = Some v"
  shows "u_host v = u_host u" "u_port v = u_port (normal_url u)"
proof -
  let ?u0 = "u\<lparr>u_path := [], u_query := [], u_query_present := False\<rparr>"
  let ?s = "url_to_string u" and ?a = "authority u"
  have wf: "url_wf pton6 ?u0" using assms(1-3) by (simp add: url_wf_def path_wf_def)
  have a0: "authority ?u0 = ?a" by (simp add: authority_def)
  obtain t where t: "request_target u = CHR ''/'' # t"
    using path by (cases "u_query_present u") (simp_all add: request_target_def Let_def)
  have s: "?s = ''https'' @ CHR '':'' # (''//'' @ ?a @ CHR ''/'' # t)"
    using assms(1) t by (simp add: url_to_string_def)
  have c: "find_char (CHR '':'') ?s = Some 5" unfolding s by (subst find_char_hit) auto
  have d: "drop (5 + 3) ?s = ?a @ CHR ''/'' # t" by (simp add: s eval_nat_numeral)
  have nd: "\<forall>c\<in>set ?a. \<not> is_auth_end c" using authority_no_delim [OF wf] a0 by auto
  have e: "find_if is_auth_end (?a @ CHR ''/'' # t) = Some (length ?a)"
    by (rule find_if_hit [OF nd]) (simp add: is_auth_end_def)
  have "parse_authority pton6 ?a = Some (u_host v, u_port v)"
    using parse by (rule parse_url_SomeE) (use c d e in \<open>simp add: prefix_upto_def\<close>)
  with parse_authority_authority(1) [OF wf] a0
  show "u_host v = u_host u" "u_port v = u_port (normal_url u)" by (auto simp: normal_url_def)
qed

text \<open>Property C32: every URL the parser accepts is well formed (the scheme is \<^verbatim>\<open>https\<close>, the host
  is not empty and holds no delimiter, the port fits 16 bits, the path is empty or absolute), and
  printing it and parsing the text again gives the same URL in its normal form (the default port
  dropped, an empty path replaced by \<^verbatim>\<open>/\<close>), whose text is the same: one parse reaches the
  canonical form.  The hypothesis states what \<^verbatim>\<open>inet_pton\<close> documents: an IPv6 text has a colon.\<close>

theorem parse_url_normalises:
  assumes "parse_url pton6 raw = Some u" and "\<And>x. pton6 x \<Longrightarrow> CHR '':'' \<in> set x"
  shows "url_wf pton6 u \<and> parse_url pton6 (url_to_string u) = Some (normal_url u) \<and>
         url_to_string (normal_url u) = url_to_string u"
proof -
  have wf: "url_wf pton6 u" by (rule parse_url_wf [OF assms])
  have "url_to_string (normal_url u) = url_to_string u"
    using wf by (simp add: url_to_string_def authority_def request_target_def normal_url_def
        default_port_def url_wf_def Let_def)
  with wf show ?thesis by (simp add: parse_url_to_string)
qed

theorem parse_url_normalises_witness:
  "url_wf (\<lambda>x. x = ''::1'') \<lparr>u_scheme = ''https'', u_host = ''::1'', u_port = 8443, u_path = [],
      u_query = ''q=1'', u_query_present = True\<rparr>"
proof -
  have "parse_url (\<lambda>x. x = ''::1'') ''HTTPS://[::1]:8443?q=1#top'' =
      Some \<lparr>u_scheme = ''https'', u_host = ''::1'', u_port = 8443, u_path = [],
        u_query = ''q=1'', u_query_present = True\<rparr>" by code_simp
  from parse_url_normalises [OF this] show ?thesis by simp
qed

end
