(* ===== verification/Redirect.thy ===== *)
theory Redirect
  imports Url
begin

text \<open>
  \<^verbatim>\<open>src/core/redirect.{h,cc}\<close> and \<^verbatim>\<open>src/core/response.h\<close>: dot-segment removal, resolution of a
  \<^verbatim>\<open>Location\<close> reference against the URL that was requested, and the decision to follow.
\<close>

record response =
  rs_status_code :: int
  rs_headers :: header_list
  rs_body :: bytes
  rs_url :: url
  rs_headers_done :: bool

definition new_response :: response where
  "new_response = \<lparr>rs_status_code = 0, rs_headers = [], rs_body = [], rs_url = empty_url,
                   rs_headers_done = False\<rparr>"

definition rs_add_header :: "response \<Rightarrow> string \<Rightarrow> string \<Rightarrow> response" where
  "rs_add_header r n v = r\<lparr>rs_headers := hl_add (rs_headers r) n v\<rparr>"

subsection \<open>Dot segments\<close>

definition remove_last_segment :: "string \<Rightarrow> string" where
  "remove_last_segment out =
     (case rfind_char (CHR ''/'') out of None \<Rightarrow> [] | Some slash \<Rightarrow> take slash out)"

definition segment_end :: "string \<Rightarrow> nat option" where
  "segment_end input =
     (if hd input = CHR ''/'' then find_char_from (CHR ''/'') 1 input
      else find_char (CHR ''/'') input)"

lemma segment_end_pos: "input \<noteq> [] \<Longrightarrow> segment_end input = Some n \<Longrightarrow> 0 < n"
  by (cases input) (auto simp: segment_end_def find_char_from_def find_char_Cons split: if_splits)

function rds_loop :: "string \<Rightarrow> string \<Rightarrow> string" where
  "rds_loop input out =
     (if input = [] then out
      else if starts_with input ''../'' then rds_loop (drop 3 input) out
      else if starts_with input ''./'' then rds_loop (drop 2 input) out
      else if starts_with input ''/./'' then rds_loop (drop 2 input) out
      else if input = ''/.'' then rds_loop ''/'' out
      else if starts_with input ''/../'' then rds_loop (drop 3 input) (remove_last_segment out)
      else if input = ''/..'' then rds_loop ''/'' (remove_last_segment out)
      else if input = ''.'' \<or> input = ''..'' then rds_loop [] out
      else (case segment_end input of
              None \<Rightarrow> rds_loop [] (out @ input)
            | Some n \<Rightarrow> rds_loop (drop n input) (out @ take n input)))"
  by pat_completeness auto
termination
  by (relation "measure (\<lambda>(input, out). length input)")
     (auto simp: starts_with_def intro!: diff_less segment_end_pos)

declare rds_loop.simps [simp del]

definition remove_dot_segments :: "string \<Rightarrow> string" where
  "remove_dot_segments input = rds_loop input []"

subsection \<open>References\<close>

text \<open>\<open>None\<close>: the scheme part is malformed; \<open>Some b\<close>: whether the reference has a scheme.\<close>

definition scheme_char :: "char \<Rightarrow> bool" where
  "scheme_char c \<longleftrightarrow> is_alpha c \<or> is_digit c \<or> c \<in> set ''+-.''"

definition has_valid_scheme :: "string \<Rightarrow> bool option" where
  "has_valid_scheme ref =
     (case find_char (CHR '':'') ref of
        None \<Rightarrow> Some False
      | Some colon \<Rightarrow>
          if (case find_if is_auth_end ref of None \<Rightarrow> False | Some d \<Rightarrow> colon > d) then Some False
          else if colon = 0 \<or> \<not> is_alpha (hd ref) then None
          else if \<not> list_all scheme_char (substr ref 1 (colon - 1)) then None
          else Some True)"

definition merge_path :: "string \<Rightarrow> string \<Rightarrow> string" where
  "merge_path base_path reference_path =
     (if hd reference_path = CHR ''/'' then remove_dot_segments reference_path
      else
        let prefix = (case rfind_char (CHR ''/'') base_path of
                        None \<Rightarrow> [] | Some slash \<Rightarrow> take (slash + 1) base_path)
        in remove_dot_segments (prefix @ reference_path))"

definition resolve_reference :: "(string \<Rightarrow> bool) \<Rightarrow> url \<Rightarrow> string \<Rightarrow> url option" where
  "resolve_reference pton6 base reference0 =
     (let reference = prefix_upto reference0 (find_char (CHR ''#'') reference0) in
      case has_valid_scheme reference of
        None \<Rightarrow> None
      | Some True \<Rightarrow> parse_url pton6 reference
      | Some False \<Rightarrow>
          if starts_with reference ''//''
          then parse_url pton6 (u_scheme base @ '':'' @ reference)
          else
            let question = find_char (CHR ''?'') reference;
                reference_path = prefix_upto reference question;
                has_query = (question \<noteq> None);
                reference_query = (case question of None \<Rightarrow> [] | Some q \<Rightarrow> drop (q + 1) reference);
                target = empty_url\<lparr>u_scheme := u_scheme base, u_host := u_host base,
                                   u_port := u_port base\<rparr>;
                t = (if reference_path = [] then
                       (if has_query
                        then target\<lparr>u_path := u_path base, u_query := reference_query,
                                    u_query_present := True\<rparr>
                        else target\<lparr>u_path := u_path base, u_query := u_query base,
                                    u_query_present := u_query_present base\<rparr>)
                     else target\<lparr>u_path := merge_path (u_path base) reference_path,
                                 u_query := reference_query, u_query_present := has_query\<rparr>)
            in if url_valid t then Some t else None)"

subsection \<open>The redirect decision\<close>

record redirect_decision =
  rd_follow :: bool
  rd_cross_origin :: bool
  rd_drop_body :: bool
  rd_new_url :: string
  rd_new_method :: string

definition no_redirect :: "string \<Rightarrow> redirect_decision" where
  "no_redirect m = \<lparr>rd_follow = False, rd_cross_origin = False, rd_drop_body = False,
                    rd_new_url = [], rd_new_method = m\<rparr>"

definition is_redirect_status :: "int \<Rightarrow> bool" where
  "is_redirect_status s \<longleftrightarrow> s = 301 \<or> s = 302 \<or> s = 303 \<or> s = 307 \<or> s = 308"

definition effective_port :: "url \<Rightarrow> nat" where
  "effective_port u = (if u_port u \<noteq> 0 then u_port u else default_port (u_scheme u))"

definition evaluate_redirect ::
  "(string \<Rightarrow> bool) \<Rightarrow> string \<Rightarrow> url \<Rightarrow> response \<Rightarrow> bool \<Rightarrow> nat \<Rightarrow> redirect_decision" where
  "evaluate_redirect pton6 meth from resp auto_redirect remaining =
     (if \<not> auto_redirect then no_redirect meth
      else if \<not> is_redirect_status (rs_status_code resp) then no_redirect meth
      else if remaining = 0 then no_redirect meth
      else
        let location = hl_get (rs_headers resp) ''location'' in
        if location = [] then no_redirect meth
        else case resolve_reference pton6 from location of
          None \<Rightarrow> no_redirect meth
        | Some to \<Rightarrow>
            if u_scheme to \<noteq> ''https'' then no_redirect meth
            else if \<not> url_valid to then no_redirect meth
            else
              let st = rs_status_code resp;
                  rewrite = (st = 303 \<and> meth \<noteq> ''HEAD'') \<or> ((st = 301 \<or> st = 302) \<and> meth = ''POST'')
              in \<lparr>rd_follow = True,
                  rd_cross_origin = (u_scheme from \<noteq> u_scheme to \<or> u_host from \<noteq> u_host to \<or>
                                     effective_port from \<noteq> effective_port to),
                  rd_drop_body = (if rewrite then True else st = 303),
                  rd_new_url = url_to_string to,
                  rd_new_method = (if rewrite then ''GET'' else meth)\<rparr>)"

subsection \<open>Dot-segment removal against RFC 3986\<close>

text \<open>The reference semantics works on the list of segments: \<open>.\<close> is skipped, \<open>..\<close> drops the last
  segment kept so far, and either one at the very end leaves an empty last segment.\<close>

fun segments :: "string \<Rightarrow> string list" where
  "segments [] = [[]]"
| "segments (c # cs) =
     (if c = CHR ''/'' then [] # segments cs
      else (case segments cs of s # ss \<Rightarrow> (c # s) # ss | [] \<Rightarrow> [[c]]))"

fun dots :: "string list \<Rightarrow> string list \<Rightarrow> string list" where
  "dots [] st = st"
| "dots (s # r) st =
     (if s = ''.'' then (if r = [] then st @ [[]] else dots r st)
      else if s = ''..'' then (if r = [] then butlast st @ [[]] else dots r (butlast st))
      else dots r (st @ [s]))"

definition join_segments :: "string list \<Rightarrow> string" where
  "join_segments ss = concat (map (\<lambda>s. CHR ''/'' # s) ss)"

lemma join_segments_simps [simp]:
  "join_segments [] = []" "join_segments (xs @ ys) = join_segments xs @ join_segments ys"
  "join_segments [s] = CHR ''/'' # s"
  by (simp_all add: join_segments_def)

lemma segments_not_Nil [simp]: "segments s \<noteq> []"
  by (induction s) (auto split: list.splits)

lemma segments_no_slash: "CHR ''/'' \<notin> set s \<Longrightarrow> segments s = [s]"
  by (induction s) auto

lemma segments_append: "CHR ''/'' \<notin> set s \<Longrightarrow> segments (s @ CHR ''/'' # q) = s # segments q"
  by (induction s) auto

lemma segments_split:
  obtains "CHR ''/'' \<notin> set p" "segments p = [p]"
  | s q where "p = s @ CHR ''/'' # q" "CHR ''/'' \<notin> set s" "segments p = s # segments q"
proof (cases "CHR ''/'' \<in> set p")
  case False
  then show ?thesis using that(1) segments_no_slash by blast
next
  case True
  then obtain s q where "p = s @ CHR ''/'' # q" "CHR ''/'' \<notin> set s" by (metis split_list_first)
  then show ?thesis using that(2) segments_append by blast
qed

lemma remove_last_segment_join:
  assumes "\<forall>s\<in>set st. CHR ''/'' \<notin> set s"
  shows "remove_last_segment (join_segments st) = join_segments (butlast st)"
proof (cases st rule: rev_cases)
  case Nil
  then show ?thesis by (simp add: remove_last_segment_def rfind_char_def rfind_if_def)
next
  case (snoc ys s)
  then have "rfind_char (CHR ''/'') (join_segments st) = Some (length (join_segments ys))"
    using assms by (simp add: rfind_char_def) (intro rfind_if_hit, auto)
  then show ?thesis using snoc by (simp add: remove_last_segment_def)
qed

text \<open>One turn of the loop on an input whose first segment is \<open>s\<close>.\<close>

lemma starts_with_Nil [simp]: "starts_with s [] = True"
  by (simp add: starts_with_def)

lemma starts_with_Cons [simp]:
  "starts_with [] (p # ps) = False"
  "starts_with (c # cs) (p # ps) \<longleftrightarrow> c = p \<and> starts_with cs ps"
  by (auto simp: starts_with_def)

lemma starts_with_slash:
  "CHR ''/'' \<notin> set w \<Longrightarrow> CHR ''/'' \<notin> set s \<Longrightarrow>
     starts_with (s @ CHR ''/'' # q) (w @ ''/'') \<longleftrightarrow> s = w"
proof (induction w arbitrary: s)
  case Nil
  then show ?case by (cases s) auto
next
  case (Cons a w)
  then show ?case by (cases s) auto
qed

lemma starts_with_no_slash:
  "CHR ''/'' \<notin> set s \<Longrightarrow> \<not> starts_with s (w @ ''/'')"
  by (induction w arbitrary: s) (case_tac s; auto)+

lemma rds_last:
  assumes "CHR ''/'' \<notin> set s"
  shows "rds_loop (CHR ''/'' # s) out =
    (if s = ''.'' then rds_loop ''/'' out
     else if s = ''..'' then rds_loop ''/'' (remove_last_segment out)
     else out @ CHR ''/'' # s)"
  using assms starts_with_no_slash [OF assms, of "''.''"] starts_with_no_slash [OF assms, of "''..''"]
  by (subst rds_loop.simps)
     (simp add: segment_end_def find_char_from_def iffD2 [OF find_char_None] rds_loop.simps [of "[]"])

lemma segment_not_dots: "s @ CHR ''/'' # q \<noteq> ''.''" "s @ CHR ''/'' # q \<noteq> ''..''"
  by (auto simp: append_eq_Cons_conv)

lemma rds_more:
  assumes "CHR ''/'' \<notin> set s"
  shows "rds_loop (CHR ''/'' # s @ CHR ''/'' # q) out =
    (if s = ''.'' then rds_loop (CHR ''/'' # q) out
     else if s = ''..'' then rds_loop (CHR ''/'' # q) (remove_last_segment out)
     else rds_loop (CHR ''/'' # q) (out @ CHR ''/'' # s))"
  using assms starts_with_slash [of "''.''" s q] starts_with_slash [of "''..''" s q]
    segment_not_dots [of s q]
  by (subst rds_loop.simps)
     (auto simp: segment_end_def find_char_from_def find_char_hit)

lemma rds_loop_dots:
  assumes "\<forall>s\<in>set st. CHR ''/'' \<notin> set s"
  shows "rds_loop (CHR ''/'' # p) (join_segments st) = join_segments (dots (segments p) st)"
  using assms
proof (induction "segments p" st arbitrary: p rule: dots.induct)
  case 1
  from 1(1) have False by (metis segments_not_Nil)
  then show ?case ..
next
  case (2 s r st)
  have rl: "remove_last_segment (join_segments st) = join_segments (butlast st)"
    by (rule remove_last_segment_join [OF 2(5)])
  have bl: "\<forall>s\<in>set (butlast st). CHR ''/'' \<notin> set s" using 2(5) by (meson in_set_butlastD)
  have root: "rds_loop ''/'' out = out @ ''/''" for out
    using rds_last [of "[]" out] by simp
  show ?case
  proof (cases p rule: segments_split)
    case 1
    then show ?thesis using rl rds_last [of p "join_segments st"] root by simp
  next
    case q: (2 t q)
    then have sr: "s = t" "r = segments q" using 2(4) by auto
    then have r: "r \<noteq> []" by simp
    note more = rds_more [OF q(2), of q "join_segments st", folded q(1)]
    consider "t = ''.''" | "t = ''..''" | "t \<noteq> ''.''" "t \<noteq> ''..''" by blast
    then show ?thesis
    proof cases
      case 1
      then show ?thesis using 2(1) [OF _ r sr(2) 2(5)] sr(1) r more q(3) sr(2) by simp
    next
      case c: 2
      then show ?thesis using 2(2) [OF _ _ r sr(2) bl] sr(1) r more q(3) sr(2) rl by simp
    next
      case 3
      have "\<forall>s\<in>set (st @ [s]). CHR ''/'' \<notin> set s" using 2(5) sr q by simp
      from 2(3) [OF _ _ sr(2) this] show ?thesis using 3 sr more q(3) by simp
    qed
  qed
qed

text \<open>Property C38: on an absolute path the in-place loop of \<^verbatim>\<open>remove_dot_segments\<close> computes the
  segment semantics of RFC 3986: it is the path of the kept segments, where \<^verbatim>\<open>.\<close> keeps nothing and
  \<^verbatim>\<open>..\<close> drops the segment kept last (and never climbs above the root).\<close>

theorem remove_dot_segments_refines:
  "remove_dot_segments (CHR ''/'' # p) = join_segments (dots (segments p) [])"
  using rds_loop_dots [of "[]" p] by (simp add: remove_dot_segments_def)

lemma dots_clean:
  "''.'' \<notin> set st \<Longrightarrow> ''..'' \<notin> set st \<Longrightarrow>
     ''.'' \<notin> set (dots ss st) \<and> ''..'' \<notin> set (dots ss st)"
  by (induction ss st rule: dots.induct) (auto dest: in_set_butlastD)

lemma dots_id: "''.'' \<notin> set ss \<Longrightarrow> ''..'' \<notin> set ss \<Longrightarrow> dots ss st = st @ ss"
  by (induction ss st rule: dots.induct) auto

lemma dots_not_Nil: "ss \<noteq> [] \<Longrightarrow> dots ss st \<noteq> []"
proof (induction ss arbitrary: st)
  case (Cons s r)
  show ?case
  proof (cases "r = []")
    case True
    then show ?thesis by simp
  next
    case False
    with Cons.IH [OF False] show ?thesis by simp
  qed
qed simp

lemma segments_slash_free: "t \<in> set (segments p) \<Longrightarrow> CHR ''/'' \<notin> set t"
  by (induction p arbitrary: t) (auto split: list.splits if_splits)

lemma set_dots: "t \<in> set (dots ss st) \<Longrightarrow> t = [] \<or> t \<in> set ss \<or> t \<in> set st"
proof (induction ss arbitrary: st)
  case (Cons s r)
  then show ?case by (auto split: if_splits dest: in_set_butlastD dest!: Cons.IH)
qed simp

lemma dots_slash_free:
  assumes "\<And>s. s \<in> set ss \<Longrightarrow> CHR ''/'' \<notin> set s" "\<And>s. s \<in> set st \<Longrightarrow> CHR ''/'' \<notin> set s"
    and "t \<in> set (dots ss st)"
  shows "CHR ''/'' \<notin> set t"
  using set_dots [OF assms(3)] assms(1,2) by auto

lemma segments_join:
  "s \<noteq> [] \<Longrightarrow> \<forall>t\<in>set s. CHR ''/'' \<notin> set t \<Longrightarrow> segments (tl (join_segments s)) = s"
proof (induction s)
  case (Cons t s)
  then show ?case
    by (cases s) (auto simp: join_segments_def segments_no_slash segments_append)
qed simp

lemma remove_dot_segments_form:
  obtains ss where "ss \<noteq> []" "''.'' \<notin> set ss" "''..'' \<notin> set ss"
    "remove_dot_segments (CHR ''/'' # p) = join_segments ss"
    "segments (tl (remove_dot_segments (CHR ''/'' # p))) = ss"
proof -
  have r: "remove_dot_segments (CHR ''/'' # p) = join_segments (dots (segments p) [])"
    using rds_loop_dots [of "[]" p] by (simp add: remove_dot_segments_def)
  have "\<forall>s\<in>set (dots (segments p) []). CHR ''/'' \<notin> set s"
    by (metis dots_slash_free segments_slash_free empty_iff list.set(1))
  then have "segments (tl (join_segments (dots (segments p) []))) = dots (segments p) []"
    by (intro segments_join dots_not_Nil) auto
  with r show ?thesis
    using that dots_not_Nil [of "segments p" "[]"] dots_clean [of "[]" "segments p"] by simp
qed

lemma join_segments_hd: "ss \<noteq> [] \<Longrightarrow> join_segments ss = CHR ''/'' # tl (join_segments ss)"
  by (cases ss) (auto simp: join_segments_def)

text \<open>The resolved path of an absolute reference is absolute, holds no \<^verbatim>\<open>.\<close> and no
  \<^verbatim>\<open>..\<close> segment, and removing dot segments once more changes nothing.\<close>

lemma remove_dot_segments_clean:
  "hd (remove_dot_segments (CHR ''/'' # p)) = CHR ''/'' \<and>
   ''.'' \<notin> set (segments (remove_dot_segments (CHR ''/'' # p))) \<and>
   ''..'' \<notin> set (segments (remove_dot_segments (CHR ''/'' # p))) \<and>
   remove_dot_segments (remove_dot_segments (CHR ''/'' # p)) = remove_dot_segments (CHR ''/'' # p)"
proof -
  obtain ss where ss: "ss \<noteq> []" "''.'' \<notin> set ss" "''..'' \<notin> set ss"
    and r: "remove_dot_segments (CHR ''/'' # p) = join_segments ss"
    and seg: "segments (tl (remove_dot_segments (CHR ''/'' # p))) = ss"
    by (rule remove_dot_segments_form)
  have j: "join_segments ss = CHR ''/'' # tl (join_segments ss)" using ss by (rule_tac join_segments_hd)
  have s1: "segments (join_segments ss) = [] # ss"
    using seg r by (subst j) simp
  have "remove_dot_segments (join_segments ss) = join_segments (dots ss [])"
    using rds_loop_dots [of "[]" "tl (join_segments ss)"] seg r
    by (subst j) (simp add: remove_dot_segments_def)
  then have "remove_dot_segments (join_segments ss) = join_segments ss" using ss by (simp add: dots_id)
  moreover have "hd (join_segments ss) = CHR ''/''" by (subst j) simp
  ultimately show ?thesis using ss s1 by (simp add: r)
qed

subsection \<open>The decision\<close>

text \<open>What a followed redirect is: the guards that let it through and the request it asks for.\<close>

lemma evaluate_redirect_follow:
  "rd_follow (evaluate_redirect pton6 m from resp auto n) \<longleftrightarrow>
     auto \<and> is_redirect_status (rs_status_code resp) \<and> n \<noteq> 0 \<and>
     hl_get (rs_headers resp) ''location'' \<noteq> [] \<and>
     (\<exists>to. resolve_reference pton6 from (hl_get (rs_headers resp) ''location'') = Some to \<and>
           u_scheme to = ''https'' \<and> url_valid to)"
  by (auto simp: evaluate_redirect_def no_redirect_def Let_def split: option.splits)

lemma evaluate_redirect_target:
  assumes "rd_follow (evaluate_redirect pton6 m from resp auto n)"
    and "resolve_reference pton6 from (hl_get (rs_headers resp) ''location'') = Some to"
  shows "rd_new_url (evaluate_redirect pton6 m from resp auto n) = url_to_string to"
    "rd_cross_origin (evaluate_redirect pton6 m from resp auto n) \<longleftrightarrow>
       u_scheme from \<noteq> u_scheme to \<or> u_host from \<noteq> u_host to \<or> effective_port from \<noteq> effective_port to"
    "u_scheme to = ''https''"
  using assms by (auto simp: evaluate_redirect_def no_redirect_def Let_def split: if_splits)

lemma merge_path_absolute:
  assumes "r \<noteq> []" "hd r = CHR ''/'' \<or> b \<noteq> [] \<and> hd b = CHR ''/''"
  shows "\<exists>q. merge_path b r = CHR ''/'' # q"
proof -
  have *: "\<exists>q. remove_dot_segments (CHR ''/'' # p) = CHR ''/'' # q" for p
    by (rule remove_dot_segments_form [of p]) (metis join_segments_hd)
  show ?thesis
  proof (cases "hd r = CHR ''/''")
    case True
    with assms(1) obtain p where "r = CHR ''/'' # p" by (cases r) auto
    then show ?thesis using * by (simp add: merge_path_def)
  next
    case False
    with assms(2) obtain b' where b: "b = CHR ''/'' # b'" by (cases b) auto
    then have "rfind_char (CHR ''/'') b \<noteq> None"
      unfolding rfind_char_def using rfind_if_None [of "\<lambda>x. x = CHR ''/''" b] by auto
    then obtain k where "rfind_char (CHR ''/'') b = Some k" by blast
    then show ?thesis using False b * by (simp add: merge_path_def)
  qed
qed

text \<open>A reference that is a relative path: no scheme, no authority, a path that does not start at the root.\<close>

definition path_relative :: "string \<Rightarrow> bool" where
  "path_relative location \<longleftrightarrow>
     (let reference = prefix_upto location (find_char (CHR ''#'') location);
          path = prefix_upto reference (find_char (CHR ''?'') reference)
      in has_valid_scheme reference = Some False \<and> \<not> starts_with reference ''//'' \<and> path \<noteq> [] \<and> hd path \<noteq> CHR ''/'')"

lemma resolve_reference_cases:
  assumes "resolve_reference pton6 from loc = Some to" "u_path from = [] \<or> hd (u_path from) = CHR ''/''"
    "u_path from \<noteq> [] \<or> \<not> path_relative loc"
  obtains raw where "parse_url pton6 raw = Some to"
  | "u_scheme to = u_scheme from" "u_host to = u_host from" "u_port to = u_port from"
    "u_path to = [] \<or> (\<exists>q. u_path to = CHR ''/'' # q)"
proof -
  let ?ref = "prefix_upto loc (find_char (CHR ''#'') loc)"
  show ?thesis
  proof (cases "(\<exists>raw. parse_url pton6 raw = Some to)")
    case True
    then show ?thesis using that(1) by blast
  next
    case False
    then have h: "has_valid_scheme ?ref = Some False" and s: "\<not> starts_with ?ref ''//''"
      using assms(1) by (auto simp: resolve_reference_def Let_def split: option.splits bool.splits if_splits)
    let ?rp = "prefix_upto ?ref (find_char (CHR ''?'') ?ref)"
    have to: "u_scheme to = u_scheme from \<and> u_host to = u_host from \<and> u_port to = u_port from \<and>
          (u_path to = u_path from \<or> (?rp \<noteq> [] \<and> u_path to = merge_path (u_path from) ?rp))"
      using assms(1) h s unfolding resolve_reference_def Let_def
      by (cases "?rp = []"; cases "find_char (CHR ''?'') ?ref") (auto simp: empty_url_def)
    have "u_path from = [] \<or> (\<exists>q. u_path from = CHR ''/'' # q)" using assms(2) by (cases "u_path from") auto
    moreover have "\<exists>q. merge_path (u_path from) ?rp = CHR ''/'' # q" if "?rp \<noteq> []"
      using that assms(2,3) h s by (intro merge_path_absolute) (auto simp: path_relative_def Let_def)
    ultimately show ?thesis using that(2) to by metis
  qed
qed

text \<open>What the next hop's URL names, and that the decision was made for it.\<close>

lemma followed_origin:
  assumes "url_wf pton6 from"
    and "u_path from \<noteq> [] \<or> \<not> path_relative (hl_get (rs_headers resp) ''location'')"
    and "\<And>x. pton6 x \<Longrightarrow> CHR '':'' \<in> set x"
    and "rd_follow (evaluate_redirect pton6 m from resp auto n)"
    and "parse_url pton6 (rd_new_url (evaluate_redirect pton6 m from resp auto n)) = Some nxt"
  shows "u_scheme nxt = ''https'' \<and>
    (rd_cross_origin (evaluate_redirect pton6 m from resp auto n) \<longleftrightarrow>
       u_host nxt \<noteq> u_host from \<or> effective_port nxt \<noteq> effective_port from)"
proof -
  let ?loc = "hl_get (rs_headers resp) ''location''"
  obtain to where to: "resolve_reference pton6 from ?loc = Some to"
    using assms(4) by (auto simp: evaluate_redirect_follow)
  note T = evaluate_redirect_target [OF assms(4) to]
  have sf: "u_scheme from = ''https''" using assms(1) by (simp add: url_wf_def)
  have hd: "u_path from = [] \<or> hd (u_path from) = CHR ''/''" using assms(1) by (auto simp: url_wf_def path_wf_def)
  have sn: "u_scheme nxt = ''https''" using assms(5) by (rule parse_url_SomeE)
  have "u_host nxt = u_host to \<and> u_port nxt = u_port (normal_url to)"
  proof (rule resolve_reference_cases [OF to hd assms(2)])
    fix raw assume "parse_url pton6 raw = Some to"
    then have "url_wf pton6 to" by (rule parse_url_wf [OF _ assms(3)])
    then show ?thesis using assms(5) T(1) by (auto simp: parse_url_to_string normal_url_def)
  next
    assume same: "u_scheme to = u_scheme from" "u_host to = u_host from" "u_port to = u_port from"
      and path: "u_path to = [] \<or> (\<exists>q. u_path to = CHR ''/'' # q)"
    let ?to = "if u_path to = [] then to\<lparr>u_path := ''/''\<rparr> else to"
    have "url_to_string ?to = url_to_string to" by (simp add: url_to_string_def authority_def request_target_def Let_def)
    then have "parse_url pton6 (url_to_string ?to) = Some nxt" using assms(5) T(1) by simp
    moreover obtain q where "u_path ?to = CHR ''/'' # q" using path by auto
    ultimately have "u_host nxt = u_host ?to" "u_port nxt = u_port (normal_url ?to)"
      using parse_url_same_authority [of ?to pton6 q nxt] assms(1) same by (auto simp: url_wf_def)
    then show ?thesis by (simp add: normal_url_def split: if_splits)
  qed
  moreover have "effective_port nxt = effective_port to"
    using calculation sn T(3) by (auto simp: effective_port_def normal_url_def default_port_def)
  ultimately show ?thesis using T(2,3) sf sn by auto
qed

text \<open>Property C30: the origin a followed redirect is judged against is the origin it goes to, except where
  a relative path meets a requested URL with an empty path.  In all other cases the text handed to the next hop, read by
  the parser again, names the host and effective port that \<^verbatim>\<open>cross_origin\<close> was computed from, so that the
  credentials that survive a redirect judged same-origin reach the same origin only.  The exception is real:
  there the text names another host than the one that was judged (\<open>redirect_empty_path_changes_host\<close>).\<close>

theorem redirect_origin_sound:
  assumes "url_wf pton6 from"
    and "u_path from \<noteq> [] \<or> \<not> path_relative (hl_get (rs_headers resp) ''location'')"
    and "\<And>x. pton6 x \<Longrightarrow> CHR '':'' \<in> set x"
    and "rd_follow (evaluate_redirect pton6 m from resp auto n)"
    and "parse_url pton6 (rd_new_url (evaluate_redirect pton6 m from resp auto n)) = Some nxt"
  shows "u_scheme nxt = ''https'' \<and>
    (rd_cross_origin (evaluate_redirect pton6 m from resp auto n) \<longleftrightarrow>
       u_host nxt \<noteq> u_host from \<or> effective_port nxt \<noteq> effective_port from)"
  by (rule followed_origin [OF assms])

definition redirect_response :: "int \<Rightarrow> string \<Rightarrow> response" where
  "redirect_response st loc = rs_add_header (new_response\<lparr>rs_status_code := st\<rparr>) ''Location'' loc"

definition no_ipv6 :: "string \<Rightarrow> bool" where
  "no_ipv6 x = False"

definition https_url :: "string \<Rightarrow> string \<Rightarrow> url" where
  "https_url h p = empty_url\<lparr>u_scheme := ''https'', u_host := h, u_path := p\<rparr>"

theorem redirect_origin_sound_witness:
  "rd_cross_origin (evaluate_redirect no_ipv6 ''GET'' (https_url ''a.example'' ''/x/y'')
      (redirect_response 302 ''../z?k#f'') True 3) \<longleftrightarrow>
   u_host (https_url ''a.example'' ''/z'') \<noteq> ''a.example''"
proof -
  let ?from = "https_url ''a.example'' ''/x/y''"
  let ?d = "evaluate_redirect no_ipv6 ''GET'' ?from (redirect_response 302 ''../z?k#f'') True 3"
  let ?next = "(https_url ''a.example'' ''/z'')\<lparr>u_query := ''k'', u_query_present := True\<rparr>"
  have 1: "url_wf no_ipv6 ?from" by code_simp
  have 2: "u_path ?from \<noteq> [] \<or> \<not> path_relative (hl_get (rs_headers (redirect_response 302 ''../z?k#f'')) ''location'')" by code_simp
  have 3: "no_ipv6 x \<Longrightarrow> CHR '':'' \<in> set x" for x by (simp add: no_ipv6_def)
  have 4: "rd_follow ?d" by code_simp
  have 5: "parse_url no_ipv6 (rd_new_url ?d) = Some ?next" by code_simp
  have 6: "effective_port ?next = effective_port ?from" by code_simp
  from redirect_origin_sound [OF 1 2 3 4 5] 6 show ?thesis by (simp add: https_url_def)
qed

text \<open>The exception of \<open>redirect_origin_sound\<close>.  A URL with an empty path and a relative
  \<^verbatim>\<open>Location\<close> give a text in which the reference extends the host name (RFC 3986 5.2.3 would
  merge with \<^verbatim>\<open>/\<close>): the redirect is judged same-origin, and its URL names another host.\<close>

lemma redirect_empty_path_changes_host:
  "let d = evaluate_redirect no_ipv6 ''GET'' (https_url ''bank.example'' []) (redirect_response 302 ''.evil.test/x'') True 10
   in rd_follow d \<and> \<not> rd_cross_origin d \<and>
      map_option u_host (parse_url no_ipv6 (rd_new_url d)) = Some ''bank.example.evil.test''"
  by code_simp

text \<open>A redirect is followed only when following is enabled, the status is a redirect, the
  budget is not spent and the target is \<^verbatim>\<open>https\<close>; a 303 turns every method except \<^verbatim>\<open>HEAD\<close>, and a
  301 or 302 turns \<^verbatim>\<open>POST\<close>, into a \<^verbatim>\<open>GET\<close> without body; every other method and 307/308 keep
  the method and the body.\<close>

lemma redirect_method_and_guards:
  "let d = evaluate_redirect pton6 m from resp auto n; st = rs_status_code resp in
   (if rd_follow d
    then auto \<and> n \<noteq> 0 \<and> st \<in> {301, 302, 303, 307, 308} \<and> take 8 (rd_new_url d) = ''https://'' \<and>
         (if st = 303 \<and> m \<noteq> ''HEAD'' \<or> st \<in> {301, 302} \<and> m = ''POST''
          then rd_new_method d = ''GET'' \<and> rd_drop_body d
          else rd_new_method d = m \<and> rd_drop_body d = (st = 303))
    else d = no_redirect m)"
  by (auto simp: evaluate_redirect_def no_redirect_def Let_def is_redirect_status_def url_to_string_def
      split: option.splits)

end
