(* ===== verification/Http_Date.thy ===== *)
theory Http_Date
  imports Kat_Decimal "HOL-Library.Signed_Division"
begin

text \<open>
  \<^verbatim>\<open>src/core/http_date.{h,cc}\<close>: the three HTTP date forms of RFC 9110 and the printer of the
  preferred one.  Calendar values are unbounded integers: every value the code computes fits its
  machine type (years are at most four digits), so no operation wraps.  Division is the truncating
  division of C++, \<open>sdiv\<close> and \<open>smod\<close>.
\<close>

definition i32_max :: int where "i32_max = 2147483647"
definition i32_min :: int where "i32_min = - 2147483648"

subsection \<open>Lexing\<close>

function split_spaces :: "string \<Rightarrow> string list" where
  "split_spaces value =
     (if value = [] then []
      else
        let rest = dropWhile is_ows value;
            tok = takeWhile (\<lambda>c. \<not> is_ows c) rest;
            rest' = dropWhile (\<lambda>c. \<not> is_ows c) rest
        in if tok \<noteq> [] then tok # split_spaces rest' else split_spaces rest')"
  by pat_completeness auto
termination
proof (relation "measure length", goal_cases)
  case (2 v r t r')
  then have t: "takeWhile (\<lambda>c. \<not> is_ows c) r \<noteq> []" and r': "r' = dropWhile (\<lambda>c. \<not> is_ows c) r"
    by auto
  from t obtain a l where "r = a # l" "\<not> is_ows a" by (cases r) (auto split: if_splits)
  then have "length r' < length r" using r' by (simp add: le_imp_less_Suc length_dropWhile_le)
  also have "length r \<le> length v" using 2 by (simp add: length_dropWhile_le)
  finally show ?case by simp
next
  case (3 v r t r')
  then have r: "r = dropWhile is_ows v" and t: "takeWhile (\<lambda>c. \<not> is_ows c) r = []" by auto
  have "r = []"
  proof (rule ccontr)
    assume ne: "r \<noteq> []"
    then have "\<not> is_ows (hd r)" unfolding r by (rule hd_dropWhile)
    with ne t show False by (cases r) auto
  qed
  with 3 show ?case by (cases v) auto
qed simp

declare split_spaces.simps [simp del]

definition valid_weekday :: "string \<Rightarrow> bool \<Rightarrow> bool" where
  "valid_weekday value long_form =
     (if long_form
      then list_ex (ascii_iequals value)
        [''Sunday'', ''Monday'', ''Tuesday'', ''Wednesday'', ''Thursday'', ''Friday'', ''Saturday'']
      else list_ex (ascii_iequals value)
        [''Sun'', ''Mon'', ''Tue'', ''Wed'', ''Thu'', ''Fri'', ''Sat''])"

definition parse_number :: "string \<Rightarrow> nat \<Rightarrow> nat \<Rightarrow> int option" where
  "parse_number value min_digits max_digits =
     (if length value < min_digits \<or> length value > max_digits then None
      else if \<not> list_all is_digit value then None
      else case from_chars_int i32_min i32_max value of (ec, v, n) \<Rightarrow>
        if ec = Errc_ok \<and> n = length value then Some v else None)"

text \<open>0 is the answer for a name that is no month.\<close>

definition month_number :: "string \<Rightarrow> int" where
  "month_number value =
     (if length value \<noteq> 3 then 0
      else case find_if (ascii_iequals value)
             [''jan'', ''feb'', ''mar'', ''apr'', ''may'', ''jun'', ''jul'', ''aug'', ''sep'', ''oct'',
              ''nov'', ''dec''] of
        None \<Rightarrow> 0 | Some i \<Rightarrow> int i + 1)"

definition parse_time :: "string \<Rightarrow> (int \<times> int \<times> int) option" where
  "parse_time value =
     (if length value \<noteq> 8 \<or> value ! 2 \<noteq> CHR '':'' \<or> value ! 5 \<noteq> CHR '':'' then None
      else case parse_number (substr value 0 2) 2 2 of
        None \<Rightarrow> None
      | Some hour \<Rightarrow>
          (case parse_number (substr value 3 2) 2 2 of
             None \<Rightarrow> None
           | Some minute \<Rightarrow>
               (case parse_number (substr value 6 2) 2 2 of
                  None \<Rightarrow> None
                | Some second \<Rightarrow> Some (hour, minute, second))))"

subsection \<open>The calendar\<close>

definition leap_year :: "int \<Rightarrow> bool" where
  "leap_year year \<longleftrightarrow> year smod 4 = 0 \<and> (year smod 100 \<noteq> 0 \<or> year smod 400 = 0)"

definition days_in_month :: "int \<Rightarrow> int \<Rightarrow> int" where
  "days_in_month year month =
     (if month = 2 \<and> leap_year year then 29
      else [31, 28, 31, 30, 31, 30, 31, 31, 30, 31, 30, 31] ! nat (month - 1))"

definition days_from_civil :: "int \<Rightarrow> int \<Rightarrow> int \<Rightarrow> int" where
  "days_from_civil year0 month day =
     (let year = year0 - (if month \<le> 2 then 1 else 0);
          era = (if year \<ge> 0 then year else year - 399) sdiv 400;
          year_of_era = year - era * 400;
          adjusted_month = (if month > 2 then month - 3 else month + 9);
          day_of_year = (153 * adjusted_month + 2) sdiv 5 + day - 1;
          day_of_era = year_of_era * 365 + year_of_era sdiv 4 - year_of_era sdiv 100 + day_of_year
      in era * 146097 + day_of_era - 719468)"

definition civil_from_days :: "int \<Rightarrow> int \<times> int \<times> int" where
  "civil_from_days days0 =
     (let days = days0 + 719468;
          era = (if days \<ge> 0 then days else days - 146096) sdiv 146097;
          day_of_era = days - era * 146097;
          year_of_era = (day_of_era - day_of_era sdiv 1460 + day_of_era sdiv 36524
                          - day_of_era sdiv 146096) sdiv 365;
          year = year_of_era + era * 400;
          day_of_year = day_of_era - (365 * year_of_era + year_of_era sdiv 4 - year_of_era sdiv 100);
          adjusted_month = (5 * day_of_year + 2) sdiv 153;
          day = day_of_year - (153 * adjusted_month + 2) sdiv 5 + 1;
          month = (if adjusted_month < 10 then adjusted_month + 3 else adjusted_month - 9)
      in (year + (if month \<le> 2 then 1 else 0), month, day))"

definition append_fixed_decimal :: "string \<Rightarrow> nat \<Rightarrow> nat \<Rightarrow> string" where
  "append_fixed_decimal out value width =
     (let s = to_string value; digits = length s
      in out @ replicate (if width > digits then width - digits else 0) (CHR ''0'') @ s)"

definition make_timestamp :: "int \<Rightarrow> int \<Rightarrow> int \<Rightarrow> int \<Rightarrow> int \<Rightarrow> int \<Rightarrow> int option" where
  "make_timestamp year month day hour minute second =
     (if year < 1601 \<or> month < 1 \<or> month > 12 \<or> day < 1 \<or> day > days_in_month year month \<or>
         hour < 0 \<or> hour > 23 \<or> minute < 0 \<or> minute > 59 \<or> second < 0 \<or> second > 60 then None
      else
        let days = days_from_civil year month day in
        if days > i64_max sdiv 86400 \<or> days < i64_min sdiv 86400 then None
        else
          let day_seconds = days * 86400;
              seconds_of_day = hour * 3600 + minute * 60 + second
          in if day_seconds > i64_max - seconds_of_day \<or> day_seconds < i64_min + seconds_of_day
             then None else Some (day_seconds + seconds_of_day))"

subsection \<open>Parsing\<close>

text \<open>\<^verbatim>\<open>std::array\<close>'s lexicographic \<^verbatim>\<open>>\<close>.\<close>

fun array_greater :: "int list \<Rightarrow> int list \<Rightarrow> bool" where
  "array_greater (x # xs) (y # ys) = (x > y \<or> x = y \<and> array_greater xs ys)"
| "array_greater xs ys = (xs \<noteq> [] \<and> ys = [])"

text \<open>The four-digit year of an RFC 850 date, relative to the reference clock.\<close>

definition rfc850_year ::
  "nat \<Rightarrow> int \<Rightarrow> int \<Rightarrow> int \<Rightarrow> int \<Rightarrow> int \<Rightarrow> int \<Rightarrow> int" where
  "rfc850_year reference_seconds two_digits month day hour minute second =
     (let (reference_year, reference_month, reference_day) =
            civil_from_days (int (reference_seconds div 86400));
          reference_time = int (reference_seconds mod 86400);
          year = two_digits + ((reference_year + 50) sdiv 100) * 100;
          candidate = [year, month, day, hour, minute, second];
          future_limit = [reference_year + 50, reference_month, reference_day,
                          reference_time sdiv 3600, (reference_time sdiv 60) smod 60,
                          reference_time smod 60]
      in if array_greater candidate future_limit then year - 100 else year)"

definition parse_imf_fixdate :: "string \<Rightarrow> string list \<Rightarrow> int option" where
  "parse_imf_fixdate weekday fields =
     (if \<not> valid_weekday weekday False then None
      else case parse_number (fields ! 0) 2 2 of
        None \<Rightarrow> None
      | Some day \<Rightarrow>
          if month_number (fields ! 1) = 0 then None
          else case parse_number (fields ! 2) 4 4 of
            None \<Rightarrow> None
          | Some year \<Rightarrow>
              (case parse_time (fields ! 3) of
                 None \<Rightarrow> None
               | Some (hour, minute, second) \<Rightarrow>
                   if \<not> ascii_iequals (fields ! 4) ''GMT'' then None
                   else make_timestamp year (month_number (fields ! 1)) day hour minute second))"

definition parse_rfc850 :: "string \<Rightarrow> string list \<Rightarrow> nat option \<Rightarrow> int option" where
  "parse_rfc850 weekday fields reference_seconds =
     (let date = fields ! 0; first_dash = find_char (CHR ''-'') date in
      if \<not> valid_weekday weekday True then None
      else case first_dash of
        None \<Rightarrow> None
      | Some d1 \<Rightarrow>
          (case find_char_from (CHR ''-'') (d1 + 1) date of
             None \<Rightarrow> None
           | Some d2 \<Rightarrow>
               if find_char_from (CHR ''-'') (d2 + 1) date \<noteq> None then None
               else if \<not> ascii_iequals (fields ! 2) ''GMT'' then None
               else case parse_number (take d1 date) 2 2 of
                 None \<Rightarrow> None
               | Some day \<Rightarrow>
                   let month = month_number (substr date (d1 + 1) (d2 - d1 - 1)) in
                   if month = 0 then None
                   else case parse_number (drop (d2 + 1) date) 2 2 of
                     None \<Rightarrow> None
                   | Some year \<Rightarrow>
                       (case parse_time (fields ! 1) of
                          None \<Rightarrow> None
                        | Some (hour, minute, second) \<Rightarrow>
                            (case reference_seconds of
                               None \<Rightarrow> None
                             | Some r \<Rightarrow>
                                 if r > 253402300799 then None
                                 else make_timestamp
                                        (rfc850_year r year month day hour minute second)
                                        month day hour minute second))))"

definition parse_asctime :: "string list \<Rightarrow> int option" where
  "parse_asctime fields =
     (if length fields \<noteq> 5 then None
      else
        let month = month_number (fields ! 1) in
        if \<not> valid_weekday (fields ! 0) False \<or> month = 0 then None
        else case parse_number (fields ! 2) 1 2 of
          None \<Rightarrow> None
        | Some day \<Rightarrow>
            (case parse_time (fields ! 3) of
               None \<Rightarrow> None
             | Some (hour, minute, second) \<Rightarrow>
                 (case parse_number (fields ! 4) 4 4 of
                    None \<Rightarrow> None
                  | Some year \<Rightarrow> make_timestamp year month day hour minute second)))"

definition parse_http_date :: "string \<Rightarrow> nat option \<Rightarrow> int option" where
  "parse_http_date value0 reference_seconds =
     (let value = trim_ows value0 in
      if value = [] then None
      else case find_char (CHR '','') value of
        Some comma \<Rightarrow>
          (let weekday = trim_ows (take comma value);
               fields = split_spaces (drop (comma + 1) value)
           in if length fields = 5 then parse_imf_fixdate weekday fields
              else if length fields = 3 then parse_rfc850 weekday fields reference_seconds
              else None)
      | None \<Rightarrow> parse_asctime (split_spaces value))"

subsection \<open>Printing\<close>

definition max_date_seconds :: nat where
  "max_date_seconds = nat (days_from_civil 9999 12 31 * 86400 + (86400 - 1))"

definition weekday_names :: "string list" where
  "weekday_names = [''Sun'', ''Mon'', ''Tue'', ''Wed'', ''Thu'', ''Fri'', ''Sat'']"

definition month_names :: "string list" where
  "month_names = [''Jan'', ''Feb'', ''Mar'', ''Apr'', ''May'', ''Jun'', ''Jul'', ''Aug'', ''Sep'',
                  ''Oct'', ''Nov'', ''Dec'']"

definition format_http_date :: "nat \<Rightarrow> string" where
  "format_http_date seconds0 =
     (let seconds = (if seconds0 > max_date_seconds then max_date_seconds else seconds0);
          days = int seconds sdiv 86400;
          seconds_of_day = int seconds smod 86400;
          (year, month, day) = civil_from_days days;
          out = (weekday_names ! nat ((days + 4) smod 7)) @ '', '';
          out = append_fixed_decimal out (nat day) 2 @ '' '' @ (month_names ! nat (month - 1)) @ '' '';
          out = append_fixed_decimal out (nat year) 4 @ '' '';
          out = append_fixed_decimal out (nat (seconds_of_day sdiv 3600)) 2 @ '':'';
          out = append_fixed_decimal out (nat ((seconds_of_day sdiv 60) smod 60)) 2 @ '':''
      in append_fixed_decimal out (nat (seconds_of_day smod 60)) 2 @ '' GMT'')"

subsection \<open>The day algorithms are inverse\<close>

text \<open>
  Days are counted within an era of 400 years that starts on 1 March.  \<open>year_start y\<close> is the first
  day of year \<open>y\<close> of the era; the formula for the year of a day of the era is monotone, so it is right
  on every day of a year when it is right on the first and the last one.
\<close>

definition year_start :: "int \<Rightarrow> int" where
  "year_start y = 365 * y + y div 4 - y div 100 + y div 400"

definition era_year_num :: "int \<Rightarrow> int" where
  "era_year_num doe = doe - doe div 1460 + doe div 36524 - doe div 146096"

lemma div_int_unique: "q * b \<le> a \<Longrightarrow> a < q * b + b \<Longrightarrow> a div b = (q::int)"
  by (rule int_div_pos_eq [of _ _ _ "a - q * b"]) (auto simp: algebra_simps)

lemma year_start_parts:
  assumes "0 \<le> c" "c < 4" "0 \<le> q" "q < 25" "0 \<le> r" "r < 4"
  shows "year_start (100 * c + 4 * q + r) = 36524 * c + 1461 * q + 365 * (r::int)"
proof -
  have "(100 * c + 4 * q + r) div 4 = 25 * c + q" using assms by (intro div_int_unique) auto
  moreover have "(100 * c + 4 * q + r) div 100 = c" using assms by (intro div_int_unique) auto
  moreover have "(100 * c + 4 * q + r) div 400 = 0" using assms by (intro div_int_unique) auto
  ultimately show ?thesis by (simp add: year_start_def)
qed

lemma era_year_num_bounds:
  assumes "0 \<le> c" "c < 4" "0 \<le> q" "q < 25" "0 \<le> r" "r < (4::int)"
    and "36524 * c + 1461 * q + 365 * r \<le> d" "d \<le> 36524 * c + 1461 * q + 365 * r + 364 + e"
    and "e = (if r = 3 \<and> (q < 24 \<or> c = 3) then 1 else 0)"
  shows "era_year_num d div 365 = 100 * c + 4 * q + r"
proof -
  define k where "k = d div 1460"
  have k: "1460 * k \<le> d" "d < 1460 * k + 1460" by (auto simp: k_def)
  have 1: "d div 36524 = (if d = 146096 then 4 else c)"
    using assms by (intro div_int_unique) (auto split: if_splits)
  have 2: "d div 146096 = (if d = 146096 then 1 else 0)"
    using assms by (intro div_int_unique) (auto split: if_splits)
  have "k = 25 * c + q \<or> k = 25 * c + q + 1" using k assms by (auto split: if_splits)
  then have "365 * (100 * c + 4 * q + r) \<le> era_year_num d"
    unfolding era_year_num_def 1 2 k_def[symmetric] using assms k
    by (auto split: if_splits)
  moreover have "k = 25 * c + q \<Longrightarrow> d \<le> 36524 * c + 1461 * q + 365 * r + 364"
    using k assms by (auto split: if_splits)
  then have "era_year_num d < 365 * (100 * c + 4 * q + r) + 365"
    unfolding era_year_num_def 1 2 k_def[symmetric] using assms k \<open>k = _ \<or> k = _\<close>
    by (auto split: if_splits)
  ultimately show ?thesis by (intro div_int_unique) auto
qed
lemma year_cases:
  fixes S :: "nat \<Rightarrow> int"
  shows "S 0 \<le> d \<Longrightarrow> d < S n \<Longrightarrow> \<exists>y<n. S y \<le> d \<and> d < S (Suc y)"
proof (induction n)
  case (Suc n)
  then show ?case by (cases "d < S n") (auto intro: less_SucI)
qed simp

text \<open>Whether year \<open>y\<close> of the era ends with a 29 February.\<close>

definition long_year :: "int \<Rightarrow> bool" where
  "long_year y \<longleftrightarrow> (y + 1) mod 4 = 0 \<and> ((y + 1) mod 100 \<noteq> 0 \<or> (y + 1) mod 400 = 0)"

lemma div_step: "0 < n \<Longrightarrow> (y + 1) div n = y div n + (if (y + 1) mod n = 0 then 1 else (0::int))"
proof -
  assume n: "0 < n"
  define q m where "q = (y + 1) div n" and "m = (y + 1) mod n"
  then have "y + 1 = q * n + m" by simp
  then have y: "y = q * n + m - 1" by simp
  have m: "0 \<le> m" "m < n" using n by (auto simp: m_def)
  have "y div n = (if m = 0 then q - 1 else q)"
    using m by (intro div_int_unique) (auto simp: y algebra_simps)
  then show ?thesis unfolding q_def [symmetric] m_def [symmetric] by simp
qed

lemma regroup:
  "365 * (y + 1) + (a + a') - (b + b') + (c + c') = 365 * y + a - b + c + 365 + a' - b' + (c'::int)"
  by simp

lemma year_start_step:
  assumes "0 \<le> y" "y < 400"
  shows "year_start (y + 1) = year_start y + 365 + (if long_year y then 1 else 0)"
proof -
  have "(100::int) dvd 400" "(4::int) dvd 100" by simp_all
  then have sub: "(y + 1) mod 400 = 0 \<Longrightarrow> (y + 1) mod 100 = 0"
    "(y + 1) mod 100 = 0 \<Longrightarrow> (y + 1) mod 4 = 0"
    unfolding mod_eq_0_iff_dvd by (blast intro: dvd_trans)+
  define A B C where A: "A \<longleftrightarrow> (y + 1) mod 4 = 0" and B: "B \<longleftrightarrow> (y + 1) mod 100 = 0"
    and C: "C \<longleftrightarrow> (y + 1) mod 400 = 0"
  have i: "C \<longrightarrow> B" "B \<longrightarrow> A" using sub unfolding A B C by blast+
  have d: "(y + 1) div 4 = y div 4 + of_bool A" "(y + 1) div 100 = y div 100 + of_bool B"
    "(y + 1) div 400 = y div 400 + of_bool C"
    unfolding A B C of_bool_def by (rule div_step, simp)+
  have "year_start (y + 1) = year_start y + 365 + of_bool A - of_bool B + of_bool C"
    unfolding year_start_def d by (rule regroup)
  moreover have "long_year y \<longleftrightarrow> A \<and> (\<not> B \<or> C)" unfolding long_year_def A B C by blast
  ultimately show ?thesis using i by (cases A; cases B; cases C) (simp_all only: of_bool_eq simp_thms if_True if_False diff_0_right add_0_right diff_add_cancel)
qed

lemma era_year:
  assumes "0 \<le> doe" "doe < 146097"
  obtains y where "0 \<le> y" "y < 400" "era_year_num doe div 365 = y"
    "year_start y \<le> doe" "doe < year_start y + 365 + (if long_year y then 1 else 0)"
proof -
  have "year_start 0 = 0" "year_start 400 = 146097" by (simp_all add: year_start_def)
  then obtain n where n: "n < 400" "year_start (int n) \<le> doe" "doe < year_start (int (Suc n))"
    using year_cases [of "\<lambda>k. year_start (int k)" doe 400] assms by auto
  define y where "y = int n"
  have y: "0 \<le> y" "y < 400" "year_start y \<le> doe" "doe < year_start (y + 1)"
    using n by (auto simp: y_def add.commute)
  define c z where "c = y div 100" and "z = y mod 100"
  define q r where "q = z div 4" and "r = z mod 4"
  have yz: "y = 100 * c + z" and z: "0 \<le> z" "z < 100" by (auto simp: c_def z_def)
  have z4: "z = 4 * q + r" by (auto simp: q_def r_def)
  have parts: "y = 100 * c + 4 * q + r" using yz z4 by simp
  have b: "0 \<le> c" "c < 4" unfolding c_def using y(1,2) by linarith+
  have b': "0 \<le> q" "q < 25" "0 \<le> r" "r < 4" unfolding q_def r_def using z by linarith+
  have "y + 1 = (r + 1) + (25 * c + q) * 4" using parts by simp
  then have "(y + 1) mod 4 = (r + 1) mod 4" by (metis mod_mult_self1)
  then have m4: "(y + 1) mod 4 = 0 \<longleftrightarrow> r = 3"
    using b'(3,4) mod_pos_pos_trivial [of "r + 1" 4] by (cases "r = 3") simp_all
  have "y + 1 = (z + 1) + c * 100" using yz by simp
  then have "(y + 1) mod 100 = (z + 1) mod 100" by (metis mod_mult_self1)
  then have m100: "(y + 1) mod 100 = 0 \<longleftrightarrow> z = 99"
    using z mod_pos_pos_trivial [of "z + 1" 100] by (cases "z = 99") simp_all
  have m400: "(y + 1) mod 400 = 0 \<longleftrightarrow> y = 399"
    using y(1,2) mod_pos_pos_trivial [of "y + 1" 400] by (cases "y = 399") simp_all
  have "long_year y \<longleftrightarrow> r = 3 \<and> (q < 24 \<or> c = 3)"
    unfolding long_year_def m4 m100 m400 using b b' z4 yz by auto
  then have "era_year_num doe div 365 = y"
    using era_year_num_bounds [OF b b', of doe] year_start_parts [OF b b'] y year_start_step [of y] parts
    by (auto split: if_splits)
  with y year_start_step [of y] show ?thesis using that by simp
qed

subsection \<open>A day and its date\<close>

lemma sdiv_pos: "0 \<le> a \<Longrightarrow> 0 < b \<Longrightarrow> a sdiv b = a div (b::int)"
proof -
  assume a: "0 \<le> a" "0 < b"
  then show ?thesis
  proof (cases "a = 0")
    case False
    with a have "sgn a = 1" "sgn b = 1" "\<bar>a\<bar> = a" "\<bar>b\<bar> = b" by auto
    then show ?thesis unfolding signed_divide_int_def by simp
  qed (simp add: signed_divide_int_def)
qed

lemma smod_pos: "0 \<le> a \<Longrightarrow> 0 < b \<Longrightarrow> a smod b = a mod (b::int)"
  by (cases "a = 0") (auto simp: signed_modulo_int_def)

lemma leap_year_long:
  assumes "0 \<le> y" "0 \<le> era" "y < 400"
  shows "leap_year (y + era * 400 + 1) \<longleftrightarrow> long_year y"
proof -
  have e: "y + era * 400 + 1 = (y + 1) + (era * 100) * 4" "y + era * 400 + 1 = (y + 1) + (era * 4) * 100"
    "y + era * 400 + 1 = (y + 1) + era * 400" by simp_all
  have m: "(y + era * 400 + 1) mod 4 = (y + 1) mod 4" "(y + era * 400 + 1) mod 100 = (y + 1) mod 100"
    "(y + era * 400 + 1) mod 400 = (y + 1) mod 400"
    by (metis e(1) mod_mult_self1, metis e(2) mod_mult_self1, metis e(3) mod_mult_self1)
  have "0 \<le> y + era * 400 + 1" using assms by simp
  then show ?thesis unfolding leap_year_def long_year_def by (simp add: smod_pos) (simp only: m)
qed

text \<open>Month and day of a day of the year that starts in March.\<close>

lemma month_of_day:
  fixes doy :: int
  assumes "0 \<le> doy" "doy < 366" "mp = (5 * doy + 2) div 153" "day = doy - (153 * mp + 2) div 5 + 1"
    "month = (if mp < 10 then mp + 3 else mp - 9)"
  shows "0 \<le> mp" "mp < 12" "1 \<le> day" "1 \<le> month" "month \<le> 12"
    "day \<le> (if month = 2 then 29 else [31, 28, 31, 30, 31, 30, 31, 31, 30, 31, 30, 31] ! nat (month - 1))"
    "month = 2 \<and> day = 29 \<longrightarrow> doy = 365" "doy < 306 \<longrightarrow> 2 < month"
proof -
  have k: "153 * mp \<le> 5 * doy + 2" "5 * doy + 2 < 153 * mp + 153" using assms(3) by auto
  then have "0 \<le> mp" "mp < 12" using assms(1,2) by auto
  then have "mp \<in> {0, 1, 2, 3, 4, 5, 6, 7, 8, 9, 10, 11}" unfolding insert_iff empty_iff by presburger
  then have "0 \<le> mp \<and> mp < 12 \<and> 1 \<le> day \<and> 1 \<le> month \<and> month \<le> 12 \<and>
    day \<le> (if month = 2 then 29 else [31, 28, 31, 30, 31, 30, 31, 31, 30, 31, 30, 31] ! nat (month - 1)) \<and>
    (month = 2 \<and> day = 29 \<longrightarrow> doy = 365) \<and> (doy < 306 \<longrightarrow> 2 < month)"
    unfolding assms(4,5) using k assms(2) by (elim insertE) (simp_all add: eval_nat_numeral)
  then show "0 \<le> mp" "mp < 12" "1 \<le> day" "1 \<le> month" "month \<le> 12"
    "day \<le> (if month = 2 then 29 else [31, 28, 31, 30, 31, 30, 31, 31, 30, 31, 30, 31] ! nat (month - 1))"
    "month = 2 \<and> day = 29 \<longrightarrow> doy = 365" "doy < 306 \<longrightarrow> 2 < month" by blast+
qed

text \<open>The parts of a date and the day it came from.\<close>

lemma civil_from_days_parts:
  assumes "0 \<le> d"
  obtains era y doy mp where
    "0 \<le> era" "0 \<le> y" "y < 400" "0 \<le> doy" "doy < 365 + (if long_year y then 1 else 0)"
    "mp = (5 * doy + 2) div 153" "d + 719468 = era * 146097 + (365 * y + y div 4 - y div 100 + doy)"
    "civil_from_days d =
       (y + era * 400 + (if (if mp < 10 then mp + 3 else mp - 9) \<le> 2 then 1 else 0),
        if mp < 10 then mp + 3 else mp - 9, doy - (153 * mp + 2) div 5 + 1)"
proof -
  define n where "n = d + 719468"
  define era doe where "era = n div 146097" and "doe = n - era * 146097"
  have n: "0 \<le> n" using assms by (simp add: n_def)
  have doe: "0 \<le> doe" "doe < 146097" "0 \<le> era"
    using n by (auto simp: doe_def era_def minus_div_mult_eq_mod pos_imp_zdiv_nonneg_iff)
  obtain y where y: "0 \<le> y" "y < 400" "era_year_num doe div 365 = y" "year_start y \<le> doe"
    "doe < year_start y + 365 + (if long_year y then 1 else 0)"
    by (rule era_year [OF doe(1,2)])
  define doy where "doy = doe - (365 * y + y div 4 - y div 100)"
  have "y div 400 = 0" using y by simp
  then have ys: "year_start y = 365 * y + y div 4 - y div 100" by (simp add: year_start_def)
  have doy: "0 \<le> doy" "doy < 365 + (if long_year y then 1 else 0)"
    using y(4,5) unfolding ys doy_def by linarith+
  define mp where "mp = (5 * doy + 2) div 153"
  have e1: "(if 0 \<le> n then n else n - 146096) sdiv 146097 = era" using n by (simp add: era_def sdiv_pos)
  have e2: "(doe - doe sdiv 1460 + doe sdiv 36524 - doe sdiv 146096) sdiv 365 = y"
  proof -
    have "0 \<le> era_year_num doe" using y(1,3) by (simp add: pos_imp_zdiv_nonneg_iff)
    then show ?thesis using doe y(3) by (simp add: sdiv_pos era_year_num_def)
  qed
  have e3: "doe - (365 * y + y sdiv 4 - y sdiv 100) = doy" using y by (simp add: doy_def sdiv_pos)
  have e4: "(5 * doy + 2) sdiv 153 = mp" using doy by (simp add: mp_def sdiv_pos)
  have "0 \<le> mp" using doy by (simp add: mp_def)
  then have e5: "(153 * mp + 2) sdiv 5 = (153 * mp + 2) div 5" by (simp add: sdiv_pos)
  have civil: "civil_from_days d =
       (y + era * 400 + (if (if mp < 10 then mp + 3 else mp - 9) \<le> 2 then 1 else 0),
        if mp < 10 then mp + 3 else mp - 9, doy - (153 * mp + 2) div 5 + 1)"
    unfolding civil_from_days_def Let_def n_def [symmetric] e1 doe_def [symmetric] e2 e3 e4 e5 ..
  have "n = era * 146097 + (365 * y + y div 4 - y div 100 + doy)" by (simp add: doe_def doy_def)
  then show ?thesis using that [OF doe(3) y(1,2) doy mp_def _ civil] by (simp add: n_def)
qed

lemma civil_round_trip:
  assumes "0 \<le> d" "d \<le> 2932896" "civil_from_days d = (year, month, day)"
  shows "days_from_civil year month day = d" "1601 \<le> year" "year \<le> 9999" "1 \<le> month" "month \<le> 12"
    "1 \<le> day" "day \<le> days_in_month year month"
proof -
  obtain era y doy mp where era: "0 \<le> era" "0 \<le> y" "y < 400" "0 \<le> doy"
      "doy < 365 + (if long_year y then 1 else 0)" "mp = (5 * doy + 2) div 153"
    and d: "d + 719468 = era * 146097 + (365 * y + y div 4 - y div 100 + doy)"
    and civil: "civil_from_days d =
       (y + era * 400 + (if (if mp < 10 then mp + 3 else mp - 9) \<le> 2 then 1 else 0),
        if mp < 10 then mp + 3 else mp - 9, doy - (153 * mp + 2) div 5 + 1)"
    by (rule civil_from_days_parts [OF assms(1)])
  have month: "month = (if mp < 10 then mp + 3 else mp - 9)"
    and day: "day = doy - (153 * mp + 2) div 5 + 1"
    and year: "year = y + era * 400 + (if month \<le> 2 then 1 else 0)" using civil assms(3) by auto
  have "doy < 366" using era(5) by (auto split: if_splits)
  note M = month_of_day [OF era(4) this era(6) day month]
  show "1 \<le> month" "month \<le> 12" "1 \<le> day" by (rule M)+
  have yd: "year - (if month \<le> 2 then 1 else 0) = y + era * 400" by (simp add: year)
  have mp: "(if month > 2 then month - 3 else month + 9) = mp" using M(1,2) by (auto simp: month)
  have era': "(if 0 \<le> y + era * 400 then y + era * 400 else y + era * 400 - 399) sdiv 400 = era"
    using era by (simp add: sdiv_pos)
  show "days_from_civil year month day = d"
    unfolding days_from_civil_def Let_def yd mp era' using era M(1) d day by (simp add: sdiv_pos)
  show "day \<le> days_in_month year month"
  proof (cases "month = 2 \<and> day = 29")
    case True
    then have "long_year y" using M(7) era(5) by (auto split: if_splits)
    then have "leap_year year" using leap_year_long [OF era(2,1,3)] True by (simp add: year)
    then show ?thesis using True by (simp add: days_in_month_def)
  next
    case False
    then show ?thesis using M(6) by (auto simp: days_in_month_def split: if_splits)
  qed
  have yb: "0 \<le> y div 4" "y div 4 \<le> 99" "0 \<le> y div 100" "y div 100 \<le> 3" using era by auto
  have "era < 25" using d assms(2) yb era by linarith
  moreover have "era = 24 \<and> y = 399 \<longrightarrow> doy < 306" using d assms(2) by auto
  ultimately show "year \<le> 9999" using M(8) era year by (auto split: if_splits)
  have "era \<ge> 4" using d assms(1) yb era \<open>doy < 366\<close> by linarith
  moreover have "era = 4 \<longrightarrow> y \<noteq> 0" using d assms(1) \<open>doy < 366\<close> by auto
  ultimately show "1601 \<le> year" using era(2) year by (cases "era = 4") auto
qed

subsection \<open>Printing and parsing back\<close>

definition fixed :: "nat \<Rightarrow> nat \<Rightarrow> string" where
  "fixed v w = replicate (w - length (to_string v)) (CHR ''0'') @ to_string v"

lemma append_fixed_decimal_eq: "append_fixed_decimal out v w = out @ fixed v w"
  by (simp add: append_fixed_decimal_def fixed_def Let_def)

lemma digits_value_zeros: "digits_value (replicate k (CHR ''0'') @ ds) = digits_value ds"
  by (induction k) (simp_all add: digits_value_def digit_value_def)

lemma fixed_facts:
  assumes "v < 10 ^ w" "0 < w"
  shows "length (fixed v w) = w" "\<forall>c\<in>set (fixed v w). is_digit c" "digits_value (fixed v w) = v"
  using assms length_to_string_lt [OF assms] to_string_digits [of v]
  by (auto simp: fixed_def digits_value_zeros is_digit_def)

lemma from_chars_int_digits:
  assumes "s \<noteq> []" "\<forall>c\<in>set s. is_digit c" "lo \<le> int (digits_value s)" "int (digits_value s) \<le> hi"
  shows "from_chars_int lo hi s = (Errc_ok, int (digits_value s), length s)"
proof -
  have b: "(case s of c # cs \<Rightarrow> if c = CHR ''-'' then (True, cs) else (False, s) | [] \<Rightarrow> (False, s)) = (False, s)"
    using assms(2) by (cases s) (auto simp: is_digit_def)
  have t: "takeWhile is_digit s = s" using assms(2) by (rule takeWhile_all)
  show ?thesis unfolding from_chars_int_def b Let_def prod.case t using assms by simp
qed

lemma parse_number_fixed:
  assumes "v < 10 ^ w" "0 < w" "lo \<le> w" "w \<le> hi" "int v \<le> i32_max"
  shows "parse_number (fixed v w) lo hi = Some (int v)"
proof -
  note F = fixed_facts [OF assms(1,2)]
  have "fixed v w \<noteq> []" using F(1) assms(2) by auto
  from from_chars_int_digits [OF this F(2)] F assms show ?thesis
    by (simp add: parse_number_def list_all_iff i32_min_def)
qed

lemma not_ows_digit: "is_digit c \<Longrightarrow> \<not> is_ows c"
  by (auto simp: is_digit_def is_ows_def)

lemma split_spaces_token:
  assumes "tok \<noteq> []" "\<forall>c\<in>set tok. \<not> is_ows c" "rest = [] \<or> is_ows (hd rest)"
  shows "split_spaces (CHR '' '' # tok @ rest) = tok # split_spaces rest"
proof -
  obtain t ts where tok: "tok = t # ts" using assms(1) by (cases tok) auto
  have d: "dropWhile is_ows (CHR '' '' # tok @ rest) = tok @ rest"
    using assms(2) tok by (simp add: is_ows_def)
  have t: "takeWhile (\<lambda>c. \<not> is_ows c) (tok @ rest) = tok" "dropWhile (\<lambda>c. \<not> is_ows c) (tok @ rest) = rest"
    using assms(2,3) by (cases rest; simp add: takeWhile_append2 dropWhile_append2)+
  show ?thesis by (subst split_spaces.simps) (use d t assms(1) in \<open>simp add: Let_def\<close>)
qed

lemma split_spaces_next:
  "tok \<noteq> [] \<Longrightarrow> \<forall>c\<in>set tok. \<not> is_ows c \<Longrightarrow>
     split_spaces (CHR '' '' # tok @ CHR '' '' # rest) = tok # split_spaces (CHR '' '' # rest)"
  by (rule split_spaces_token) (simp_all add: is_ows_def)

lemma list_len2: "length xs = 2 \<Longrightarrow> \<exists>a b. xs = [a, b]"
  by (cases xs; cases "tl xs") auto

lemma parse_time_fixed:
  assumes "h < 100" "m < 100" "s < 100"
  shows "parse_time (fixed h 2 @ '':'' @ fixed m 2 @ '':'' @ fixed s 2) = Some (int h, int m, int s)"
proof -
  have p: "parse_number (fixed v 2) 2 2 = Some (int v)" if "v < 100" for v
    using that by (intro parse_number_fixed) (auto simp: i32_max_def)
  have l: "length (fixed v 2) = 2" if "v < 100" for v using that by (intro fixed_facts) auto
  obtain a b where h: "fixed h 2 = [a, b]" using list_len2 [OF l [OF assms(1)]] by blast
  obtain c d where m: "fixed m 2 = [c, d]" using list_len2 [OF l [OF assms(2)]] by blast
  obtain e f where s: "fixed s 2 = [e, f]" using list_len2 [OF l [OF assms(3)]] by blast
  show ?thesis
    using p [OF assms(1)] p [OF assms(2)] p [OF assms(3)]
    unfolding h m s by (simp add: parse_time_def substr_def)
qed

lemma month_number_name: "1 \<le> m \<Longrightarrow> m \<le> 12 \<Longrightarrow> month_number (month_names ! nat (m - 1)) = m"
proof -
  assume "1 \<le> m" "m \<le> 12"
  then have "m \<in> {1, 2, 3, 4, 5, 6, 7, 8, 9, 10, 11, 12}" unfolding insert_iff empty_iff by presburger
  moreover have "list_all (\<lambda>m. month_number (month_names ! nat (m - 1)) = m)
      [1, 2, 3, 4, 5, 6, 7, 8, 9, 10, 11, 12]" by code_simp
  ultimately show ?thesis by (auto simp only: list_all_iff list.set)
qed

definition name_ok :: "string \<Rightarrow> bool" where
  "name_ok s \<longleftrightarrow> length s = 3 \<and> list_all (\<lambda>c. \<not> is_ows c \<and> c \<noteq> CHR '','') s"

lemma name_okD:
  assumes "name_ok s"
  shows "\<forall>c\<in>set s. \<not> is_ows c" "s \<noteq> []" "CHR '','' \<notin> set s" "\<not> is_ows (hd s)" "\<not> is_ows (last s)"
proof -
  have s: "length s = 3" "\<And>c. c \<in> set s \<Longrightarrow> \<not> is_ows c \<and> c \<noteq> CHR '','' "
    using assms unfolding name_ok_def list_all_iff by blast+
  show "\<forall>c\<in>set s. \<not> is_ows c" "CHR '','' \<notin> set s" using s(2) by blast+
  show ne: "s \<noteq> []" using s(1) by force
  show "\<not> is_ows (hd s)" "\<not> is_ows (last s)" using s(2) ne by simp_all
qed

lemma names_ok: "list_all name_ok weekday_names" "list_all name_ok month_names"
  "length weekday_names = 7" "length month_names = 12" "list_all (\<lambda>w. valid_weekday w False) weekday_names"
  by code_simp+

lemma nth_ok: "list_all P xs \<Longrightarrow> n < length xs \<Longrightarrow> P (xs ! n)"
  by (simp add: list_all_length)

lemma max_date_seconds_eq: "max_date_seconds = 253402300799"
  by code_simp

text \<open>The printed date, its parts named.\<close>

lemma format_http_date_parts:
  assumes "s \<le> max_date_seconds"
  obtains y m d h mi sec wd where
    "int s = days_from_civil y m d * 86400 + h * 3600 + mi * 60 + sec"
    "1601 \<le> y" "y \<le> 9999" "1 \<le> m" "m \<le> 12" "1 \<le> d" "d \<le> days_in_month y m"
    "0 \<le> h" "h < 24" "0 \<le> mi" "mi < 60" "0 \<le> sec" "sec < 60" "wd < 7"
    "format_http_date s = (weekday_names ! wd) @ '', '' @ fixed (nat d) 2 @ '' '' @
       (month_names ! nat (m - 1)) @ '' '' @ fixed (nat y) 4 @ '' '' @
       (fixed (nat h) 2 @ '':'' @ fixed (nat mi) 2 @ '':'' @ fixed (nat sec) 2) @ '' GMT''"
proof -
  define days r where "days = int s div 86400" and "r = int s mod 86400"
  obtain y m d where c: "civil_from_days days = (y, m, d)" by (cases "civil_from_days days") auto
  have days: "0 \<le> days" "days \<le> 2932896" using assms by (auto simp: days_def max_date_seconds_eq)
  note C = civil_round_trip [OF days c]
  define h mi sec where "h = r div 3600" and "mi = r div 60 mod 60" and "sec = r mod 60"
  have r: "0 \<le> r" "r < 86400" by (auto simp: r_def)
  have "r = h * 3600 + mi * 60 + sec"
  proof -
    have "r div 3600 = r div 60 div 60" using zdiv_zmult2_eq [of 60 r 60] by simp
    then show ?thesis unfolding h_def mi_def sec_def by presburger
  qed
  then have 1: "int s = days_from_civil y m d * 86400 + h * 3600 + mi * 60 + sec"
    using C(1) div_mult_mod_eq [of "int s" 86400] by (simp add: days_def r_def)
  have 2: "0 \<le> h" "h < 24" "0 \<le> mi" "mi < 60" "0 \<le> sec" "sec < 60"
    using r by (auto simp: h_def mi_def sec_def)
  have 3: "nat ((days + 4) mod 7) < 7" by (simp add: nat_less_iff)
  have pos: "int s sdiv 86400 = days" "int s smod 86400 = r" "r sdiv 3600 = h"
    "(r sdiv 60) smod 60 = mi" "r smod 60 = sec" "(days + 4) smod 7 = (days + 4) mod 7"
    using r days by (auto simp: days_def r_def h_def mi_def sec_def sdiv_pos smod_pos)
  have 4: "format_http_date s = (weekday_names ! nat ((days + 4) mod 7)) @ '', '' @ fixed (nat d) 2 @ '' '' @
       (month_names ! nat (m - 1)) @ '' '' @ fixed (nat y) 4 @ '' '' @
       (fixed (nat h) 2 @ '':'' @ fixed (nat mi) 2 @ '':'' @ fixed (nat sec) 2) @ '' GMT''"
    using assms by (simp add: format_http_date_def Let_def pos c append_fixed_decimal_eq)
  from that [OF 1 C(2-7) 2 3 4] show ?thesis .
qed

lemma dim_le: "1 \<le> m \<Longrightarrow> m \<le> 12 \<Longrightarrow> days_in_month y m \<le> 31"
proof -
  assume "1 \<le> m" "m \<le> 12"
  then have "m \<in> {1, 2, 3, 4, 5, 6, 7, 8, 9, 10, 11, 12}" unfolding insert_iff empty_iff by presburger
  then show ?thesis by (auto simp: days_in_month_def)
qed

lemma parse_format:
  assumes "s \<le> max_date_seconds"
  shows "parse_http_date (format_http_date s) ref = Some (int s)"
proof -
  obtain y m d h mi sec wd where s: "int s = days_from_civil y m d * 86400 + h * 3600 + mi * 60 + sec"
    and y: "1601 \<le> y" "y \<le> 9999" and m: "1 \<le> m" "m \<le> 12" and d: "1 \<le> d" "d \<le> days_in_month y m"
    and t: "0 \<le> h" "h < 24" "0 \<le> mi" "mi < 60" "0 \<le> sec" "sec < 60" and wd: "wd < 7"
    and f: "format_http_date s = (weekday_names ! wd) @ '', '' @ fixed (nat d) 2 @ '' '' @
       (month_names ! nat (m - 1)) @ '' '' @ fixed (nat y) 4 @ '' '' @
       (fixed (nat h) 2 @ '':'' @ fixed (nat mi) 2 @ '':'' @ fixed (nat sec) 2) @ '' GMT''"
    by (rule format_http_date_parts [OF assms])
  let ?w = "weekday_names ! wd" and ?mo = "month_names ! nat (m - 1)"
  let ?t = "fixed (nat h) 2 @ '':'' @ fixed (nat mi) 2 @ '':'' @ fixed (nat sec) 2"
  let ?tail = "CHR '' '' # fixed (nat d) 2 @ CHR '' '' # ?mo @ CHR '' '' # fixed (nat y) 4 @ CHR '' '' # ?t
                 @ CHR '' '' # ''GMT'' @ []"
  have f': "format_http_date s = ?w @ CHR '','' # ?tail" unfolding f by simp
  have w: "name_ok ?w" "valid_weekday ?w False"
    using nth_ok [OF names_ok(1), of wd] nth_ok [OF names_ok(5), of wd] wd by (auto simp: names_ok(3))
  have mo: "name_ok ?mo"
    using nth_ok [OF names_ok(2)] m by (auto simp: names_ok(4))
  have d31: "d \<le> 31" using dim_le [OF m] d(2) by (rule order_trans [rotated])
  have fx: "length (fixed v k) = k \<and> (\<forall>c\<in>set (fixed v k). \<not> is_ows c)" if "v < 10 ^ k" "0 < k" for v k
    using fixed_facts [OF that] not_ows_digit by blast
  have d2: "length (fixed (nat d) 2) = 2 \<and> (\<forall>c\<in>set (fixed (nat d) 2). \<not> is_ows c)" using d31 by (intro fx) auto
  have y4: "length (fixed (nat y) 4) = 4 \<and> (\<forall>c\<in>set (fixed (nat y) 4). \<not> is_ows c)" using y by (intro fx) auto
  have two: "\<forall>c\<in>set (fixed v 2). \<not> is_ows c" if "v < 100" for v
    using fx [of v 2] that by simp
  have "\<forall>c\<in>set (fixed (nat h) 2) \<union> set (fixed (nat mi) 2) \<union> set (fixed (nat sec) 2). \<not> is_ows c"
    using two [of "nat h"] two [of "nat mi"] two [of "nat sec"] t unfolding ball_Un by simp
  then have tn: "\<forall>c\<in>set ?t. \<not> is_ows c" by (auto simp: is_ows_def)
  have mn: "\<forall>c\<in>set ?mo. \<not> is_ows c" "?mo \<noteq> []" using name_okD [OF mo] by blast+
  have ne: "fixed (nat d) 2 \<noteq> []" "fixed (nat y) 4 \<noteq> []" "?t \<noteq> []" using d2 y4 by auto
  have d2': "\<forall>c\<in>set (fixed (nat d) 2). \<not> is_ows c" and y4': "\<forall>c\<in>set (fixed (nat y) 4). \<not> is_ows c"
    using d2 y4 by blast+
  have g: "split_spaces (CHR '' '' # ''GMT'' @ []) = [''GMT'']" by code_simp
  have split: "split_spaces ?tail = [fixed (nat d) 2, ?mo, fixed (nat y) 4, ?t, ''GMT'']"
    unfolding split_spaces_next [OF ne(1) d2']
      split_spaces_next [OF mn(2,1)]
      split_spaces_next [OF ne(2) y4']
      split_spaces_next [OF ne(3) tn] g ..
  have wn: "CHR '','' \<notin> set ?w" "\<not> is_ows (hd ?w)" "\<not> is_ows (last ?w)" "?w \<noteq> []"
    using name_okD [OF w(1)] by blast+
  have tr: "trim_ows (?w @ CHR '','' # ?tail) = ?w @ CHR '','' # ?tail"
    using wn by (intro trim_ows_id) (auto simp: is_ows_def)
  have fc: "find_char (CHR '','') (?w @ CHR '','' # ?tail) = Some (length ?w)"
    by (rule find_char_hit [OF wn(1)])
  have pn: "parse_number (fixed (nat d) 2) 2 2 = Some d" "parse_number (fixed (nat y) 4) 4 4 = Some y"
    using parse_number_fixed [of "nat d" 2 2 2] parse_number_fixed [of "nat y" 4 4 4] d y d31
    by (auto simp: i32_max_def)
  have pt: "parse_time ?t = Some (h, mi, sec)" using parse_time_fixed [of "nat h" "nat mi" "nat sec"] t by simp
  have "\<bar>days_from_civil y m d * 86400 + h * 3600 + mi * 60 + sec\<bar> \<le> 253402300799"
    using s assms by (simp add: max_date_seconds_eq)
  then have mk: "make_timestamp y m d h mi sec = Some (int s)"
    using y m d t s by (simp add: make_timestamp_def Let_def i64_max_def i64_min_def)
  show ?thesis
    unfolding f' parse_http_date_def tr Let_def
    using fc split wn(4) w(2) trim_ows_id [OF wn(4) wn(2,3)] pn pt month_number_name [OF m] m mk
    by (simp add: parse_imf_fixdate_def)
qed

text \<open>Printing a time and parsing it back is the identity on every time HTTP dates can
  express (the epoch to 9999-12-31 23:59:59); later times are printed as that last second.  The clock
  passed to the parser plays no role for the printed form.\<close>

lemma http_date_round_trip:
  "parse_http_date (format_http_date s) ref = Some (int (min s max_date_seconds))"
proof (cases "s \<le> max_date_seconds")
  case True
  then show ?thesis by (simp add: parse_format)
next
  case False
  then have "format_http_date s = format_http_date max_date_seconds" by (simp add: format_http_date_def)
  then show ?thesis using False by (simp add: parse_format)
qed

text \<open>On every day from the epoch to the end of year 9999, \<^verbatim>\<open>civil_from_days\<close> yields a
  valid calendar date and \<^verbatim>\<open>days_from_civil\<close> is its inverse.\<close>

lemma civil_days_inverse:
  assumes "0 \<le> n" "n \<le> 2932896"
  shows "case civil_from_days n of (year, month, day) \<Rightarrow>
     days_from_civil year month day = n \<and> 1 \<le> month \<and> month \<le> 12 \<and>
     1 \<le> day \<and> day \<le> days_in_month year month"
  using civil_round_trip [OF assms] by (cases "civil_from_days n") auto

lemma civil_days_inverse_witness: "days_from_civil 2024 2 29 = 19782"
proof -
  have "civil_from_days 19782 = (2024, 2, 29)" by code_simp
  with civil_days_inverse [of 19782] show ?thesis by simp
qed

text \<open>Every accepted form denotes a time of a valid date after 1600.\<close>

lemma make_timestamp_Some:
  "make_timestamp y m d h mi s = Some t \<Longrightarrow>
     1601 \<le> y \<and> 1 \<le> m \<and> m \<le> 12 \<and> 1 \<le> d \<and> d \<le> days_in_month y m \<and> 0 \<le> h \<and> h \<le> 23 \<and>
     0 \<le> mi \<and> mi \<le> 59 \<and> 0 \<le> s \<and> s \<le> 60 \<and>
     t = days_from_civil y m d * 86400 + (h * 3600 + mi * 60 + s)"
  by (auto simp: make_timestamp_def Let_def split: if_splits)

text \<open>The year given to a two-digit RFC 850 date is the latest year with these digits whose
  date lies at most fifty years after the reference clock (RFC 9110, 5.6.7): the chosen date is not
  after the limit and the date one century later is.\<close>

lemma rfc850_year_latest:
  assumes "r \<le> 253402300799" "0 \<le> yy" "yy \<le> 99"
    and "limit = (case civil_from_days (int (r div 86400)) of (y, m, d) \<Rightarrow>
           [y + 50, m, d, int (r mod 86400) div 3600, int (r mod 86400) div 60 mod 60,
            int (r mod 86400) mod 60])"
    and "year = rfc850_year r yy month day hour minute second"
  shows "year mod 100 = yy \<and> \<not> array_greater [year, month, day, hour, minute, second] limit \<and>
         array_greater [year + 100, month, day, hour, minute, second] limit"
proof -
  obtain ry rm rd where c: "civil_from_days (int (r div 86400)) = (ry, rm, rd)"
    by (cases "civil_from_days (int (r div 86400))") auto
  have "int (r div 86400) \<le> 2932896" using assms(1) by (simp add: div_le_mono [of r 253402300799 86400, simplified])
  then have ry: "1601 \<le> ry" using civil_round_trip [OF _ _ c] by simp
  define k where "k = (ry + 50) div 100"
  have k: "100 * k \<le> ry + 50" "ry + 50 < 100 * k + 100" by (auto simp: k_def)
  have lim: "limit = [ry + 50, rm, rd, int (r mod 86400) div 3600, int (r mod 86400) div 60 mod 60,
            int (r mod 86400) mod 60]" using assms(4) c by simp
  define T where "T = int (r mod 86400)"
  have T: "0 \<le> T" by (simp add: T_def)
  have q1: "(ry + 50) sdiv 100 = k" using ry unfolding k_def by (intro sdiv_pos) auto
  have q2: "T sdiv 3600 = T div 3600" "T smod 60 = T mod 60" "T sdiv 60 = T div 60"
    using T by (auto intro: sdiv_pos smod_pos)
  have "(T div 60) smod 60 = T div 60 mod 60" using T by (intro smod_pos) auto
  then have "year = (if array_greater [yy + k * 100, month, day, hour, minute, second] limit
                then yy + k * 100 - 100 else yy + k * 100)"
    unfolding assms(5) rfc850_year_def c Let_def prod.case lim T_def [symmetric] q1 q2 by simp
  moreover have "(yy + k * 100) mod 100 = yy" for k
    using assms(2,3) by (simp add: mod_pos_pos_trivial)
  from this [of k] this [of "k - 1"]
  have "(yy + k * 100 - 100) mod 100 = yy" "(yy + k * 100) mod 100 = yy"
    by (simp_all add: algebra_simps)
  ultimately have y: "year mod 100 = yy"
    "year = (if array_greater [yy + k * 100, month, day, hour, minute, second] limit
             then yy + k * 100 - 100 else yy + k * 100)" by simp_all
  have lo: "\<not> array_greater ((yy + k * 100 - 100) # xs) limit"
    and hi: "array_greater ((yy + k * 100 + 100) # xs) limit" for xs
    using k assms(2,3) unfolding lim by simp_all
  show ?thesis
  proof (cases "array_greater [yy + k * 100, month, day, hour, minute, second] limit")
    case True
    then have "year = yy + k * 100 - 100" using y(2) by simp
    then show ?thesis using y(1) lo True by simp
  next
    case False
    then have "year = yy + k * 100" using y(2) by simp
    then show ?thesis using y(1) hi False by simp
  qed
qed

end
