(* ===== verification/Cookie_Jar.thy ===== *)
theory Cookie_Jar
  imports Url Http_Date Kat_System
begin

text \<open>
  \<^verbatim>\<open>src/core/cookie_jar.{h,cc}\<close>: the cookie store.  \<^verbatim>\<open>inet_pton\<close> on the two address families is the
  pair of parameters \<open>pton4\<close>, \<open>pton6\<close>; the wall clock (\<^verbatim>\<open>wall_clock_seconds\<close>, which may be
  unavailable) is read once per operation and is the argument \<open>now\<close>.  The jar is the vector of
  cookies, oldest first; the mutex makes each operation one step.
\<close>

record cookie =
  ck_name :: string
  ck_value :: string
  ck_domain :: string
  ck_path :: string
  ck_secure :: bool
  ck_http_only :: bool
  ck_host_only :: bool
  ck_persistent :: bool
  ck_expiry :: nat

type_synonym jar = "cookie list"

definition new_cookie :: cookie where
  "new_cookie = \<lparr>ck_name = [], ck_value = [], ck_domain = [], ck_path = ''/'', ck_secure = False,
                 ck_http_only = False, ck_host_only = True, ck_persistent = False, ck_expiry = 0\<rparr>"

subsection \<open>Lexical rules\<close>

definition valid_cookie_char :: "char \<Rightarrow> bool" where
  "valid_cookie_char c \<longleftrightarrow>
     \<not> (c \<le> CHR 0x20 \<or> c = CHR 0x7F \<or> c = CHR '';'' \<or> c = CHR '','' \<or> c = CHR ''='')"

definition valid_cookie_token :: "string \<Rightarrow> bool" where
  "valid_cookie_token value \<longleftrightarrow> value \<noteq> [] \<and> list_all valid_cookie_char value"

definition ip_literal :: "(string \<Rightarrow> bool) \<Rightarrow> (string \<Rightarrow> bool) \<Rightarrow> string \<Rightarrow> bool" where
  "ip_literal pton4 pton6 host \<longleftrightarrow> pton4 (c_str host) \<or> pton6 (c_str host)"

definition default_path :: "url \<Rightarrow> string" where
  "default_path u =
     (if u_path u = [] \<or> hd (u_path u) \<noteq> CHR ''/'' then ''/''
      else case rfind_char (CHR ''/'') (u_path u) of
        None \<Rightarrow> ''/''
      | Some slash \<Rightarrow> if slash = 0 then ''/'' else take slash (u_path u))"

subsection \<open>Cookie dates\<close>

definition cookie_date_delimiter :: "char \<Rightarrow> bool" where
  "cookie_date_delimiter c \<longleftrightarrow>
     c = CHR 0x09 \<or> (CHR 0x20 \<le> c \<and> c \<le> CHR 0x2F) \<or> (CHR 0x3B \<le> c \<and> c \<le> CHR 0x40) \<or>
     (CHR 0x5B \<le> c \<and> c \<le> CHR 0x60) \<or> (CHR 0x7B \<le> c \<and> c \<le> CHR 0x7E)"

definition parse_decimal :: "string \<Rightarrow> nat \<Rightarrow> nat \<Rightarrow> int option" where
  "parse_decimal token min_digits max_digits =
     (if length token < min_digits \<or> length token > max_digits then None
      else if \<not> list_all is_digit token then None
      else case from_chars_int i32_min i32_max token of (ec, v, n) \<Rightarrow>
        if ec = Errc_ok \<and> n = length token then Some v else None)"

definition parse_cookie_time :: "string \<Rightarrow> (int \<times> int \<times> int) option" where
  "parse_cookie_time token =
     (case find_char (CHR '':'') token of
        None \<Rightarrow> None
      | Some first_colon \<Rightarrow>
          (case find_char_from (CHR '':'') (first_colon + 1) token of
             None \<Rightarrow> None
           | Some second_colon \<Rightarrow>
               if find_char_from (CHR '':'') (second_colon + 1) token \<noteq> None then None
               else case parse_decimal (take first_colon token) 1 2 of
                 None \<Rightarrow> None
               | Some hour \<Rightarrow>
                   (case parse_decimal (substr token (first_colon + 1) (second_colon - first_colon - 1)) 1 2 of
                      None \<Rightarrow> None
                    | Some minute \<Rightarrow>
                        (case parse_decimal (drop (second_colon + 1) token) 1 2 of
                           None \<Rightarrow> None
                         | Some second \<Rightarrow> Some (hour, minute, second)))))"

definition cookie_month :: "string \<Rightarrow> int" where
  "cookie_month token =
     (if length token < 3 then 0
      else case find_if (\<lambda>m. map lower_char (take 3 token) = m)
             [''jan'', ''feb'', ''mar'', ''apr'', ''may'', ''jun'', ''jul'', ''aug'', ''sep'', ''oct'',
              ''nov'', ''dec''] of
        None \<Rightarrow> 0 | Some i \<Rightarrow> int i + 1)"

text \<open>The calendar functions of this file are the ones of \<^verbatim>\<open>http_date.cc\<close> again.\<close>

definition cookie_leap_year :: "int \<Rightarrow> bool" where
  "cookie_leap_year year \<longleftrightarrow> year smod 4 = 0 \<and> (year smod 100 \<noteq> 0 \<or> year smod 400 = 0)"

definition cookie_days_in_month :: "int \<Rightarrow> int \<Rightarrow> int" where
  "cookie_days_in_month year month =
     (if month = 2 \<and> cookie_leap_year year then 29
      else [31, 28, 31, 30, 31, 30, 31, 31, 30, 31, 30, 31] ! nat (month - 1))"

definition cookie_days_from_civil :: "int \<Rightarrow> int \<Rightarrow> int \<Rightarrow> int" where
  "cookie_days_from_civil year0 month day =
     (let year = year0 - (if month \<le> 2 then 1 else 0);
          era = (if year \<ge> 0 then year else year - 399) sdiv 400;
          year_of_era = year - era * 400;
          adjusted_month = (if month > 2 then month - 3 else month + 9);
          day_of_year = (153 * adjusted_month + 2) sdiv 5 + day - 1;
          day_of_era = year_of_era * 365 + year_of_era sdiv 4 - year_of_era sdiv 100 + day_of_year
      in era * 146097 + day_of_era - 719468)"

function date_tokens :: "string \<Rightarrow> string list" where
  "date_tokens value =
     (if value = [] then []
      else
        let rest = dropWhile cookie_date_delimiter value;
            tok = takeWhile (\<lambda>c. \<not> cookie_date_delimiter c) rest;
            rest' = dropWhile (\<lambda>c. \<not> cookie_date_delimiter c) rest
        in if tok \<noteq> [] then tok # date_tokens rest' else date_tokens rest')"
  by pat_completeness auto
termination
proof (relation "measure length", goal_cases)
  case (2 v r t r')
  then have r: "r = dropWhile cookie_date_delimiter v" and r': "r' = dropWhile (\<lambda>c. \<not> cookie_date_delimiter c) r"
    and t: "takeWhile (\<lambda>c. \<not> cookie_date_delimiter c) r \<noteq> []" by auto
  from t obtain a l where "r = a # l" "\<not> cookie_date_delimiter a" by (cases r) (auto split: if_splits)
  then have "length r' < length r" using r' by (simp add: le_imp_less_Suc length_dropWhile_le)
  also have "length r \<le> length v" unfolding r by (rule length_dropWhile_le)
  finally show ?case by simp
next
  case (3 v r t r')
  then have r: "r = dropWhile cookie_date_delimiter v" and t: "takeWhile (\<lambda>c. \<not> cookie_date_delimiter c) r = []" by auto
  have "r = []"
  proof (rule ccontr)
    assume ne: "r \<noteq> []"
    then have "\<not> cookie_date_delimiter (hd r)" unfolding r by (rule hd_dropWhile)
    with ne t show False by (cases r) auto
  qed
  with 3 show ?case by (cases v) auto
qed simp

declare date_tokens.simps [simp del]

text \<open>What the scan over the tokens has found so far: time, day, month, year.\<close>

type_synonym date_fields = "(int \<times> int \<times> int) option \<times> int option \<times> int option \<times> int option"

fun date_step :: "date_fields \<Rightarrow> string \<Rightarrow> date_fields" where
  "date_step (t, d, m, y) token =
     (if t = None \<and> parse_cookie_time token \<noteq> None then (parse_cookie_time token, d, m, y)
      else if d = None \<and> parse_decimal token 1 2 \<noteq> None then (t, parse_decimal token 1 2, m, y)
      else if m = None \<and> cookie_month token \<noteq> 0 then (t, d, Some (cookie_month token), y)
      else if y = None \<and> parse_decimal token 2 4 \<noteq> None then (t, d, m, parse_decimal token 2 4)
      else (t, d, m, y))"

definition as_i64 :: "nat \<Rightarrow> int" where
  "as_i64 n = (if int n > i64_max then int n - 18446744073709551616 else int n)"

definition cookie_year :: "int \<Rightarrow> int" where
  "cookie_year y = (if 70 \<le> y \<and> y \<le> 99 then y + 1900 else if y \<le> 69 then y + 2000 else y)"

definition parse_cookie_expiry :: "nat option \<Rightarrow> string \<Rightarrow> nat option" where
  "parse_cookie_expiry now value =
     (case foldl date_step (None, None, None, None) (date_tokens value) of
        (Some (hour, minute, second), Some day, Some month, Some y) \<Rightarrow>
          (let year = cookie_year y in
           if year < 1601 \<or> day < 1 \<or> day > cookie_days_in_month year month \<or> hour > 23 \<or>
              minute > 59 \<or> second > 59 then None
           else
             let timestamp = cookie_days_from_civil year month day * 86400 + hour * 3600 + minute * 60 + second
             in case now of
                  None \<Rightarrow> None
                | Some n \<Rightarrow> Some (if timestamp \<le> as_i64 n then 1 else nat timestamp))
      | _ \<Rightarrow> None)"

subsection \<open>Matching\<close>

definition domain_matches :: "string \<Rightarrow> bool \<Rightarrow> string \<Rightarrow> bool" where
  "domain_matches cookie_domain host_only host =
     (let h = lower host; cd0 = lower cookie_domain in
      if cd0 = [] then False
      else if host_only then h = cd0
      else
        let cd = (if hd cd0 = CHR ''.'' then tl cd0 else cd0)
        in h = cd \<or> (length h > length cd \<and> h ! (length h - length cd - 1) = CHR ''.'' \<and>
                     drop (length h - length cd) h = cd))"

definition path_matches :: "string \<Rightarrow> string \<Rightarrow> bool" where
  "path_matches cookie_path req_path =
     (if cookie_path = [] then True
      else if length req_path < length cookie_path then False
      else if take (length cookie_path) req_path \<noteq> cookie_path then False
      else last cookie_path = CHR ''/'' \<or> length req_path = length cookie_path \<or>
           req_path ! length cookie_path = CHR ''/'')"

subsection \<open>Storing\<close>

text \<open>One attribute: \<open>None\<close> is the early return that drops the cookie; the second component is
  \<^verbatim>\<open>max_age_seen\<close>.\<close>

definition apply_attribute ::
  "(string \<Rightarrow> bool) \<Rightarrow> (string \<Rightarrow> bool) \<Rightarrow> nat option \<Rightarrow> url \<Rightarrow> string \<Rightarrow> cookie \<times> bool \<Rightarrow> (cookie \<times> bool) option" where
  "apply_attribute pton4 pton6 now u attr0 st =
     (let (c, max_age_seen) = st;
          attr = trim_ows attr0;
          aeq = find_char (CHR ''='') attr;
          anl = lower (trim_ows (prefix_upto attr aeq));
          av = (case aeq of None \<Rightarrow> [] | Some k \<Rightarrow> trim_ows (drop (k + 1) attr))
      in if anl = ''domain'' then
           (let d0 = trim_ows av; d = (if d0 \<noteq> [] \<and> hd d0 = CHR ''.'' then tl d0 else d0)
            in if d = [] \<or> ip_literal pton4 pton6 (u_host u) then None
               else Some (c\<lparr>ck_domain := d, ck_host_only := False\<rparr>, max_age_seen))
         else if anl = ''path'' then
           Some (c\<lparr>ck_path := (if av \<noteq> [] \<and> hd av = CHR ''/'' then av else default_path u)\<rparr>, max_age_seen)
         else if anl = ''secure'' then Some (c\<lparr>ck_secure := True\<rparr>, max_age_seen)
         else if anl = ''httponly'' then Some (c\<lparr>ck_http_only := True\<rparr>, max_age_seen)
         else if anl = ''max-age'' then
           (case parse_all_int i64_min i64_max (trim_ows av) of
              None \<Rightarrow> Some (c, max_age_seen)
            | Some secs \<Rightarrow>
                if secs > 0 \<and> now = None then None
                else Some (c\<lparr>ck_persistent := True,
                            ck_expiry := (if secs \<le> 0 then 1 else sat_add (the now) (nat secs))\<rparr>, True))
         else if anl = ''expires'' then
           (case (if max_age_seen then None else parse_cookie_expiry now av) of
              None \<Rightarrow> Some (c, max_age_seen)
            | Some e \<Rightarrow> Some (c\<lparr>ck_persistent := True, ck_expiry := e\<rparr>, max_age_seen))
         else Some (c, max_age_seen))"

function attribute_loop ::
  "(string \<Rightarrow> bool) \<Rightarrow> (string \<Rightarrow> bool) \<Rightarrow> nat option \<Rightarrow> url \<Rightarrow> string \<Rightarrow> cookie \<times> bool \<Rightarrow> (cookie \<times> bool) option" where
  "attribute_loop pton4 pton6 now u rest st =
     (if rest = [] then Some st
      else case apply_attribute pton4 pton6 now u (prefix_upto rest (find_char (CHR '';'') rest)) st of
        None \<Rightarrow> None
      | Some st' \<Rightarrow>
          (case find_char (CHR '';'') rest of
             None \<Rightarrow> Some st'
           | Some sc \<Rightarrow> attribute_loop pton4 pton6 now u (drop (sc + 1) rest) st'))"
  by pat_completeness auto
termination by (relation "measure (\<lambda>(_, _, _, _, rest, _). length rest)") auto

declare attribute_loop.simps [simp del]

definition finish_cookie :: "url \<Rightarrow> cookie \<Rightarrow> cookie" where
  "finish_cookie u c =
     (if ck_domain c = [] then c\<lparr>ck_domain := u_host u, ck_host_only := True\<rparr> else c)"

text \<open>The cookie a field value denotes for an origin, \<open>None\<close> when it is ignored.\<close>

definition parse_set_cookie ::
  "(string \<Rightarrow> bool) \<Rightarrow> (string \<Rightarrow> bool) \<Rightarrow> nat option \<Rightarrow> url \<Rightarrow> string \<Rightarrow> cookie option" where
  "parse_set_cookie pton4 pton6 now u set_cookie =
     (let semi = find_char (CHR '';'') set_cookie;
          first_part = trim_ows (prefix_upto set_cookie semi)
      in case find_char (CHR ''='') first_part of
           None \<Rightarrow> None
         | Some eq \<Rightarrow>
             let n = trim_ows (take eq first_part); v = trim_ows (drop (eq + 1) first_part) in
             if \<not> valid_cookie_token n \<or> find_if (\<lambda>c. c \<in> set [CHR 0x0D, CHR 0x0A, CHR '';'']) v \<noteq> None
             then None
             else case attribute_loop pton4 pton6 now u
                     (case semi of None \<Rightarrow> [] | Some k \<Rightarrow> drop (k + 1) set_cookie)
                     (new_cookie\<lparr>ck_name := n, ck_value := v, ck_path := default_path u\<rparr>, False) of
               None \<Rightarrow> None
             | Some (c0, _) \<Rightarrow>
                 let c = finish_cookie u c0
                 in if \<not> domain_matches (ck_domain c) (ck_host_only c) (u_host u) then None else Some c)"

definition same_cookie :: "cookie \<Rightarrow> cookie \<Rightarrow> bool" where
  "same_cookie a b \<longleftrightarrow> ck_name a = ck_name b \<and> ck_domain a = ck_domain b \<and> ck_path a = ck_path b"

definition insert_cookie :: "jar \<Rightarrow> cookie \<Rightarrow> jar" where
  "insert_cookie cookies c =
     (case find_if (\<lambda>existing. same_cookie existing c) cookies of
        Some i \<Rightarrow> cookies[i := c]
      | None \<Rightarrow>
          let domain_count = length (filter (\<lambda>existing. ck_domain existing = ck_domain c) cookies)
          in if domain_count \<ge> 50 then cookies
             else (if length cookies \<ge> 300 then tl cookies else cookies) @ [c])"

definition jar_store_value ::
  "(string \<Rightarrow> bool) \<Rightarrow> (string \<Rightarrow> bool) \<Rightarrow> nat option \<Rightarrow> url \<Rightarrow> jar \<Rightarrow> string \<Rightarrow> jar" where
  "jar_store_value pton4 pton6 now u cookies set_cookie =
     (case parse_set_cookie pton4 pton6 now u set_cookie of
        None \<Rightarrow> cookies | Some c \<Rightarrow> insert_cookie cookies c)"

definition jar_store ::
  "(string \<Rightarrow> bool) \<Rightarrow> (string \<Rightarrow> bool) \<Rightarrow> nat option \<Rightarrow> url \<Rightarrow> header_list \<Rightarrow> jar \<Rightarrow> jar" where
  "jar_store pton4 pton6 now u headers cookies =
     foldl (jar_store_value pton4 pton6 now u) cookies (hl_get_all headers ''set-cookie'')"

definition jar_clear :: "jar \<Rightarrow> jar" where
  "jar_clear cookies = []"

subsection \<open>The Cookie header\<close>

definition cookie_expired :: "nat option \<Rightarrow> cookie \<Rightarrow> bool" where
  "cookie_expired now c \<longleftrightarrow>
     ck_persistent c \<and> ck_expiry c \<noteq> 0 \<and> (case now of None \<Rightarrow> False | Some n \<Rightarrow> n \<ge> ck_expiry c)"

definition cookie_applies :: "nat option \<Rightarrow> url \<Rightarrow> cookie \<Rightarrow> bool" where
  "cookie_applies now u c =
     (let request_path = (if u_path u = [] then ''/'' else u_path u) in
      if ck_persistent c \<and> now = None then False
      else if ck_secure c \<and> u_scheme u \<noteq> ''https'' then False
      else if \<not> domain_matches (ck_domain c) (ck_host_only c) (u_host u) then False
      else path_matches (ck_path c) request_path)"

definition selected_cookies :: "nat option \<Rightarrow> url \<Rightarrow> jar \<Rightarrow> cookie list" where
  "selected_cookies now u cookies =
     sort_key (\<lambda>c. - int (length (ck_path c))) (filter (cookie_applies now u) cookies)"

fun render_cookies :: "cookie list \<Rightarrow> string" where
  "render_cookies [] = []"
| "render_cookies [c] = ck_name c @ ''='' @ ck_value c"
| "render_cookies (c # cs) = ck_name c @ ''='' @ ck_value c @ ''; '' @ render_cookies cs"

definition cookie_header :: "nat option \<Rightarrow> url \<Rightarrow> jar \<Rightarrow> string \<times> jar" where
  "cookie_header now u cookies =
     (let kept = filter (\<lambda>c. \<not> cookie_expired now c) cookies
      in (render_cookies (selected_cookies now u kept), kept))"

subsection \<open>The calendar agrees with the HTTP date module\<close>

lemma cookie_calendar:
  "cookie_leap_year = leap_year" "cookie_days_in_month = days_in_month"
  "cookie_days_from_civil = days_from_civil"
  by (intro ext; simp add: cookie_leap_year_def leap_year_def cookie_days_in_month_def days_in_month_def
      cookie_days_from_civil_def days_from_civil_def)+

subsection \<open>Invariant of the jar\<close>

definition cookie_key :: "cookie \<Rightarrow> string \<times> string \<times> string" where
  "cookie_key c = (ck_name c, ck_domain c, ck_path c)"

definition cookie_text_ok :: "cookie \<Rightarrow> bool" where
  "cookie_text_ok c \<longleftrightarrow>
     valid_cookie_token (ck_name c) \<and> set (ck_value c) \<inter> {CHR 0x0D, CHR 0x0A, CHR '';''} = {}"

definition jar_ok :: "jar \<Rightarrow> bool" where
  "jar_ok cookies \<longleftrightarrow>
     length cookies \<le> 300 \<and>
     (\<forall>d. length (filter (\<lambda>c. ck_domain c = d) cookies) \<le> 50) \<and>
     distinct (map cookie_key cookies) \<and> (\<forall>c\<in>set cookies. cookie_text_ok c)"

lemma same_cookie_key: "same_cookie a b \<longleftrightarrow> cookie_key a = cookie_key b"
  by (simp add: same_cookie_def cookie_key_def)

lemma length_filter_cong: "map f xs = map f ys \<Longrightarrow> length (filter (\<lambda>x. P (f x)) xs) = length (filter (\<lambda>x. P (f x)) ys)"
proof -
  assume "map f xs = map f ys"
  then have "length (filter P (map f xs)) = length (filter P (map f ys))" by simp
  then show ?thesis by (simp add: filter_map comp_def)
qed

lemma jar_ok_Nil: "jar_ok []"
  by (simp add: jar_ok_def)

lemma jar_ok_filter: "jar_ok cookies \<Longrightarrow> jar_ok (filter P cookies)"
proof -
  assume ok: "jar_ok cookies"
  have "length (filter (\<lambda>c. ck_domain c = d) (filter P cookies)) \<le> 50" for d
  proof -
    have "filter (\<lambda>c. ck_domain c = d) (filter P cookies) = filter P (filter (\<lambda>c. ck_domain c = d) cookies)"
      by (simp add: conj_commute)
    then have "length (filter (\<lambda>c. ck_domain c = d) (filter P cookies)) \<le> length (filter (\<lambda>c. ck_domain c = d) cookies)"
      by (simp del: filter_filter)
    also have "\<dots> \<le> 50" using ok by (simp add: jar_ok_def)
    finally show ?thesis .
  qed
  then show ?thesis using ok
    by (auto simp: jar_ok_def distinct_map_filter intro: order_trans [OF length_filter_le])
qed

lemma jar_ok_tl: "jar_ok cookies \<Longrightarrow> jar_ok (tl cookies)"
proof (cases cookies)
  case (Cons x xs)
  assume ok: "jar_ok cookies"
  have "length (filter (\<lambda>c. ck_domain c = d) xs) \<le> 50" for d
  proof -
    have "length (filter (\<lambda>c. ck_domain c = d) xs) \<le> length (filter (\<lambda>c. ck_domain c = d) cookies)"
      by (simp add: Cons)
    also have "\<dots> \<le> 50" using ok by (simp add: jar_ok_def)
    finally show ?thesis .
  qed
  then show ?thesis using ok Cons by (auto simp: jar_ok_def)
qed simp

lemma jar_ok_insert:
  assumes "jar_ok cookies" "cookie_text_ok c"
  shows "jar_ok (insert_cookie cookies c)"
proof (cases "find_if (\<lambda>e. same_cookie e c) cookies")
  case (Some i)
  note f = find_if_split [OF Some]
  let ?new = "cookies[i := c]"
  have keys: "map cookie_key ?new = map cookie_key cookies"
  proof -
    have "cookie_key c = map cookie_key cookies ! i" using f(2,4) by (simp add: same_cookie_key)
    then show ?thesis by (simp only: map_update list_update_id)
  qed
  have "length (filter (\<lambda>e. ck_domain e = d) ?new) = length (filter (\<lambda>e. ck_domain e = d) cookies)" for d
    using length_filter_cong [OF keys, of "\<lambda>k. fst (snd k) = d"] by (simp add: cookie_key_def)
  moreover have "\<forall>e\<in>set ?new. cookie_text_ok e"
    using assms by (auto simp: jar_ok_def dest!: set_update_subset_insert [THEN subsetD])
  ultimately show ?thesis using assms(1) Some keys
    by (simp add: insert_cookie_def jar_ok_def)
next
  case None
  then have new: "cookie_key c \<notin> cookie_key ` set cookies"
    by (auto simp: find_if_None same_cookie_key)
  define n where "n = length (filter (\<lambda>e. ck_domain e = ck_domain c) cookies)"
  show ?thesis
  proof (cases "n \<ge> 50")
    case True
    then show ?thesis using None assms(1) by (simp add: insert_cookie_def n_def)
  next
    case False
    have ins: "insert_cookie cookies c = (if length cookies \<ge> 300 then tl cookies else cookies) @ [c]"
      using None False by (simp add: insert_cookie_def n_def)
    have "length (filter (\<lambda>e. ck_domain e = ck_domain c) (tl cookies)) \<le> n"
      unfolding n_def by (cases cookies) auto
    moreover have "cookie_key c \<notin> cookie_key ` set (tl cookies)"
      using new by (cases cookies) auto
    moreover have "length cookies \<le> 300" using assms(1) by (simp add: jar_ok_def)
    ultimately have "jar_ok (xs @ [c])"
      if "jar_ok xs" "length xs < 300" "cookie_key c \<notin> cookie_key ` set xs"
        "length (filter (\<lambda>e. ck_domain e = ck_domain c) xs) \<le> n" for xs
      using that assms(2) False by (auto simp: jar_ok_def)
    from this [of "tl cookies"] this [of cookies] show ?thesis
      unfolding ins using assms(1) new jar_ok_tl [OF assms(1)] \<open>length cookies \<le> 300\<close>
        \<open>cookie_key c \<notin> cookie_key ` set (tl cookies)\<close>
        \<open>length (filter (\<lambda>e. ck_domain e = ck_domain c) (tl cookies)) \<le> n\<close>
      by (auto simp: n_def)
  qed
qed

lemma apply_attribute_keeps:
  "apply_attribute pton4 pton6 now u a (c, m) = Some (c', m') \<Longrightarrow>
     ck_name c' = ck_name c \<and> ck_value c' = ck_value c \<and>
     (ip_literal pton4 pton6 (u_host u) \<and> ck_host_only c \<longrightarrow> ck_host_only c')"
  by (auto simp: apply_attribute_def Let_def split: if_splits option.splits)

lemma attribute_loop_keeps:
  "attribute_loop pton4 pton6 now u rest (c, m) = Some (c', m') \<Longrightarrow>
     ck_name c' = ck_name c \<and> ck_value c' = ck_value c \<and>
     (ip_literal pton4 pton6 (u_host u) \<and> ck_host_only c \<longrightarrow> ck_host_only c')"
proof (induction rest arbitrary: c m rule: length_induct)
  case (1 rest)
  show ?case
  proof (cases "rest = []")
    case True
    then show ?thesis using "1.prems" by (simp add: attribute_loop.simps)
  next
    case False
    let ?a = "prefix_upto rest (find_char (CHR '';'') rest)"
    obtain c1 m1 where s1: "apply_attribute pton4 pton6 now u ?a (c, m) = Some (c1, m1)"
      using "1.prems" False by (subst (asm) attribute_loop.simps) (auto split: option.splits)
    note k = apply_attribute_keeps [OF s1]
    show ?thesis
    proof (cases "find_char (CHR '';'') rest")
      case None
      then show ?thesis
        using "1.prems" False s1 k by (subst (asm) attribute_loop.simps) simp
    next
      case (Some sc)
      then have nxt: "attribute_loop pton4 pton6 now u (drop (sc + 1) rest) (c1, m1) = Some (c', m')"
        using "1.prems" False s1 by (subst (asm) attribute_loop.simps) simp
      have "length (drop (sc + 1) rest) < length rest" using False by (cases rest) auto
      from "1.IH" [rule_format, OF this nxt] k show ?thesis by simp
    qed
  qed
qed

lemma parse_set_cookie_facts:
  assumes "parse_set_cookie pton4 pton6 now u v = Some c"
  shows "cookie_text_ok c" "domain_matches (ck_domain c) (ck_host_only c) (u_host u)"
    "ip_literal pton4 pton6 (u_host u) \<Longrightarrow> ck_host_only c"
proof -
  let ?first = "trim_ows (prefix_upto v (find_char (CHR '';'') v))"
  obtain eq where e: "find_char (CHR ''='') ?first = Some eq"
    using assms by (cases "find_char (CHR ''='') ?first") (auto simp: parse_set_cookie_def)
  define n w where "n = trim_ows (take eq ?first)" and "w = trim_ows (drop (eq + 1) ?first)"
  let ?rest = "case find_char (CHR '';'') v of None \<Rightarrow> [] | Some k \<Rightarrow> drop (k + 1) v"
  let ?c = "new_cookie\<lparr>ck_name := n, ck_value := w, ck_path := default_path u\<rparr>"
  have run: "(if \<not> valid_cookie_token n \<or> find_if (\<lambda>c. c \<in> set [CHR 0x0D, CHR 0x0A, CHR '';'']) w \<noteq> None
       then None
       else case attribute_loop pton4 pton6 now u ?rest (?c, False) of
              None \<Rightarrow> None
            | Some (c0, _) \<Rightarrow>
                if \<not> domain_matches (ck_domain (finish_cookie u c0)) (ck_host_only (finish_cookie u c0)) (u_host u)
                then None else Some (finish_cookie u c0)) = Some c"
    using assms e by (simp only: parse_set_cookie_def Let_def option.case n_def w_def)
  then have tok: "valid_cookie_token n" "find_if (\<lambda>c. c \<in> set [CHR 0x0D, CHR 0x0A, CHR '';'']) w = None"
    by (metis option.distinct(1))+
  with run obtain c0 m where l: "attribute_loop pton4 pton6 now u ?rest (?c, False) = Some (c0, m)"
    by (cases "attribute_loop pton4 pton6 now u ?rest (?c, False)") auto
  have c: "c = finish_cookie u c0" and d: "domain_matches (ck_domain c) (ck_host_only c) (u_host u)"
    using run tok l by (auto split: if_splits)
  note k = attribute_loop_keeps [OF l]
  show "domain_matches (ck_domain c) (ck_host_only c) (u_host u)" by (rule d)
  show "cookie_text_ok c"
    using tok k by (auto simp: c finish_cookie_def cookie_text_ok_def find_if_None new_cookie_def)
  show "ip_literal pton4 pton6 (u_host u) \<Longrightarrow> ck_host_only c"
    using k by (auto simp: c finish_cookie_def new_cookie_def)
qed

lemma jar_ok_store_value: "jar_ok cookies \<Longrightarrow> jar_ok (jar_store_value pton4 pton6 now u cookies v)"
  by (auto simp: jar_store_value_def jar_ok_insert parse_set_cookie_facts split: option.splits)

lemma jar_ok_store: "jar_ok cookies \<Longrightarrow> jar_ok (jar_store pton4 pton6 now u hs cookies)"
proof -
  have "jar_ok cookies \<Longrightarrow> jar_ok (foldl (jar_store_value pton4 pton6 now u) cookies vs)" for vs
    by (induction vs arbitrary: cookies) (auto simp: jar_ok_store_value)
  then show "jar_ok cookies \<Longrightarrow> ?thesis" by (simp add: jar_store_def)
qed

text \<open>The operations of the jar as steps.\<close>

datatype jar_op =
    Jar_store "nat option" url header_list
  | Jar_header "nat option" url
  | Jar_clear

fun jar_step :: "(string \<Rightarrow> bool) \<Rightarrow> (string \<Rightarrow> bool) \<Rightarrow> jar \<Rightarrow> jar_op \<Rightarrow> jar" where
  "jar_step pton4 pton6 j (Jar_store now u hs) = jar_store pton4 pton6 now u hs j"
| "jar_step pton4 pton6 j (Jar_header now u) = snd (cookie_header now u j)"
| "jar_step pton4 pton6 j Jar_clear = jar_clear j"

lemma jar_step_ok: "jar_ok j \<Longrightarrow> jar_ok (jar_step pton4 pton6 j op)"
  by (cases op) (simp_all add: jar_ok_store cookie_header_def Let_def jar_ok_filter jar_clear_def jar_ok_Nil)

interpretation jars: bounded_system "jar_step pton4 pton6" jar_ok length 300
  for pton4 pton6
  by unfold_locales (auto simp: jar_step_ok, simp add: jar_ok_def)

lemma cookie_text_no_break:
  assumes "cookie_text_ok c"
  shows "CHR 0x0D \<notin> set (ck_name c @ ''='' @ ck_value c)" "CHR 0x0A \<notin> set (ck_name c @ ''='' @ ck_value c)"
proof -
  have n: "x \<in> set (ck_name c) \<Longrightarrow> valid_cookie_char x" for x
    using assms by (auto simp: cookie_text_ok_def valid_cookie_token_def list_all_iff)
  have "\<not> valid_cookie_char (CHR 0x0D)" "\<not> valid_cookie_char (CHR 0x0A)" by code_simp+
  then show "CHR 0x0D \<notin> set (ck_name c @ ''='' @ ck_value c)" "CHR 0x0A \<notin> set (ck_name c @ ''='' @ ck_value c)"
    using n assms by (auto simp: cookie_text_ok_def)
qed

lemma render_cookies_safe:
  "\<forall>c\<in>set cs. cookie_text_ok c \<Longrightarrow> CHR 0x0D \<notin> set (render_cookies cs) \<and> CHR 0x0A \<notin> set (render_cookies cs)"
proof (induction cs rule: render_cookies.induct)
  case (2 c)
  then show ?case using cookie_text_no_break [of c] by simp
next
  case (3 c c' cs)
  then show ?case using cookie_text_no_break [of c] by simp
qed simp

text \<open>Property C31: whatever sequence of operations a jar goes through, starting empty, it holds at most
  300 cookies, at most 50 per domain and never two with the same name, domain and path; and no
  \<^verbatim>\<open>Cookie\<close> header built from it contains a line break, so a \<^verbatim>\<open>Set-Cookie\<close> value cannot inject a
  header.\<close>

theorem cookie_jar_invariant:
  "let j = foldl (jar_step pton4 pton6) [] ops in
   length j \<le> 300 \<and> length (filter (\<lambda>c. ck_domain c = d) j) \<le> 50 \<and> distinct (map cookie_key j) \<and>
   CHR 0x0D \<notin> set (fst (cookie_header now u j)) \<and> CHR 0x0A \<notin> set (fst (cookie_header now u j))"
proof -
  have ok: "jar_ok (foldl (jar_step pton4 pton6) [] ops)"
    by (rule jars.run_inv [OF jar_ok_Nil])
  then have "\<forall>c\<in>set (selected_cookies now u (filter (\<lambda>c. \<not> cookie_expired now c)
      (foldl (jar_step pton4 pton6) [] ops))). cookie_text_ok c"
    by (auto simp: selected_cookies_def jar_ok_def)
  from render_cookies_safe [OF this] ok show ?thesis
    by (simp add: Let_def jar_ok_def cookie_header_def)
qed

subsection \<open>Which cookies are sent, and who may set them\<close>

definition bare_domain :: "string \<Rightarrow> string" where
  "bare_domain d = (if d \<noteq> [] \<and> hd d = CHR ''.'' then tl d else d)"

text \<open>RFC 6265, 5.1.3 and 5.1.4, over the lower-case names.\<close>

definition domain_scope :: "cookie \<Rightarrow> string \<Rightarrow> bool" where
  "domain_scope c host \<longleftrightarrow>
     ck_domain c \<noteq> [] \<and>
     (if ck_host_only c then lower host = lower (ck_domain c)
      else lower host = bare_domain (lower (ck_domain c)) \<or>
           (\<exists>p. lower host = p @ ''.'' @ bare_domain (lower (ck_domain c))))"

definition path_scope :: "string \<Rightarrow> string \<Rightarrow> bool" where
  "path_scope cp rp \<longleftrightarrow>
     (\<exists>rest. rp = cp @ rest \<and> (cp = [] \<or> last cp = CHR ''/'' \<or> rest = [] \<or> hd rest = CHR ''/''))"

definition cookie_in_scope :: "nat option \<Rightarrow> url \<Rightarrow> cookie \<Rightarrow> bool" where
  "cookie_in_scope now u c \<longleftrightarrow>
     (ck_persistent c \<longrightarrow> (\<exists>n. now = Some n \<and> (ck_expiry c = 0 \<or> n < ck_expiry c))) \<and>
     (ck_secure c \<longrightarrow> u_scheme u = ''https'') \<and> domain_scope c (u_host u) \<and>
     path_scope (ck_path c) (if u_path u = [] then ''/'' else u_path u)"

lemma suffix_with_dot:
  "length h > length d \<and> h ! (length h - length d - 1) = CHR ''.'' \<and> drop (length h - length d) h = d \<longleftrightarrow>
     (\<exists>p. h = p @ ''.'' @ d)"
proof
  assume a: "length h > length d \<and> h ! (length h - length d - 1) = CHR ''.'' \<and> drop (length h - length d) h = d"
  let ?k = "length h - length d - 1"
  have "h = take ?k h @ h ! ?k # drop (Suc ?k) h" using a by (intro id_take_nth_drop) auto
  moreover have "Suc ?k = length h - length d" using a by arith
  ultimately show "\<exists>p. h = p @ ''.'' @ d" using a by (metis append_Cons append_Nil)
qed (auto simp: nth_append)

lemma domain_matches_scope: "domain_matches (ck_domain c) (ck_host_only c) host \<longleftrightarrow> domain_scope c host"
proof -
  have "lower (ck_domain c) = [] \<longleftrightarrow> ck_domain c = []" by (simp add: lower_def)
  then show ?thesis
    unfolding domain_matches_def Let_def domain_scope_def suffix_with_dot bare_domain_def by auto
qed

lemma path_matches_scope: "path_matches cp rp \<longleftrightarrow> path_scope cp rp"
proof (cases "take (length cp) rp = cp")
  case True
  then have rp: "rp = cp @ drop (length cp) rp" by (metis append_take_drop_id)
  then have "path_scope cp rp \<longleftrightarrow>
      cp = [] \<or> last cp = CHR ''/'' \<or> drop (length cp) rp = [] \<or> hd (drop (length cp) rp) = CHR ''/''"
    by (auto simp: path_scope_def)
  moreover have "length cp \<le> length rp" using arg_cong [OF True, of length] by simp
  moreover have "drop (length cp) rp \<noteq> [] \<Longrightarrow> hd (drop (length cp) rp) = rp ! length cp"
    by (simp add: hd_drop_conv_nth)
  ultimately show ?thesis using True by (cases "length rp = length cp") (auto simp: path_matches_def)
next
  case False
  then have "cp \<noteq> []" by auto
  with False show ?thesis by (auto simp: path_matches_def path_scope_def)
qed

lemma cookie_scope_iff:
  "cookie_in_scope now u c \<longleftrightarrow> \<not> cookie_expired now c \<and> cookie_applies now u c"
  by (cases now) (auto simp: cookie_in_scope_def cookie_expired_def cookie_applies_def Let_def
      domain_matches_scope path_matches_scope)

text \<open>Property C34: the \<^verbatim>\<open>Cookie\<close> header of a request lists exactly the cookies in scope (not expired,
  persistent ones only under a known clock, secure ones only to \<^verbatim>\<open>https\<close>, domain and path matching in
  the sense of RFC 6265), longest path first, and cookies with paths of equal length in the order in
  which the jar holds them.\<close>

theorem cookie_header_exact:
  "let sent = selected_cookies now u (snd (cookie_header now u j)) in
   fst (cookie_header now u j) = render_cookies sent \<and>
   set sent = {c. c \<in> set j \<and> cookie_in_scope now u c} \<and>
   sorted (map (\<lambda>c. - int (length (ck_path c))) sent) \<and>
   filter (\<lambda>c. - int (length (ck_path c)) = k) sent =
     filter (\<lambda>c. cookie_in_scope now u c \<and> - int (length (ck_path c)) = k) j"
  unfolding Let_def
proof (intro conjI)
  let ?sent = "selected_cookies now u (snd (cookie_header now u j))"
  have s: "?sent = sort_key (\<lambda>c. - int (length (ck_path c))) (filter (cookie_in_scope now u) j)"
    by (simp add: selected_cookies_def cookie_header_def Let_def cookie_scope_iff [abs_def] conj_commute)
  show "fst (cookie_header now u j) = render_cookies ?sent" by (simp add: cookie_header_def Let_def)
  show "set ?sent = {c. c \<in> set j \<and> cookie_in_scope now u c}" unfolding s by auto
  show "sorted (map (\<lambda>c. - int (length (ck_path c))) ?sent)" unfolding s by simp
  show "filter (\<lambda>c. - int (length (ck_path c)) = k) ?sent =
     filter (\<lambda>c. cookie_in_scope now u c \<and> - int (length (ck_path c)) = k) j"
    unfolding s by (simp add: sort_key_stable conj_commute)
qed

lemma set_insert_cookie: "set (insert_cookie cookies c) \<subseteq> insert c (set cookies)"
  using set_update_subset_insert [of cookies _ c] list.set_sel(2) [of cookies]
  by (auto simp: insert_cookie_def Let_def split: option.splits) (metis tl_Nil list.set_sel(2) empty_iff list.set(1))

lemma jar_store_new:
  assumes "c \<in> set (foldl (jar_store_value pton4 pton6 now u) j vs)"
  shows "c \<in> set j \<or> (\<exists>v\<in>set vs. parse_set_cookie pton4 pton6 now u v = Some c)"
  using assms
proof (induction vs arbitrary: j)
  case (Cons v vs)
  then have "c \<in> set (jar_store_value pton4 pton6 now u j v) \<or>
      (\<exists>v\<in>set vs. parse_set_cookie pton4 pton6 now u v = Some c)" by simp
  moreover have "set (jar_store_value pton4 pton6 now u j v) \<subseteq>
      set j \<union> {c. parse_set_cookie pton4 pton6 now u v = Some c}"
    using set_insert_cookie by (fastforce simp: jar_store_value_def split: option.splits)
  ultimately show ?case by auto
qed simp

text \<open>Property C33: a response can only set cookies for its own origin's scope: every cookie that a store
  adds matches the host the response came from, and a host that is an IP literal can only set host-only
  cookies.\<close>

theorem cookie_set_by_own_domain:
  assumes "c \<in> set (jar_store pton4 pton6 now u hs j)" "c \<notin> set j"
  shows "domain_scope c (u_host u) \<and> (ip_literal pton4 pton6 (u_host u) \<longrightarrow> ck_host_only c)"
proof -
  obtain v where "parse_set_cookie pton4 pton6 now u v = Some c"
    using jar_store_new [of c pton4 pton6 now u j] assms by (auto simp: jar_store_def)
  from parse_set_cookie_facts(2,3) [OF this] show ?thesis by (simp add: domain_matches_scope)
qed

definition cookie_url :: url where
  "cookie_url = empty_url\<lparr>u_scheme := ''https'', u_host := ''www.Example.com'', u_path := ''/a/b''\<rparr>"

theorem cookie_set_by_own_domain_witness:
  "domain_scope (new_cookie\<lparr>ck_name := ''id'', ck_value := ''7'', ck_domain := ''example.com'',
     ck_path := ''/a'', ck_host_only := False, ck_persistent := True, ck_expiry := 160\<rparr>) ''www.Example.com''"
proof -
  let ?c = "new_cookie\<lparr>ck_name := ''id'', ck_value := ''7'', ck_domain := ''example.com'',
     ck_path := ''/a'', ck_host_only := False, ck_persistent := True, ck_expiry := 160\<rparr>"
  have "jar_store (\<lambda>_. False) (\<lambda>_. False) (Some 100) cookie_url
      [mk_header ''Set-Cookie'' ''id = 7; Domain=.example.com; Max-Age=60''] [] = [?c]" by code_simp
  then have "?c \<in> set (jar_store (\<lambda>_. False) (\<lambda>_. False) (Some 100) cookie_url
      [mk_header ''Set-Cookie'' ''id = 7; Domain=.example.com; Max-Age=60''] [])" by simp
  from cookie_set_by_own_domain [OF this] show ?thesis by (simp add: cookie_url_def)
qed

end
