(* ===== verification/Cache_Control.thy ===== *)
theory Cache_Control
  imports Header_List Kat_Decimal
begin

text \<open>
  \<^verbatim>\<open>src/core/cache_control.{h,cc}\<close>: the \<^verbatim>\<open>Cache-Control\<close> directives the private cache acts on.
\<close>

record cache_control =
  cc_no_store :: bool
  cc_no_cache :: bool
  cc_must_revalidate :: bool
  cc_is_private :: bool
  cc_max_age :: "nat option"
  cc_stale_if_error :: "nat option"
  cc_invalid :: bool
  cc_conflicting_max_age :: bool

definition new_cache_control :: cache_control where
  "new_cache_control = \<lparr>cc_no_store = False, cc_no_cache = False, cc_must_revalidate = False,
     cc_is_private = False, cc_max_age = None, cc_stale_if_error = None, cc_invalid = False,
     cc_conflicting_max_age = False\<rparr>"

subsection \<open>Splitting a field into directives\<close>

text \<open>The loop's state: the characters since \<^verbatim>\<open>begin\<close>, and the two quoting flags.\<close>

fun split_loop :: "string \<Rightarrow> string \<Rightarrow> bool \<Rightarrow> bool \<Rightarrow> string list" where
  "split_loop [] cur quoted escaped = [cur]"
| "split_loop (ch # rest) cur quoted escaped =
     (if quoted then
        (if escaped then split_loop rest (cur @ [ch]) True False
         else if ch = CHR 0x5C then split_loop rest (cur @ [ch]) True True
         else if ch = CHR 0x22 then split_loop rest (cur @ [ch]) False False
         else split_loop rest (cur @ [ch]) True False)
      else if ch = CHR 0x22 then split_loop rest (cur @ [ch]) True escaped
      else if ch = CHR '','' then cur # split_loop rest [] False escaped
      else split_loop rest (cur @ [ch]) False escaped)"

definition split_directives :: "string \<Rightarrow> string list" where
  "split_directives field = split_loop field [] False False"

record parsed_directive =
  pd_name :: string
  pd_value :: string
  pd_has_value :: bool
  pd_value_valid :: bool

text \<open>The body of a quoted value: (unescaped text, still valid).\<close>

fun unquote_loop :: "string \<Rightarrow> string \<Rightarrow> bool \<Rightarrow> string \<times> bool" where
  "unquote_loop [] out escaped = (out, \<not> escaped)"
| "unquote_loop (ch # rest) out escaped =
     (if escaped then unquote_loop rest (out @ [ch]) False
      else if ch = CHR 0x5C then unquote_loop rest out True
      else if ch < CHR 0x20 \<or> ch = CHR 0x7F then (out, False)
      else unquote_loop rest (out @ [ch]) False)"

definition parse_directive :: "string \<Rightarrow> parsed_directive" where
  "parse_directive raw0 =
     (let raw = trim_ows raw0 in
      case find_char (CHR ''='') raw of
        None \<Rightarrow> \<lparr>pd_name = trim_ows raw, pd_value = [], pd_has_value = False, pd_value_valid = True\<rparr>
      | Some equals \<Rightarrow>
          let out = \<lparr>pd_name = trim_ows (take equals raw), pd_value = [], pd_has_value = True,
                     pd_value_valid = True\<rparr>;
              value = trim_ows (drop (equals + 1) raw)
          in if value = [] then out\<lparr>pd_value_valid := False\<rparr>
             else if hd value \<noteq> CHR 0x22 then out\<lparr>pd_value := value\<rparr>
             else if length value < 2 \<or> last value \<noteq> CHR 0x22 then out\<lparr>pd_value_valid := False\<rparr>
             else
               let (v, ok) = unquote_loop (substr value 1 (length value - 2)) [] False
               in out\<lparr>pd_value := v, pd_value_valid := ok\<rparr>)"

subsection \<open>Numeric directives\<close>

fun delta_loop :: "string \<Rightarrow> nat \<Rightarrow> bool \<Rightarrow> nat option" where
  "delta_loop [] result saturated = Some result"
| "delta_loop (raw # rest) result saturated =
     (if \<not> is_digit raw then None
      else if saturated then delta_loop rest result True
      else
        let digit = digit_value raw in
        if result > (u64_max - digit) div 10 then delta_loop rest u64_max True
        else delta_loop rest (result * 10 + digit) False)"

definition parse_delta_seconds :: "string \<Rightarrow> nat option" where
  "parse_delta_seconds value0 =
     (let value = trim_ows value0 in if value = [] then None else delta_loop value 0 False)"

text \<open>The four locals a numeric directive updates: destination, seen, conflict, invalid.\<close>

type_synonym numeric_state = "nat option \<times> bool \<times> bool \<times> bool"

fun parse_numeric_directive :: "numeric_state \<Rightarrow> parsed_directive \<Rightarrow> numeric_state" where
  "parse_numeric_directive (destination, seen, conflict, invalid) directive =
     (if \<not> pd_has_value directive \<or> \<not> pd_value_valid directive
      then (destination, seen, conflict, True)
      else case parse_delta_seconds (pd_value directive) of
        None \<Rightarrow> (destination, seen, conflict, True)
      | Some parsed \<Rightarrow>
          if seen then
            (destination, seen,
             conflict \<or> (case destination of None \<Rightarrow> True | Some d \<Rightarrow> d \<noteq> parsed), invalid)
          else (Some parsed, True, conflict, invalid))"

text \<open>The accumulator of the two nested loops: the result and the two \<^verbatim>\<open>seen\<close> flags.\<close>

fun cc_step :: "cache_control \<times> bool \<times> bool \<Rightarrow> string \<Rightarrow> cache_control \<times> bool \<times> bool" where
  "cc_step (out, max_age_seen, stale_seen) raw =
     (let directive = parse_directive raw; name = pd_name directive in
      if name = [] then (out, max_age_seen, stale_seen)
      else if ascii_iequals name ''no-store'' then (out\<lparr>cc_no_store := True\<rparr>, max_age_seen, stale_seen)
      else if ascii_iequals name ''no-cache'' then (out\<lparr>cc_no_cache := True\<rparr>, max_age_seen, stale_seen)
      else if ascii_iequals name ''must-revalidate''
        then (out\<lparr>cc_must_revalidate := True\<rparr>, max_age_seen, stale_seen)
      else if ascii_iequals name ''private'' then (out\<lparr>cc_is_private := True\<rparr>, max_age_seen, stale_seen)
      else if ascii_iequals name ''max-age'' then
        (case parse_numeric_directive
                (cc_max_age out, max_age_seen, cc_conflicting_max_age out, cc_invalid out) directive of
           (d, s, c, i) \<Rightarrow>
             (out\<lparr>cc_max_age := d, cc_conflicting_max_age := c, cc_invalid := i\<rparr>, s, stale_seen))
      else if ascii_iequals name ''stale-if-error'' then
        (case parse_numeric_directive (cc_stale_if_error out, stale_seen, False, cc_invalid out) directive of
           (d, s, c, i) \<Rightarrow> (out\<lparr>cc_stale_if_error := d, cc_invalid := i\<rparr>, max_age_seen, s))
      else (out, max_age_seen, stale_seen))"

definition parse_cache_control :: "header_list \<Rightarrow> cache_control" where
  "parse_cache_control headers =
     fst (foldl cc_step (new_cache_control, False, False)
            (concat (map split_directives (hl_get_all headers ''cache-control''))))"

subsection \<open>Facts\<close>

lemma is_digit_value_le: "is_digit c \<Longrightarrow> digit_value c \<le> u64_max"
  using digit_value_lt [of c] by (simp add: u64_max_def)

lemma step_exceeds:
  assumes "is_digit c"
  shows "r > (u64_max - digit_value c) div 10 \<longleftrightarrow> u64_max < r * 10 + digit_value c"
proof -
  have d: "digit_value c < 10" using assms by (rule digit_value_lt)
  have "r > (u64_max - digit_value c) div 10 \<longleftrightarrow> u64_max - digit_value c < r * 10"
    by (simp add: div_less_iff_less_mult)
  then show ?thesis using d by (auto simp: u64_max_def)
qed

definition acc_value :: "nat \<Rightarrow> string \<Rightarrow> nat" where
  "acc_value v ds = foldl (\<lambda>v c. 10 * v + digit_value c) v ds"

lemma acc_value_ge: "v \<le> acc_value v ds"
proof (induction ds arbitrary: v)
  case (Cons c ds)
  have "v \<le> 10 * v + digit_value c" by simp
  also have "\<dots> \<le> acc_value (10 * v + digit_value c) ds" by (rule Cons)
  finally show ?case by (simp add: acc_value_def)
qed (simp add: acc_value_def)

lemma delta_loop_saturated:
  "delta_loop ds r True = (if list_all is_digit ds then Some r else None)"
  by (induction ds) auto

lemma delta_loop_value:
  "r \<le> u64_max \<Longrightarrow>
     delta_loop ds r False = (if list_all is_digit ds then Some (min u64_max (acc_value r ds)) else None)"
proof (induction ds arbitrary: r)
  case Nil
  then show ?case by (simp add: acc_value_def min_def)
next
  case (Cons c ds)
  show ?case
  proof (cases "is_digit c \<and> r > (u64_max - digit_value c) div 10")
    case True
    then have "u64_max < 10 * r + digit_value c" using step_exceeds [of c r] by (simp add: mult.commute)
    also have "\<dots> \<le> acc_value r (c # ds)"
      using acc_value_ge [of "10 * r + digit_value c" ds] by (simp add: acc_value_def)
    finally show ?thesis using True by (simp add: delta_loop_saturated Let_def min_def)
  next
    case False
    then have "is_digit c \<Longrightarrow> r * 10 + digit_value c \<le> u64_max" using step_exceeds [of c r] by auto
    then show ?thesis using False Cons.IH [of "r * 10 + digit_value c"]
      by (auto simp: Let_def acc_value_def mult.commute)
  qed
qed

lemma parse_delta_seconds_eq:
  "parse_delta_seconds v =
     (if trim_ows v \<noteq> [] \<and> list_all is_digit (trim_ows v)
      then Some (min u64_max (digits_value (trim_ows v))) else None)"
  by (simp add: parse_delta_seconds_def delta_loop_value acc_value_def digits_value_def Let_def)

lemma parse_delta_seconds_le: "parse_delta_seconds v = Some n \<Longrightarrow> n \<le> u64_max"
  by (auto simp: parse_delta_seconds_eq split: if_splits)

text \<open>A delta-seconds value is accepted exactly when it is a non-empty run of decimal digits
  between optional white space, and its value is the decimal number, saturated at \<^verbatim>\<open>UINT64_MAX\<close>: the
  guarded loop neither wraps nor loses digits.\<close>

lemma parse_delta_seconds_saturates:
  "parse_delta_seconds v =
     (if trim_ows v \<noteq> [] \<and> list_all is_digit (trim_ows v)
      then Some (min u64_max (digits_value (trim_ows v))) else None)"
  by (rule parse_delta_seconds_eq)

subsection \<open>What the accumulated directives mean\<close>

definition directives :: "header_list \<Rightarrow> parsed_directive list" where
  "directives headers =
     map parse_directive (concat (map split_directives (hl_get_all headers ''cache-control'')))"

definition named :: "string \<Rightarrow> parsed_directive list \<Rightarrow> parsed_directive list" where
  "named n ds = filter (\<lambda>d. ascii_iequals (pd_name d) n) ds"

definition numeric_value :: "parsed_directive \<Rightarrow> nat option" where
  "numeric_value d =
     (if pd_has_value d \<and> pd_value_valid d then parse_delta_seconds (pd_value d) else None)"

definition numeric_values :: "string \<Rightarrow> parsed_directive list \<Rightarrow> nat list" where
  "numeric_values n ds = List.map_filter numeric_value (named n ds)"

definition first :: "'a list \<Rightarrow> 'a option" where
  "first xs = (case xs of [] \<Rightarrow> None | x # _ \<Rightarrow> Some x)"

text \<open>The meaning of a list of directives, stated over the whole list.\<close>

definition cache_control_of :: "parsed_directive list \<Rightarrow> cache_control" where
  "cache_control_of ds =
     \<lparr>cc_no_store = (named ''no-store'' ds \<noteq> []), cc_no_cache = (named ''no-cache'' ds \<noteq> []),
      cc_must_revalidate = (named ''must-revalidate'' ds \<noteq> []), cc_is_private = (named ''private'' ds \<noteq> []),
      cc_max_age = first (numeric_values ''max-age'' ds),
      cc_stale_if_error = first (numeric_values ''stale-if-error'' ds),
      cc_invalid = (\<exists>d\<in>set (named ''max-age'' ds @ named ''stale-if-error'' ds). numeric_value d = None),
      cc_conflicting_max_age =
        (\<exists>v\<in>set (numeric_values ''max-age'' ds). first (numeric_values ''max-age'' ds) \<noteq> Some v)\<rparr>"

lemma lower_names:
  "lower ''no-store'' = ''no-store''" "lower ''no-cache'' = ''no-cache''"
  "lower ''must-revalidate'' = ''must-revalidate''" "lower ''private'' = ''private''"
  "lower ''max-age'' = ''max-age''" "lower ''stale-if-error'' = ''stale-if-error''" "lower [] = []"
  by code_simp+

lemma named_snoc: "named n (ds @ [d]) = named n ds @ (if ascii_iequals (pd_name d) n then [d] else [])"
  by (simp add: named_def)

lemma numeric_values_snoc:
  "numeric_values n (ds @ [d]) =
     numeric_values n ds @
     (if ascii_iequals (pd_name d) n then (case numeric_value d of None \<Rightarrow> [] | Some v \<Rightarrow> [v]) else [])"
  by (auto simp: numeric_values_def named_snoc List.map_filter_def split: option.splits)

lemma first_append: "first (xs @ ys) = (if xs = [] then first ys else first xs)"
  by (cases xs) (auto simp: first_def)

lemma first_None [simp]: "first xs = None \<longleftrightarrow> xs = []"
  by (cases xs) (auto simp: first_def)

lemma first_single [simp]: "first [x] = Some x"
  by (simp add: first_def)

lemma numeric_directive:
  "parse_numeric_directive (first vs, vs \<noteq> [], c, i) d =
     (case numeric_value d of
        None \<Rightarrow> (first vs, vs \<noteq> [], c, True)
      | Some v \<Rightarrow> (first (vs @ [v]), True, c \<or> (vs \<noteq> [] \<and> first vs \<noteq> Some v), i))"
  by (cases vs) (auto simp: numeric_value_def first_def split: option.splits)

lemma lower_Nil_iff: "lower s = [] \<longleftrightarrow> s = []"
  by (simp add: lower_def)

definition state_of :: "parsed_directive list \<Rightarrow> cache_control \<times> bool \<times> bool" where
  "state_of ds = (cache_control_of ds, numeric_values ''max-age'' ds \<noteq> [],
                  numeric_values ''stale-if-error'' ds \<noteq> [])"

lemma cc_step_state:
  "cc_step (state_of ds) raw = state_of (ds @ [parse_directive raw])"
proof -
  define d where "d = parse_directive raw"
  note S = state_of_def cache_control_of_def named_snoc numeric_values_snoc d_def [symmetric]
    ascii_iequals_lower lower_names Let_def
  consider (nil) "pd_name d = []" | (ns) "lower (pd_name d) = ''no-store''"
    | (nc) "lower (pd_name d) = ''no-cache''" | (mr) "lower (pd_name d) = ''must-revalidate''"
    | (pr) "lower (pd_name d) = ''private''" | (ma) "lower (pd_name d) = ''max-age''"
    | (si) "lower (pd_name d) = ''stale-if-error''"
    | (other) "pd_name d \<noteq> []" "lower (pd_name d) \<notin> {''no-store'', ''no-cache'', ''must-revalidate'',
         ''private'', ''max-age'', ''stale-if-error''}" by blast
  then show ?thesis
  proof cases
    case nil
    then have "lower (pd_name d) = []" by (simp add: lower_Nil_iff)
    with nil show ?thesis by (simp add: S)
  next
    case ma
    then have n: "pd_name d \<noteq> []" by (auto simp: lower_names)
    show ?thesis
      using ma n numeric_directive [of "numeric_values ''max-age'' ds" _ _ d]
      by (simp add: S del: parse_numeric_directive.simps split: option.splits)
         (auto simp: first_append)
  next
    case si
    then have n: "pd_name d \<noteq> []" by (auto simp: lower_names)
    show ?thesis
      using si n numeric_directive [of "numeric_values ''stale-if-error'' ds" _ _ d]
      by (simp add: S del: parse_numeric_directive.simps split: option.splits)
  next
    case other
    then show ?thesis by (simp add: S)
  next
    case ns
    then have "pd_name d \<noteq> []" by (auto simp: lower_names)
    with ns show ?thesis by (simp add: S)
  next
    case nc
    then have "pd_name d \<noteq> []" by (auto simp: lower_names)
    with nc show ?thesis by (simp add: S)
  next
    case mr
    then have "pd_name d \<noteq> []" by (auto simp: lower_names)
    with mr show ?thesis by (simp add: S)
  next
    case pr
    then have "pd_name d \<noteq> []" by (auto simp: lower_names)
    with pr show ?thesis by (simp add: S)
  qed
qed

lemma state_of_Nil: "state_of [] = (new_cache_control, False, False)"
  by (simp add: state_of_def cache_control_of_def new_cache_control_def named_def numeric_values_def
      List.map_filter_def)

lemma cc_fold: "foldl cc_step (new_cache_control, False, False) raws = state_of (map parse_directive raws)"
  by (induction raws rule: rev_induct) (simp_all add: state_of_Nil cc_step_state)

lemma parse_cache_control_eq: "parse_cache_control headers = cache_control_of (directives headers)"
  by (simp add: parse_cache_control_def cc_fold state_of_def directives_def)

text \<open>The single pass over the directives computes what they mean as a set: each flag says
  whether a directive of that name occurs (in any case, in any field), \<^verbatim>\<open>max-age\<close> and
  \<^verbatim>\<open>stale-if-error\<close> are the first valid values, a second \<^verbatim>\<open>max-age\<close> with another value is a conflict,
  and a malformed numeric directive anywhere makes the result invalid.\<close>

lemma parse_cache_control_meaning:
  "parse_cache_control headers = cache_control_of (directives headers)"
  by (rule parse_cache_control_eq)

end
