(* ===== verification/Response_Cache.thy ===== *)
theory Response_Cache
  imports Cache_Control Redirect Http_Date
begin

text \<open>
  \<^verbatim>\<open>src/core/response_cache.{h,cc}\<close>: the private HTTP cache.  The clock interface \<^verbatim>\<open>CacheClock\<close> is a
  reading passed to each operation (wall seconds, which may be unavailable, and monotonic
  nanoseconds, where 0 is "unavailable"); \<^verbatim>\<open>sizeof(CachedResponse)\<close> is the parameter
  \<open>cp_object_size\<close>.  A shared immutable body is its bytes.  The list of entries has the most
  recently used one first; the mutex makes each operation one step.
\<close>

subsection \<open>Data\<close>

record cache_clock =
  ck_wall :: "nat option"
  ck_mono :: nat

record cache_params =
  cp_max_entries :: nat
  cp_max_bytes :: nat
  cp_max_entry_bytes :: nat
  cp_object_size :: nat

type_synonym vary_key = "string \<times> string list"

record cached_response =
  cr_url :: string
  cr_status_code :: int
  cr_headers :: header_list
  cr_body :: bytes
  cr_vary :: "vary_key list"
  cr_entry_id :: nat
  cr_selection_date :: int
  cr_stored_at :: nat
  cr_initial_age :: nat
  cr_freshness_lifetime :: nat
  cr_etag :: "string option"
  cr_last_modified :: "string option"
  cr_requires_revalidation :: bool
  cr_must_revalidate :: bool
  cr_stale_if_error :: "nat option"
  cr_accounted :: nat

record cache_request =
  cq_method :: string
  cq_url :: string
  cq_headers :: header_list
  cq_streaming :: bool
  cq_has_body :: bool

datatype cache_lookup =
    Cache_miss
  | Cache_fresh cached_response
  | Cache_needs_validation cached_response "nat list"

record revalidation_result =
  rv_delivery :: cached_response
  rv_retention :: "cached_response option"

record cache_state =
  cs_entries :: "cached_response list"
  cs_total_bytes :: nat
  cs_next_entry_id :: nat

definition empty_cache :: cache_state where
  "empty_cache = \<lparr>cs_entries = [], cs_total_bytes = 0, cs_next_entry_id = 1\<rparr>"

text \<open>The constructor: a zero limit selects the default.\<close>

definition make_cache_params :: "nat \<Rightarrow> nat \<Rightarrow> nat \<Rightarrow> nat \<Rightarrow> cache_params" where
  "make_cache_params max_entries max_bytes max_entry_bytes object_size =
     \<lparr>cp_max_entries = (if max_entries \<noteq> 0 then max_entries else 128),
      cp_max_bytes = (if max_bytes \<noteq> 0 then max_bytes else 32 * 1024 * 1024),
      cp_max_entry_bytes = (if max_entry_bytes \<noteq> 0 then max_entry_bytes else 4 * 1024 * 1024),
      cp_object_size = object_size\<rparr>"

subsection \<open>Request classification\<close>

definition is_token_char :: "char \<Rightarrow> bool" where
  "is_token_char ch \<longleftrightarrow>
     is_lower ch \<or> is_upper ch \<or> is_digit ch \<or> ch = CHR 0x27 \<or> ch = CHR 0x60 \<or>
     ch \<in> set ''!#$%&*+-.^_|~''"

definition is_field_name :: "string \<Rightarrow> bool" where
  "is_field_name name \<longleftrightarrow> name \<noteq> [] \<and> list_all is_token_char name"

definition has_sensitive_request_header :: "header_list \<Rightarrow> bool" where
  "has_sensitive_request_header headers \<longleftrightarrow>
     has_header headers ''authorization'' \<or> has_header headers ''cookie''"

definition has_conditional_request_header :: "header_list \<Rightarrow> bool" where
  "has_conditional_request_header headers \<longleftrightarrow>
     has_header headers ''if-none-match'' \<or> has_header headers ''if-modified-since'' \<or>
     has_header headers ''if-match'' \<or> has_header headers ''if-unmodified-since'' \<or>
     has_header headers ''if-range''"

definition request_cache_bypassed :: "cache_request \<Rightarrow> cache_control \<Rightarrow> bool" where
  "request_cache_bypassed rq control \<longleftrightarrow>
     cq_method rq \<noteq> ''GET'' \<or> cq_streaming rq \<or> cq_has_body rq \<or> cc_no_store control \<or>
     has_sensitive_request_header (cq_headers rq) \<or> has_conditional_request_header (cq_headers rq) \<or>
     has_header (cq_headers rq) ''range''"

definition request_field_values :: "header_list \<Rightarrow> string \<Rightarrow> string list" where
  "request_field_values headers name = hl_get_all headers name"

definition split_comma_list :: "string \<Rightarrow> string list" where
  "split_comma_list value = split_loop value [] False False"

subsection \<open>Vary\<close>

record parsed_vary =
  pv_valid :: bool
  pv_star :: bool
  pv_names :: "string list"

definition vary_step :: "parsed_vary \<Rightarrow> string \<Rightarrow> parsed_vary" where
  "vary_step out raw_name =
     (let name = trim_ows raw_name in
      if name = [] then out\<lparr>pv_valid := False\<rparr>
      else if name = ''*'' then out\<lparr>pv_star := True\<rparr>
      else if \<not> is_field_name name then out\<lparr>pv_valid := False\<rparr>
      else
        let normalized = lower name in
        if normalized \<in> set (pv_names out) then out
        else out\<lparr>pv_names := pv_names out @ [normalized]\<rparr>)"

definition parse_vary :: "header_list \<Rightarrow> parsed_vary" where
  "parse_vary headers =
     foldl vary_step \<lparr>pv_valid = True, pv_star = False, pv_names = []\<rparr>
       (concat (map split_comma_list (hl_get_all headers ''vary'')))"

definition vary_matches :: "cached_response \<Rightarrow> header_list \<Rightarrow> bool" where
  "vary_matches cached request_headers =
     list_all (\<lambda>(name, vals). request_field_values request_headers name = vals) (cr_vary cached)"

definition same_variant :: "cached_response \<Rightarrow> cached_response \<Rightarrow> bool" where
  "same_variant lhs rhs \<longleftrightarrow> cr_url lhs = cr_url rhs \<and> cr_vary lhs = cr_vary rhs"

definition more_recent :: "cached_response \<Rightarrow> cached_response \<Rightarrow> bool" where
  "more_recent lhs rhs =
     (if cr_selection_date lhs \<noteq> cr_selection_date rhs
      then cr_selection_date lhs > cr_selection_date rhs
      else cr_stored_at lhs > cr_stored_at rhs)"

subsection \<open>Entity tags\<close>

definition etag_char :: "char \<Rightarrow> bool" where
  "etag_char ch \<longleftrightarrow> \<not> (ch = CHR 0x22 \<or> ch < CHR 0x21 \<or> ch = CHR 0x7F)"

text \<open>(weak, opaque)\<close>

definition parse_entity_tag :: "string \<Rightarrow> (bool \<times> string) option" where
  "parse_entity_tag value0 =
     (let v0 = trim_ows value0;
          weak = (length v0 \<ge> 2 \<and> v0 ! 0 = CHR ''W'' \<and> v0 ! 1 = CHR ''/'');
          v = (if weak then drop 2 v0 else v0)
      in if length v < 2 \<or> hd v \<noteq> CHR 0x22 \<or> last v \<noteq> CHR 0x22 then None
         else
           let opaque = substr v 1 (length v - 2)
           in if list_all etag_char opaque then Some (weak, opaque) else None)"

definition entity_tag_selects_stored :: "string \<Rightarrow> string \<Rightarrow> bool" where
  "entity_tag_selects_stored stored received =
     (case (parse_entity_tag stored, parse_entity_tag received) of
        (Some (sweak, sopaque), Some (rweak, ropaque)) \<Rightarrow>
          if \<not> rweak then \<not> sweak \<and> sopaque = ropaque else sopaque = ropaque
      | _ \<Rightarrow> False)"

subsection \<open>Accounting and header rewriting\<close>

definition accounted_bytes :: "nat \<Rightarrow> cached_response \<Rightarrow> nat" where
  "accounted_bytes object_size r =
     (let t = sat_add object_size (length (cr_url r));
          t = sat_add t (length (cr_body r));
          t = foldl (\<lambda>t h. sat_add (sat_add t (length (h_name h))) (length (h_value h))) t (cr_headers r);
          t = foldl (\<lambda>t (name, vals). foldl (\<lambda>t v. sat_add t (length v)) (sat_add t (length name)) vals)
                t (cr_vary r);
          t = (case cr_etag r of None \<Rightarrow> t | Some e \<Rightarrow> sat_add t (length e))
      in case cr_last_modified r of None \<Rightarrow> t | Some m \<Rightarrow> sat_add t (length m))"

definition headers_with_age :: "header_list \<Rightarrow> nat \<Rightarrow> header_list" where
  "headers_with_age headers age =
     hl_add (filter (\<lambda>h. \<not> ascii_iequals (h_name h) ''age'') headers) ''age'' (to_string age)"

definition headers_for_revalidation :: "header_list \<Rightarrow> header_list" where
  "headers_for_revalidation headers =
     filter (\<lambda>h. \<not> (ascii_iequals (h_name h) ''age'' \<or> ascii_iequals (h_name h) ''date'')) headers"

definition merge_headers :: "header_list \<Rightarrow> header_list \<Rightarrow> header_list" where
  "merge_headers stored updated =
     filter (\<lambda>old. ascii_iequals (h_name old) ''content-length'' \<or>
                   \<not> list_ex (\<lambda>new. ascii_iequals (h_name old) (h_name new)) updated) stored @
     filter (\<lambda>h. \<not> ascii_iequals (h_name h) ''content-length'') updated"

text \<open>\<open>None\<close> is the \<^verbatim>\<open>invalid\<close> flag.\<close>

fun age_loop :: "string list \<Rightarrow> nat \<Rightarrow> nat option" where
  "age_loop [] result = Some result"
| "age_loop (v # vs) result =
     (case parse_delta_seconds v of None \<Rightarrow> None | Some parsed \<Rightarrow> age_loop vs (max result parsed))"

definition parse_age :: "header_list \<Rightarrow> nat option" where
  "parse_age headers = age_loop (hl_get_all headers ''age'') 0"

definition elapsed_ns :: "nat \<Rightarrow> nat \<Rightarrow> nat" where
  "elapsed_ns now started_at = (if now \<ge> started_at then now - started_at else 0)"

definition current_age :: "cached_response \<Rightarrow> nat \<Rightarrow> nat" where
  "current_age r now_mono =
     (if now_mono = 0 \<or> cr_stored_at r = 0 then cr_initial_age r
      else
        let resident_seconds = elapsed_ns now_mono (cr_stored_at r) div 1000000000
        in sat_add (cr_initial_age r) resident_seconds)"

subsection \<open>Building an entry\<close>

text \<open>The age and freshness arithmetic of \<^verbatim>\<open>make_cached_response\<close>.\<close>

definition freshness_of :: "cache_control \<Rightarrow> int option \<Rightarrow> int option \<Rightarrow> nat option" where
  "freshness_of control parsed_date parsed_expires =
     (case cc_max_age control of
        Some a \<Rightarrow> Some a
      | None \<Rightarrow>
          (case (parsed_expires, parsed_date) of
             (Some e, Some d) \<Rightarrow> Some (if e > d then nat (e - d) else 0)
           | _ \<Rightarrow> None))"

definition apparent_age_of :: "nat option \<Rightarrow> int option \<Rightarrow> nat" where
  "apparent_age_of now_wall parsed_date =
     (case (now_wall, parsed_date) of
        (Some now, Some d) \<Rightarrow>
          if d \<le> 0 then sat_add now (nat (- d))
          else if nat d < now then now - nat d else 0
      | _ \<Rightarrow> 0)"

definition response_delay_of :: "nat option \<Rightarrow> nat option \<Rightarrow> nat" where
  "response_delay_of now_wall request_wall =
     (case (now_wall, request_wall) of
        (Some now, Some rq) \<Rightarrow> if now \<ge> rq then now - rq else 0
      | _ \<Rightarrow> 0)"

definition selection_date_of :: "nat option \<Rightarrow> int option \<Rightarrow> int" where
  "selection_date_of now_wall parsed_date =
     (case parsed_date of
        Some d \<Rightarrow> d
      | None \<Rightarrow> (case now_wall of Some now \<Rightarrow> min (int now) i64_max | None \<Rightarrow> 0))"

definition header_date :: "header_list \<Rightarrow> string \<Rightarrow> nat option \<Rightarrow> int option" where
  "header_date headers name now_wall =
     (let v = hl_get headers name in if v = [] then None else parse_http_date v now_wall)"

definition header_option :: "header_list \<Rightarrow> string \<Rightarrow> string option" where
  "header_option headers name = (let v = hl_get headers name in if v = [] then None else Some v)"

text \<open>The checks of \<^verbatim>\<open>make_cached_response\<close> that apply when the result is to be stored.\<close>

definition storable_response :: "response \<Rightarrow> nat option \<Rightarrow> bool" where
  "storable_response resp now_wall =
     (let control = parse_cache_control (rs_headers resp); vary = parse_vary (rs_headers resp);
          parsed_date = header_date (rs_headers resp) ''date'' now_wall;
          expires_value = hl_get (rs_headers resp) ''expires'';
          parsed_expires = header_date (rs_headers resp) ''expires'' now_wall;
          expires_invalid = (expires_value \<noteq> [] \<and> parsed_expires = None);
          freshness_lifetime = freshness_of control parsed_date parsed_expires;
          has_validator = (hl_get (rs_headers resp) ''etag'' \<noteq> [] \<or>
                           hl_get (rs_headers resp) ''last-modified'' \<noteq> [])
      in if cc_no_store control \<or> cc_invalid control \<or> cc_conflicting_max_age control then False
         else if \<not> pv_valid vary \<or> pv_star vary then False
         else if cc_no_cache control \<and> \<not> has_validator then False
         else if freshness_lifetime = None \<and> \<not> cc_no_cache control \<and> \<not> has_validator then False
         else if expires_invalid \<and> cc_max_age control = None \<and> \<not> cc_no_cache control \<and> \<not> has_validator
           then False
         else now_wall \<noteq> None)"

text \<open>The entry itself.\<close>

definition build_entry ::
  "cache_params \<Rightarrow> cache_request \<Rightarrow> response \<Rightarrow> nat option \<Rightarrow> nat option \<Rightarrow> nat \<Rightarrow> bytes \<Rightarrow> cached_response" where
  "build_entry p rq resp request_wall now_wall now_mono body =
     (let control = parse_cache_control (rs_headers resp); vary = parse_vary (rs_headers resp);
          parsed_date = header_date (rs_headers resp) ''date'' now_wall;
          parsed_expires = header_date (rs_headers resp) ''expires'' now_wall;
          freshness_lifetime = freshness_of control parsed_date parsed_expires;
          corrected_age = (case parse_age (rs_headers resp) of None \<Rightarrow> u64_max | Some a \<Rightarrow> a);
          corrected_age_value = sat_add corrected_age (response_delay_of now_wall request_wall);
          cached =
            \<lparr>cr_url = cq_url rq, cr_status_code = rs_status_code resp,
             cr_headers = rs_headers resp, cr_body = body,
             cr_vary = map (\<lambda>n. (n, request_field_values (cq_headers rq) n)) (pv_names vary),
             cr_entry_id = 0, cr_selection_date = selection_date_of now_wall parsed_date,
             cr_stored_at = now_mono,
             cr_initial_age = max (apparent_age_of now_wall parsed_date) corrected_age_value,
             cr_freshness_lifetime = (case freshness_lifetime of None \<Rightarrow> 0 | Some f \<Rightarrow> f),
             cr_etag = header_option (rs_headers resp) ''etag'',
             cr_last_modified = header_option (rs_headers resp) ''last-modified'',
             cr_requires_revalidation = cc_no_cache control,
             cr_must_revalidate = cc_must_revalidate control,
             cr_stale_if_error = cc_stale_if_error control, cr_accounted = 0\<rparr>
      in cached\<lparr>cr_accounted := accounted_bytes (cp_object_size p) cached\<rparr>)"

definition make_cached_response ::
  "cache_params \<Rightarrow> cache_request \<Rightarrow> response \<Rightarrow> nat option \<Rightarrow> nat option \<Rightarrow> nat \<Rightarrow> bool \<Rightarrow>
   bytes option \<Rightarrow> cached_response option" where
  "make_cached_response p rq resp request_wall now_wall now_mono require_cacheable shared_body =
     (let body = (case shared_body of Some b \<Rightarrow> b | None \<Rightarrow> rs_body resp);
          request_control = parse_cache_control (cq_headers rq)
      in if request_cache_bypassed rq request_control \<or> cc_invalid request_control \<or>
            rs_status_code resp \<noteq> 200 \<or> (require_cacheable \<and> length body > cp_max_entry_bytes p) \<or>
            (require_cacheable \<and> now_mono = 0) then None
         else if require_cacheable \<and> \<not> storable_response resp now_wall then None
         else
           let cached = build_entry p rq resp request_wall now_wall now_mono body
           in if require_cacheable \<and> cr_accounted cached > cp_max_entry_bytes p then None
              else Some cached)"

definition should_capture :: "cache_request \<Rightarrow> int \<Rightarrow> header_list \<Rightarrow> bool" where
  "should_capture rq status response_headers =
     (let request_control = parse_cache_control (cq_headers rq) in
      if request_cache_bypassed rq request_control \<or> cc_invalid request_control \<or> status \<noteq> 200 then False
      else
        let control = parse_cache_control response_headers in
        if cc_no_store control \<or> cc_invalid control \<or> cc_conflicting_max_age control then False
        else
          let vary = parse_vary response_headers in
          if \<not> pv_valid vary \<or> pv_star vary then False
          else
            let has_freshness = (cc_max_age control \<noteq> None \<or>
                  (hl_get response_headers ''expires'' \<noteq> [] \<and> hl_get response_headers ''date'' \<noteq> []));
                has_validator = (hl_get response_headers ''etag'' \<noteq> [] \<or>
                                 hl_get response_headers ''last-modified'' \<noteq> [])
            in if cc_no_cache control \<and> \<not> has_validator then False
               else has_freshness \<or> (cc_no_cache control \<and> has_validator))"

subsection \<open>The store\<close>

definition drop_bytes :: "nat \<Rightarrow> cached_response \<Rightarrow> nat" where
  "drop_bytes tot e = tot - min tot (cr_accounted e)"

text \<open>
  The eviction loop removes from the back; \<open>retained\<close> turns false when the entry just inserted goes.
  (An empty list with bytes left would be undefined behaviour of \<^verbatim>\<open>std::prev\<close>; the invariant below
  shows that the total is then zero, so the case cannot arise.)
\<close>

function evict_loop ::
  "cache_params \<Rightarrow> nat \<Rightarrow> cached_response list \<Rightarrow> nat \<Rightarrow> bool \<Rightarrow> cached_response list \<times> nat \<times> bool" where
  "evict_loop p inserted_id es tot retained =
     (if length es > cp_max_entries p \<or> tot > cp_max_bytes p then
        (if es = [] then (es, tot, retained)
         else evict_loop p inserted_id (butlast es) (drop_bytes tot (last es))
                (if cr_entry_id (last es) = inserted_id then False else retained))
      else (es, tot, retained))"
  by pat_completeness auto
termination by (relation "measure (\<lambda>(_, _, es, _, _). length es)") auto

declare evict_loop.simps [simp del]

text \<open>The part of \<^verbatim>\<open>insert_locked\<close> after an older variant has been removed.\<close>

definition insert_fresh :: "cache_params \<Rightarrow> cached_response \<Rightarrow> cache_state \<Rightarrow> nat option \<times> cache_state" where
  "insert_fresh p resp s =
     (let inserted_id = (if cs_next_entry_id s = 0 then 1 else cs_next_entry_id s);
          resp' = resp\<lparr>cr_entry_id := inserted_id\<rparr>;
          (es, tot, retained) =
            evict_loop p inserted_id (resp' # cs_entries s)
              (sat_add (cs_total_bytes s) (cr_accounted resp')) True
      in (if retained then Some inserted_id else None,
          \<lparr>cs_entries = es, cs_total_bytes = tot, cs_next_entry_id = wrap64 (inserted_id + 1)\<rparr>))"

definition insert_locked :: "cache_params \<Rightarrow> cached_response \<Rightarrow> cache_state \<Rightarrow> nat option \<times> cache_state" where
  "insert_locked p resp s =
     (case find_if (\<lambda>e. same_variant e resp) (cs_entries s) of
        Some i \<Rightarrow>
          if more_recent (cs_entries s ! i) resp then (None, s)
          else insert_fresh p resp
                 (s\<lparr>cs_entries := take i (cs_entries s) @ drop (i + 1) (cs_entries s),
                    cs_total_bytes := drop_bytes (cs_total_bytes s) (cs_entries s ! i)\<rparr>)
      | None \<Rightarrow> insert_fresh p resp s)"

definition cache_store ::
  "cache_params \<Rightarrow> cache_clock \<Rightarrow> cache_request \<Rightarrow> response \<Rightarrow> nat option \<Rightarrow> cache_state \<Rightarrow> bool \<times> cache_state" where
  "cache_store p clock rq resp request_wall s =
     (case ck_wall clock of
        None \<Rightarrow> (False, s)
      | Some w \<Rightarrow>
          (case make_cached_response p rq resp request_wall (Some w) (ck_mono clock) True None of
             None \<Rightarrow> (False, s)
           | Some cached \<Rightarrow> (case insert_locked p cached s of (r, s') \<Rightarrow> (r \<noteq> None, s'))))"

text \<open>The index of the most recent entry that satisfies \<open>P\<close>, the first one among equals.\<close>

definition best_index :: "(cached_response \<Rightarrow> bool) \<Rightarrow> cached_response list \<Rightarrow> nat option" where
  "best_index P es =
     foldl (\<lambda>best i. if P (es ! i) then
                       (case best of None \<Rightarrow> Some i
                        | Some b \<Rightarrow> if more_recent (es ! i) (es ! b) then Some i else best)
                     else best) None [0..<length es]"

definition entry_matches :: "cache_request \<Rightarrow> cached_response \<Rightarrow> bool" where
  "entry_matches rq e \<longleftrightarrow> cr_url e = cq_url rq \<and> vary_matches e (cq_headers rq)"

definition lookup_locked ::
  "cache_clock \<Rightarrow> cache_request \<Rightarrow> cache_control \<Rightarrow> cache_state \<Rightarrow> cache_lookup \<times> cache_state" where
  "lookup_locked clock rq request_control s =
     (let es = cs_entries s in
      case best_index (entry_matches rq) es of
        None \<Rightarrow> (Cache_miss, s)
      | Some b \<Rightarrow>
          let found = es ! b;
              s' = s\<lparr>cs_entries := found # take b es @ drop (b + 1) es\<rparr>;
              age = current_age found (ck_mono clock);
              resp = found\<lparr>cr_headers := headers_with_age (cr_headers found) age\<rparr>;
              request_age_exceeded =
                (case cc_max_age request_control of None \<Rightarrow> False | Some m \<Rightarrow> age > m);
              clock_unavailable = (ck_wall clock = None \<or> ck_mono clock = 0)
          in if \<not> clock_unavailable \<and> \<not> cr_requires_revalidation resp \<and>
                \<not> cc_no_cache request_control \<and> \<not> request_age_exceeded \<and>
                age < cr_freshness_lifetime resp
             then (Cache_fresh resp, s')
             else (Cache_needs_validation resp (map cr_entry_id (filter (entry_matches rq) es)), s'))"

definition cache_lookup ::
  "cache_clock \<Rightarrow> cache_request \<Rightarrow> cache_state \<Rightarrow> cache_lookup \<times> cache_state" where
  "cache_lookup clock rq s =
     (let request_control = parse_cache_control (cq_headers rq) in
      if request_cache_bypassed rq request_control \<or> cc_invalid request_control then (Cache_miss, s)
      else lookup_locked clock rq request_control s)"

definition can_serve_stale_if_error :: "cache_clock \<Rightarrow> cached_response \<Rightarrow> bool" where
  "can_serve_stale_if_error clock r =
     (case cr_stale_if_error r of
        None \<Rightarrow> False
      | Some limit \<Rightarrow>
          if cr_must_revalidate r \<or> cr_requires_revalidation r then False
          else if ck_wall clock = None then False
          else
            let age = current_age r (ck_mono clock) in
            if age < cr_freshness_lifetime r then False
            else age - cr_freshness_lifetime r \<le> limit)"

definition response_with_current_age :: "cache_clock \<Rightarrow> cached_response \<Rightarrow> cached_response" where
  "response_with_current_age clock r =
     (if ck_mono clock = 0 \<or> cr_stored_at r = 0 then r
      else r\<lparr>cr_headers := headers_with_age (cr_headers r) (current_age r (ck_mono clock))\<rparr>)"

text \<open>The erasing loop of \<^verbatim>\<open>invalidate\<close> and \<^verbatim>\<open>merge_304\<close>.\<close>

fun erase_loop ::
  "(cached_response \<Rightarrow> bool) \<Rightarrow> cached_response list \<Rightarrow> nat \<Rightarrow> cached_response list \<times> nat" where
  "erase_loop P [] tot = ([], tot)"
| "erase_loop P (e # es) tot =
     (if P e then erase_loop P es (drop_bytes tot e)
      else (case erase_loop P es tot of (es', t) \<Rightarrow> (e # es', t)))"

definition erase_where :: "(cached_response \<Rightarrow> bool) \<Rightarrow> cache_state \<Rightarrow> cache_state" where
  "erase_where P s =
     (case erase_loop P (cs_entries s) (cs_total_bytes s) of
        (es, t) \<Rightarrow> s\<lparr>cs_entries := es, cs_total_bytes := t\<rparr>)"

definition cache_invalidate :: "string \<Rightarrow> cache_state \<Rightarrow> cache_state" where
  "cache_invalidate url s = erase_where (\<lambda>e. cr_url e = url) s"

definition invalidate_entry :: "nat \<Rightarrow> cache_state \<Rightarrow> bool \<times> cache_state" where
  "invalidate_entry entry_id s =
     (if entry_id = 0 then (False, s)
      else case find_if (\<lambda>e. cr_entry_id e = entry_id) (cs_entries s) of
        None \<Rightarrow> (False, s)
      | Some i \<Rightarrow>
          (True, s\<lparr>cs_entries := take i (cs_entries s) @ drop (i + 1) (cs_entries s),
                   cs_total_bytes := drop_bytes (cs_total_bytes s) (cs_entries s ! i)\<rparr>))"

definition cache_clear :: "cache_state \<Rightarrow> cache_state" where
  "cache_clear s = s\<lparr>cs_entries := [], cs_total_bytes := 0\<rparr>"

definition plain_request :: "string \<Rightarrow> string \<Rightarrow> cache_request" where
  "plain_request meth url =
     \<lparr>cq_method = meth, cq_url = url, cq_headers = [], cq_streaming = False, cq_has_body = False\<rparr>"

definition cache_get ::
  "cache_clock \<Rightarrow> string \<Rightarrow> string \<Rightarrow> response \<Rightarrow> cache_state \<Rightarrow> bool \<times> response \<times> cache_state" where
  "cache_get clock meth url out s =
     (case cache_lookup clock (plain_request meth url) s of
        (Cache_fresh r, s') \<Rightarrow>
          (True, out\<lparr>rs_status_code := cr_status_code r, rs_headers := cr_headers r,
                     rs_body := cr_body r\<rparr>, s')
      | (_, s') \<Rightarrow> (False, out, s'))"

definition cache_put ::
  "cache_params \<Rightarrow> cache_clock \<Rightarrow> string \<Rightarrow> string \<Rightarrow> response \<Rightarrow> cache_state \<Rightarrow> cache_state" where
  "cache_put p clock meth url resp s = snd (cache_store p clock (plain_request meth url) resp None s)"

subsection \<open>Merging a 304\<close>

text \<open>The validators of a 304 response against a stored representation.\<close>

definition validator_matches :: "header_list \<Rightarrow> cached_response \<Rightarrow> bool" where
  "validator_matches response_headers current =
     (if has_header response_headers ''etag'' then
        (case cr_etag current of
           None \<Rightarrow> False
         | Some e \<Rightarrow> entity_tag_selects_stored e (hl_get response_headers ''etag''))
      else if has_header response_headers ''last-modified'' then
        cr_last_modified current = Some (hl_get response_headers ''last-modified'')
      else cr_etag current = None \<and> cr_last_modified current = None)"

definition merged_response :: "cached_response \<Rightarrow> header_list \<Rightarrow> response" where
  "merged_response e validation_headers =
     new_response\<lparr>rs_status_code := cr_status_code e,
       rs_headers := merge_headers (headers_for_revalidation (cr_headers e)) validation_headers\<rparr>"

text \<open>What a validated entry becomes, when it may still be stored.\<close>

definition refreshed_entry ::
  "cache_params \<Rightarrow> cache_clock \<Rightarrow> cache_request \<Rightarrow> header_list \<Rightarrow> nat option \<Rightarrow> cached_response \<Rightarrow> cached_response option" where
  "refreshed_entry p clock rq validation_headers request_wall current =
     (if ck_wall clock \<noteq> None \<and> ck_mono clock \<noteq> 0
      then make_cached_response p rq (merged_response current validation_headers) request_wall
             (ck_wall clock) (ck_mono clock) True (Some (cr_body current))
      else None)"

text \<open>The entries a 304 updates: all candidates with the strong validator, or the newest one.\<close>

definition selected_for_refresh ::
  "header_list \<Rightarrow> nat list \<Rightarrow> cached_response list \<Rightarrow> cached_response list" where
  "selected_for_refresh response_headers candidate_ids es =
     (let ok = (\<lambda>e. cr_entry_id e \<in> set candidate_ids \<and> validator_matches response_headers e);
          received_tag = (if has_header response_headers ''etag''
                          then parse_entity_tag (hl_get response_headers ''etag'') else None);
          select_one = ((case received_tag of None \<Rightarrow> False | Some (weak, _) \<Rightarrow> weak) \<or>
                        (\<not> has_header response_headers ''etag'' \<and>
                         has_header response_headers ''last-modified''))
      in if select_one
         then (case best_index ok es of None \<Rightarrow> [] | Some i \<Rightarrow> [es ! i])
         else filter ok es)"

fun refresh_loop ::
  "cache_params \<Rightarrow> nat list \<Rightarrow> nat \<Rightarrow> (nat \<times> cached_response) list \<Rightarrow> cached_response option \<Rightarrow> cache_state \<Rightarrow>
   cached_response option \<times> cache_state" where
  "refresh_loop p removed stored_id [] retained s = (retained, s)"
| "refresh_loop p removed stored_id ((replaced_id, cand) # cands) retained s =
     (if list_ex (\<lambda>current. cr_entry_id current \<notin> set removed \<and> same_variant current cand) (cs_entries s)
      then refresh_loop p removed stored_id cands retained s
      else
        let (inserted_id, s') = insert_locked p cand s;
            retained' = (case inserted_id of
               None \<Rightarrow> retained
             | Some i \<Rightarrow>
                 if replaced_id = stored_id then
                   (case find_if (\<lambda>e. cr_entry_id e = i) (cs_entries s') of
                      None \<Rightarrow> retained | Some k \<Rightarrow> Some (cs_entries s' ! k))
                 else retained)
        in refresh_loop p removed stored_id cands retained' s')"

definition refresh_entries ::
  "cache_params \<Rightarrow> cache_clock \<Rightarrow> cached_response \<Rightarrow> cache_request \<Rightarrow> header_list \<Rightarrow> header_list \<Rightarrow>
   nat option \<Rightarrow> nat list \<Rightarrow> cache_state \<Rightarrow> cached_response option \<times> cache_state" where
  "refresh_entries p clock stored rq response_headers validation_headers request_wall candidate_ids s =
     (let chosen = selected_for_refresh response_headers candidate_ids (cs_entries s);
          removed = map cr_entry_id chosen;
          cands = List.map_filter
                    (\<lambda>e. map_option (\<lambda>r. (cr_entry_id e, r))
                           (refreshed_entry p clock rq validation_headers request_wall e)) chosen
      in refresh_loop p removed (cr_entry_id stored) cands None
           (erase_where (\<lambda>e. cr_entry_id e \<in> set removed) s))"

text \<open>
  The decisions of \<^verbatim>\<open>merge_304\<close>: reject, deliver without touching the store (a 304 to an
  engine-generated \<^verbatim>\<open>If-Modified-Since\<close> that repeats no validator), or deliver and refresh.
\<close>

datatype merge_plan = Merge_reject | Merge_deliver_only | Merge_refresh

definition candidate_ids_of :: "cached_response \<Rightarrow> nat list \<Rightarrow> nat list" where
  "candidate_ids_of stored validation_candidate_ids =
     (if validation_candidate_ids = [] then [cr_entry_id stored] else validation_candidate_ids)"

definition plan_304 ::
  "cached_response \<Rightarrow> cache_request \<Rightarrow> header_list \<Rightarrow> nat list \<Rightarrow> bool \<Rightarrow> cached_response list \<Rightarrow> merge_plan" where
  "plan_304 stored rq response_headers validation_candidate_ids sent_ims es =
     (if cr_url stored \<noteq> cq_url rq \<or> \<not> vary_matches stored (cq_headers rq) then Merge_reject
      else
        let candidate_ids = candidate_ids_of stored validation_candidate_ids;
            has_etag = has_header response_headers ''etag'';
            has_lm = has_header response_headers ''last-modified'';
            delivery_only_ims = (\<not> has_etag \<and> \<not> has_lm \<and> sent_ims \<and> cr_etag stored = None \<and>
                                 cr_last_modified stored \<noteq> None)
        in if \<not> delivery_only_ims \<and> \<not> validator_matches response_headers stored then Merge_reject
           else if \<not> has_etag \<and> \<not> has_lm then
             (case find_if (\<lambda>e. cr_entry_id e = cr_entry_id stored \<and>
                               cr_entry_id e \<in> set candidate_ids) es of
                None \<Rightarrow> Merge_reject
              | Some k \<Rightarrow>
                  let sel = es ! k in
                  if delivery_only_ims then
                    (if cr_etag sel \<noteq> None \<or> cr_last_modified sel \<noteq> cr_last_modified stored
                     then Merge_reject else Merge_deliver_only)
                  else
                    let ambiguous = (validation_candidate_ids = [] \<and>
                          list_ex (\<lambda>e. cr_entry_id e \<noteq> cr_entry_id stored \<and> entry_matches rq e) es)
                    in if length candidate_ids \<noteq> 1 \<or> ambiguous \<or> cr_etag sel \<noteq> None \<or>
                          cr_last_modified sel \<noteq> None then Merge_reject
                       else Merge_refresh)
           else Merge_refresh)"

definition validation_headers_of :: "cache_clock \<Rightarrow> header_list \<Rightarrow> header_list" where
  "validation_headers_of clock response_headers =
     (case ck_wall clock of
        Some w \<Rightarrow> if has_header response_headers ''date'' then response_headers
                  else hl_add response_headers ''date'' (format_http_date w)
      | None \<Rightarrow> response_headers)"

definition merge_304 ::
  "cache_params \<Rightarrow> cache_clock \<Rightarrow> cached_response \<Rightarrow> cache_request \<Rightarrow> header_list \<Rightarrow> nat option \<Rightarrow> nat list \<Rightarrow>
   bool \<Rightarrow> cache_state \<Rightarrow> revalidation_result option \<times> cache_state" where
  "merge_304 p clock stored rq response_headers request_wall validation_candidate_ids sent_ims s =
     (let plan = plan_304 stored rq response_headers validation_candidate_ids sent_ims (cs_entries s);
          validation_headers = validation_headers_of clock response_headers
      in case make_cached_response p rq (merged_response stored validation_headers) request_wall
                (ck_wall clock) (ck_mono clock) False (Some (cr_body stored)) of
           None \<Rightarrow> (None, s)
         | Some delivery \<Rightarrow>
             (case plan of
                Merge_reject \<Rightarrow> (None, s)
              | Merge_deliver_only \<Rightarrow> (Some \<lparr>rv_delivery = delivery, rv_retention = None\<rparr>, s)
              | Merge_refresh \<Rightarrow>
                  (case refresh_entries p clock stored rq response_headers validation_headers request_wall
                          (candidate_ids_of stored validation_candidate_ids) s of
                     (ret, s') \<Rightarrow> (Some \<lparr>rv_delivery = delivery, rv_retention = ret\<rparr>, s'))))"

end
