(* ===== verification/Response_Cache_Props.thy ===== *)
theory Response_Cache_Props
  imports Response_Cache Kat_System "HOL-Library.Multiset"
begin

text \<open>
  What the private cache guarantees: its bounds and accounting along every sequence of operations,
  which requests it never answers, when an entry is served as fresh, and what a 304 may change.
\<close>

subsection \<open>The invariant\<close>

definition params_ok :: "cache_params \<Rightarrow> bool" where
  "params_ok p \<longleftrightarrow> 0 < cp_max_entries p \<and> cp_max_bytes p + cp_max_entry_bytes p \<le> u64_max"

definition entry_ok :: "cache_params \<Rightarrow> cached_response \<Rightarrow> bool" where
  "entry_ok p e \<longleftrightarrow>
     cr_status_code e = 200 \<and> cr_stored_at e \<noteq> 0 \<and>
     cr_accounted e = accounted_bytes (cp_object_size p) e \<and> cr_accounted e \<le> cp_max_entry_bytes p \<and>
     \<not> cc_no_store (parse_cache_control (cr_headers e)) \<and>
     \<not> cc_invalid (parse_cache_control (cr_headers e)) \<and>
     \<not> cc_conflicting_max_age (parse_cache_control (cr_headers e)) \<and>
     pv_valid (parse_vary (cr_headers e)) \<and> \<not> pv_star (parse_vary (cr_headers e)) \<and>
     map fst (cr_vary e) = pv_names (parse_vary (cr_headers e))"

definition variant :: "cached_response \<Rightarrow> string \<times> vary_key list" where
  "variant e = (cr_url e, cr_vary e)"

definition sum_bytes :: "cached_response list \<Rightarrow> nat" where
  "sum_bytes es = sum_list (map cr_accounted es)"

definition cache_inv :: "cache_params \<Rightarrow> cache_state \<Rightarrow> bool" where
  "cache_inv p s \<longleftrightarrow>
     length (cs_entries s) \<le> cp_max_entries p \<and> cs_total_bytes s = sum_bytes (cs_entries s) \<and>
     cs_total_bytes s \<le> cp_max_bytes p \<and> distinct (map variant (cs_entries s)) \<and>
     (\<forall>e\<in>set (cs_entries s). entry_ok p e)"

lemma same_variant_iff: "same_variant a b \<longleftrightarrow> variant a = variant b"
  by (simp add: same_variant_def variant_def)

lemma sum_bytes_simps [simp]:
  "sum_bytes [] = 0" "sum_bytes (e # es) = cr_accounted e + sum_bytes es"
  "sum_bytes (xs @ ys) = sum_bytes xs + sum_bytes ys"
  by (simp_all add: sum_bytes_def)

lemma accounted_bytes_id [simp]:
  "accounted_bytes n (e\<lparr>cr_entry_id := i\<rparr>) = accounted_bytes n e"
  "accounted_bytes n (e\<lparr>cr_accounted := k\<rparr>) = accounted_bytes n e"
  by (simp_all add: accounted_bytes_def)

lemma entry_ok_id [simp]: "entry_ok p (e\<lparr>cr_entry_id := i\<rparr>) = entry_ok p e"
  by (simp add: entry_ok_def)

lemma drop_bytes_exact: "cr_accounted e \<le> t \<Longrightarrow> drop_bytes t e = t - cr_accounted e"
  by (simp add: drop_bytes_def min_def)

lemma build_entry_simps [simp]:
  "cr_url (build_entry p rq resp rw w m b) = cq_url rq"
  "cr_status_code (build_entry p rq resp rw w m b) = rs_status_code resp"
  "cr_headers (build_entry p rq resp rw w m b) = rs_headers resp"
  "cr_body (build_entry p rq resp rw w m b) = b"
  "cr_stored_at (build_entry p rq resp rw w m b) = m"
  "cr_vary (build_entry p rq resp rw w m b) =
     map (\<lambda>n. (n, request_field_values (cq_headers rq) n)) (pv_names (parse_vary (rs_headers resp)))"
  by (simp_all add: build_entry_def Let_def)

lemma build_entry_accounted:
  "cr_accounted (build_entry p rq resp rw w m b) =
     accounted_bytes (cp_object_size p) (build_entry p rq resp rw w m b)"
  unfolding build_entry_def Let_def by (subst accounted_bytes_id(2)) simp

lemma storable_response_facts:
  assumes "storable_response resp w"
  shows "\<not> cc_no_store (parse_cache_control (rs_headers resp))"
    "\<not> cc_invalid (parse_cache_control (rs_headers resp))"
    "\<not> cc_conflicting_max_age (parse_cache_control (rs_headers resp))"
    "pv_valid (parse_vary (rs_headers resp))" "\<not> pv_star (parse_vary (rs_headers resp))" "w \<noteq> None"
  using assms by (simp_all add: storable_response_def Let_def split: if_splits)

lemma make_cached_response_Some:
  assumes "make_cached_response p rq resp rw w m req b = Some e"
  shows "e = build_entry p rq resp rw w m (case b of None \<Rightarrow> rs_body resp | Some x \<Rightarrow> x)"
    "\<not> request_cache_bypassed rq (parse_cache_control (cq_headers rq))"
    "\<not> cc_invalid (parse_cache_control (cq_headers rq))" "rs_status_code resp = 200"
    "req \<Longrightarrow> m \<noteq> 0 \<and> storable_response resp w \<and> cr_accounted e \<le> cp_max_entry_bytes p"
proof -
  let ?b = "case b of None \<Rightarrow> rs_body resp | Some x \<Rightarrow> x"
  have "\<not> request_cache_bypassed rq (parse_cache_control (cq_headers rq)) \<and>
    \<not> cc_invalid (parse_cache_control (cq_headers rq)) \<and> rs_status_code resp = 200 \<and>
    (req \<longrightarrow> m \<noteq> 0 \<and> storable_response resp w) \<and>
    (req \<longrightarrow> \<not> cr_accounted (build_entry p rq resp rw w m ?b) > cp_max_entry_bytes p) \<and>
    build_entry p rq resp rw w m ?b = e"
    using assms unfolding make_cached_response_def Let_def if_None_Some_iff option.inject by auto
  then show "e = build_entry p rq resp rw w m ?b"
    "\<not> request_cache_bypassed rq (parse_cache_control (cq_headers rq))"
    "\<not> cc_invalid (parse_cache_control (cq_headers rq))" "rs_status_code resp = 200"
    "req \<Longrightarrow> m \<noteq> 0 \<and> storable_response resp w \<and> cr_accounted e \<le> cp_max_entry_bytes p" by auto
qed

lemma make_cached_response_entry:
  assumes "make_cached_response p rq resp rw w m True b = Some e"
  shows "entry_ok p e" "cr_url e = cq_url rq" "cr_stored_at e = m" "vary_matches e (cq_headers rq)"
    "cr_body e = (case b of None \<Rightarrow> rs_body resp | Some x \<Rightarrow> x)"
proof -
  note F = make_cached_response_Some [OF assms]
  note G = F(5) [OF TrueI]
  note S = storable_response_facts [OF conjunct1 [OF conjunct2 [OF G]]]
  show "cr_url e = cq_url rq" "cr_stored_at e = m"
    "cr_body e = (case b of None \<Rightarrow> rs_body resp | Some x \<Rightarrow> x)" by (simp_all add: F(1))
  show "vary_matches e (cq_headers rq)" by (simp add: F(1) vary_matches_def list_all_iff)
  have "cr_accounted e = accounted_bytes (cp_object_size p) e"
    unfolding F(1) by (rule build_entry_accounted)
  then show "entry_ok p e" using S G F(4) by (simp add: entry_ok_def) (simp add: F(1) comp_def)
qed

lemma evict_loop_keeps:
  assumes "tot = sum_bytes es"
  shows "\<exists>k. fst (evict_loop p i es tot r) = take k es"
    and "fst (snd (evict_loop p i es tot r)) = sum_bytes (fst (evict_loop p i es tot r))"
    and "length (fst (evict_loop p i es tot r)) \<le> cp_max_entries p"
    and "sum_bytes (fst (evict_loop p i es tot r)) \<le> cp_max_bytes p"
proof -
  have "(\<exists>k. fst (evict_loop p i es tot r) = take k es) \<and>
    fst (snd (evict_loop p i es tot r)) = sum_bytes (fst (evict_loop p i es tot r)) \<and>
    length (fst (evict_loop p i es tot r)) \<le> cp_max_entries p \<and>
    sum_bytes (fst (evict_loop p i es tot r)) \<le> cp_max_bytes p"
    using assms
  proof (induction es arbitrary: tot r rule: rev_induct)
    case Nil
    then show ?case by (auto simp: evict_loop.simps)
  next
    case (snoc e es)
    show ?case
    proof (cases "length (es @ [e]) > cp_max_entries p \<or> tot > cp_max_bytes p")
      case False
      then have eq: "evict_loop p i (es @ [e]) tot r = (es @ [e], tot, r)" by (subst evict_loop.simps) simp
      have "es @ [e] = take (Suc (length es)) (es @ [e])" by simp
      then have "\<exists>k. es @ [e] = take k (es @ [e])" by blast
      then show ?thesis unfolding eq using False snoc.prems by simp
    next
      case True
      have "drop_bytes tot e = sum_bytes es" using snoc.prems by (simp add: drop_bytes_exact)
      note IH = snoc.IH [OF this, of "if cr_entry_id e = i then False else r"]
      have eq: "evict_loop p i (es @ [e]) tot r =
          evict_loop p i es (drop_bytes tot e) (if cr_entry_id e = i then False else r)"
        using True by (subst evict_loop.simps) simp
      from IH obtain k where
        "fst (evict_loop p i es (drop_bytes tot e) (if cr_entry_id e = i then False else r)) = take k es"
        by blast
      also have "take k es = take (min k (length es)) (es @ [e])" by (simp add: min_def)
      finally have "\<exists>k'. fst (evict_loop p i (es @ [e]) tot r) = take k' (es @ [e])"
        unfolding eq by blast
      then show ?thesis using IH unfolding eq by blast
    qed
  qed
  then show "\<exists>k. fst (evict_loop p i es tot r) = take k es"
    "fst (snd (evict_loop p i es tot r)) = sum_bytes (fst (evict_loop p i es tot r))"
    "length (fst (evict_loop p i es tot r)) \<le> cp_max_entries p"
    "sum_bytes (fst (evict_loop p i es tot r)) \<le> cp_max_bytes p" by auto
qed

lemma insert_fresh_inv:
  assumes "params_ok p" "cache_inv p s" "entry_ok p e" "variant e \<notin> variant ` set (cs_entries s)"
  shows "cache_inv p (snd (insert_fresh p e s))"
    and "\<exists>i k. cs_entries (snd (insert_fresh p e s)) = take k (e\<lparr>cr_entry_id := i\<rparr> # cs_entries s)"
proof -
  define i where "i = (if cs_next_entry_id s = 0 then 1 else cs_next_entry_id s)"
  define e' where "e' = e\<lparr>cr_entry_id := i\<rparr>"
  have "cr_accounted e \<le> cp_max_entry_bytes p" using assms(3) by (simp add: entry_ok_def)
  then have "cs_total_bytes s + cr_accounted e' \<le> u64_max"
    using assms(1,2) by (simp add: params_ok_def cache_inv_def e'_def)
  then have t: "sat_add (cs_total_bytes s) (cr_accounted e') = sum_bytes (e' # cs_entries s)"
    using assms(2) by (simp add: sat_add_exact cache_inv_def)
  define r where "r = evict_loop p i (e' # cs_entries s) (sum_bytes (e' # cs_entries s)) True"
  note E = evict_loop_keeps [OF refl, of p i "e' # cs_entries s" True, folded r_def]
  have ins: "snd (insert_fresh p e s) =
      \<lparr>cs_entries = fst r, cs_total_bytes = fst (snd r), cs_next_entry_id = wrap64 (i + 1)\<rparr>"
    unfolding insert_fresh_def Let_def i_def [symmetric] e'_def [symmetric] t r_def [symmetric]
    by (cases r) (auto split: prod.split)
  from E(1) obtain k where k: "fst r = take k (e' # cs_entries s)" by blast
  have "distinct (map variant (e' # cs_entries s))"
    using assms(2,4) by (auto simp: cache_inv_def e'_def variant_def)
  then have "distinct (map variant (fst r))" unfolding k by (simp add: take_map [symmetric] del: list.map)
  moreover have "\<forall>x\<in>set (fst r). entry_ok p x"
  proof
    fix x assume "x \<in> set (fst r)"
    then have "x = e' \<or> x \<in> set (cs_entries s)"
      using in_set_takeD [of x k "e' # cs_entries s"] unfolding k by auto
    then show "entry_ok p x" using assms(2,3) by (auto simp: cache_inv_def e'_def)
  qed
  ultimately show "cache_inv p (snd (insert_fresh p e s))"
    using E unfolding ins by (simp add: cache_inv_def)
  show "\<exists>i k. cs_entries (snd (insert_fresh p e s)) = take k (e\<lparr>cr_entry_id := i\<rparr> # cs_entries s)"
    unfolding ins using k e'_def by auto
qed

definition remove_at :: "nat \<Rightarrow> cache_state \<Rightarrow> cache_state" where
  "remove_at i s =
     s\<lparr>cs_entries := take i (cs_entries s) @ drop (i + 1) (cs_entries s),
       cs_total_bytes := drop_bytes (cs_total_bytes s) (cs_entries s ! i)\<rparr>"

lemma split_at: "i < length xs \<Longrightarrow> xs = take i xs @ xs ! i # drop (i + 1) xs"
  using id_take_nth_drop [of i xs] by simp

lemma remove_at_inv:
  assumes "cache_inv p s" "i < length (cs_entries s)"
  shows "cache_inv p (remove_at i s)"
    "variant (cs_entries s ! i) \<notin> variant ` set (cs_entries (remove_at i s))"
    "set (cs_entries (remove_at i s)) \<subseteq> set (cs_entries s)"
proof -
  define xs e ys where "xs = take i (cs_entries s)" and e_def: "e = cs_entries s ! i"
    and "ys = drop (i + 1) (cs_entries s)"
  then have es: "cs_entries s = xs @ e # ys" and r: "cs_entries (remove_at i s) = xs @ ys"
    using split_at [OF assms(2)] by (simp_all add: remove_at_def)
  have e: "cs_entries s ! i = e" by (simp add: e_def)
  have t: "cs_total_bytes (remove_at i s) = sum_bytes (xs @ ys)"
    using assms(1) es e by (simp add: remove_at_def cache_inv_def drop_bytes_exact)
  show "cache_inv p (remove_at i s)"
    using assms(1) r t by (auto simp: cache_inv_def es)
  show "variant (cs_entries s ! i) \<notin> variant ` set (cs_entries (remove_at i s))"
    unfolding e r using assms(1) by (auto simp: cache_inv_def es)
  show "set (cs_entries (remove_at i s)) \<subseteq> set (cs_entries s)" by (auto simp: r es)
qed

lemma insert_locked_cases:
  assumes "params_ok p" "cache_inv p s" "entry_ok p e"
  shows "cache_inv p (snd (insert_locked p e s))"
    and "x \<in> set (cs_entries (snd (insert_locked p e s))) \<Longrightarrow>
           x \<in> set (cs_entries s) \<or> (\<exists>i. x = e\<lparr>cr_entry_id := i\<rparr>)"
proof -
  have *: "cache_inv p (snd (insert_locked p e s)) \<and>
    (x \<in> set (cs_entries (snd (insert_locked p e s))) \<longrightarrow>
           x \<in> set (cs_entries s) \<or> (\<exists>i. x = e\<lparr>cr_entry_id := i\<rparr>))"
  proof (cases "find_if (\<lambda>c. same_variant c e) (cs_entries s)")
    case None
    then have new: "variant e \<notin> variant ` set (cs_entries s)"
      by (auto simp: find_if_None same_variant_iff)
    note I = insert_fresh_inv [OF assms new]
    from I(2) obtain i k where "cs_entries (snd (insert_fresh p e s)) = take k (e\<lparr>cr_entry_id := i\<rparr> # cs_entries s)"
      by blast
    then have "x \<in> set (cs_entries (snd (insert_fresh p e s))) \<Longrightarrow> x = e\<lparr>cr_entry_id := i\<rparr> \<or> x \<in> set (cs_entries s)"
      using in_set_takeD [of x k "e\<lparr>cr_entry_id := i\<rparr> # cs_entries s"] by auto
    with I(1) show ?thesis by (auto simp: insert_locked_def None)
  next
    case (Some j)
    note f = find_if_split [OF Some]
    show ?thesis
    proof (cases "more_recent (cs_entries s ! j) e")
      case True
      then show ?thesis using Some assms(2) by (simp add: insert_locked_def)
    next
      case False
      note R = remove_at_inv [OF assms(2) f(4)]
      have v: "variant e = variant (cs_entries s ! j)" using f(2) by (simp add: same_variant_iff)
      have new: "variant e \<notin> variant ` set (cs_entries (remove_at j s))" unfolding v by (rule R(2))
      note I = insert_fresh_inv [OF assms(1) R(1) assms(3) new]
      have eq: "insert_locked p e s = insert_fresh p e (remove_at j s)"
        using Some False by (simp add: insert_locked_def remove_at_def)
      from I(2) obtain i k where
        "cs_entries (snd (insert_locked p e s)) = take k (e\<lparr>cr_entry_id := i\<rparr> # cs_entries (remove_at j s))"
        unfolding eq by blast
      then have "x \<in> set (cs_entries (snd (insert_locked p e s))) \<Longrightarrow>
          x = e\<lparr>cr_entry_id := i\<rparr> \<or> x \<in> set (cs_entries s)"
        using in_set_takeD [of x k "e\<lparr>cr_entry_id := i\<rparr> # cs_entries (remove_at j s)"] R(3) by auto
      with I(1) show ?thesis unfolding eq by auto
    qed
  qed
  from * show "cache_inv p (snd (insert_locked p e s))" by blast
  from * show "x \<in> set (cs_entries (snd (insert_locked p e s))) \<Longrightarrow>
           x \<in> set (cs_entries s) \<or> (\<exists>i. x = e\<lparr>cr_entry_id := i\<rparr>)" by blast
qed

text \<open>Whatever its counters say, the cache holds after an insertion only what it held before and the new response.\<close>

lemma evict_loop_subset: "set (fst (evict_loop p i es tot r)) \<subseteq> set es"
proof (induction p i es tot r rule: evict_loop.induct)
  case (1 p i es tot r)
  have "set (butlast es) \<subseteq> set es" by (auto dest: in_set_butlastD)
  show ?case
  proof (cases "(length es > cp_max_entries p \<or> tot > cp_max_bytes p) \<and> es \<noteq> []")
    case True
    then have "evict_loop p i es tot r = evict_loop p i (butlast es) (drop_bytes tot (last es))
        (if cr_entry_id (last es) = i then False else r)" by (subst evict_loop.simps) simp
    then show ?thesis using 1 True \<open>set (butlast es) \<subseteq> set es\<close> by (metis subset_trans)
  qed (subst evict_loop.simps, auto)
qed

lemma insert_fresh_subset:
  assumes "x \<in> set (cs_entries (snd (insert_fresh p e s)))"
  shows "x \<in> set (cs_entries s) \<or> (\<exists>i. x = e\<lparr>cr_entry_id := i\<rparr>)"
proof -
  let ?i = "if cs_next_entry_id s = 0 then 1 else cs_next_entry_id s"
  have "set (cs_entries (snd (insert_fresh p e s))) \<subseteq> set (e\<lparr>cr_entry_id := ?i\<rparr> # cs_entries s)"
    unfolding insert_fresh_def Let_def case_prod_beta snd_conv cache_state.simps by (rule evict_loop_subset)
  then show ?thesis using assms by auto
qed

lemma insert_locked_subset:
  "x \<in> set (cs_entries (snd (insert_locked p e s))) \<Longrightarrow> x \<in> set (cs_entries s) \<or> (\<exists>i. x = e\<lparr>cr_entry_id := i\<rparr>)"
  by (auto simp: insert_locked_def split: option.splits if_splits
      dest!: insert_fresh_subset dest: in_set_takeD in_set_dropD)

lemma erase_where_subset: "set (cs_entries (erase_where P s)) \<subseteq> set (cs_entries s)"
proof -
  have "fst (erase_loop P es t) = filter (\<lambda>e. \<not> P e) es" for es t
    by (induction es arbitrary: t) (simp_all add: case_prod_beta)
  then show ?thesis by (simp add: erase_where_def case_prod_beta)
qed

text \<open>A response that is stored.\<close>

lemma cache_store_entries:
  assumes "x \<in> set (cs_entries (snd (cache_store p clock rq resp rw s)))"
  shows "x \<in> set (cs_entries s) \<or>
    rs_status_code resp = 200 \<and> cr_body x = rs_body resp \<and> cr_headers x = rs_headers resp \<and> cr_url x = cq_url rq \<and>
    cr_status_code x = 200"
proof (cases "x \<in> set (cs_entries s)")
  case False
  then obtain e where mk: "make_cached_response p rq resp rw (ck_wall clock) (ck_mono clock) True None = Some e"
    and x: "x \<in> set (cs_entries (snd (insert_locked p e s)))"
    using assms by (auto simp: cache_store_def split: option.splits prod.splits)
  obtain i where "x = e\<lparr>cr_entry_id := i\<rparr>" using insert_locked_subset [OF x] False by blast
  then show ?thesis using make_cached_response_Some(1,4) [OF mk] by simp
qed simp

text \<open>With room for it, an insertion takes nothing away but an older response of the same variant.\<close>

lemma insert_fresh_room:
  assumes "cache_inv p s" "params_ok p" "entry_ok p e" "length (cs_entries s) + 1 \<le> cp_max_entries p"
    "sum_bytes (cs_entries s) + cr_accounted e \<le> cp_max_bytes p"
  shows "\<exists>i. cs_entries (snd (insert_fresh p e s)) = e\<lparr>cr_entry_id := i\<rparr> # cs_entries s"
proof -
  have "sat_add (cs_total_bytes s) (cr_accounted e) = sum_bytes (cs_entries s) + cr_accounted e"
    using assms(1,2,3) by (intro trans [OF sat_add_exact]) (auto simp: cache_inv_def params_ok_def entry_ok_def)
  then show ?thesis
    using assms(4,5) by (auto simp: insert_fresh_def Let_def evict_loop.simps)
qed

lemma insert_locked_room:
  assumes "cache_inv p s" "params_ok p" "entry_ok p e" "length (cs_entries s) + 1 \<le> cp_max_entries p"
    "sum_bytes (cs_entries s) + cr_accounted e \<le> cp_max_bytes p"
  shows "length (cs_entries (snd (insert_locked p e s))) \<le> length (cs_entries s) + 1"
    "sum_bytes (cs_entries (snd (insert_locked p e s))) \<le> sum_bytes (cs_entries s) + cr_accounted e"
    "y \<in> set (cs_entries s) \<Longrightarrow> \<not> same_variant y e \<Longrightarrow> y \<in> set (cs_entries (snd (insert_locked p e s)))"
proof -
  have "length (cs_entries (snd (insert_locked p e s))) \<le> length (cs_entries s) + 1 \<and>
    sum_bytes (cs_entries (snd (insert_locked p e s))) \<le> sum_bytes (cs_entries s) + cr_accounted e \<and>
    (y \<in> set (cs_entries s) \<longrightarrow> \<not> same_variant y e \<longrightarrow> y \<in> set (cs_entries (snd (insert_locked p e s))))"
  proof (cases "find_if (\<lambda>x. same_variant x e) (cs_entries s)")
    case None
    then show ?thesis using insert_fresh_room [OF assms] by (auto simp: insert_locked_def)
  next
    case (Some i)
    note f = find_if_split [OF Some]
    let ?r = "remove_at i s"
    have es: "cs_entries s = take i (cs_entries s) @ cs_entries s ! i # drop (i + 1) (cs_entries s)" by (rule split_at [OF f(4)])
    have r: "cs_entries ?r = take i (cs_entries s) @ drop (i + 1) (cs_entries s)" by (simp add: remove_at_def)
    have len: "length (cs_entries ?r) + 1 = length (cs_entries s)" unfolding r using f(4) by simp
    have bytes: "sum_bytes (cs_entries ?r) \<le> sum_bytes (cs_entries s)" unfolding r by (subst (2) es) simp
    have keep: "y \<in> set (cs_entries ?r)" if "y \<in> set (cs_entries s)" "\<not> same_variant y e"
      using that f(2) unfolding r by (subst (asm) es) auto
    show ?thesis
    proof (cases "more_recent (cs_entries s ! i) e")
      case False
      then have eq: "insert_locked p e s = insert_fresh p e ?r" using Some by (simp add: insert_locked_def remove_at_def)
      show ?thesis
        using insert_fresh_room [OF remove_at_inv(1) [OF assms(1) f(4)] assms(2,3)] assms(4,5) len bytes keep
        unfolding eq by fastforce
    qed (simp add: insert_locked_def Some)
  qed
  then show "length (cs_entries (snd (insert_locked p e s))) \<le> length (cs_entries s) + 1"
    "sum_bytes (cs_entries (snd (insert_locked p e s))) \<le> sum_bytes (cs_entries s) + cr_accounted e"
    "y \<in> set (cs_entries s) \<Longrightarrow> \<not> same_variant y e \<Longrightarrow> y \<in> set (cs_entries (snd (insert_locked p e s)))" by auto
qed

lemma erase_loop_filter:
  "erase_loop P es (x + sum_bytes es) = (filter (\<lambda>e. \<not> P e) es, x + sum_bytes (filter (\<lambda>e. \<not> P e) es))"
proof (induction es arbitrary: x)
  case (Cons e es)
  show ?case
  proof (cases "P e")
    case True
    have "drop_bytes (x + sum_bytes (e # es)) e = x + sum_bytes es" by (simp add: drop_bytes_def)
    then show ?thesis using True Cons by simp
  next
    case False
    have "x + sum_bytes (e # es) = (x + cr_accounted e) + sum_bytes es" by simp
    then have "erase_loop P es (x + sum_bytes (e # es)) =
        (filter (\<lambda>e. \<not> P e) es, (x + cr_accounted e) + sum_bytes (filter (\<lambda>e. \<not> P e) es))"
      using Cons [of "x + cr_accounted e"] by (simp only:)
    then show ?thesis using False by simp
  qed
qed simp

lemma erase_where_inv:
  assumes "cache_inv p s"
  shows "cache_inv p (erase_where P s)" "cs_entries (erase_where P s) = filter (\<lambda>e. \<not> P e) (cs_entries s)"
proof -
  have t: "cs_total_bytes s = 0 + sum_bytes (cs_entries s)" using assms by (simp add: cache_inv_def)
  have e: "erase_where P s = s\<lparr>cs_entries := filter (\<lambda>e. \<not> P e) (cs_entries s),
      cs_total_bytes := sum_bytes (filter (\<lambda>e. \<not> P e) (cs_entries s))\<rparr>"
    unfolding erase_where_def t erase_loop_filter by simp
  then show "cs_entries (erase_where P s) = filter (\<lambda>e. \<not> P e) (cs_entries s)" by simp
  have "sum_bytes (filter Q es) \<le> sum_bytes es" for Q es by (induction es) auto
  from order_trans [OF this, of "cs_entries s" "cp_max_bytes p"] show "cache_inv p (erase_where P s)"
    using assms unfolding e
    by (auto simp: cache_inv_def distinct_map_filter intro: order_trans [OF length_filter_le])
qed

subsection \<open>Choosing an entry\<close>

lemma more_recent_order:
  "\<not> more_recent a a" "more_recent a b \<Longrightarrow> \<not> more_recent c b \<Longrightarrow> \<not> more_recent c a"
  by (auto simp: more_recent_def split: if_splits)

lemma best_index_prefix:
  "case foldl (\<lambda>best i. if P (es ! i) then
                       (case best of None \<Rightarrow> Some i
                        | Some b \<Rightarrow> if more_recent (es ! i) (es ! b) then Some i else best)
                     else best) None [0..<n] of
     None \<Rightarrow> \<forall>j<n. \<not> P (es ! j)
   | Some b \<Rightarrow> b < n \<and> P (es ! b) \<and> (\<forall>j<n. P (es ! j) \<longrightarrow> \<not> more_recent (es ! j) (es ! b))"
proof (induction n)
  case (Suc n)
  then show ?case
    by (auto simp: less_Suc_eq more_recent_order(1) dest: more_recent_order(2) split: option.splits)
qed simp

lemma best_index_None: "best_index P es = None \<longleftrightarrow> (\<forall>e\<in>set es. \<not> P e)"
  using best_index_prefix [where P = P and es = es and n = "length es"] unfolding best_index_def
  by (auto simp: in_set_conv_nth intro: bexI [OF _ nth_mem] split: option.splits)

lemma best_index_Some:
  assumes "best_index P es = Some b"
  shows "b < length es" "P (es ! b)" "e \<in> set es \<Longrightarrow> P e \<Longrightarrow> \<not> more_recent e (es ! b)"
  using best_index_prefix [where P = P and es = es and n = "length es"] assms unfolding best_index_def
  by (auto simp: in_set_conv_nth)

lemma lookup_locked_entries:
  "mset (cs_entries (snd (lookup_locked clock rq c s))) = mset (cs_entries s)"
  "cs_total_bytes (snd (lookup_locked clock rq c s)) = cs_total_bytes s"
proof -
  show "cs_total_bytes (snd (lookup_locked clock rq c s)) = cs_total_bytes s"
    by (auto simp: lookup_locked_def Let_def split: option.splits)
  show "mset (cs_entries (snd (lookup_locked clock rq c s))) = mset (cs_entries s)"
  proof (cases "best_index (entry_matches rq) (cs_entries s)")
    case None
    then show ?thesis by (simp add: lookup_locked_def)
  next
    case (Some b)
    have "cs_entries (snd (lookup_locked clock rq c s)) =
        cs_entries s ! b # take b (cs_entries s) @ drop (b + 1) (cs_entries s)"
      by (simp add: lookup_locked_def Some Let_def)
    moreover have "mset (cs_entries s) = mset (take b (cs_entries s) @ cs_entries s ! b # drop (b + 1) (cs_entries s))"
      using split_at [OF best_index_Some(1) [OF Some]] by simp
    ultimately show ?thesis by simp
  qed
qed

lemma cache_inv_perm:
  assumes "cache_inv p s" "mset (cs_entries t) = mset (cs_entries s)" "cs_total_bytes t = cs_total_bytes s"
  shows "cache_inv p t"
proof -
  have m: "mset (map f (cs_entries t)) = mset (map f (cs_entries s))" for f :: "cached_response \<Rightarrow> 'b"
    using assms(2) by simp
  have "length (cs_entries t) = length (cs_entries s)" using assms(2) by (metis size_mset)
  moreover have "sum_bytes (cs_entries t) = sum_bytes (cs_entries s)"
    unfolding sum_bytes_def using m by (metis sum_mset_sum_list)
  moreover have "distinct (map variant (cs_entries t)) = distinct (map variant (cs_entries s))"
    using m by (metis mset_eq_imp_distinct_iff)
  moreover have "set (cs_entries t) = set (cs_entries s)" using assms(2) by (metis set_mset_mset)
  ultimately show ?thesis using assms(1,3) by (simp add: cache_inv_def)
qed

lemma lookup_inv: "cache_inv p s \<Longrightarrow> cache_inv p (snd (cache_lookup clock rq s))"
  using cache_inv_perm [of p s "snd (lookup_locked clock rq c s)" for c] lookup_locked_entries
  by (auto simp: cache_lookup_def Let_def)

subsection \<open>Merging\<close>

text \<open>The fields of a validated response, said without the code's function: those of the 304 but its length, and the stored ones
  that the 304 does not replace, without the old age and date; the length is the stored one.\<close>

definition merged_fields :: "header_list \<Rightarrow> header_list \<Rightarrow> header_list \<Rightarrow> bool" where
  "merged_fields stored updated merged \<longleftrightarrow>
     (\<forall>h. h \<in> set merged \<longleftrightarrow>
        h \<in> set updated \<and> \<not> ascii_iequals (h_name h) ''content-length'' \<or>
        h \<in> set stored \<and> \<not> ascii_iequals (h_name h) ''age'' \<and> \<not> ascii_iequals (h_name h) ''date'' \<and>
        (ascii_iequals (h_name h) ''content-length'' \<or> (\<forall>u\<in>set updated. \<not> ascii_iequals (h_name h) (h_name u))))"

lemma merged_response_fields: "merged_fields (cr_headers e) vh (rs_headers (merged_response e vh))"
  by (auto simp: merged_fields_def merged_response_def merge_headers_def headers_for_revalidation_def list_ex_iff)

lemma refreshed_entry_ok:
  assumes "refreshed_entry p clock rq vh rw e = Some r"
  shows "entry_ok p r" "cr_body r = cr_body e" "cr_url r = cq_url rq" "merged_fields (cr_headers e) vh (cr_headers r)"
proof -
  have mk: "make_cached_response p rq (merged_response e vh) rw (ck_wall clock) (ck_mono clock) True (Some (cr_body e)) = Some r"
    using assms by (simp add: refreshed_entry_def split: if_splits)
  note M = make_cached_response_entry [OF mk]
  show "entry_ok p r" "cr_body r = cr_body e" "cr_url r = cq_url rq" using M by simp_all
  show "merged_fields (cr_headers e) vh (cr_headers r)"
    using merged_response_fields [of e vh] make_cached_response_Some(1) [OF mk] by simp
qed

lemma selected_for_refresh_sub:
  assumes "e \<in> set (selected_for_refresh rh ids es)"
  shows "e \<in> set es" "cr_entry_id e \<in> set ids" "validator_matches rh e"
  using assms best_index_Some(1,2) [of "\<lambda>e. cr_entry_id e \<in> set ids \<and> validator_matches rh e" es]
  by (auto simp: selected_for_refresh_def Let_def split: if_splits option.splits)

lemma selected_for_refresh_few:
  "length (selected_for_refresh rh ids es) \<le>
     length (filter (\<lambda>e. cr_entry_id e \<in> cr_entry_id ` set (selected_for_refresh rh ids es)) es)"
proof -
  let ?ok = "\<lambda>e. cr_entry_id e \<in> set ids \<and> validator_matches rh e"
  have mono: "length (filter P xs) \<le> length (filter Q xs)" if "\<And>x. x \<in> set xs \<Longrightarrow> P x \<Longrightarrow> Q x" for P Q and xs :: "cached_response list"
    using that by (induction xs) auto
  obtain one where "selected_for_refresh rh ids es =
      (if one then (case best_index ?ok es of None \<Rightarrow> [] | Some i \<Rightarrow> [es ! i]) else filter ?ok es)"
    unfolding selected_for_refresh_def Let_def by blast
  then consider "selected_for_refresh rh ids es = filter ?ok es" | "selected_for_refresh rh ids es = []"
    | i where "selected_for_refresh rh ids es = [es ! i]" "i < length es"
    using best_index_Some(1) [of ?ok es] by (cases one; cases "best_index ?ok es") simp_all
  then show ?thesis
  proof cases
    case 1
    show ?thesis unfolding 1 by (rule mono) simp
  next
    case (3 i)
    then have "es ! i \<in> set (filter (\<lambda>e. cr_entry_id e \<in> cr_entry_id ` set [es ! i]) es)" by simp
    from length_pos_if_in_set [OF this] show ?thesis unfolding 3(1) by (simp only: length_Cons list.size)
  qed simp
qed

lemma refresh_loop_inv:
  assumes "params_ok p" "cache_inv p s" "\<forall>c\<in>set cands. entry_ok p (snd c)"
  shows "cache_inv p (snd (refresh_loop p removed sid cands ret s)) \<and>
    (\<forall>x\<in>set (cs_entries (snd (refresh_loop p removed sid cands ret s))).
       x \<in> set (cs_entries s) \<or> (\<exists>i. \<exists>c\<in>set cands. x = snd c\<lparr>cr_entry_id := i\<rparr>))"
  using assms(2,3)
proof (induction cands arbitrary: ret s)
  case (Cons c cands)
  obtain rid cand where c: "c = (rid, cand)" by (cases c) auto
  show ?case
  proof (cases "list_ex (\<lambda>current. cr_entry_id current \<notin> set removed \<and> same_variant current cand) (cs_entries s)")
    case True
    then have eq: "refresh_loop p removed sid (c # cands) ret s = refresh_loop p removed sid cands ret s"
      by (simp add: c)
    show ?thesis unfolding eq using Cons.IH [OF Cons.prems(1), of ret] Cons.prems(2) by fastforce
  next
    case False
    obtain ii s' where ins: "insert_locked p cand s = (ii, s')" by (cases "insert_locked p cand s") auto
    define ret' where "ret' = (case ii of None \<Rightarrow> ret
             | Some i \<Rightarrow> if rid = sid then
                   (case find_if (\<lambda>e. cr_entry_id e = i) (cs_entries s') of
                      None \<Rightarrow> ret | Some k \<Rightarrow> Some (cs_entries s' ! k)) else ret)"
    have eq: "refresh_loop p removed sid (c # cands) ret s = refresh_loop p removed sid cands ret' s'"
      using False ins by (simp add: c ret'_def Let_def)
    have ok: "entry_ok p cand" "\<forall>c\<in>set cands. entry_ok p (snd c)" using Cons.prems(2) by (auto simp: c)
    note I = insert_locked_cases [OF assms(1) Cons.prems(1) ok(1), unfolded ins snd_conv]
    note IH = Cons.IH [OF I(1) ok(2), of ret']
    have "x \<in> set (cs_entries s) \<or> (\<exists>i. \<exists>d\<in>set (c # cands). x = snd d\<lparr>cr_entry_id := i\<rparr>)"
      if "x \<in> set (cs_entries (snd (refresh_loop p removed sid cands ret' s')))" for x
      using IH that I(2) [of x] unfolding c by (metis list.set_intros(1,2) snd_conv)
    with IH show ?thesis unfolding eq by blast
  qed
qed simp

text \<open>Where the bytes suffice, refreshing takes away nothing but what is being replaced.\<close>

lemma refresh_loop_keeps:
  assumes "params_ok p" "\<forall>e\<in>kept. cr_entry_id e \<notin> set removed" "cache_inv p s" "\<forall>c\<in>set cands. entry_ok p (snd c)"
    "kept \<subseteq> set (cs_entries s)" "length (cs_entries s) + length cands \<le> cp_max_entries p"
    "sum_bytes (cs_entries s) + sum_bytes (map snd cands) \<le> cp_max_bytes p"
  shows "kept \<subseteq> set (cs_entries (snd (refresh_loop p removed sid cands ret s)))"
  using assms(3-7)
proof (induction cands arbitrary: ret s)
  case (Cons c cands)
  obtain rid cand where c: "c = (rid, cand)" by (cases c) auto
  show ?case
  proof (cases "list_ex (\<lambda>current. cr_entry_id current \<notin> set removed \<and> same_variant current cand) (cs_entries s)")
    case True
    then have eq: "refresh_loop p removed sid (c # cands) ret s = refresh_loop p removed sid cands ret s" by (simp add: c)
    show ?thesis unfolding eq by (rule Cons.IH) (use Cons.prems in simp_all)
  next
    case False
    obtain ii s' where ins: "insert_locked p cand s = (ii, s')" by (cases "insert_locked p cand s") auto
    obtain ret' where eq: "refresh_loop p removed sid (c # cands) ret s = refresh_loop p removed sid cands ret' s'"
      using False ins by (simp add: c Let_def)
    have ok: "entry_ok p cand" using Cons.prems(2) by (simp add: c)
    have room: "length (cs_entries s) + 1 \<le> cp_max_entries p" "sum_bytes (cs_entries s) + cr_accounted cand \<le> cp_max_bytes p"
      using Cons.prems(4,5) by (simp_all add: c)
    note R = insert_locked_room [OF Cons.prems(1) assms(1) ok room, unfolded ins snd_conv]
    have "kept \<subseteq> set (cs_entries s')"
      using R(3) Cons.prems(3) assms(2) False by (auto simp: list_ex_iff)
    moreover have "cache_inv p s'" using insert_locked_cases(1) [OF assms(1) Cons.prems(1) ok] ins by simp
    ultimately show ?thesis
      unfolding eq using R(1,2) Cons.prems(2,4,5) by (intro Cons.IH) (simp_all add: c)
  qed
qed simp

text \<open>What a 304 may do to the store: of the chosen entries each may be replaced, and everything else stays unless the
  bytes of the replacements push it out.\<close>

definition refreshed_from ::
  "cache_params \<Rightarrow> header_list \<Rightarrow> cached_response list \<Rightarrow> cached_response \<Rightarrow> bool" where
  "refreshed_from p vh chosen x \<longleftrightarrow> (\<exists>e\<in>set chosen. cr_body x = cr_body e \<and> merged_fields (cr_headers e) vh (cr_headers x))"

definition pushed_out ::
  "cache_params \<Rightarrow> cache_clock \<Rightarrow> cache_request \<Rightarrow> header_list \<Rightarrow> nat option \<Rightarrow> cached_response list \<Rightarrow> cached_response list \<Rightarrow> bool" where
  "pushed_out p clock rq vh rw chosen es \<longleftrightarrow>
     cp_max_bytes p < sum_bytes (filter (\<lambda>e. cr_entry_id e \<notin> cr_entry_id ` set chosen) es) +
                      sum_bytes (List.map_filter (refreshed_entry p clock rq vh rw) chosen)"

lemma refresh_entries_inv:
  assumes "params_ok p" "cache_inv p s" and chosen: "chosen = selected_for_refresh rh ids (cs_entries s)"
    and out: "s' = snd (refresh_entries p clock stored rq rh vh rw ids s)"
  shows "cache_inv p s'"
    and "x \<in> set (cs_entries s') \<Longrightarrow> x \<in> set (cs_entries s) \<or> refreshed_from p vh chosen x"
    and "e \<in> set (cs_entries s) \<Longrightarrow> cr_entry_id e \<notin> cr_entry_id ` set chosen \<Longrightarrow>
      \<not> pushed_out p clock rq vh rw chosen (cs_entries s) \<Longrightarrow> e \<in> set (cs_entries s')"
proof -
  define cands where "cands = List.map_filter
    (\<lambda>e. map_option (\<lambda>r. (cr_entry_id e, r)) (refreshed_entry p clock rq vh rw e)) chosen"
  define s1 where "s1 = erase_where (\<lambda>e. cr_entry_id e \<in> set (map cr_entry_id chosen)) s"
  have eq: "s' = snd (refresh_loop p (map cr_entry_id chosen) (cr_entry_id stored) cands None s1)"
    by (simp add: out refresh_entries_def Let_def chosen cands_def s1_def)
  note W = erase_where_inv [OF assms(2), of "\<lambda>e. cr_entry_id e \<in> set (map cr_entry_id chosen)", folded s1_def]
  have cand: "entry_ok p (snd c) \<and> refreshed_from p vh chosen (snd c)" if "c \<in> set cands" for c
  proof -
    from that obtain e r where "e \<in> set chosen" "refreshed_entry p clock rq vh rw e = Some r" "c = (cr_entry_id e, r)"
      by (auto simp: cands_def List.map_filter_def)
    then show ?thesis using refreshed_entry_ok unfolding refreshed_from_def by fastforce
  qed
  then have ok: "\<forall>c\<in>set cands. entry_ok p (snd c)" by blast
  note L = refresh_loop_inv [OF assms(1) W(1) this, of "map cr_entry_id chosen" "cr_entry_id stored" None]
  show "cache_inv p s'" unfolding eq using L by blast
  show "x \<in> set (cs_entries s) \<or> refreshed_from p vh chosen x" if "x \<in> set (cs_entries s')"
  proof -
    from that consider "x \<in> set (cs_entries s1)" | i c where "c \<in> set cands" "x = snd c\<lparr>cr_entry_id := i\<rparr>"
      unfolding eq using L by blast
    then show ?thesis
    proof cases
      case 1
      then show ?thesis using W(2) by simp
    next
      case 2
      then show ?thesis using cand by (fastforce simp: refreshed_from_def)
    qed
  qed
  have snd: "map snd cands = List.map_filter (refreshed_entry p clock rq vh rw) chosen"
    by (auto simp: cands_def List.map_filter_def comp_def intro!: map_cong)
  have "length cands \<le> length chosen" by (simp add: cands_def List.map_filter_def)
  moreover have "length (filter (\<lambda>e. cr_entry_id e \<in> cr_entry_id ` set chosen) (cs_entries s)) + length (cs_entries s1) =
      length (cs_entries s)"
    unfolding W(2) using sum_length_filter_compl by simp
  ultimately have few: "length (cs_entries s1) + length cands \<le> cp_max_entries p"
    using selected_for_refresh_few [of rh ids "cs_entries s"] assms(2) unfolding chosen [symmetric] by (simp add: cache_inv_def)
  show "e \<in> set (cs_entries s')" if "e \<in> set (cs_entries s)" "cr_entry_id e \<notin> cr_entry_id ` set chosen"
    "\<not> pushed_out p clock rq vh rw chosen (cs_entries s)"
  proof -
    have "sum_bytes (cs_entries s1) + sum_bytes (map snd cands) \<le> cp_max_bytes p"
      using that(3) unfolding snd W(2) by (simp add: pushed_out_def)
    from refresh_loop_keeps [OF assms(1) _ W(1) ok _ few this, of "{e}"] show ?thesis
      using that(1,2) unfolding eq by (simp add: W(2))
  qed
qed

lemma plan_304_validated:
  "plan_304 stored rq rh vids ims es = Merge_refresh \<Longrightarrow> validator_matches rh stored"
  "plan_304 stored rq rh vids ims es \<noteq> Merge_reject \<Longrightarrow>
     cr_url stored = cq_url rq \<and> vary_matches stored (cq_headers rq)"
  by (auto simp: plan_304_def Let_def split: if_splits option.splits)

lemma merge_304_delivery:
  assumes "merge_304 p clock stored rq rh rw vids ims s = (Some r, s')" and vh: "vh = validation_headers_of clock rh"
  shows "cr_body (rv_delivery r) = cr_body stored" "cr_url stored = cq_url rq"
    "vary_matches stored (cq_headers rq)" "merged_fields (cr_headers stored) vh (cr_headers (rv_delivery r))"
    "s' = s \<or> s' = snd (refresh_entries p clock stored rq rh vh rw (candidate_ids_of stored vids) s)"
proof -
  let ?mk = "make_cached_response p rq (merged_response stored vh) rw
    (ck_wall clock) (ck_mono clock) False (Some (cr_body stored))"
  obtain d where d: "?mk = Some d" and pl: "plan_304 stored rq rh vids ims (cs_entries s) \<noteq> Merge_reject"
    and r: "rv_delivery r = d"
    and s: "s' = s \<or> s' = snd (refresh_entries p clock stored rq rh vh rw (candidate_ids_of stored vids) s)"
    using assms by (auto simp: merge_304_def Let_def split: option.splits merge_plan.splits prod.splits)
  note M = make_cached_response_Some(1) [OF d]
  show "cr_body (rv_delivery r) = cr_body stored" by (simp add: r M)
  show "cr_url stored = cq_url rq" "vary_matches stored (cq_headers rq)" using plan_304_validated(2) [OF pl] by auto
  show "merged_fields (cr_headers stored) vh (cr_headers (rv_delivery r))"
    using merged_response_fields [of stored vh] by (simp add: r M)
  show "s' = s \<or> s' = snd (refresh_entries p clock stored rq rh vh rw (candidate_ids_of stored vids) s)" by (rule s)
qed

lemma merge_304_None: "merge_304 p clock stored rq rh rw vids ims s = (None, s') \<Longrightarrow> s' = s"
  by (auto simp: merge_304_def Let_def split: option.splits merge_plan.splits prod.splits)

lemma merge_304_inv:
  assumes "params_ok p" "cache_inv p s"
  shows "cache_inv p (snd (merge_304 p clock stored rq rh rw vids ims s))"
proof -
  obtain res s' where m: "merge_304 p clock stored rq rh rw vids ims s = (res, s')" by fastforce
  show ?thesis
  proof (cases res)
    case None
    then show ?thesis using m merge_304_None [of p clock stored rq rh rw vids ims s s'] assms(2) by simp
  next
    case (Some r)
    then show ?thesis
      using merge_304_delivery(5) [OF m [unfolded Some] refl] refresh_entries_inv(1) [OF assms refl refl] assms(2) m by auto
  qed
qed

subsection \<open>Operations as steps\<close>

datatype cache_op =
    Op_store cache_clock cache_request response "nat option"
  | Op_lookup cache_clock cache_request
  | Op_merge cache_clock cached_response cache_request header_list "nat option" "nat list" bool
  | Op_invalidate string
  | Op_invalidate_entry nat
  | Op_clear
  | Op_get cache_clock string string response
  | Op_put cache_clock string string response

fun cache_step :: "cache_params \<Rightarrow> cache_state \<Rightarrow> cache_op \<Rightarrow> cache_state" where
  "cache_step p s (Op_store c rq resp rw) = snd (cache_store p c rq resp rw s)"
| "cache_step p s (Op_lookup c rq) = snd (cache_lookup c rq s)"
| "cache_step p s (Op_merge c st rq rh rw ids ims) = snd (merge_304 p c st rq rh rw ids ims s)"
| "cache_step p s (Op_invalidate u) = cache_invalidate u s"
| "cache_step p s (Op_invalidate_entry i) = snd (invalidate_entry i s)"
| "cache_step p s Op_clear = cache_clear s"
| "cache_step p s (Op_get c m u out) = snd (snd (cache_get c m u out s))"
| "cache_step p s (Op_put c m u resp) = cache_put p c m u resp s"

lemma store_inv:
  assumes "params_ok p" "cache_inv p s" shows "cache_inv p (snd (cache_store p c rq resp rw s))"
  using assms insert_locked_cases(1) [OF assms] make_cached_response_entry(1)
  by (auto simp: cache_store_def split: option.splits prod.splits) (metis snd_conv)

lemma get_inv: "cache_inv p s \<Longrightarrow> cache_inv p (snd (snd (cache_get c m u out s)))"
  using lookup_inv [of p s c "plain_request m u"]
  by (auto simp: cache_get_def split: prod.splits cache_lookup.splits)

lemma invalidate_entry_inv: "cache_inv p s \<Longrightarrow> cache_inv p (snd (invalidate_entry i s))"
  using remove_at_inv(1) [of p s] find_if_split(4) [of "\<lambda>e. cr_entry_id e = i" "cs_entries s"]
  by (auto simp: invalidate_entry_def remove_at_def split: option.splits)

lemma cache_step_inv: "params_ok p \<and> cache_inv p s \<Longrightarrow> params_ok p \<and> cache_inv p (cache_step p s op)"
proof (cases op)
  case Op_clear
  then show "params_ok p \<and> cache_inv p s \<Longrightarrow> ?thesis" by (simp add: cache_clear_def cache_inv_def)
qed (simp_all add: store_inv lookup_inv merge_304_inv cache_invalidate_def erase_where_inv(1)
      invalidate_entry_inv get_inv cache_put_def)

interpretation caches: bounded_system "cache_step p" "\<lambda>s. params_ok p \<and> cache_inv p s"
  "\<lambda>s. length (cs_entries s)" "cp_max_entries p" for p
  by unfold_locales (rule cache_step_inv, simp, simp add: cache_inv_def)

lemma empty_cache_inv: "cache_inv p empty_cache"
  by (simp add: cache_inv_def empty_cache_def)

subsection \<open>Properties\<close>

text \<open>Property C13: along every sequence of operations on an empty cache the number of entries and the
  bytes charged for them stay within the configured limits, the running total is exactly the sum of
  the entries' charges (no update is lost to saturation), no two entries are the same variant of a URL,
  and every entry is storable: a 200, none with \<^verbatim>\<open>no-store\<close>, malformed or conflicting directives or
  \<^verbatim>\<open>Vary: *\<close>.\<close>

theorem cache_bounds:
  assumes "params_ok p"
  shows "let s = foldl (cache_step p) empty_cache ops in
     length (cs_entries s) \<le> cp_max_entries p \<and> cs_total_bytes s = sum_bytes (cs_entries s) \<and>
     cs_total_bytes s \<le> cp_max_bytes p \<and> distinct (map variant (cs_entries s)) \<and>
     list_all (entry_ok p) (cs_entries s)"
proof -
  have "cache_inv p (foldl (cache_step p) empty_cache ops)"
    using caches.run_inv [of p empty_cache ops] assms empty_cache_inv by blast
  then show ?thesis by (simp add: Let_def cache_inv_def list_all_iff)
qed

definition tiny_cache :: cache_params where
  "tiny_cache = make_cache_params 2 4096 2048 512"

definition example_clock :: "nat \<Rightarrow> cache_clock" where
  "example_clock t = \<lparr>ck_wall = Some (784111777 + t), ck_mono = (t + 1) * 1000000000\<rparr>"

definition example_response :: "string \<Rightarrow> response" where
  "example_response etag =
     (rs_add_header (rs_add_header new_response ''Cache-Control'' ''max-age=60'') ''ETag'' etag)
       \<lparr>rs_status_code := 200, rs_body := [1, 2, 3]\<rparr>"

theorem cache_bounds_witness:
  "length (cs_entries (foldl (cache_step tiny_cache) empty_cache
     [Op_put (example_clock 0) ''GET'' ''https://a/1'' (example_response ''x''),
      Op_put (example_clock 1) ''GET'' ''https://a/2'' (example_response ''y''),
      Op_put (example_clock 2) ''GET'' ''https://a/3'' (example_response ''z'')])) \<le> 2"
proof -
  have "params_ok tiny_cache" by code_simp
  moreover have "cp_max_entries tiny_cache = 2" by code_simp
  ultimately show ?thesis
    using cache_bounds [of tiny_cache "[Op_put (example_clock 0) ''GET'' ''https://a/1'' (example_response ''x''),
      Op_put (example_clock 1) ''GET'' ''https://a/2'' (example_response ''y''),
      Op_put (example_clock 2) ''GET'' ''https://a/3'' (example_response ''z'')]"]
    by (simp only: Let_def)
qed

text \<open>Property C14: a response is served as fresh only if it is the most recent stored response that
  matches the request's URL and its \<^verbatim>\<open>Vary\<close> fields, its age is below its freshness lifetime, it needs no
  revalidation, both clocks are available and the request may use the cache; the body served is the
  stored one and the \<^verbatim>\<open>age\<close> field is its current age.\<close>

theorem fresh_lookup_sound:
  assumes "cache_lookup clock rq s = (Cache_fresh r, s')"
  shows "\<exists>e\<in>set (cs_entries s).
     r = e\<lparr>cr_headers := headers_with_age (cr_headers e) (current_age e (ck_mono clock))\<rparr> \<and>
     entry_matches rq e \<and> (\<forall>e'\<in>set (cs_entries s). entry_matches rq e' \<longrightarrow> \<not> more_recent e' e) \<and>
     current_age e (ck_mono clock) < cr_freshness_lifetime e \<and> \<not> cr_requires_revalidation e \<and>
     ck_wall clock \<noteq> None \<and> ck_mono clock \<noteq> 0 \<and>
     \<not> request_cache_bypassed rq (parse_cache_control (cq_headers rq))"
proof -
  let ?c = "parse_cache_control (cq_headers rq)"
  have nb: "\<not> request_cache_bypassed rq ?c" and l: "lookup_locked clock rq ?c s = (Cache_fresh r, s')"
    using assms by (auto simp: cache_lookup_def Let_def split: if_splits)
  obtain b where b: "best_index (entry_matches rq) (cs_entries s) = Some b"
    using l by (auto simp: lookup_locked_def Let_def split: option.splits)
  let ?e = "cs_entries s ! b"
  have f: "r = ?e\<lparr>cr_headers := headers_with_age (cr_headers ?e) (current_age ?e (ck_mono clock))\<rparr>"
    "current_age ?e (ck_mono clock) < cr_freshness_lifetime ?e" "\<not> cr_requires_revalidation ?e"
    "ck_wall clock \<noteq> None" "ck_mono clock \<noteq> 0"
    using l b by (auto simp: lookup_locked_def Let_def split: if_splits)
  have "?e \<in> set (cs_entries s)" using best_index_Some(1) [OF b] by simp
  then show ?thesis using f nb best_index_Some(2,3) [OF b] by blast
qed

definition example_cache :: cache_state where
  "example_cache = cache_put tiny_cache (example_clock 0) ''GET'' ''https://a/1'' (example_response ''x'') empty_cache"

theorem fresh_lookup_sound_witness:
  "\<exists>e\<in>set (cs_entries example_cache). current_age e (ck_mono (example_clock 59)) < cr_freshness_lifetime e"
proof -
  have "(case fst (cache_lookup (example_clock 59) (plain_request ''GET'' ''https://a/1'') example_cache) of
      Cache_fresh _ \<Rightarrow> True | _ \<Rightarrow> False)" by code_simp
  then obtain r st where "cache_lookup (example_clock 59) (plain_request ''GET'' ''https://a/1'') example_cache =
      (Cache_fresh r, st)"
    by (cases "cache_lookup (example_clock 59) (plain_request ''GET'' ''https://a/1'') example_cache")
       (simp split: cache_lookup.splits)
  from fresh_lookup_sound [OF this] show ?thesis by blast
qed

text \<open>Requests that may carry credentials or ask for something other than a plain response
  bypass the cache completely: for every method but \<^verbatim>\<open>GET\<close>, a streaming request, a request with a body,
  and one with an \<^verbatim>\<open>authorization\<close>, \<^verbatim>\<open>cookie\<close> or \<^verbatim>\<open>range\<close> field, lookup misses, store refuses,
  a 304 is not merged, and the cache stays as it is.\<close>

lemma private_requests_bypass:
  assumes "cq_method rq \<noteq> ''GET'' \<or> cq_streaming rq \<or> cq_has_body rq \<or>
    has_header (cq_headers rq) ''authorization'' \<or> has_header (cq_headers rq) ''cookie'' \<or>
    has_header (cq_headers rq) ''range''"
  shows "cache_lookup clock rq s = (Cache_miss, s) \<and> cache_store p clock rq resp rw s = (False, s) \<and>
    merge_304 p clock stored rq rh rw ids ims s = (None, s) \<and>
    \<not> should_capture rq (rs_status_code resp) (rs_headers resp)"
proof -
  have b: "request_cache_bypassed rq (parse_cache_control (cq_headers rq))"
    using assms by (auto simp: request_cache_bypassed_def has_sensitive_request_header_def)
  then have m: "make_cached_response p rq resp' rw' w m req body = None" for resp' rw' w m req body
    by (simp add: make_cached_response_def)
  show ?thesis using b m
    by (simp add: cache_lookup_def cache_store_def merge_304_def should_capture_def Let_def split: option.split)
qed

lemma private_requests_bypass_witness:
  "fst (cache_lookup (example_clock 1)
     \<lparr>cq_method = ''GET'', cq_url = ''https://a/1'', cq_headers = [mk_header ''Cookie'' ''sid=1''],
      cq_streaming = False, cq_has_body = False\<rparr> example_cache) = Cache_miss"
proof -
  let ?rq = "\<lparr>cq_method = ''GET'', cq_url = ''https://a/1'', cq_headers = [mk_header ''Cookie'' ''sid=1''],
      cq_streaming = False, cq_has_body = False\<rparr>"
  have "has_header (cq_headers ?rq) ''cookie''" by code_simp
  then have "cache_lookup (example_clock 1) ?rq example_cache = (Cache_miss, example_cache)"
    using private_requests_bypass [where rq = ?rq and clock = "example_clock 1" and s = example_cache] by blast
  then show ?thesis by (simp only: fst_conv)
qed

text \<open>Property C27: what a 304 does.  It delivers the body of the response it validated, for the URL and the
  varying fields of the request, with the fields of the 304 (dated now, if it has no date) replacing the stored ones
  of the same name, except for the length, and without the stored age and date.  Of the cache it touches only the entries it chooses, which are
  candidates whose own validator it matches: whatever is in the cache afterwards was there before or is such an entry with
  its own body and its own fields merged in the same way, and every other entry is still there, unless
  the refreshed ones need so many bytes that the limit pushes it out.  A 304 that is refused changes nothing.\<close>

theorem merge_304_provenance:
  assumes "params_ok p" "cache_inv p s"
    and "merge_304 p clock stored rq rh rw ids ims s = (res, s')"
    and "vh = validation_headers_of clock rh"
    and "chosen = selected_for_refresh rh (candidate_ids_of stored ids) (cs_entries s)"
  shows "case res of
      None \<Rightarrow> s' = s
    | Some r \<Rightarrow>
        cr_body (rv_delivery r) = cr_body stored \<and> entry_matches rq stored \<and>
        merged_fields (cr_headers stored) vh (cr_headers (rv_delivery r)) \<and>
        (\<forall>e\<in>set chosen. e \<in> set (cs_entries s) \<and> cr_entry_id e \<in> set (candidate_ids_of stored ids) \<and> validator_matches rh e) \<and>
        (\<forall>x\<in>set (cs_entries s'). x \<in> set (cs_entries s) \<or>
           (\<exists>e\<in>set chosen. cr_body x = cr_body e \<and> merged_fields (cr_headers e) vh (cr_headers x))) \<and>
        (\<forall>e\<in>set (cs_entries s). e \<in> set (cs_entries s') \<or> cr_entry_id e \<in> cr_entry_id ` set chosen \<or>
           cp_max_bytes p < sum_bytes (filter (\<lambda>e. cr_entry_id e \<notin> cr_entry_id ` set chosen) (cs_entries s)) +
                            sum_bytes (List.map_filter (refreshed_entry p clock rq vh rw) chosen))"
proof (cases res)
  case None
  then show ?thesis using merge_304_None assms(3) by simp
next
  case (Some r)
  note D = merge_304_delivery [OF assms(3) [unfolded Some] assms(4)]
  note R = refresh_entries_inv(2,3) [OF assms(1,2,5) refl, where stored = stored and rq = rq and vh = vh and rw = rw and clock = clock]
  have "\<forall>x\<in>set (cs_entries s'). x \<in> set (cs_entries s) \<or> refreshed_from p vh chosen x"
    using D(5) R(1) by blast
  moreover have "\<forall>e\<in>set (cs_entries s). e \<in> set (cs_entries s') \<or> cr_entry_id e \<in> cr_entry_id ` set chosen \<or>
      pushed_out p clock rq vh rw chosen (cs_entries s)"
    using D(5) R(2) by blast
  ultimately show ?thesis
    using D(1-4) selected_for_refresh_sub unfolding Some assms(5)
    by (auto simp: entry_matches_def refreshed_from_def pushed_out_def)
qed

definition validating_headers :: header_list where
  "validating_headers = [mk_header ''etag'' (CHR 0x22 # ''x'' @ [CHR 0x22]), mk_header ''cache-control'' ''max-age=90'']"

definition tagged_cache :: cache_state where
  "tagged_cache = cache_put tiny_cache (example_clock 0) ''GET'' ''https://a/1''
     (example_response (CHR 0x22 # ''x'' @ [CHR 0x22])) empty_cache"

theorem merge_304_provenance_witness:
  "case merge_304 tiny_cache (example_clock 70) (hd (cs_entries tagged_cache))
      (plain_request ''GET'' ''https://a/1'') validating_headers None [1] False tagged_cache of
     (Some r, s') \<Rightarrow> cr_body (rv_delivery r) = [1, 2, 3] \<and> mk_header ''cache-control'' ''max-age=90'' \<in> set (cr_headers (rv_delivery r)) \<and>
       (\<forall>x\<in>set (cs_entries s'). x \<in> set (cs_entries tagged_cache) \<or> cr_body x = [1, 2, 3])
   | _ \<Rightarrow> False"
proof -
  let ?stored = "hd (cs_entries tagged_cache)"
  let ?m = "merge_304 tiny_cache (example_clock 70) ?stored
      (plain_request ''GET'' ''https://a/1'') validating_headers None [1] False tagged_cache"
  have ok: "params_ok tiny_cache" by code_simp
  have inv: "cache_inv tiny_cache tagged_cache"
    using cache_step_inv [of tiny_cache empty_cache "Op_put (example_clock 0) ''GET'' ''https://a/1''
     (example_response (CHR 0x22 # ''x'' @ [CHR 0x22]))"] ok empty_cache_inv by (simp add: tagged_cache_def)
  have some: "fst ?m \<noteq> None" by code_simp
  have body: "list_all (\<lambda>e. cr_body e = [1, 2, 3]) (?stored # cs_entries tagged_cache)" by code_simp
  have field: "mk_header ''cache-control'' ''max-age=90'' \<in> set (validation_headers_of (example_clock 70) validating_headers)"
    "\<not> ascii_iequals (h_name (mk_header ''cache-control'' ''max-age=90'')) ''content-length''" by code_simp+
  from some obtain r s' where m: "?m = (Some r, s')" by (cases ?m) auto
  from merge_304_provenance [OF ok inv m refl refl] body field show ?thesis
    unfolding m by (auto simp: merged_fields_def list_all_iff)
qed

subsection \<open>What is stored is found\<close>

lemma evict_loop_retained:
  assumes "es = [] \<or> cr_entry_id (hd es) = i" "snd (snd (evict_loop p i es tot r))"
  shows "r \<and> (es \<noteq> [] \<longrightarrow> fst (evict_loop p i es tot r) \<noteq> [])"
  using assms
proof (induction es arbitrary: tot r rule: rev_induct)
  case Nil
  then show ?case by (subst (asm) evict_loop.simps) (simp split: if_splits)
next
  case (snoc e es)
  show ?case
  proof (cases "length (es @ [e]) > cp_max_entries p \<or> tot > cp_max_bytes p")
    case False
    then have "evict_loop p i (es @ [e]) tot r = (es @ [e], tot, r)" by (subst evict_loop.simps) simp
    then show ?thesis using snoc.prems(2) by simp
  next
    case True
    have eq: "evict_loop p i (es @ [e]) tot r =
        evict_loop p i es (drop_bytes tot e) (if cr_entry_id e = i then False else r)"
      using True by (subst evict_loop.simps) simp
    have hd: "es = [] \<or> cr_entry_id (hd es) = i" using snoc.prems(1) by (cases es) auto
    from snoc.IH [OF hd snoc.prems(2) [unfolded eq]]
    have "(if cr_entry_id e = i then False else r)" and
      ne: "es \<noteq> [] \<longrightarrow> fst (evict_loop p i es (drop_bytes tot e) (if cr_entry_id e = i then False else r)) \<noteq> []"
      by auto
    then have "cr_entry_id e \<noteq> i" "r" by (auto split: if_splits)
    then have "es \<noteq> []" using snoc.prems(1) by auto
    with ne \<open>r\<close> show ?thesis unfolding eq by simp
  qed
qed

lemma insert_fresh_retained:
  assumes "insert_fresh p e s = (Some i, s')" "params_ok p" "cache_inv p s" "entry_ok p e"
    "variant e \<notin> variant ` set (cs_entries s)"
  shows "\<exists>k j. cs_entries s' = e\<lparr>cr_entry_id := j\<rparr> # take k (cs_entries s)"
proof -
  obtain j k where k: "cs_entries s' = take k (e\<lparr>cr_entry_id := j\<rparr> # cs_entries s)"
    using insert_fresh_inv(2) [OF assms(2-5)] assms(1) by auto
  let ?i = "if cs_next_entry_id s = 0 then 1 else cs_next_entry_id s"
  let ?es = "e\<lparr>cr_entry_id := ?i\<rparr> # cs_entries s"
  let ?r = "evict_loop p ?i ?es (sat_add (cs_total_bytes s) (cr_accounted e)) True"
  have "snd (snd ?r)" "fst ?r = cs_entries s'"
    using assms(1) by (auto simp: insert_fresh_def Let_def split: prod.splits if_splits)
  then have "cs_entries s' \<noteq> []" using evict_loop_retained [of ?es ?i p _ True] by force
  with k show ?thesis by (cases k) auto
qed

text \<open>A response that the cache accepts is found again.  When the URL was not cached before
  and \<^verbatim>\<open>store\<close> reports success, a later lookup for the same request, whatever the clock says, yields the
  stored body; it is served without revalidation exactly while the entry's age is below its lifetime
  and neither side asks for validation.\<close>

lemma store_then_lookup:
  assumes "params_ok p" "cache_inv p s" "\<forall>e\<in>set (cs_entries s). cr_url e \<noteq> cq_url rq"
    and "cache_store p clock rq resp rw s = (True, s')"
  shows "\<exists>e r. hd (cs_entries s') = e \<and> cr_body e = rs_body resp \<and> cr_stored_at e = ck_mono clock \<and>
    cr_body r = rs_body resp \<and> cr_url r = cq_url rq \<and>
    (if ck_wall later \<noteq> None \<and> ck_mono later \<noteq> 0 \<and> \<not> cr_requires_revalidation e \<and>
        \<not> cc_no_cache (parse_cache_control (cq_headers rq)) \<and>
        \<not> (case cc_max_age (parse_cache_control (cq_headers rq)) of None \<Rightarrow> False
           | Some m \<Rightarrow> current_age e (ck_mono later) > m) \<and>
        current_age e (ck_mono later) < cr_freshness_lifetime e
     then fst (cache_lookup later rq s') = Cache_fresh r
     else fst (cache_lookup later rq s') = Cache_needs_validation r [cr_entry_id e])"
proof -
  let ?c = "parse_cache_control (cq_headers rq)"
  obtain w cached where w: "ck_wall clock = Some w"
    and mk: "make_cached_response p rq resp rw (Some w) (ck_mono clock) True None = Some cached"
    and ins: "fst (insert_locked p cached s) \<noteq> None" "s' = snd (insert_locked p cached s)"
    using assms(4) by (auto simp: cache_store_def split: option.splits prod.splits)
  note C = make_cached_response_entry [OF mk] and N = make_cached_response_Some(2,3) [OF mk]
  have new: "variant cached \<notin> variant ` set (cs_entries s)"
    using assms(3) C(2) by (auto simp: variant_def)
  then have "find_if (\<lambda>e. same_variant e cached) (cs_entries s) = None"
    unfolding find_if_None same_variant_iff by (metis imageI)
  then obtain i where i: "insert_fresh p cached s = (Some i, s')"
    using ins by (cases "insert_fresh p cached s") (auto simp: insert_locked_def)
  obtain k j where es: "cs_entries s' = cached\<lparr>cr_entry_id := j\<rparr> # take k (cs_entries s)"
    using insert_fresh_retained [OF i assms(1,2) C(1) new] by blast
  let ?e = "cached\<lparr>cr_entry_id := j\<rparr>"
  have m: "entry_matches rq ?e" using C(2,4) by (simp add: entry_matches_def vary_matches_def)
  have nm: "\<not> entry_matches rq x" if "x \<in> set (take k (cs_entries s))" for x
    using assms(3) in_set_takeD [OF that] by (auto simp: entry_matches_def)
  obtain b where b: "best_index (entry_matches rq) (cs_entries s') = Some b"
    using m best_index_None [of "entry_matches rq" "cs_entries s'"] es by auto
  have b0: "b = 0"
  proof (rule ccontr)
    assume "b \<noteq> 0"
    then have "cs_entries s' ! b \<in> set (take k (cs_entries s))"
      using best_index_Some(1) [OF b] unfolding es
      by (cases b) (simp_all del: nth_take length_take add: nth_mem)
    with nm best_index_Some(2) [OF b] show False by blast
  qed
  have ids: "map cr_entry_id (filter (entry_matches rq) (cs_entries s')) = [j]"
    using m nm by (simp add: es)
  let ?r = "?e\<lparr>cr_headers := headers_with_age (cr_headers ?e) (current_age ?e (ck_mono later))\<rparr>"
  have "fst (cache_lookup later rq s') =
    (if ck_wall later \<noteq> None \<and> ck_mono later \<noteq> 0 \<and> \<not> cr_requires_revalidation ?e \<and> \<not> cc_no_cache ?c \<and>
        \<not> (case cc_max_age ?c of None \<Rightarrow> False | Some m \<Rightarrow> current_age ?e (ck_mono later) > m) \<and>
        current_age ?e (ck_mono later) < cr_freshness_lifetime ?e
     then Cache_fresh ?r else Cache_needs_validation ?r [cr_entry_id ?e])"
    using N b ids unfolding b0 by (simp add: cache_lookup_def lookup_locked_def Let_def es)
  moreover have "cr_body ?r = rs_body resp" "cr_url ?r = cq_url rq" "cr_stored_at ?e = ck_mono clock"
    using C by simp_all
  ultimately show ?thesis using es by (intro exI [of _ ?e] exI [of _ ?r]) simp
qed

lemma store_then_lookup_witness:
  "\<exists>r. cr_body r = [1, 2, 3] \<and>
     (fst (cache_lookup (example_clock 5) (plain_request ''GET'' ''https://a/1'') example_cache) = Cache_fresh r \<or>
      (\<exists>ids. fst (cache_lookup (example_clock 5) (plain_request ''GET'' ''https://a/1'') example_cache) =
         Cache_needs_validation r ids))"
proof -
  let ?rq = "plain_request ''GET'' ''https://a/1''" and ?resp = "example_response ''x''"
  have ok: "params_ok tiny_cache" by code_simp
  have "fst (cache_store tiny_cache (example_clock 0) ?rq ?resp None empty_cache)" by code_simp
  then have st: "cache_store tiny_cache (example_clock 0) ?rq ?resp None empty_cache = (True, example_cache)"
    by (cases "cache_store tiny_cache (example_clock 0) ?rq ?resp None empty_cache")
       (simp add: example_cache_def cache_put_def)
  have none: "\<forall>e\<in>set (cs_entries empty_cache). cr_url e \<noteq> cq_url ?rq" by (simp add: empty_cache_def)
  have body: "rs_body ?resp = [1, 2, 3]" by code_simp
  from store_then_lookup [OF ok empty_cache_inv none st, of "example_clock 5"] body
  show ?thesis by (auto split: if_splits)
qed

text \<open>The age of a stored response never decreases while the monotonic clock advances, and
  never exceeds 64 bits: once an entry is stale it stays stale.\<close>

lemma current_age_monotone:
  assumes "0 < t" "t \<le> t'" "cr_initial_age e \<le> u64_max"
  shows "current_age e t \<le> current_age e t' \<and> current_age e t' \<le> u64_max \<and>
     (cr_freshness_lifetime e \<le> current_age e t \<longrightarrow> cr_freshness_lifetime e \<le> current_age e t')"
proof -
  have "elapsed_ns t (cr_stored_at e) \<le> elapsed_ns t' (cr_stored_at e)"
    using assms(2) by (auto simp: elapsed_ns_def intro: diff_le_mono)
  then have "elapsed_ns t (cr_stored_at e) div 1000000000 \<le> elapsed_ns t' (cr_stored_at e) div 1000000000"
    by (rule div_le_mono)
  then have "current_age e t \<le> current_age e t'"
    using assms by (simp add: current_age_def sat_add_min min_def Let_def)
  moreover have "current_age e t' \<le> u64_max" using assms by (simp add: current_age_def)
  ultimately show ?thesis by simp
qed

end
