(* ===== verification/Transport_Policy.thy ===== *)
theory Transport_Policy
  imports Kat_Prelude Kat_System
begin

text \<open>
  The small headers that hold the transport's decisions: \<^verbatim>\<open>connection_state.h\<close>, \<^verbatim>\<open>flow_control.h\<close>,
  \<^verbatim>\<open>handshake_race.h\<close>, \<^verbatim>\<open>handshake_stream_buffer.h\<close>, \<^verbatim>\<open>lazy_worker_start.h\<close>, \<^verbatim>\<open>network_change.h\<close>,
  \<^verbatim>\<open>precommit_failover.h\<close>, \<^verbatim>\<open>request_body_offset.h\<close>, \<^verbatim>\<open>udp_error.h\<close>, \<^verbatim>\<open>wakeup_coalescer.h\<close>,
  \<^verbatim>\<open>time_util.h\<close> and \<^verbatim>\<open>src/jni/jni_body_batch.h\<close>.  An atomic operation is one step.
\<close>

subsection \<open>Time arithmetic\<close>

text \<open>The two fields of a monotonic clock reading, \<open>None\<close> when \<^verbatim>\<open>clock_gettime\<close> fails.\<close>

definition timestamp_of :: "(int \<times> int) option \<Rightarrow> nat" where
  "timestamp_of reading =
     (case reading of
        None \<Rightarrow> 0
      | Some (sec, nsec) \<Rightarrow>
          if sec < 0 \<or> nsec < 0 then 0
          else if nat sec > u64_max div 1000000000 then u64_max
          else
            let base = nat sec * 1000000000
            in if nat nsec > u64_max - base then u64_max else base + nat nsec)"

definition saturating_elapsed :: "nat \<Rightarrow> nat \<Rightarrow> nat" where
  "saturating_elapsed now started_at = (if now \<ge> started_at then now - started_at else 0)"

definition deadline_elapsed_ns :: "nat \<Rightarrow> nat \<Rightarrow> nat \<Rightarrow> bool" where
  "deadline_elapsed_ns now started_at timeout_ns \<longleftrightarrow>
     started_at \<noteq> 0 \<and> timeout_ns \<noteq> 0 \<and> saturating_elapsed now started_at \<ge> timeout_ns"

definition milliseconds_to_ns_saturated :: "nat \<Rightarrow> nat" where
  "milliseconds_to_ns_saturated milliseconds =
     (if milliseconds > u64_max div 1000000 then u64_max else milliseconds * 1000000)"

text \<open>\<^verbatim>\<open>now\<close> and \<^verbatim>\<open>time_point::max()\<close> in nanoseconds since the clock's epoch.\<close>

definition steady_deadline_after_ms :: "nat \<Rightarrow> nat \<Rightarrow> nat \<Rightarrow> nat" where
  "steady_deadline_after_ms now_ns max_ns milliseconds =
     (let remaining_ms = (max_ns - now_ns) div 1000000 in
      if remaining_ms \<le> 0 then max_ns
      else if milliseconds \<ge> remaining_ms then max_ns
      else now_ns + milliseconds * 1000000)"

definition wall_clock_seconds :: "int \<Rightarrow> nat option" where
  "wall_clock_seconds now = (if now = -1 then None else if now < 0 then None else Some (nat now))"

subsection \<open>Connection state\<close>

datatype connection_state = CS_None | CS_Connecting | CS_Active | CS_Draining | CS_Closing | CS_Closed

fun state_rank :: "connection_state \<Rightarrow> nat" where
  "state_rank CS_None = 0"
| "state_rank CS_Connecting = 1"
| "state_rank CS_Active = 2"
| "state_rank CS_Draining = 3"
| "state_rank CS_Closing = 4"
| "state_rank CS_Closed = 5"

lemma state_rank_inject: "state_rank a = state_rank b \<Longrightarrow> a = b"
  by (cases a; cases b) simp_all

text \<open>The enumerators in the order of their values.\<close>

instantiation connection_state :: linorder
begin

definition less_eq_connection_state :: "connection_state \<Rightarrow> connection_state \<Rightarrow> bool" where
  "less_eq_connection_state a b \<longleftrightarrow> state_rank a \<le> state_rank b"

definition less_connection_state :: "connection_state \<Rightarrow> connection_state \<Rightarrow> bool" where
  "less_connection_state a b \<longleftrightarrow> state_rank a < state_rank b"

instance
  by standard
     (auto simp: less_eq_connection_state_def less_connection_state_def dest: state_rank_inject)

end

definition connection_state_accepts_new_jobs :: "connection_state \<Rightarrow> bool \<Rightarrow> bool" where
  "connection_state_accepts_new_jobs state closed \<longleftrightarrow>
     \<not> closed \<and> state \<noteq> CS_Draining \<and> state \<noteq> CS_Closing \<and> state \<noteq> CS_Closed"

lemma accepts_new_jobs_iff:
  "connection_state_accepts_new_jobs state closed \<longleftrightarrow> \<not> closed \<and> state \<le> CS_Active"
  by (cases state) (simp_all add: connection_state_accepts_new_jobs_def less_eq_connection_state_def)

subsection \<open>Flow control\<close>

definition receive_stream_limit :: nat where "receive_stream_limit = 1048576"
definition receive_connection_limit :: nat where "receive_connection_limit = 8388608"

definition receive_credit_blocked_by_consumer :: "nat \<Rightarrow> nat \<Rightarrow> bool" where
  "receive_credit_blocked_by_consumer stream_unconsumed connection_unconsumed \<longleftrightarrow>
     stream_unconsumed \<ge> receive_stream_limit \<or> connection_unconsumed \<ge> receive_connection_limit"

subsection \<open>The handshake race\<close>

text \<open>\<open>None\<close> is \<^verbatim>\<open>kNoHandshakeRaceWinner\<close>.\<close>

fun race_loop :: "nat list \<Rightarrow> nat \<Rightarrow> nat option \<Rightarrow> nat \<Rightarrow> nat option" where
  "race_loop [] i winner earliest = winner"
| "race_loop (ready_at # rest) i winner earliest =
     (if ready_at = 0 then race_loop rest (Suc i) winner earliest
      else if winner = None \<or> ready_at < earliest then race_loop rest (Suc i) (Some i) ready_at
      else race_loop rest (Suc i) winner earliest)"

definition select_earliest_1rtt_candidate :: "nat list \<Rightarrow> nat option" where
  "select_earliest_1rtt_candidate ready_at_ns = race_loop ready_at_ns 0 None 0"

subsection \<open>Data received before the codec exists\<close>

record buffered_stream_data =
  bs_flags :: nat
  bs_stream_id :: int
  bs_offset :: nat
  bs_data :: bytes

record handshake_buffer =
  hb_events :: "buffered_stream_data list"
  hb_bytes :: nat

definition empty_handshake_buffer :: handshake_buffer where
  "empty_handshake_buffer = \<lparr>hb_events = [], hb_bytes = 0\<rparr>"

definition hb_max_bytes :: nat where "hb_max_bytes = 1048576"
definition hb_max_events :: nat where "hb_max_events = 1024"

text \<open>\<open>data\<close> is \<open>None\<close> for a null pointer; the subtraction is of \<^verbatim>\<open>size_t\<close>.\<close>

definition hb_append ::
  "handshake_buffer \<Rightarrow> nat \<Rightarrow> int \<Rightarrow> nat \<Rightarrow> bytes option \<Rightarrow> nat \<Rightarrow> bool \<times> handshake_buffer" where
  "hb_append b flags stream_id offset data len =
     (if (len \<noteq> 0 \<and> data = None) \<or> length (hb_events b) \<ge> hb_max_events \<or>
         int len > (int hb_max_bytes - int (hb_bytes b)) mod 18446744073709551616
      then (False, b)
      else
        let event = \<lparr>bs_flags = flags, bs_stream_id = stream_id, bs_offset = offset,
                     bs_data = (if len \<noteq> 0 then take len (the data) else [])\<rparr>
        in (True, \<lparr>hb_events = hb_events b @ [event], hb_bytes = hb_bytes b + len\<rparr>))"

definition hb_clear :: "handshake_buffer \<Rightarrow> handshake_buffer" where
  "hb_clear b = empty_handshake_buffer"

subsection \<open>Starting the worker\<close>

text \<open>The compare-and-swap on \<^verbatim>\<open>started_\<close>: (won, new value).\<close>

definition claim_after_enqueue :: "bool \<Rightarrow> bool \<times> bool" where
  "claim_after_enqueue started = (\<not> started, True)"

subsection \<open>Network changes and failover\<close>

datatype network_change_action = NC_None | NC_Reconnect | NC_Migrate

record network_change_request =
  nc_generation :: nat
  nc_network :: nat

definition network_change_action ::
  "network_change_request \<Rightarrow> nat \<Rightarrow> bool \<Rightarrow> bool \<Rightarrow> network_change_action" where
  "network_change_action requested applied_generation handshake_confirmed attempt_migration =
     (if nc_generation requested \<le> applied_generation then NC_None
      else if \<not> attempt_migration \<or> nc_network requested = 0 \<or> \<not> handshake_confirmed then NC_Reconnect
      else NC_Migrate)"

definition can_fail_over_before_request_commit :: "bool \<Rightarrow> bool \<Rightarrow> bool \<Rightarrow> bool \<Rightarrow> bool" where
  "can_fail_over_before_request_commit failover_window_open stopping request_committed
     has_live_pending_request \<longleftrightarrow>
     failover_window_open \<and> \<not> stopping \<and> \<not> request_committed \<and> has_live_pending_request"

subsection \<open>Request body offsets\<close>

definition max_data_reader_bytes :: nat where "max_data_reader_bytes = 65536"

text \<open>\<open>None\<close> is the result false.\<close>

definition request_body_remaining :: "nat \<Rightarrow> nat \<Rightarrow> nat option" where
  "request_body_remaining body_size offset = (if offset > body_size then None else Some (body_size - offset))"

definition request_body_can_advance :: "nat \<Rightarrow> nat \<Rightarrow> nat \<Rightarrow> bool" where
  "request_body_can_advance offset amount limit \<longleftrightarrow> offset \<le> limit \<and> amount \<le> limit - offset"

definition request_body_next_chunk_size :: "nat \<Rightarrow> nat" where
  "request_body_next_chunk_size remaining = min remaining max_data_reader_bytes"

subsection \<open>Socket errors\<close>

datatype errno = EAGAIN | EWOULDBLOCK | ENOBUFS | EINTR | ENETUNREACH | EHOSTUNREACH | ENETDOWN
  | ECONNRESET | Errno_other int

definition udp_error_is_temporary :: "errno \<Rightarrow> bool" where
  "udp_error_is_temporary e \<longleftrightarrow> e = EAGAIN \<or> e = EWOULDBLOCK \<or> e = ENOBUFS \<or> e = EINTR"

definition udp_error_is_network_lost :: "errno \<Rightarrow> bool" where
  "udp_error_is_network_lost e \<longleftrightarrow>
     e = ENETUNREACH \<or> e = EHOSTUNREACH \<or> e = ENETDOWN \<or> e = ECONNRESET"

subsection \<open>Wakeups\<close>

text \<open>(is the caller to signal, new value of \<^verbatim>\<open>pending_\<close>)\<close>

definition wakeup_request :: "bool \<Rightarrow> bool \<times> bool" where
  "wakeup_request pending = (\<not> pending, True)"

definition wakeup_reset :: "bool \<Rightarrow> bool" where
  "wakeup_reset pending = False"

subsection \<open>Batching body bytes for the Java side\<close>

record body_batch =
  bb_bytes :: bytes
  bb_first_byte_at :: nat

definition empty_batch :: body_batch where
  "empty_batch = \<lparr>bb_bytes = [], bb_first_byte_at = 0\<rparr>"

definition batch_flush_bytes :: nat where "batch_flush_bytes = 65536"
definition batch_flush_delay :: nat where "batch_flush_delay = 1000000"

text \<open>(bytes taken, batch); \<^verbatim>\<open>bb_bytes\<close> is the filled part of the array.\<close>

definition batch_append :: "body_batch \<Rightarrow> bytes option \<Rightarrow> nat \<Rightarrow> nat \<times> body_batch" where
  "batch_append b data now_ns =
     (case data of
        None \<Rightarrow> (0, b)
      | Some d \<Rightarrow>
          if d = [] \<or> length (bb_bytes b) = batch_flush_bytes then (0, b)
          else
            let first = (if bb_bytes b = [] then now_ns else bb_first_byte_at b);
                copied = min (length d) (batch_flush_bytes - length (bb_bytes b))
            in (copied, \<lparr>bb_bytes = bb_bytes b @ take copied d, bb_first_byte_at = first\<rparr>))"

definition batch_should_flush :: "body_batch \<Rightarrow> nat \<Rightarrow> bool" where
  "batch_should_flush b now_ns \<longleftrightarrow>
     length (bb_bytes b) = batch_flush_bytes \<or>
     (bb_bytes b \<noteq> [] \<and> now_ns \<ge> bb_first_byte_at b \<and> now_ns - bb_first_byte_at b \<ge> batch_flush_delay)"

definition batch_clear :: "body_batch \<Rightarrow> body_batch" where
  "batch_clear b = empty_batch"

subsection \<open>Facts about time\<close>

text \<open>A public millisecond duration becomes the exact number of nanoseconds or the largest
  one, never a wrapped short one; and a timeout built from it fires only after that many nanoseconds
  have really passed since a start that is not in the future.\<close>

lemma timeouts_do_not_wrap:
  "milliseconds_to_ns_saturated ms = min u64_max (ms * 1000000) \<and>
   (deadline_elapsed_ns now start (milliseconds_to_ns_saturated ms)
      = (start \<noteq> 0 \<and> ms \<noteq> 0 \<and> start + min u64_max (ms * 1000000) \<le> now)) \<and>
   steady_deadline_after_ms now limit_ns ms \<le> max now limit_ns"
proof -
  have 1: "milliseconds_to_ns_saturated ms = min u64_max (ms * 1000000)"
    by (auto simp: milliseconds_to_ns_saturated_def u64_max_def min_def)
  have "ms < (limit_ns - now) div 1000000 \<Longrightarrow> now + ms * 1000000 \<le> limit_ns"
  proof -
    assume "ms < (limit_ns - now) div 1000000"
    then have "ms * 1000000 \<le> (limit_ns - now) div 1000000 * 1000000" by simp
    also have "\<dots> \<le> limit_ns - now" by simp
    finally have "ms * 1000000 \<le> limit_ns - now" .
    moreover have "(limit_ns - now) div 1000000 \<noteq> 0" using \<open>ms < (limit_ns - now) div 1000000\<close> by simp
    then have "now < limit_ns" by (cases "now < limit_ns") auto
    ultimately show ?thesis by simp
  qed
  then have "steady_deadline_after_ms now limit_ns ms \<le> max now limit_ns"
    by (auto simp: steady_deadline_after_ms_def Let_def)
  with 1 show ?thesis
    by (auto simp: deadline_elapsed_ns_def saturating_elapsed_def u64_max_def min_def)
qed

subsection \<open>The race\<close>

definition race_spec :: "nat list \<Rightarrow> nat option \<Rightarrow> bool" where
  "race_spec ready winner \<longleftrightarrow>
     (case winner of
        None \<Rightarrow> \<forall>j<length ready. ready ! j = 0
      | Some k \<Rightarrow> k < length ready \<and> ready ! k \<noteq> 0 \<and>
          (\<forall>j<length ready. ready ! j = 0 \<or> ready ! k < ready ! j \<or> (ready ! k = ready ! j \<and> k \<le> j)))"

lemma race_spec_snoc:
  "race_spec pre w \<Longrightarrow> (\<forall>k. w = Some k \<longrightarrow> e = pre ! k) \<Longrightarrow>
     race_spec (pre @ [r]) (if r = 0 then w else if w = None \<or> r < e then Some (length pre) else w)"
  by (cases w) (auto simp: race_spec_def nth_append less_Suc_eq split: if_splits)

lemma race_loop_spec:
  "race_spec pre w \<Longrightarrow> (\<forall>k. w = Some k \<longrightarrow> e = pre ! k) \<Longrightarrow>
     race_spec (pre @ xs) (race_loop xs (length pre) w e)"
proof (induction xs arbitrary: pre w e)
  case (Cons r xs)
  let ?w = "if r = 0 then w else if w = None \<or> r < e then Some (length pre) else w"
  let ?e = "if r = 0 then e else if w = None \<or> r < e then r else e"
  have "race_spec (pre @ [r]) ?w" by (rule race_spec_snoc [OF Cons.prems])
  moreover have "\<forall>k. ?w = Some k \<longrightarrow> ?e = (pre @ [r]) ! k"
    using Cons.prems by (auto simp: nth_append race_spec_def split: option.splits)
  ultimately have "race_spec ((pre @ [r]) @ xs) (race_loop xs (length (pre @ [r])) ?w ?e)" by (rule Cons.IH)
  then show ?case by (cases "r = 0"; cases "w = None \<or> r < e") auto
qed simp

lemma select_earliest_spec:
  "race_spec ready_at_ns (select_earliest_1rtt_candidate ready_at_ns)"
  using race_loop_spec [of "[]" None 0 ready_at_ns]
  by (simp add: select_earliest_1rtt_candidate_def race_spec_def)

subsection \<open>The handshake buffer\<close>

definition hb_ok :: "handshake_buffer \<Rightarrow> bool" where
  "hb_ok b \<longleftrightarrow>
     hb_bytes b = sum_list (map (\<lambda>e. length (bs_data e)) (hb_events b)) \<and>
     hb_bytes b \<le> hb_max_bytes \<and> length (hb_events b) \<le> hb_max_events"

datatype hb_op = Hb_append nat int nat bytes | Hb_clear

fun hb_step :: "handshake_buffer \<Rightarrow> hb_op \<Rightarrow> handshake_buffer" where
  "hb_step b (Hb_append f i off d) = snd (hb_append b f i off (Some d) (length d))"
| "hb_step b Hb_clear = hb_clear b"

lemma hb_step_ok: "hb_ok b \<Longrightarrow> hb_ok (hb_step b op)"
proof (cases op)
  case (Hb_append f i off d)
  assume ok: "hb_ok b"
  then have le: "hb_bytes b \<le> hb_max_bytes" by (simp add: hb_ok_def)
  then have "(int hb_max_bytes - int (hb_bytes b)) mod 18446744073709551616 = int (hb_max_bytes - hb_bytes b)"
    by (simp add: of_nat_diff hb_max_bytes_def)
  then show ?thesis
    using ok le Hb_append by (auto simp: hb_append_def hb_ok_def Let_def)
next
  case Hb_clear
  then show ?thesis by (simp add: hb_clear_def empty_handshake_buffer_def hb_ok_def)
qed

interpretation handshake_buffers: bounded_system hb_step hb_ok "\<lambda>b. length (hb_events b)" hb_max_events
  by unfold_locales (auto simp: hb_step_ok, simp add: hb_ok_def)

text \<open>Whatever a peer sends before the codec exists, the buffered stream data never exceeds
  1 MiB or 1024 events, and the byte counter is exact, so the unsigned subtraction in the guard
  cannot wrap.\<close>

lemma handshake_buffer_bounded:
  "let b = foldl hb_step empty_handshake_buffer ops in
   hb_bytes b = sum_list (map (\<lambda>e. length (bs_data e)) (hb_events b)) \<and>
   hb_bytes b \<le> hb_max_bytes \<and> length (hb_events b) \<le> hb_max_events"
proof -
  have "hb_ok (foldl hb_step empty_handshake_buffer ops)"
    by (rule handshake_buffers.run_inv) (simp add: hb_ok_def empty_handshake_buffer_def)
  then show ?thesis by (simp add: Let_def hb_ok_def)
qed

end
