(* ===== verification/Dns_Cache.thy ===== *)
theory Dns_Cache
  imports Kat_System Kat_Decimal Header_List
begin

text \<open>
  \<^verbatim>\<open>src/core/dns.{h,cc}\<close> without its threads: the resolvers, the ordering of addresses, the Happy
  Eyeballs plan and the network-scoped cache.  What is outside the program is a parameter:
  \<^verbatim>\<open>getaddrinfo\<close>, \<^verbatim>\<open>inet_pton\<close>, the user's callback, the upstream resolver and the clock.
\<close>

definition af_inet :: int where "af_inet = 2"
definition af_inet6 :: int where "af_inet6 = 10"

record endpoint =
  ep_ip :: string
  ep_port :: nat
  ep_family :: int

definition mk_endpoint :: "string \<Rightarrow> nat \<Rightarrow> int \<Rightarrow> endpoint" where
  "mk_endpoint ip port family = \<lparr>ep_ip = ip, ep_port = port, ep_family = family\<rparr>"

subsection \<open>Interleaving the families\<close>

fun interleave_loop :: "nat \<Rightarrow> nat \<Rightarrow> 'a list \<Rightarrow> 'a list \<Rightarrow> 'a list \<Rightarrow> 'a list" where
  "interleave_loop i 0 a b out = out"
| "interleave_loop i (Suc k) a b out =
     (let out1 = (if i < length a then out @ [a ! i] else out);
          out2 = (if i < length b then out1 @ [b ! i] else out1)
      in interleave_loop (Suc i) k a b out2)"

definition interleave :: "'a list \<Rightarrow> 'a list \<Rightarrow> 'a list" where
  "interleave a b = interleave_loop 0 (max (length a) (length b)) a b []"

subsection \<open>The system resolver\<close>

text \<open>One result: its family and the text \<^verbatim>\<open>inet_ntop\<close> gives; \<open>None\<close> is a failing \<^verbatim>\<open>getaddrinfo\<close>.\<close>

type_synonym addr_infos = "(int \<times> string) list"

definition resolve_one ::
  "(int \<Rightarrow> addr_infos option) \<Rightarrow> bool \<Rightarrow> int \<Rightarrow> nat \<Rightarrow> endpoint list" where
  "resolve_one getaddrinfo stopped family port =
     (if stopped then []
      else case getaddrinfo family of
             None \<Rightarrow> []
           | Some res \<Rightarrow>
               map (\<lambda>(f, text). mk_endpoint text port family) (filter (\<lambda>(f, text). f = family) res))"

text \<open>\<open>stop\<close> is the value of the flag at each of its three loads.\<close>

definition system_resolve ::
  "(int \<Rightarrow> addr_infos option) \<Rightarrow> bool \<times> bool \<times> bool \<Rightarrow> nat \<Rightarrow> endpoint list" where
  "system_resolve getaddrinfo stop port =
     (let (stop1, stop2, stop3) = stop;
          v6 = resolve_one getaddrinfo stop1 af_inet6 port
      in if stop2 then v6
         else interleave v6 (resolve_one getaddrinfo stop3 af_inet port))"

subsection \<open>The C callback\<close>

record resolved_address =
  ra_ip :: string
  ra_port :: nat
  ra_family :: int

definition callback_buffer_size :: nat where "callback_buffer_size = 64"

text \<open>\<open>answer\<close> is the callback's result, the count it wrote and the buffer it filled; \<open>ra_ip\<close> is the
  whole character array, and \<open>pton family text\<close> says that \<^verbatim>\<open>inet_pton\<close> accepts the text.\<close>

definition callback_endpoint :: "(int \<Rightarrow> string \<Rightarrow> bool) \<Rightarrow> resolved_address \<Rightarrow> endpoint option" where
  "callback_endpoint pton candidate =
     (case find_char (CHR 0x00) (ra_ip candidate) of
        None \<Rightarrow> None
      | Some terminator \<Rightarrow>
          if ra_port candidate = 0 \<or> (ra_family candidate \<noteq> af_inet \<and> ra_family candidate \<noteq> af_inet6)
          then None
          else if \<not> pton (ra_family candidate) (c_str (ra_ip candidate)) then None
          else Some (mk_endpoint (take terminator (ra_ip candidate)) (ra_port candidate)
                       (ra_family candidate)))"

definition resolve_with_c_callback ::
  "(int \<Rightarrow> string \<Rightarrow> bool) \<Rightarrow> (string \<Rightarrow> nat \<Rightarrow> int \<times> nat \<times> resolved_address list) option \<Rightarrow>
     string \<Rightarrow> nat \<Rightarrow> endpoint list" where
  "resolve_with_c_callback pton callback host port =
     (case callback of
        None \<Rightarrow> []
      | Some cb \<Rightarrow>
          let (rc, count, buffer) = cb (c_str host) port in
          if rc \<noteq> 0 \<or> count > callback_buffer_size then []
          else List.map_filter (callback_endpoint pton) (take count buffer))"

subsection \<open>Happy Eyeballs\<close>

text \<open>\<open>None\<close> is \<^verbatim>\<open>size_t(-1)\<close>.\<close>

record eyeballs_plan =
  he_primary :: "nat option"
  he_fallback :: "nat option"

definition plan_enabled :: "eyeballs_plan \<Rightarrow> bool" where
  "plan_enabled plan \<longleftrightarrow> he_primary plan \<noteq> None \<and> he_fallback plan \<noteq> None"

definition make_happy_eyeballs_plan :: "endpoint list \<Rightarrow> eyeballs_plan" where
  "make_happy_eyeballs_plan endpoints =
     (case endpoints of
        [] \<Rightarrow> \<lparr>he_primary = None, he_fallback = None\<rparr>
      | first # rest \<Rightarrow>
          if ep_family first \<noteq> af_inet \<and> ep_family first \<noteq> af_inet6
          then \<lparr>he_primary = None, he_fallback = None\<rparr>
          else
            case find_if (\<lambda>e. ep_family e \<noteq> ep_family first \<and>
                               (ep_family e = af_inet \<or> ep_family e = af_inet6)) rest of
              Some i \<Rightarrow> \<lparr>he_primary = Some 0, he_fallback = Some (i + 1)\<rparr>
            | None \<Rightarrow> \<lparr>he_primary = None, he_fallback = None\<rparr>)"

subsection \<open>The cache\<close>

record dns_key =
  dk_host :: string
  dk_port :: nat
  dk_generation :: nat

record dns_entry =
  de_key :: dns_key
  de_expires_at_ms :: nat
  de_negative :: bool
  de_endpoints :: "endpoint list"

record dns_cache =
  dc_max_entries :: nat
  dc_positive_ttl_ms :: nat
  dc_negative_ttl_ms :: nat
  dc_entries :: "dns_entry list"

definition new_dns_cache :: "nat \<Rightarrow> nat \<Rightarrow> nat \<Rightarrow> dns_cache" where
  "new_dns_cache max_entries positive negative =
     \<lparr>dc_max_entries = max 1 max_entries, dc_positive_ttl_ms = positive, dc_negative_ttl_ms = negative,
      dc_entries = []\<rparr>"

definition canonical_host :: "string \<Rightarrow> string" where
  "canonical_host host =
     (let h = lower host in if length h > 1 \<and> last h = CHR ''.'' then butlast h else h)"

definition make_key :: "string \<Rightarrow> nat \<Rightarrow> nat \<Rightarrow> dns_key" where
  "make_key host port generation =
     \<lparr>dk_host = canonical_host host, dk_port = port, dk_generation = generation\<rparr>"

text \<open>The first entry with the key, and the list without it.\<close>

fun extract_entry :: "dns_key \<Rightarrow> dns_entry list \<Rightarrow> (dns_entry \<times> dns_entry list) option" where
  "extract_entry k [] = None"
| "extract_entry k (e # es) =
     (if de_key e = k then Some (e, es) else map_option (\<lambda>(x, xs). (x, e # xs)) (extract_entry k es))"

text \<open>\<open>None\<close> is false, \<open>Some None\<close> a negative hit (the caller's endpoints stay as they are).\<close>

definition lookup_key :: "dns_key \<Rightarrow> nat \<Rightarrow> dns_cache \<Rightarrow> endpoint list option option \<times> dns_cache" where
  "lookup_key k now c =
     (case extract_entry k (dc_entries c) of
        None \<Rightarrow> (None, c)
      | Some (e, rest) \<Rightarrow>
          if de_expires_at_ms e \<le> now then (None, c\<lparr>dc_entries := rest\<rparr>)
          else (Some (if de_negative e then None else Some (de_endpoints e)),
                c\<lparr>dc_entries := e # rest\<rparr>))"

definition dns_lookup ::
  "string \<Rightarrow> nat \<Rightarrow> nat \<Rightarrow> nat \<Rightarrow> dns_cache \<Rightarrow> endpoint list option option \<times> dns_cache" where
  "dns_lookup host port generation now c = lookup_key (make_key host port generation) now c"

function pop_back_to :: "nat \<Rightarrow> 'a list \<Rightarrow> 'a list" where
  "pop_back_to n xs = (if length xs > n then pop_back_to n (butlast xs) else xs)"
  by pat_completeness auto
termination by (relation "measure (\<lambda>(n, xs). length xs)") auto

declare pop_back_to.simps [simp del]

definition dns_put :: "dns_entry \<Rightarrow> dns_cache \<Rightarrow> dns_cache" where
  "dns_put entry c =
     c\<lparr>dc_entries := pop_back_to (dc_max_entries c)
         (entry # filter (\<lambda>existing. de_key existing \<noteq> de_key entry) (dc_entries c))\<rparr>"

definition put_failure :: "string \<Rightarrow> nat \<Rightarrow> nat \<Rightarrow> nat \<Rightarrow> dns_cache \<Rightarrow> dns_cache" where
  "put_failure host port generation now c =
     (if dc_negative_ttl_ms c = 0 then c
      else dns_put \<lparr>de_key = make_key host port generation,
                    de_expires_at_ms = wrap64 (now + dc_negative_ttl_ms c),
                    de_negative = True, de_endpoints = []\<rparr> c)"

definition put_success ::
  "string \<Rightarrow> nat \<Rightarrow> nat \<Rightarrow> endpoint list \<Rightarrow> nat \<Rightarrow> dns_cache \<Rightarrow> dns_cache" where
  "put_success host port generation endpoints now c =
     (if endpoints = [] then put_failure host port generation now c
      else if dc_positive_ttl_ms c = 0 then c
      else dns_put \<lparr>de_key = make_key host port generation,
                    de_expires_at_ms = wrap64 (now + dc_positive_ttl_ms c),
                    de_negative = False, de_endpoints = endpoints\<rparr> c)"

definition invalidate_network :: "nat \<Rightarrow> dns_cache \<Rightarrow> dns_cache" where
  "invalidate_network generation c =
     c\<lparr>dc_entries := filter (\<lambda>e. dk_generation (de_key e) = generation) (dc_entries c)\<rparr>"

text \<open>\<^verbatim>\<open>CachedResolver::resolve\<close>: the endpoints, whether the upstream resolver was asked, the cache.\<close>

definition cached_resolve ::
  "(string \<Rightarrow> nat \<Rightarrow> endpoint list) \<Rightarrow> string \<Rightarrow> nat \<Rightarrow> nat \<Rightarrow> bool \<Rightarrow> nat \<Rightarrow> nat \<Rightarrow> dns_cache \<Rightarrow>
     endpoint list \<times> bool \<times> dns_cache" where
  "cached_resolve upstream host port network stopped now now_after c =
     (case dns_lookup host port network now c of
        (Some (Some endpoints), c1) \<Rightarrow> (endpoints, False, c1)
      | (Some None, c1) \<Rightarrow> ([], False, c1)
      | (None, c1) \<Rightarrow>
          let endpoints = upstream host port in
          if stopped then ([], True, c1)
          else if endpoints = [] then (endpoints, True, put_failure host port network now_after c1)
          else (endpoints, True, put_success host port network endpoints now_after c1))"

subsection \<open>The key of a flight\<close>

definition dns_flight_key :: "nat \<Rightarrow> string \<Rightarrow> nat \<Rightarrow> nat \<Rightarrow> string" where
  "dns_flight_key resolver host port generation =
     to_string resolver @ ''|'' @ canonical_host host @ '':'' @ to_string port @ ''@''
       @ to_string generation"

subsection \<open>Ordering\<close>

lemma interleave_loop_splice:
  "interleave_loop i k a b out = out @ splice (take k (drop i a)) (take k (drop i b))"
proof (induction k arbitrary: i out)
  case (Suc k)
  have d: "drop i xs = (if i < length xs then xs ! i # drop (Suc i) xs else [])" for xs :: "'a list"
    by (simp add: Cons_nth_drop_Suc)
  show ?case using Suc by (subst (1 2) d) (simp add: Let_def)
qed simp

lemma interleave_splice: "interleave a b = splice a b"
  by (simp add: interleave_def interleave_loop_splice)

lemma resolve_one_family: "e \<in> set (resolve_one g st f port) \<Longrightarrow> ep_family e = f \<and> ep_port e = port"
  by (auto simp: resolve_one_def mk_endpoint_def split: if_splits option.splits)

text \<open>The addresses of the system resolver alternate between the families, IPv6 first, each
  family in the order it was returned; with both families present the race is between the first IPv6
  and the first IPv4 address, and with one family only there is no race.\<close>

lemma dual_stack_race:
  "let v6 = resolve_one g s1 af_inet6 port; v4 = resolve_one g s3 af_inet port;
       eps = system_resolve g (s1, False, s3) port;
       plan = make_happy_eyeballs_plan eps
   in filter (\<lambda>e. ep_family e = af_inet6) eps = v6 \<and> filter (\<lambda>e. ep_family e = af_inet) eps = v4 \<and>
      (if v6 \<noteq> [] \<and> v4 \<noteq> []
       then eps ! 0 = hd v6 \<and> eps ! 1 = hd v4 \<and> plan = \<lparr>he_primary = Some 0, he_fallback = Some 1\<rparr>
       else \<not> plan_enabled plan)"
proof -
  let ?v6 = "resolve_one g s1 af_inet6 port" and ?v4 = "resolve_one g s3 af_inet port"
  have eps: "system_resolve g (s1, False, s3) port = splice ?v6 ?v4"
    by (simp add: system_resolve_def interleave_splice)
  have f6: "\<forall>e\<in>set ?v6. ep_family e = af_inet6" and f4: "\<forall>e\<in>set ?v4. ep_family e = af_inet"
    using resolve_one_family by blast+
  have split: "(\<forall>e\<in>set a. P e) \<Longrightarrow> (\<forall>e\<in>set b. \<not> P e) \<Longrightarrow> filter P (splice a b) = a"
    "(\<forall>e\<in>set a. \<not> P e) \<Longrightarrow> (\<forall>e\<in>set b. P e) \<Longrightarrow> filter P (splice a b) = b"
    for P and a b :: "endpoint list"
    by (induction a b rule: splice.induct) (auto simp: filter_empty_conv)
  have 1: "filter (\<lambda>e. ep_family e = af_inet6) (splice ?v6 ?v4) = ?v6"
    by (rule split(1)) (use f6 f4 in \<open>auto simp: af_inet_def af_inet6_def\<close>)
  have 2: "filter (\<lambda>e. ep_family e = af_inet) (splice ?v6 ?v4) = ?v4"
    by (rule split(2)) (use f6 f4 in \<open>auto simp: af_inet_def af_inet6_def\<close>)
  have 3: "\<not> plan_enabled (make_happy_eyeballs_plan es)"
    if "\<forall>e\<in>set es. ep_family e = f" for es f
    using that find_if_None [of "\<lambda>e. ep_family e \<noteq> f \<and> (ep_family e = af_inet \<or> ep_family e = af_inet6)" "tl es"]
    by (cases es) (auto simp: make_happy_eyeballs_plan_def plan_enabled_def)
  show ?thesis
  proof (cases "?v6 \<noteq> [] \<and> ?v4 \<noteq> []")
    case True
    then obtain x xs y ys where x: "?v6 = x # xs" and y: "?v4 = y # ys" by (auto simp: neq_Nil_conv)
    have "ep_family x = af_inet6" "ep_family y = af_inet" using f6 f4 x y by auto
    then have "make_happy_eyeballs_plan (splice ?v6 ?v4) = \<lparr>he_primary = Some 0, he_fallback = Some 1\<rparr>"
      by (simp add: x y make_happy_eyeballs_plan_def) (simp add: af_inet_def af_inet6_def)
    then show ?thesis using 1 2 True x y by (simp add: eps Let_def)
  next
    case False
    then have "splice ?v6 ?v4 = ?v4 \<or> splice ?v6 ?v4 = ?v6" by auto
    then have "\<not> plan_enabled (make_happy_eyeballs_plan (splice ?v6 ?v4))"
      using 3 [OF f6] 3 [OF f4] by auto
    then show ?thesis using 1 2 False by (auto simp: eps Let_def)
  qed
qed

subsection \<open>Keys\<close>

text \<open>A decimal followed by a separator is read back from either end.\<close>

lemma decimal_prefix_unique:
  assumes "to_string m @ c # xs = to_string n @ c # ys" "\<not> is_digit c"
  shows "m = n \<and> xs = ys"
proof -
  have tw: "takeWhile is_digit (to_string k @ c # zs) = to_string k" for k zs
    using to_string_digits [of k] assms(2) by (simp add: takeWhile_append2)
  have "to_string m = to_string n" using tw [of m xs] tw [of n ys] assms(1) by simp
  then show ?thesis using assms(1) by simp
qed

lemma decimal_suffix_unique:
  assumes "xs @ c # to_string m = ys @ c # to_string n" "\<not> is_digit c"
  shows "m = n \<and> xs = ys"
proof -
  have tw: "takeWhile is_digit (rev (zs @ c # to_string k)) = rev (to_string k)" for k zs
  proof -
    have "takeWhile is_digit (rev (to_string k) @ c # rev zs) = rev (to_string k) @ takeWhile is_digit (c # rev zs)"
      by (rule takeWhile_append2) (use to_string_digits [of k] in simp)
    then show ?thesis using assms(2) by simp
  qed
  have "rev (to_string m) = rev (to_string n)"
    using tw [of xs m] tw [of ys n] arg_cong [OF assms(1), of rev] by simp
  then show ?thesis using assms(1) by simp
qed

text \<open>Two lookups share a flight exactly when they are for the same resolver, canonical host,
  port and network generation, whatever characters the host holds.\<close>

lemma flight_key_injective:
  "dns_flight_key r host port g = dns_flight_key r' host' port' g' \<longleftrightarrow>
     r = r' \<and> canonical_host host = canonical_host host' \<and> port = port' \<and> g = g'"
proof
  have nd: "\<not> is_digit CHR ''|''" "\<not> is_digit CHR '':''" "\<not> is_digit CHR ''@''"
    by (simp_all add: is_digit_of_char)
  assume "dns_flight_key r host port g = dns_flight_key r' host' port' g'"
  then have a: "to_string r @ CHR ''|'' # (canonical_host host @ CHR '':'' # to_string port @ ''@'' @ to_string g)
      = to_string r' @ CHR ''|'' # (canonical_host host' @ CHR '':'' # to_string port' @ ''@'' @ to_string g')"
    by (simp add: dns_flight_key_def)
  note b = decimal_prefix_unique [OF a nd(1)]
  then have c: "(canonical_host host @ CHR '':'' # to_string port) @ CHR ''@'' # to_string g
      = (canonical_host host' @ CHR '':'' # to_string port') @ CHR ''@'' # to_string g'" by simp
  note d = decimal_suffix_unique [OF c nd(3)]
  then have e: "canonical_host host @ CHR '':'' # to_string port = canonical_host host' @ CHR '':'' # to_string port'"
    by simp
  show "r = r' \<and> canonical_host host = canonical_host host' \<and> port = port' \<and> g = g'"
    using b d decimal_suffix_unique [OF e nd(2)] by simp
qed (simp add: dns_flight_key_def)

subsection \<open>The cache's invariant\<close>

lemma pop_back_to_take: "pop_back_to n xs = take n xs"
proof (induction n xs rule: pop_back_to.induct)
  case (1 n xs)
  then show ?case
    by (subst pop_back_to.simps) (auto simp: butlast_conv_take min_def)
qed

lemma extract_entry_Some:
  "extract_entry k es = Some (e, rest) \<Longrightarrow>
     e \<in> set es \<and> de_key e = k \<and> set es = insert e (set rest) \<and> length es = Suc (length rest) \<and>
     (distinct (map de_key es) \<longrightarrow> distinct (map de_key (e # rest)))"
proof (induction es arbitrary: e rest)
  case (Cons x xs)
  show ?case
  proof (cases "de_key x = k")
    case False
    then obtain r where r: "extract_entry k xs = Some (e, r)" "rest = x # r" using Cons.prems by auto
    then show ?thesis using Cons.IH [OF r(1)] by auto
  qed (use Cons.prems in auto)
qed simp

lemma extract_entryD:
  assumes "extract_entry k es = Some (e, rest)"
  shows "de_key e = k" "e \<in> set es" "set rest \<subseteq> set es"
  using extract_entry_Some [OF assms] by auto

lemma extract_entry_None: "extract_entry k es = None \<longleftrightarrow> (\<forall>e\<in>set es. de_key e \<noteq> k)"
  by (induction es) auto

lemma extract_entry_unique:
  "distinct (map de_key es) \<Longrightarrow> e \<in> set es \<Longrightarrow> \<exists>rest. extract_entry (de_key e) es = Some (e, rest)"
  by (induction es) (auto simp: rev_image_eqI)

definition dns_cache_ok :: "dns_cache \<Rightarrow> bool" where
  "dns_cache_ok c \<longleftrightarrow>
     1 \<le> dc_max_entries c \<and> length (dc_entries c) \<le> dc_max_entries c \<and>
     distinct (map de_key (dc_entries c))"

datatype dns_op =
    Dns_lookup string nat nat nat
  | Dns_success string nat nat "endpoint list" nat
  | Dns_failure string nat nat nat
  | Dns_invalidate nat

fun dns_step :: "dns_cache \<Rightarrow> dns_op \<Rightarrow> dns_cache" where
  "dns_step c (Dns_lookup h p g now) = snd (dns_lookup h p g now c)"
| "dns_step c (Dns_success h p g eps now) = put_success h p g eps now c"
| "dns_step c (Dns_failure h p g now) = put_failure h p g now c"
| "dns_step c (Dns_invalidate g) = invalidate_network g c"

lemma dns_put_ok: "dns_cache_ok c \<Longrightarrow> dns_cache_ok (dns_put e c)"
  unfolding dns_cache_ok_def dns_put_def pop_back_to_take
  by (auto simp: take_map [symmetric] distinct_map_filter intro!: distinct_take)

lemma lookup_key_ok: "dns_cache_ok c \<Longrightarrow> dns_cache_ok (snd (lookup_key k now c))"
  by (auto simp: lookup_key_def dns_cache_ok_def dest!: extract_entry_Some split: option.splits)

lemma put_failure_ok: "dns_cache_ok c \<Longrightarrow> dns_cache_ok (put_failure h p g now c)"
  by (simp add: put_failure_def dns_put_ok)

lemma put_success_ok: "dns_cache_ok c \<Longrightarrow> dns_cache_ok (put_success h p g eps now c)"
  by (simp add: put_success_def dns_put_ok put_failure_ok)

lemma invalidate_ok: "dns_cache_ok c \<Longrightarrow> dns_cache_ok (invalidate_network g c)"
  by (auto simp: invalidate_network_def dns_cache_ok_def distinct_map_filter
      intro: order_trans [OF length_filter_le])

lemmas dns_ok = dns_put_ok lookup_key_ok put_failure_ok put_success_ok invalidate_ok

lemma dns_step_ok: "dns_cache_ok c \<Longrightarrow> dns_cache_ok (dns_step c op)"
  by (cases op) (simp_all add: dns_lookup_def dns_ok)

lemma dns_step_config [simp]:
  "dc_max_entries (dns_step c op) = dc_max_entries c"
  "dc_positive_ttl_ms (dns_step c op) = dc_positive_ttl_ms c"
  "dc_negative_ttl_ms (dns_step c op) = dc_negative_ttl_ms c"
  by (cases op; auto simp: dns_lookup_def lookup_key_def put_success_def put_failure_def dns_put_def
        invalidate_network_def split: option.splits)+

interpretation dns_caches: bounded_system dns_step "\<lambda>c. dns_cache_ok c \<and> dc_max_entries c = m"
  "\<lambda>c. length (dc_entries c)" m for m
  by unfold_locales (auto simp: dns_step_ok, simp add: dns_cache_ok_def)

subsection \<open>Where an answer comes from\<close>

text \<open>The entry an operation puts into the cache, and the operations that remove a key's entry.\<close>

fun put_by :: "nat \<Rightarrow> nat \<Rightarrow> dns_op \<Rightarrow> dns_entry option" where
  "put_by pos neg (Dns_success h p g eps now) =
     (if eps = [] then
        (if neg = 0 then None
         else Some \<lparr>de_key = make_key h p g, de_expires_at_ms = wrap64 (now + neg), de_negative = True,
                    de_endpoints = []\<rparr>)
      else if pos = 0 then None
      else Some \<lparr>de_key = make_key h p g, de_expires_at_ms = wrap64 (now + pos), de_negative = False,
                 de_endpoints = eps\<rparr>)"
| "put_by pos neg (Dns_failure h p g now) =
     (if neg = 0 then None
      else Some \<lparr>de_key = make_key h p g, de_expires_at_ms = wrap64 (now + neg), de_negative = True,
                 de_endpoints = []\<rparr>)"
| "put_by pos neg _ = None"

definition displaces :: "nat \<Rightarrow> nat \<Rightarrow> dns_key \<Rightarrow> dns_op \<Rightarrow> bool" where
  "displaces pos neg k op \<longleftrightarrow>
     (case op of Dns_invalidate g \<Rightarrow> g \<noteq> dk_generation k
      | _ \<Rightarrow> (case put_by pos neg op of None \<Rightarrow> False | Some e \<Rightarrow> de_key e = k))"

lemma dns_put_entries:
  "e \<in> set (dc_entries (dns_put x c)) \<Longrightarrow> e = x \<or> (e \<in> set (dc_entries c) \<and> de_key e \<noteq> de_key x)"
  by (auto simp: dns_put_def pop_back_to_take dest!: in_set_takeD)

lemma lookup_key_entries:
  assumes e: "e \<in> set (dc_entries (snd (lookup_key k now c)))"
  shows "e \<in> set (dc_entries c)"
proof (cases "extract_entry k (dc_entries c)")
  case (Some x)
  then obtain y rest where x: "extract_entry k (dc_entries c) = Some (y, rest)" by (cases x) auto
  then show ?thesis using e extract_entryD [OF x] by (auto simp: lookup_key_def split: if_splits)
qed (use e in \<open>simp add: lookup_key_def\<close>)

lemma dns_step_entries:
  assumes e: "e \<in> set (dc_entries (dns_step c op))"
  shows "put_by (dc_positive_ttl_ms c) (dc_negative_ttl_ms c) op = Some e \<or>
     (e \<in> set (dc_entries c) \<and> \<not> displaces (dc_positive_ttl_ms c) (dc_negative_ttl_ms c) (de_key e) op)"
proof (cases op)
  case (Dns_lookup h p g now)
  then show ?thesis using e by (auto simp: dns_lookup_def displaces_def dest!: lookup_key_entries)
next
  case (Dns_success h p g eps now)
  then show ?thesis
    using e by (auto simp: put_success_def put_failure_def displaces_def dest!: dns_put_entries split: if_splits)
next
  case (Dns_failure h p g now)
  then show ?thesis using e by (auto simp: put_failure_def displaces_def dest!: dns_put_entries split: if_splits)
next
  case (Dns_invalidate g)
  then show ?thesis using e by (simp add: invalidate_network_def displaces_def)
qed

lemma dns_run_config [simp]:
  "dc_positive_ttl_ms (foldl dns_step c ops) = dc_positive_ttl_ms c"
  "dc_negative_ttl_ms (foldl dns_step c ops) = dc_negative_ttl_ms c"
  by (induction ops arbitrary: c) auto

lemma dns_run_entries:
  "e \<in> set (dc_entries (foldl dns_step (new_dns_cache n pos neg) ops)) \<Longrightarrow>
     \<exists>pre op post. ops = pre @ op # post \<and> put_by pos neg op = Some e \<and>
       (\<forall>o'\<in>set post. \<not> displaces pos neg (de_key e) o')"
proof (induction ops rule: rev_induct)
  case (snoc o1 ops)
  let ?c = "foldl dns_step (new_dns_cache n pos neg) ops"
  have cfg: "dc_positive_ttl_ms (new_dns_cache n pos neg) = pos"
    "dc_negative_ttl_ms (new_dns_cache n pos neg) = neg" by (simp_all add: new_dns_cache_def)
  note cfg = cfg dns_run_config
  have "e \<in> set (dc_entries (dns_step ?c o1))" using snoc.prems by simp
  from dns_step_entries [OF this] show ?case
  proof
    assume "put_by (dc_positive_ttl_ms ?c) (dc_negative_ttl_ms ?c) o1 = Some e"
    then have "ops @ [o1] = ops @ o1 # [] \<and> put_by pos neg o1 = Some e \<and>
        (\<forall>o'\<in>set []. \<not> displaces pos neg (de_key e) o')" by (simp add: cfg)
    then show ?thesis by blast
  next
    assume old: "e \<in> set (dc_entries ?c) \<and> \<not> displaces (dc_positive_ttl_ms ?c) (dc_negative_ttl_ms ?c) (de_key e) o1"
    with snoc.IH obtain pre op post where "ops = pre @ op # post" "put_by pos neg op = Some e"
      "\<forall>o'\<in>set post. \<not> displaces pos neg (de_key e) o'" by blast
    then have "ops @ [o1] = pre @ op # (post @ [o1]) \<and> put_by pos neg op = Some e \<and>
        (\<forall>o'\<in>set (post @ [o1]). \<not> displaces pos neg (de_key e) o')" using old by (simp add: cfg)
    then show ?thesis by blast
  qed
qed (simp add: new_dns_cache_def)

text \<open>Whatever was done to the cache before, a positive answer for a host, port and network
  generation is the endpoint list of a successful resolution recorded for the same canonical host, port
  and generation, not yet expired, and no later result for that key and no switch to another network
  came after it; and the cache never outgrows its limit.\<close>

lemma dns_lookup_sound:
  assumes "fst (dns_lookup h p g now (foldl dns_step (new_dns_cache n pos neg) ops)) = Some (Some eps)"
  shows "length (dc_entries (foldl dns_step (new_dns_cache n pos neg) ops)) \<le> max 1 n \<and>
    (\<exists>pre h' t post. ops = pre @ Dns_success h' p g eps t # post \<and> eps \<noteq> [] \<and>
       canonical_host h' = canonical_host h \<and> now < t + pos \<and>
       (\<forall>o'\<in>set post. \<not> displaces pos neg (make_key h p g) o'))"
proof -
  let ?c = "foldl dns_step (new_dns_cache n pos neg) ops"
  from assms obtain e rest where e: "extract_entry (make_key h p g) (dc_entries ?c) = Some (e, rest)"
    and live: "now < de_expires_at_ms e" and ans: "\<not> de_negative e" "de_endpoints e = eps"
    by (auto simp: dns_lookup_def lookup_key_def split: option.splits if_splits)
  note X = extract_entryD [OF e]
  from dns_run_entries [OF X(2)] X(1) obtain pre op post where
    o: "ops = pre @ op # post" "put_by pos neg op = Some e"
      "\<forall>o'\<in>set post. \<not> displaces pos neg (make_key h p g) o'" by auto
  have w: "de_expires_at_ms e \<le> t + pos" if "op = Dns_success h' p' g' eps' t" "eps' \<noteq> []" for h' p' g' eps' t
    using o(2) that by (auto simp: wrap64_def split: if_splits)
  obtain h' t where h: "op = Dns_success h' p g eps t" "eps \<noteq> []" "canonical_host h' = canonical_host h"
  proof (cases op)
    case (Dns_success h1 p1 g1 eps1 t1)
    then show ?thesis using o(2) X(1) ans that by (auto simp: make_key_def split: if_splits)
  qed (use o(2) ans in \<open>auto split: if_splits\<close>)
  moreover have "now < t + pos" using w [OF h(1,2)] live by simp
  ultimately have "\<exists>pre h' t post. ops = pre @ Dns_success h' p g eps t # post \<and> eps \<noteq> [] \<and>
       canonical_host h' = canonical_host h \<and> now < t + pos \<and>
       (\<forall>o'\<in>set post. \<not> displaces pos neg (make_key h p g) o')"
    using o by blast
  moreover have "length (dc_entries ?c) \<le> max 1 n"
    by (rule dns_caches.run_bound) (simp add: new_dns_cache_def dns_cache_ok_def)
  ultimately show ?thesis by blast
qed

definition sample_endpoint :: endpoint where
  "sample_endpoint = mk_endpoint ''10.0.0.1'' 443 af_inet"

lemma dns_lookup_sound_witness:
  "\<exists>pre h' t post. [Dns_success ''Ex.org.'' 443 2 [sample_endpoint] 100, Dns_lookup ''b'' 1 2 120]
     = pre @ Dns_success h' 443 2 [sample_endpoint] t # post \<and>
     canonical_host h' = canonical_host ''ex.org'' \<and> 150 < t + 5000"
proof -
  have "fst (dns_lookup ''ex.org'' 443 2 150 (foldl dns_step (new_dns_cache 128 5000 0)
      [Dns_success ''Ex.org.'' 443 2 [sample_endpoint] 100, Dns_lookup ''b'' 1 2 120]))
    = Some (Some [sample_endpoint])" by code_simp
  from dns_lookup_sound [OF this] show ?thesis by blast
qed

subsection \<open>What a resolver relies on\<close>

text \<open>A store whose entries live for a while: a value that was put is found until it expires, whatever is
  looked up in between.\<close>

locale expiring_store =
  fixes lookup :: "'k \<Rightarrow> nat \<Rightarrow> 's \<Rightarrow> 'v option \<times> 's"
    and put :: "'k \<Rightarrow> nat \<Rightarrow> 'v \<Rightarrow> 's \<Rightarrow> 's"
    and inv :: "'s \<Rightarrow> bool" and ttl :: nat
  assumes lookup_inv: "inv s \<Longrightarrow> inv (snd (lookup k t s))"
    and put_inv: "inv s \<Longrightarrow> inv (put k now v s)"
    and put_hit: "inv s \<Longrightarrow> t < now + ttl \<Longrightarrow> fst (lookup k t (put k now v s)) = Some v"
    and lookup_later: "inv s \<Longrightarrow> t' \<le> t \<Longrightarrow> fst (lookup k t (snd (lookup k' t' s))) = fst (lookup k t s)"
begin

lemma lookups_later:
  "inv s \<Longrightarrow> \<forall>x\<in>set ls. snd x \<le> t \<Longrightarrow>
     fst (lookup k t (foldl (\<lambda>s x. snd (lookup (fst x) (snd x) s)) s ls)) = fst (lookup k t s)"
proof (induction ls arbitrary: s)
  case (Cons x ls)
  then show ?case by (simp add: lookup_inv lookup_later)
qed simp

lemma put_stays:
  assumes "inv s" "t < now + ttl" "\<forall>x\<in>set ls. snd x \<le> t"
  shows "fst (lookup k t (foldl (\<lambda>s x. snd (lookup (fst x) (snd x) s)) (put k now v s) ls)) = Some v"
  using lookups_later [OF put_inv [OF assms(1)] assms(3)] put_hit [OF assms(1,2)] by simp

end

definition result_entry :: "nat \<Rightarrow> dns_key \<Rightarrow> nat \<Rightarrow> endpoint list option \<Rightarrow> dns_entry" where
  "result_entry ttl k now r =
     \<lparr>de_key = k, de_expires_at_ms = now + ttl, de_negative = (r = None),
      de_endpoints = (case r of None \<Rightarrow> [] | Some eps \<Rightarrow> eps)\<rparr>"

lemma lookup_key_fst:
  "fst (lookup_key k t c) =
     (case extract_entry k (dc_entries c) of
        None \<Rightarrow> None
      | Some (e, _) \<Rightarrow> if de_expires_at_ms e \<le> t then None
                      else Some (if de_negative e then None else Some (de_endpoints e)))"
  by (simp add: lookup_key_def split: option.splits prod.splits)

lemma extract_rest:
  "distinct (map de_key es) \<Longrightarrow> extract_entry k' es = Some (e, rest) \<Longrightarrow>
     map_option fst (extract_entry k rest) = (if k = k' then None else map_option fst (extract_entry k es))"
proof (induction es arbitrary: e rest)
  case (Cons x xs)
  show ?case
  proof (cases "de_key x = k'")
    case True
    then have "extract_entry k' xs = None"
      using Cons.prems(1) unfolding extract_entry_None by (auto intro: rev_image_eqI)
    then show ?thesis using True Cons.prems
      by (cases "k = k'") (auto simp: option.map_comp comp_def case_prod_unfold)
  next
    case False
    then obtain r where r: "extract_entry k' xs = Some (e, r)" "rest = x # r" using Cons.prems by auto
    then show ?thesis using Cons.IH [OF _ r(1)] Cons.prems False
      by (auto simp: option.map_comp comp_def case_prod_unfold)
  qed
qed simp

lemma lookup_key_fst': "fst (lookup_key k t c) =
    (case map_option fst (extract_entry k (dc_entries c)) of
       None \<Rightarrow> None
     | Some e \<Rightarrow> if de_expires_at_ms e \<le> t then None
                else Some (if de_negative e then None else Some (de_endpoints e)))"
  by (simp add: lookup_key_fst split: option.splits prod.splits)

lemma lookup_key_later:
  assumes ok: "dns_cache_ok c" and le: "t' \<le> t"
  shows "fst (lookup_key k t (snd (lookup_key k' t' c))) = fst (lookup_key k t c)"
proof (cases "extract_entry k' (dc_entries c)")
  case (Some x)
  then obtain e rest where x: "extract_entry k' (dc_entries c) = Some (e, rest)" by (cases x) auto
  have dist: "distinct (map de_key (dc_entries c))" using ok by (simp add: dns_cache_ok_def)
  note R = extract_rest [OF dist x, of k]
  have key: "de_key e = k'" by (rule extract_entryD [OF x])
  show ?thesis
  proof (cases "de_expires_at_ms e \<le> t'")
    case True
    then have "snd (lookup_key k' t' c) = c\<lparr>dc_entries := rest\<rparr>" using x by (simp add: lookup_key_def)
    then show ?thesis using R True le x by (cases "k = k'") (simp_all add: lookup_key_fst')
  next
    case False
    then have "snd (lookup_key k' t' c) = c\<lparr>dc_entries := e # rest\<rparr>" using x by (simp add: lookup_key_def)
    moreover have "map_option fst (extract_entry k (e # rest)) = map_option fst (extract_entry k (dc_entries c))"
      using R x key by (cases "k = k'") (auto simp: option.map_comp comp_def case_prod_unfold)
    ultimately show ?thesis by (simp add: lookup_key_fst')
  qed
qed (simp add: lookup_key_def)

interpretation dns_store: expiring_store lookup_key "\<lambda>k now r. dns_put (result_entry ttl k now r)"
  dns_cache_ok ttl for ttl
proof
  show "fst (lookup_key k t (dns_put (result_entry ttl k now v) s)) = Some v"
    if "dns_cache_ok s" "t < now + ttl" for s t now k v
    using that by (auto simp: lookup_key_fst dns_put_def pop_back_to_take take_Cons' result_entry_def
        dns_cache_ok_def split: option.splits)
qed (auto simp: dns_ok lookup_key_later)

text \<open>An answer the upstream resolver gave is served again, without asking it, to every
  spelling of the same host until its lifetime is over, whatever hosts are looked up in between.\<close>

lemma cached_answer_reused:
  assumes "cached_resolve upstream host port g False now now_after c = (eps, True, c1)" "eps \<noteq> []"
    and "dns_cache_ok c" "0 < dc_positive_ttl_ms c" "now_after + dc_positive_ttl_ms c \<le> u64_max"
    and "t < now_after + dc_positive_ttl_ms c" "canonical_host host' = canonical_host host"
    and "\<forall>x\<in>set others. snd x \<le> t"
  shows "\<exists>c2. cached_resolve upstream' host' port g stopped t t'
      (foldl (\<lambda>s x. snd (lookup_key (fst x) (snd x) s)) c1 others) = (eps, False, c2)"
proof -
  obtain c0 where l: "dns_lookup host port g now c = (None, c0)" and up: "upstream host port = eps"
    and c1: "c1 = put_success host port g eps now_after c0"
    using assms(1,2) by (auto simp: cached_resolve_def Let_def split: prod.splits option.splits if_splits)
  have ok: "dns_cache_ok c0" using l lookup_key_ok [OF assms(3)] by (simp add: dns_lookup_def) (metis snd_conv)
  have cfg: "dc_positive_ttl_ms c0 = dc_positive_ttl_ms c"
    using l dns_step_config(2) [of c "Dns_lookup host port g now"] by simp
  have "c1 = dns_put (result_entry (dc_positive_ttl_ms c) (make_key host port g) now_after (Some eps)) c0"
    using assms(2,4,5) cfg c1
    by (simp add: put_success_def result_entry_def wrap64_def u64_max_def)
  then have "fst (lookup_key (make_key host port g) t
      (foldl (\<lambda>s x. snd (lookup_key (fst x) (snd x) s)) c1 others)) = Some (Some eps)"
    using dns_store.put_stays [OF ok assms(6) assms(8)] by simp
  moreover have "make_key host port g = make_key host' port g" by (simp add: make_key_def assms(7))
  ultimately show ?thesis
    by (auto simp: cached_resolve_def dns_lookup_def split: prod.splits option.splits)
qed

end
