(* ===== verification/Jni_Handles.thy ===== *)
theory Jni_Handles
  imports Kat_System Kat_Prelude
begin

text \<open>
  The ownership of native clients by Java handles (\<^verbatim>\<open>src/jni/kathttp3_jni.cc\<close>): the handle table, the
  leases a JNI call holds while it uses a client, and destruction.  \<^verbatim>\<open>g_handles_mutex\<close> makes each
  locked region one step; \<^verbatim>\<open>finalize_handle\<close> runs after the lock is released, so it is a step of
  its own and any other thread may act in between.  A \<^verbatim>\<open>std::shared_ptr<HandleEntry>\<close> is the index
  of its entry, and a lease is one occurrence of that index among the outstanding leases.
\<close>

record handle_entry =
  he_client :: nat
  he_resolver :: "nat option"
  he_active_calls :: nat
  he_destroy_requested :: bool
  he_destroy_started :: bool

text \<open>What the native side is told, in order.\<close>

datatype native_call = Client_destroy nat | Resolver_free nat

record handle_table =
  ht_handles :: "nat \<rightharpoonup> nat"
  ht_entries :: "handle_entry list"
  ht_leases :: "nat list"
  ht_finalizing :: "nat list"
  ht_calls :: "native_call list"
  ht_next :: nat

definition empty_table :: handle_table where
  "empty_table = \<lparr>ht_handles = Map.empty, ht_entries = [], ht_leases = [], ht_finalizing = [],
                  ht_calls = [], ht_next = 1\<rparr>"

definition jlong_max :: nat where "jlong_max = 9223372036854775807"

text \<open>The registration at the end of \<^verbatim>\<open>createClient\<close>, for the client \<^verbatim>\<open>kathttp3_client_create\<close>
  returned: a handle number out of the range of \<^verbatim>\<open>jlong\<close> destroys it again and returns 0.\<close>

definition register_client :: "nat \<Rightarrow> nat option \<Rightarrow> handle_table \<Rightarrow> nat \<times> handle_table" where
  "register_client client resolver t =
     (let next_handle = ht_next t;
          t1 = t\<lparr>ht_next := wrap64 (next_handle + 1)\<rparr>
      in if next_handle = 0 \<or> next_handle > jlong_max
         then (0, t1\<lparr>ht_calls := ht_calls t1 @ [Client_destroy client]
                       @ (case resolver of None \<Rightarrow> [] | Some r \<Rightarrow> [Resolver_free r])\<rparr>)
         else
           let entry = \<lparr>he_client = client, he_resolver = resolver, he_active_calls = 0,
                        he_destroy_requested = False, he_destroy_started = False\<rparr>
           in (next_handle,
               t1\<lparr>ht_entries := ht_entries t1 @ [entry],
                  ht_handles := (if ht_handles t1 next_handle = None
                                 then (ht_handles t1)(next_handle \<mapsto> length (ht_entries t1))
                                 else ht_handles t1)\<rparr>))"

definition update_entry :: "nat \<Rightarrow> (handle_entry \<Rightarrow> handle_entry) \<Rightarrow> handle_table \<Rightarrow> handle_table" where
  "update_entry e f t = t\<lparr>ht_entries := (ht_entries t)[e := f (ht_entries t ! e)]\<rparr>"

text \<open>The lease is the entry's index, \<open>None\<close> an empty lease.\<close>

definition acquire_client :: "nat \<Rightarrow> handle_table \<Rightarrow> nat option \<times> handle_table" where
  "acquire_client v t =
     (if v = 0 then (None, t)
      else
        case ht_handles t v of
          None \<Rightarrow> (None, t)
        | Some e \<Rightarrow>
            if he_destroy_requested (ht_entries t ! e) then (None, t)
            else (Some e,
                  (update_entry e (\<lambda>n. n\<lparr>he_active_calls := he_active_calls n + 1\<rparr>) t)
                    \<lparr>ht_leases := ht_leases t @ [e]\<rparr>))"

definition start_destroy :: "nat \<Rightarrow> handle_table \<Rightarrow> handle_table" where
  "start_destroy e t =
     (update_entry e (\<lambda>n. n\<lparr>he_destroy_started := True\<rparr>) t)\<lparr>ht_finalizing := ht_finalizing t @ [e]\<rparr>"

definition lease_release :: "nat \<Rightarrow> handle_table \<Rightarrow> handle_table" where
  "lease_release e t =
     (let t1 = (update_entry e (\<lambda>n. if he_active_calls n > 0
                                    then n\<lparr>he_active_calls := he_active_calls n - 1\<rparr> else n) t)
                 \<lparr>ht_leases := remove1 e (ht_leases t)\<rparr>;
          n = ht_entries t1 ! e
      in if he_active_calls n = 0 \<and> he_destroy_requested n \<and> \<not> he_destroy_started n
         then start_destroy e t1 else t1)"

definition destroy_client :: "nat \<Rightarrow> handle_table \<Rightarrow> handle_table" where
  "destroy_client h t =
     (case ht_handles t h of
        None \<Rightarrow> t
      | Some e \<Rightarrow>
          let t1 = (update_entry e (\<lambda>n. n\<lparr>he_destroy_requested := True\<rparr>) t)
                     \<lparr>ht_handles := (ht_handles t)(h := None)\<rparr>;
              n = ht_entries t1 ! e
          in if he_active_calls n = 0 \<and> \<not> he_destroy_started n then start_destroy e t1 else t1)"

definition finalize_handle :: "nat \<Rightarrow> handle_table \<Rightarrow> handle_table" where
  "finalize_handle e t =
     (let n = ht_entries t ! e in
      (update_entry e (\<lambda>n. n\<lparr>he_resolver := None\<rparr>) t)
        \<lparr>ht_finalizing := remove1 e (ht_finalizing t),
         ht_calls := ht_calls t @ [Client_destroy (he_client n)]
           @ (case he_resolver n of None \<Rightarrow> [] | Some r \<Rightarrow> [Resolver_free r])\<rparr>)"

subsection \<open>What the threads do\<close>

text \<open>Clients are numbered in the order \<^verbatim>\<open>kathttp3_client_create\<close> returns them.\<close>

datatype handle_action =
    A_create nat "nat option" | A_acquire nat | A_release nat | A_destroy nat | A_finalize nat

definition used_clients :: "handle_table \<Rightarrow> nat set" where
  "used_clients t = he_client ` set (ht_entries t) \<union> {c. Client_destroy c \<in> set (ht_calls t)}"

inductive handle_step :: "handle_table \<Rightarrow> handle_action \<Rightarrow> handle_table \<Rightarrow> bool" where
  h_create: "c \<notin> used_clients t \<Longrightarrow> handle_step t (A_create c r) (snd (register_client c r t))"
| h_acquire: "handle_step t (A_acquire v) (snd (acquire_client v t))"
| h_release: "e \<in> set (ht_leases t) \<Longrightarrow> handle_step t (A_release e) (lease_release e t)"
| h_destroy: "handle_step t (A_destroy h) (destroy_client h t)"
| h_finalize: "e \<in> set (ht_finalizing t) \<Longrightarrow> handle_step t (A_finalize e) (finalize_handle e t)"

inductive_cases handle_step_cases: "handle_step t a t'"

subsection \<open>The invariant\<close>

definition destroys :: "handle_table \<Rightarrow> nat \<Rightarrow> nat" where
  "destroys t c = count_list (ht_calls t) (Client_destroy c)"

definition entry_ok :: "handle_table \<Rightarrow> nat \<Rightarrow> handle_entry \<Rightarrow> bool" where
  "entry_ok t e n \<longleftrightarrow>
     he_active_calls n = count_list (ht_leases t) e \<and>
     he_destroy_started n = (he_destroy_requested n \<and> he_active_calls n = 0) \<and>
     (e \<in> set (ht_finalizing t) \<longrightarrow> he_destroy_started n) \<and>
     destroys t (he_client n) = (if he_destroy_started n \<and> e \<notin> set (ht_finalizing t) then 1 else 0)"

definition table_ok :: "handle_table \<Rightarrow> bool" where
  "table_ok t \<longleftrightarrow>
     (\<forall>v e. ht_handles t v = Some e \<longrightarrow>
        e < length (ht_entries t) \<and> \<not> he_destroy_requested (ht_entries t ! e)) \<and>
     inj_on (ht_handles t) (dom (ht_handles t)) \<and>
     set (ht_leases t) \<subseteq> {..<length (ht_entries t)} \<and>
     distinct (ht_finalizing t) \<and> set (ht_finalizing t) \<subseteq> {..<length (ht_entries t)} \<and>
     distinct (map he_client (ht_entries t)) \<and>
     (\<forall>c. destroys t c \<le> 1) \<and>
     (\<forall>e<length (ht_entries t). entry_ok t e (ht_entries t ! e))"

lemmas handle_defs = update_entry_def start_destroy_def destroys_def

lemma empty_table_ok: "table_ok empty_table"
  by (simp add: table_ok_def empty_table_def handle_defs)

lemma table_okD:
  assumes "table_ok t"
  shows "ht_handles t v = Some e \<Longrightarrow> e < length (ht_entries t)"
    and "ht_handles t v = Some e \<Longrightarrow> \<not> he_destroy_requested (ht_entries t ! e)"
    and "e \<in> set (ht_leases t) \<Longrightarrow> e < length (ht_entries t)"
    and "e \<in> set (ht_finalizing t) \<Longrightarrow> e < length (ht_entries t)"
    and "e < length (ht_entries t) \<Longrightarrow> entry_ok t e (ht_entries t ! e)"
    and "ht_handles t v = Some e \<Longrightarrow> ht_handles t w = Some e \<Longrightarrow> v = w"
    and "destroys t c \<le> 1"
  using assms by (auto simp: table_ok_def Let_def inj_on_def dom_def subset_iff)

lemma client_of_update:
  "e < length es \<Longrightarrow> he_client n = he_client (es ! e) \<Longrightarrow> map he_client (es[e := n]) = map he_client es"
  by (simp add: map_update list_update_same_conv)

lemma count_remove1: "e \<in> set xs \<Longrightarrow>
    count_list (remove1 e xs) x = (if x = e then count_list xs x - 1 else count_list xs x)"
proof (induction xs)
  case (Cons a xs)
  show ?case
  proof (cases "a = e")
    case False
    then have e: "e \<in> set xs" using Cons.prems by simp
    then have "count_list xs e \<noteq> 0" by (simp add: count_list_0_iff)
    then show ?thesis using Cons.IH [OF e] False by auto
  qed simp
qed simp

text \<open>The steps that only change one entry's counters, the leases and the finalizing list.\<close>

lemma table_ok_update:
  assumes ok: "table_ok t" and e: "e < length (ht_entries t)"
    and es: "ht_entries t' = (ht_entries t)[e := n]" and c: "he_client n = he_client (ht_entries t ! e)"
    and h: "\<And>v i. ht_handles t' v = Some i \<Longrightarrow> ht_handles t v = Some i \<and> (i = e \<longrightarrow> \<not> he_destroy_requested n)"
    and ls: "\<And>i. i \<noteq> e \<Longrightarrow> count_list (ht_leases t') i = count_list (ht_leases t) i"
    and fin: "\<And>i. i \<noteq> e \<Longrightarrow> i \<in> set (ht_finalizing t') \<longleftrightarrow> i \<in> set (ht_finalizing t)"
    and dis: "distinct (ht_finalizing t')"
    and calls: "\<And>c. c \<noteq> he_client n \<Longrightarrow> destroys t' c = destroys t c" "destroys t' (he_client n) \<le> 1"
    and new: "entry_ok t' e n"
  shows "table_ok t'"
proof -
  note D = table_okD [OF ok]
  have dist: "distinct (map he_client (ht_entries t))" using ok by (simp add: table_ok_def)
  have len: "length (ht_entries t') = length (ht_entries t)" using es by simp
  have bound: "i < length (ht_entries t)" if "i \<in> set (ht_leases t') \<or> i \<in> set (ht_finalizing t')" for i
  proof (cases "i = e")
    case False
    then have "i \<in> set (ht_leases t) \<or> i \<in> set (ht_finalizing t)"
      using that ls [OF False] fin [OF False] by (metis count_list_0_iff)
    then show ?thesis using D(3,4) by auto
  qed (use e in simp)
  have entry: "entry_ok t' i (ht_entries t' ! i)" if i: "i < length (ht_entries t)" for i
  proof (cases "i = e")
    case True
    then show ?thesis using new es e by simp
  next
    case False
    then have "he_client (ht_entries t ! i) \<noteq> he_client n"
      using dist i e c by (simp add: distinct_conv_nth)
    then show ?thesis
      using D(5) [OF i] False es ls [OF False] fin [OF False] calls(1) by (auto simp: entry_ok_def)
  qed
  have "inj_on (ht_handles t') (dom (ht_handles t'))"
    using h D(6) by (auto simp: inj_on_def dom_def)
  moreover have "distinct (map he_client (ht_entries t'))"
    using dist es client_of_update [OF e c] by simp
  moreover have "destroys t' x \<le> 1" for x using calls D(7) by (cases "x = he_client n") auto
  moreover have "i < length (ht_entries t') \<and> \<not> he_destroy_requested (ht_entries t' ! i)"
    if "ht_handles t' v = Some i" for v i
    using h [OF that] D(1,2) es e by (cases "i = e") auto
  ultimately show ?thesis
    using bound entry len dis by (auto simp: table_ok_def)
qed

lemma acquire_ok: "table_ok t \<Longrightarrow> table_ok (snd (acquire_client v t))"
proof (cases "ht_handles t v")
  case (Some e)
  assume ok: "table_ok t"
  note D = table_okD [OF ok]
  have e: "e < length (ht_entries t)" "\<not> he_destroy_requested (ht_entries t ! e)"
    using D(1,2) Some by auto
  show ?thesis
  proof (cases "v = 0")
    case False
    with Some e have t': "snd (acquire_client v t) = (update_entry e (\<lambda>n. n\<lparr>he_active_calls := he_active_calls n + 1\<rparr>) t)
                    \<lparr>ht_leases := ht_leases t @ [e]\<rparr>" by (simp add: acquire_client_def)
    show ?thesis unfolding t'
      by (rule table_ok_update [OF ok e(1), where n = "(ht_entries t ! e)\<lparr>he_active_calls := he_active_calls (ht_entries t ! e) + 1\<rparr>"])
         (use e D(5) [OF e(1)] ok in \<open>auto simp: handle_defs entry_ok_def table_ok_def\<close>)
  qed (use ok in \<open>simp add: acquire_client_def\<close>)
qed (simp add: acquire_client_def)

lemma not_finalizing: "entry_ok t e n \<Longrightarrow> \<not> he_destroy_started n \<Longrightarrow> e \<notin> set (ht_finalizing t)"
  by (auto simp: entry_ok_def)

lemma release_ok:
  assumes ok: "table_ok t" and l: "e \<in> set (ht_leases t)"
  shows "table_ok (lease_release e t)"
proof -
  note D = table_okD [OF ok]
  have e: "e < length (ht_entries t)" by (rule D(3) [OF l])
  let ?m = "ht_entries t ! e"
  have em: "entry_ok t e ?m" by (rule D(5) [OF e])
  have pos: "he_active_calls ?m > 0" using em l by (metis entry_ok_def count_list_0_iff neq0_conv)
  have ns: "\<not> he_destroy_started ?m" using em pos by (simp add: entry_ok_def)
  note nf = not_finalizing [OF em ns]
  have act: "he_active_calls ?m = count_list (ht_leases t) e" using em by (simp add: entry_ok_def)
  let ?d = "he_active_calls ?m = 1 \<and> he_destroy_requested ?m"
  let ?n = "?m\<lparr>he_active_calls := he_active_calls ?m - 1, he_destroy_started := ?d\<rparr>"
  show ?thesis
  proof (rule table_ok_update [OF ok e, where n = ?n])
    show "ht_entries (lease_release e t) = (ht_entries t)[e := ?n]"
      using pos e ns by (cases ?m) (auto simp: lease_release_def handle_defs Let_def)
    show "entry_ok (lease_release e t) e ?n"
      using pos e ns nf em l by (auto simp: lease_release_def handle_defs Let_def entry_ok_def count_remove1)
    show "distinct (ht_finalizing (lease_release e t))"
      using pos e ns nf ok by (auto simp: lease_release_def handle_defs Let_def table_ok_def)
    show "count_list (ht_leases (lease_release e t)) i = count_list (ht_leases t) i" if "i \<noteq> e" for i
      using that l by (simp add: lease_release_def handle_defs Let_def count_remove1)
    show "destroys (lease_release e t) (he_client ?n) \<le> 1"
      using D(7) [of "he_client ?m"] by (simp add: lease_release_def handle_defs Let_def)
  qed (use D(2) in \<open>auto simp: lease_release_def handle_defs Let_def split: if_splits\<close>)
qed

lemma destroy_ok:
  assumes ok: "table_ok t"
  shows "table_ok (destroy_client h t)"
proof (cases "ht_handles t h")
  case (Some e)
  note D = table_okD [OF ok]
  have e: "e < length (ht_entries t)" by (rule D(1) [OF Some])
  let ?m = "ht_entries t ! e"
  have em: "entry_ok t e ?m" by (rule D(5) [OF e])
  have ns: "\<not> he_destroy_started ?m" "\<not> he_destroy_requested ?m"
    using em D(2) [OF Some] by (auto simp: entry_ok_def)
  note nf = not_finalizing [OF em ns(1)]
  let ?n = "?m\<lparr>he_destroy_requested := True, he_destroy_started := he_active_calls ?m = 0\<rparr>"
  show ?thesis
  proof (rule table_ok_update [OF ok e, where n = ?n])
    show "ht_entries (destroy_client h t) = (ht_entries t)[e := ?n]"
      using e ns Some by (cases ?m) (auto simp: destroy_client_def handle_defs Let_def)
    show "entry_ok (destroy_client h t) e ?n"
      using e ns nf em Some by (auto simp: destroy_client_def handle_defs Let_def entry_ok_def)
    show "distinct (ht_finalizing (destroy_client h t))"
      using nf ok Some by (auto simp: destroy_client_def handle_defs Let_def table_ok_def)
    show "destroys (destroy_client h t) (he_client ?n) \<le> 1"
      using D(7) [of "he_client ?m"] Some by (simp add: destroy_client_def handle_defs Let_def)
    show "ht_handles t v = Some i \<and> (i = e \<longrightarrow> \<not> he_destroy_requested ?n)"
      if "ht_handles (destroy_client h t) v = Some i" for v i
      using that Some D(6) [OF Some, of v]
      by (auto simp: destroy_client_def handle_defs Let_def split: if_splits)
  qed (use Some in \<open>auto simp: destroy_client_def handle_defs Let_def\<close>)
qed (simp add: destroy_client_def ok)

lemma finalize_ok:
  assumes ok: "table_ok t" and f: "e \<in> set (ht_finalizing t)"
  shows "table_ok (finalize_handle e t)"
proof -
  note D = table_okD [OF ok]
  have e: "e < length (ht_entries t)" by (rule D(4) [OF f])
  let ?m = "ht_entries t ! e"
  have em: "entry_ok t e ?m" by (rule D(5) [OF e])
  have st: "he_destroy_started ?m" "he_destroy_requested ?m" using em f by (auto simp: entry_ok_def)
  have dis: "distinct (ht_finalizing t)" using ok by (simp add: table_ok_def)
  let ?n = "?m\<lparr>he_resolver := None\<rparr>"
  show ?thesis
  proof (rule table_ok_update [OF ok e, where n = ?n])
    show "ht_entries (finalize_handle e t) = (ht_entries t)[e := ?n]"
      by (simp add: finalize_handle_def handle_defs Let_def)
    show "entry_ok (finalize_handle e t) e ?n"
      using em f st dis by (auto simp: finalize_handle_def handle_defs Let_def entry_ok_def split: option.splits)
    show "distinct (ht_finalizing (finalize_handle e t))"
      using dis by (simp add: finalize_handle_def handle_defs Let_def)
    show "destroys (finalize_handle e t) (he_client ?n) \<le> 1"
      using em f by (auto simp: finalize_handle_def handle_defs Let_def entry_ok_def split: option.splits)
    show "ht_handles t v = Some i \<and> (i = e \<longrightarrow> \<not> he_destroy_requested ?n)"
      if "ht_handles (finalize_handle e t) v = Some i" for v i
      using that D(2) st by (auto simp: finalize_handle_def handle_defs Let_def)
  qed (use dis in \<open>auto simp: finalize_handle_def handle_defs Let_def split: option.splits\<close>)
qed

lemma unused_not_destroyed: "c \<notin> used_clients t \<Longrightarrow> destroys t c = 0 \<and> c \<notin> he_client ` set (ht_entries t)"
  by (simp add: used_clients_def destroys_def count_list_0_iff)

lemma register_ok:
  assumes ok: "table_ok t" and c: "c \<notin> used_clients t"
  shows "table_ok (snd (register_client c r t))"
proof -
  note D = table_okD [OF ok]
  note U = unused_not_destroyed [OF c]
  let ?t = "snd (register_client c r t)"
  have keep: "entry_ok t e n \<Longrightarrow> he_client n \<noteq> c \<Longrightarrow> entry_ok ?t e n" for e n
    by (auto simp: register_client_def handle_defs Let_def entry_ok_def split: option.splits)
  have old: "entry_ok ?t e (ht_entries t ! e)" if "e < length (ht_entries t)" for e
    by (rule keep [OF D(5) [OF that]]) (use U nth_mem [OF that] in \<open>auto simp: image_iff\<close>)
  have le: "destroys ?t x \<le> 1" for x
    using D(7) [of x] U by (auto simp: register_client_def handle_defs Let_def split: option.splits)
  show ?thesis
  proof (cases "ht_next t = 0 \<or> ht_next t > jlong_max")
    case True
    then show ?thesis using ok old le by (auto simp: register_client_def table_ok_def Let_def)
  next
    case False
    have fresh: "length (ht_entries t) \<notin> set (ht_leases t)" "length (ht_entries t) \<notin> set (ht_finalizing t)"
      using D(3,4) by blast+
    let ?n = "\<lparr>he_client = c, he_resolver = r, he_active_calls = 0, he_destroy_requested = False,
               he_destroy_started = False\<rparr>"
    have es: "ht_entries ?t = ht_entries t @ [?n]" "ht_leases ?t = ht_leases t"
      "ht_finalizing ?t = ht_finalizing t"
      using False by (simp_all add: register_client_def Let_def)
    have hs: "ht_handles ?t v = Some i \<Longrightarrow>
        ht_handles t v = Some i \<or> (v = ht_next t \<and> i = length (ht_entries t))" for v i
      using False by (auto simp: register_client_def Let_def split: if_splits)
    have "destroys ?t c = 0" using U False by (simp add: register_client_def Let_def destroys_def)
    then have new: "entry_ok ?t (length (ht_entries t)) ?n"
      using fresh es by (simp add: entry_ok_def)
    have "entry_ok ?t e (ht_entries ?t ! e)" if "e < length (ht_entries ?t)" for e
      using old new that es by (cases "e = length (ht_entries t)") (auto simp: nth_append)
    moreover have "i < length (ht_entries ?t) \<and> \<not> he_destroy_requested (ht_entries ?t ! i)"
      if "ht_handles ?t v = Some i" for v i
      using hs [OF that] D(1,2) es by (auto simp: nth_append)
    moreover have "inj_on (ht_handles ?t) (dom (ht_handles ?t))"
    proof (rule inj_onI)
      fix v w
      assume "v \<in> dom (ht_handles ?t)" and eq: "ht_handles ?t v = ht_handles ?t w"
      then obtain i where "ht_handles ?t v = Some i" by blast
      with eq have "ht_handles ?t v = Some i" "ht_handles ?t w = Some i" by simp_all
      then show "v = w" using hs D(1) D(6) by (metis less_irrefl)
    qed
    moreover have "distinct (map he_client (ht_entries ?t))"
      using ok U es by (auto simp: table_ok_def)
    moreover have "set (ht_leases ?t) \<subseteq> {..<length (ht_entries ?t)}"
      "distinct (ht_finalizing ?t)" "set (ht_finalizing ?t) \<subseteq> {..<length (ht_entries ?t)}"
      using ok es by (auto simp: table_ok_def)
    ultimately show ?thesis using le by (simp add: table_ok_def)
  qed
qed

subsection \<open>No client is forgotten\<close>

text \<open>What the table keeps track of beside: handle numbers are given out in order, and an entry that is not
  being destroyed is named by a handle.  The counter wraps around after 2 to the 64 clients, and a number given
  out twice would leave the second client without a handle; so this holds as long as fewer were created.\<close>

definition tracked :: "handle_table \<Rightarrow> bool" where
  "tracked t \<longleftrightarrow>
     finite (used_clients t) \<and>
     (card (used_clients t) < 2 ^ 64 \<longrightarrow>
        ht_next t = wrap64 (card (used_clients t) + 1) \<and> dom (ht_handles t) \<subseteq> {1..card (used_clients t)} \<and>
        (\<forall>e<length (ht_entries t). he_destroy_requested (ht_entries t ! e) \<or> e \<in> ran (ht_handles t)))"

lemma empty_tracked: "tracked empty_table"
  by (simp add: tracked_def empty_table_def used_clients_def wrap64_def)

text \<open>The steps that create no client.\<close>

lemma tracked_update:
  assumes "tracked t" "used_clients t' = used_clients t" "ht_next t' = ht_next t"
    "dom (ht_handles t') \<subseteq> dom (ht_handles t)" "length (ht_entries t') = length (ht_entries t)"
    "\<And>e. e < length (ht_entries t) \<Longrightarrow> he_destroy_requested (ht_entries t ! e) \<Longrightarrow> he_destroy_requested (ht_entries t' ! e)"
    "\<And>e. e < length (ht_entries t) \<Longrightarrow> e \<in> ran (ht_handles t) \<Longrightarrow>
       he_destroy_requested (ht_entries t' ! e) \<or> e \<in> ran (ht_handles t')"
  shows "tracked t'"
  using assms unfolding tracked_def by (metis subset_trans)

lemma used_clients_update:
  assumes "e < length (ht_entries t)" "ht_entries t' = (ht_entries t)[e := n]" "he_client n = he_client (ht_entries t ! e)"
    "set (ht_calls t') \<subseteq> insert (Client_destroy (he_client n)) (set (ht_calls t) \<union> range Resolver_free)"
    "set (ht_calls t) \<subseteq> set (ht_calls t')"
  shows "used_clients t' = used_clients t"
proof -
  have cl: "he_client ` set (ht_entries t') = he_client ` set (ht_entries t)"
    using client_of_update [OF assms(1,3)] assms(2) by (metis set_map)
  have "he_client n \<in> he_client ` set (ht_entries t)" using assms(1,3) nth_mem by simp
  then show ?thesis unfolding used_clients_def cl using assms(4,5) by auto
qed

lemma start_destroy_simps [simp]:
  "ht_calls (start_destroy e t) = ht_calls t" "ht_handles (start_destroy e t) = ht_handles t"
  "ht_next (start_destroy e t) = ht_next t" "ht_leases (start_destroy e t) = ht_leases t"
  "ht_entries (start_destroy e t) = (ht_entries t)[e := (ht_entries t ! e)\<lparr>he_destroy_started := True\<rparr>]"
  by (simp_all add: start_destroy_def update_entry_def)

lemma update_entry_simps [simp]:
  "ht_calls (update_entry e f t) = ht_calls t" "ht_handles (update_entry e f t) = ht_handles t"
  "ht_next (update_entry e f t) = ht_next t" "ht_leases (update_entry e f t) = ht_leases t"
  "ht_finalizing (update_entry e f t) = ht_finalizing t"
  "ht_entries (update_entry e f t) = (ht_entries t)[e := f (ht_entries t ! e)]"
  by (simp_all add: update_entry_def)

text \<open>How the operations change one entry and the handles.\<close>

lemma one_entry_tracked:
  assumes "tracked t" "e < length (ht_entries t)" "ht_entries t' = (ht_entries t)[e := n]"
    "he_client n = he_client (ht_entries t ! e)" "ht_next t' = ht_next t"
    "set (ht_calls t') \<subseteq> insert (Client_destroy (he_client n)) (set (ht_calls t) \<union> range Resolver_free)"
    "set (ht_calls t) \<subseteq> set (ht_calls t')"
    "he_destroy_requested (ht_entries t ! e) \<longrightarrow> he_destroy_requested n"
    "ht_handles t' = ht_handles t \<or>
     he_destroy_requested n \<and> (\<exists>h. ht_handles t h = Some e \<and> ht_handles t' = (ht_handles t)(h := None))"
  shows "tracked t'"
proof (rule tracked_update [OF assms(1) used_clients_update [OF assms(2-4,6,7)] assms(5)])
  show "dom (ht_handles t') \<subseteq> dom (ht_handles t)" using assms(9) by auto
  show "length (ht_entries t') = length (ht_entries t)" by (simp add: assms(3))
  show "he_destroy_requested (ht_entries t' ! i)"
    if "i < length (ht_entries t)" "he_destroy_requested (ht_entries t ! i)" for i
    using that assms(3,8) by (cases "i = e") simp_all
  show "he_destroy_requested (ht_entries t' ! i) \<or> i \<in> ran (ht_handles t')"
    if "i < length (ht_entries t)" "i \<in> ran (ht_handles t)" for i
    using assms(9)
  proof (elim disjE conjE exE)
    fix h
    assume "he_destroy_requested n" "ht_handles t h = Some e" "ht_handles t' = (ht_handles t)(h := None)"
    then show ?thesis using that assms(2,3) by (cases "i = e") (auto simp: ran_def, metis option.inject)
  qed (use that in simp)
qed

lemma acquire_tracked: "table_ok t \<Longrightarrow> tracked t \<Longrightarrow> tracked (snd (acquire_client v t))"
proof (cases "v = 0 \<or> ht_handles t v = None \<or> he_destroy_requested (ht_entries t ! the (ht_handles t v))")
  case False
  assume ok: "table_ok t" and tr: "tracked t"
  obtain e where e: "ht_handles t v = Some e" "v \<noteq> 0" "\<not> he_destroy_requested (ht_entries t ! e)" using False by auto
  show ?thesis
    by (rule one_entry_tracked [OF tr table_okD(1) [OF ok e(1)],
          where n = "(ht_entries t ! e)\<lparr>he_active_calls := he_active_calls (ht_entries t ! e) + 1\<rparr>"])
       (use e in \<open>auto simp: acquire_client_def\<close>)
qed (auto simp: acquire_client_def split: option.split)

lemma release_tracked: "table_ok t \<Longrightarrow> tracked t \<Longrightarrow> e \<in> set (ht_leases t) \<Longrightarrow> tracked (lease_release e t)"
proof -
  assume ok: "table_ok t" and tr: "tracked t" and l: "e \<in> set (ht_leases t)"
  have e: "e < length (ht_entries t)" by (rule table_okD(3) [OF ok l])
  let ?m = "ht_entries t ! e"
  let ?n = "if he_active_calls ?m > 0 then ?m\<lparr>he_active_calls := he_active_calls ?m - 1\<rparr> else ?m"
  let ?n' = "if he_active_calls ?n = 0 \<and> he_destroy_requested ?n \<and> \<not> he_destroy_started ?n
    then ?n\<lparr>he_destroy_started := True\<rparr> else ?n"
  show ?thesis
    by (rule one_entry_tracked [OF tr e, where n = ?n']) (use e in \<open>auto simp: lease_release_def Let_def\<close>)
qed

lemma destroy_tracked: "table_ok t \<Longrightarrow> tracked t \<Longrightarrow> tracked (destroy_client h t)"
proof (cases "ht_handles t h")
  case (Some e)
  assume ok: "table_ok t" and tr: "tracked t"
  have e: "e < length (ht_entries t)" by (rule table_okD(1) [OF ok Some])
  let ?n = "(ht_entries t ! e)\<lparr>he_destroy_requested := True\<rparr>"
  let ?n' = "if he_active_calls ?n = 0 \<and> \<not> he_destroy_started ?n then ?n\<lparr>he_destroy_started := True\<rparr> else ?n"
  show ?thesis
    by (rule one_entry_tracked [OF tr e, where n = ?n']) (use e Some in \<open>auto simp: destroy_client_def Let_def\<close>)
qed (simp add: destroy_client_def)

lemma finalize_tracked: "table_ok t \<Longrightarrow> tracked t \<Longrightarrow> e \<in> set (ht_finalizing t) \<Longrightarrow> tracked (finalize_handle e t)"
proof -
  assume ok: "table_ok t" and tr: "tracked t" and f: "e \<in> set (ht_finalizing t)"
  show ?thesis
    by (rule one_entry_tracked [OF tr table_okD(4) [OF ok f], where n = "(ht_entries t ! e)\<lparr>he_resolver := None\<rparr>"])
       (auto simp: finalize_handle_def Let_def split: option.splits)
qed

lemma register_tracked:
  assumes tr: "tracked t" and c: "c \<notin> used_clients t"
  shows "tracked (snd (register_client c r t))"
proof -
  let ?t = "snd (register_client c r t)"
  have used: "used_clients ?t = insert c (used_clients t)"
    by (auto simp: used_clients_def register_client_def Let_def split: option.splits)
  have fin: "finite (used_clients t)" using tr by (simp add: tracked_def)
  have card: "card (used_clients ?t) = card (used_clients t) + 1" using fin c by (simp add: used)
  show ?thesis
  proof (cases "card (used_clients ?t) < 2 ^ 64")
    case True
    let ?n = "card (used_clients t) + 1"
    have T: "ht_next t = wrap64 ?n" "dom (ht_handles t) \<subseteq> {1..card (used_clients t)}"
      "\<And>e. e < length (ht_entries t) \<Longrightarrow> he_destroy_requested (ht_entries t ! e) \<or> e \<in> ran (ht_handles t)"
      using tr True card by (auto simp: tracked_def)
    have nx: "ht_next t = ?n" using T(1) True card by (simp add: wrap64_def)
    have free: "ht_handles t ?n = None" using T(2) by (metis atLeastAtMost_iff domIff not_less_eq_eq order_refl Suc_eq_plus1 subsetD)
    have nx': "ht_next ?t = wrap64 (?n + 1)" using nx by (simp add: register_client_def Let_def)
    have dom: "dom (ht_handles ?t) \<subseteq> {1..?n}" using T(2) nx by (auto simp: register_client_def Let_def split: if_splits)
    have "he_destroy_requested (ht_entries ?t ! e) \<or> e \<in> ran (ht_handles ?t)" if e: "e < length (ht_entries ?t)" for e
    proof (cases "?n > jlong_max")
      case True
      then show ?thesis using T(3) [of e] nx e by (simp add: register_client_def Let_def)
    next
      case False
      have reg: "ht_entries ?t = ht_entries t @ [\<lparr>he_client = c, he_resolver = r, he_active_calls = 0,
          he_destroy_requested = False, he_destroy_started = False\<rparr>]"
        "ht_handles ?t = (ht_handles t)(?n \<mapsto> length (ht_entries t))"
        using False nx free by (simp_all add: register_client_def Let_def)
      show ?thesis
      proof (cases "e = length (ht_entries t)")
        case True
        then show ?thesis unfolding reg(2) by (auto simp: ran_def)
      next
        case False
        then have e': "e < length (ht_entries t)" using e reg(1) by simp
        from T(3) [OF this] show ?thesis
        proof
          assume "he_destroy_requested (ht_entries t ! e)"
          then show ?thesis using e' reg(1) by (simp add: nth_append)
        next
          assume "e \<in> ran (ht_handles t)"
          then show ?thesis using ran_map_upd [of "ht_handles t" ?n] free reg(2) by simp
        qed
      qed
    qed
    then show ?thesis using fin used card nx' dom by (simp add: tracked_def)
  qed (use fin used in \<open>simp add: tracked_def\<close>)
qed

interpretation tracked_handles: transition_system "\<lambda>t. t = empty_table" handle_step "\<lambda>t. table_ok t \<and> tracked t"
  by unfold_locales
     (auto simp: empty_table_ok empty_tracked elim!: handle_step_cases
       intro: register_ok acquire_ok release_ok destroy_ok finalize_ok
         register_tracked acquire_tracked release_tracked destroy_tracked finalize_tracked)

text \<open>Property C1: under every interleaving of handle creation, leases, releases, \<^verbatim>\<open>destroyClient\<close> and
  finalization, each native client is destroyed at most once and never while a lease on its entry is
  outstanding.  After \<^verbatim>\<open>destroyClient\<close> its handle names nothing, and no client is forgotten: as long as fewer than
  2 to the 64 clients were created (the handle counter wraps around there), every registered client can be reached through
  a handle that was not destroyed yet, or is still leased, or is queued for destruction, or has been
  destroyed; so once its handle is destroyed and its last lease is gone, nothing but its destruction is left.\<close>

theorem handle_lifetimes:
  assumes "reachable (\<lambda>t. t = empty_table) handle_step t"
  shows "count_list (ht_calls t) (Client_destroy c) \<le> 1 \<and>
    (\<forall>e\<in>set (ht_leases t). Client_destroy (he_client (ht_entries t ! e)) \<notin> set (ht_calls t)) \<and>
    (\<forall>h. ht_handles (destroy_client h t) h = None) \<and>
    (card (used_clients t) < 2 ^ 64 \<longrightarrow>
       (\<forall>e<length (ht_entries t). (\<exists>h. ht_handles t h = Some e) \<or> e \<in> set (ht_leases t) \<or>
          e \<in> set (ht_finalizing t) \<or> Client_destroy (he_client (ht_entries t ! e)) \<in> set (ht_calls t)))"
proof -
  have inv: "table_ok t \<and> tracked t" by (rule tracked_handles.reachable_inv [OF assms])
  note D = table_okD [OF conjunct1 [OF inv]]
  have "Client_destroy (he_client (ht_entries t ! e)) \<notin> set (ht_calls t)" if l: "e \<in> set (ht_leases t)" for e
    using D(5) [OF D(3) [OF l]] l by (auto simp: entry_ok_def destroys_def count_list_0_iff)
  moreover have "ht_handles (destroy_client h t) h = None" for h
    by (simp add: destroy_client_def Let_def split: option.split)
  moreover have "e \<in> set (ht_finalizing t) \<or> Client_destroy (he_client (ht_entries t ! e)) \<in> set (ht_calls t)"
    if "card (used_clients t) < 2 ^ 64" "e < length (ht_entries t)" "\<nexists>h. ht_handles t h = Some e" "e \<notin> set (ht_leases t)" for e
  proof -
    have "he_destroy_requested (ht_entries t ! e)" using inv that(1-3) by (auto simp: tracked_def ran_def)
    then show ?thesis
      using D(5) [OF that(2)] that(4) by (auto simp: entry_ok_def destroys_def) (metis count_list_0_iff zero_neq_one)
  qed
  ultimately show ?thesis using D(7) [of c] unfolding destroys_def by blast
qed

definition handle_trace :: "handle_table list" where
  "handle_trace =
     (let t1 = snd (register_client 7 (Some 9) empty_table);
          t2 = snd (acquire_client 1 t1);
          t3 = destroy_client 1 t2;
          t4 = lease_release 0 t3
      in [t1, t2, t3, t4, finalize_handle 0 t4])"

lemma handle_trace_reachable:
  "reachable (\<lambda>t. t = empty_table) handle_step (handle_trace ! 4)"
proof -
  note go = reachable.reachable_step [where start = "\<lambda>t. t = empty_table" and trans = handle_step]
  have "reachable (\<lambda>t. t = empty_table) handle_step empty_table" by (simp add: reachable.reachable_start)
  from go [OF this h_create [of 7 _ "Some 9"]]
  have 1: "reachable (\<lambda>t. t = empty_table) handle_step (handle_trace ! 0)"
    by (simp add: used_clients_def empty_table_def handle_trace_def Let_def)
  from go [OF this h_acquire [of _ 1]]
  have 2: "reachable (\<lambda>t. t = empty_table) handle_step (handle_trace ! 1)"
    by (simp add: handle_trace_def Let_def)
  from go [OF this h_destroy [of _ 1]]
  have 3: "reachable (\<lambda>t. t = empty_table) handle_step (handle_trace ! 2)"
    by (simp add: handle_trace_def Let_def)
  have "0 \<in> set (ht_leases (handle_trace ! 2))" by code_simp
  from go [OF 3 h_release [OF this]]
  have 4: "reachable (\<lambda>t. t = empty_table) handle_step (handle_trace ! 3)"
    by (simp add: handle_trace_def Let_def)
  have "0 \<in> set (ht_finalizing (handle_trace ! 3))" by code_simp
  from go [OF 4 h_finalize [OF this]]
  show ?thesis by (simp add: handle_trace_def Let_def)
qed

lemma handle_lifetimes_witness:
  "ht_calls (handle_trace ! 4) = [Client_destroy 7, Resolver_free 9] \<and>
   count_list (ht_calls (handle_trace ! 4)) (Client_destroy 7) \<le> 1"
proof
  show "ht_calls (handle_trace ! 4) = [Client_destroy 7, Resolver_free 9]" by code_simp
  show "count_list (ht_calls (handle_trace ! 4)) (Client_destroy 7) \<le> 1"
    using handle_lifetimes [OF handle_trace_reachable, of 7] by blast
qed

end
