(* ===== verification/Jni_Delivery.thy ===== *)
theory Jni_Delivery
  imports Transport_Policy "HOL-Library.Sublist"
begin

text \<open>
  The delivery of a request's events to Java (\<^verbatim>\<open>src/jni/kathttp3_jni.cc\<close>: \<^verbatim>\<open>flush_body_batch\<close>,
  \<^verbatim>\<open>report_jni_body_failure\<close>, \<^verbatim>\<open>event_cb\<close>).  The JVM is a parameter: \<open>jni n\<close> says whether the \<open>n\<close>-th JNI call that can
  raise succeeds.  The calls on the Java callback are recorded in order, one that throws included.
\<close>

datatype java_call =
    On_headers int "string list" "string list"
  | On_body bytes
  | On_complete
  | On_error int

record delivery =
  dl_terminal :: bool
  dl_failure_reported :: bool
  dl_batch :: body_batch
  dl_log :: "java_call list"
  dl_released :: bool
  dl_tick :: nat

definition new_delivery :: delivery where
  "new_delivery = \<lparr>dl_terminal = False, dl_failure_reported = False, dl_batch = empty_batch,
                   dl_log = [], dl_released = False, dl_tick = 0\<rparr>"

type_synonym jvm = "nat \<Rightarrow> bool"

definition jni_call :: "jvm \<Rightarrow> delivery \<Rightarrow> bool \<times> delivery" where
  "jni_call jni s = (jni (dl_tick s), s\<lparr>dl_tick := dl_tick s + 1\<rparr>)"

definition emit :: "java_call \<Rightarrow> delivery \<Rightarrow> delivery" where
  "emit c s = s\<lparr>dl_log := dl_log s @ [c]\<rparr>"

definition flush_body_batch :: "jvm \<Rightarrow> delivery \<Rightarrow> bool \<times> delivery" where
  "flush_body_batch jni s =
     (if bb_bytes (dl_batch s) = [] then (True, s)
      else
        let (allocated, s1) = jni_call jni s in
        if \<not> allocated then (False, s1)
        else
          let (copied, s2) = jni_call jni s1 in
          if \<not> copied then (False, s2)
          else
            let (returned, s3) = jni_call jni (emit (On_body (bb_bytes (dl_batch s2))) s2) in
            if \<not> returned then (False, s3) else (True, s3\<lparr>dl_batch := batch_clear (dl_batch s3)\<rparr>))"

definition err_nomem :: int where "err_nomem = -12"

definition report_jni_body_failure :: "delivery \<Rightarrow> delivery" where
  "report_jni_body_failure s =
     (if dl_failure_reported s then s else emit (On_error err_nomem) (s\<lparr>dl_failure_reported := True\<rparr>))"

subsection \<open>Headers\<close>

text \<open>One entry of each array; \<open>None\<close> is a null pointer.  True when every string was stored.\<close>

fun header_loop :: "jvm \<Rightarrow> (string option \<times> string option) list \<Rightarrow> delivery \<Rightarrow> bool \<times> delivery" where
  "header_loop jni [] s = (True, s)"
| "header_loop jni ((n, v) # rest) s =
     (if n = None \<or> v = None then (False, s)
      else
        let (ok_n, s1) = jni_call jni s in
        if \<not> ok_n then (False, s1)
        else
          let (ok_v, s2) = jni_call jni s1 in
          if \<not> ok_v then (False, s2)
          else
            let (set_n, s3) = jni_call jni s2 in
            if \<not> set_n then (False, s3)
            else
              let (set_v, s4) = jni_call jni s3 in
              if \<not> set_v then (False, s4) else header_loop jni rest s4)"

definition jsize_max :: nat where "jsize_max = 2147483647"

definition headers_event ::
  "jvm \<Rightarrow> int \<Rightarrow> nat \<Rightarrow> string option list option \<Rightarrow> string option list option \<Rightarrow> delivery \<Rightarrow> delivery"
where
  "headers_event jni status header_count names values s =
     (if header_count > jsize_max \<or> (header_count \<noteq> 0 \<and> (names = None \<or> values = None))
      then report_jni_body_failure s
      else
        let ns = (if header_count = 0 then [] else the names);
            vs = (if header_count = 0 then [] else the values);
            (ok_names, s1) = jni_call jni s;
            (ok_values, s2) = jni_call jni s1
        in if \<not> ok_names \<or> \<not> ok_values then report_jni_body_failure s2
           else
             let (stored, s3) = header_loop jni (zip ns vs) s2
             in if \<not> stored then report_jni_body_failure s3
                else emit (On_headers status (map the ns) (map the vs)) s3)"

subsection \<open>Body bytes\<close>

lemma flush_clears: "flush_body_batch jni s = (True, s') \<Longrightarrow> bb_bytes (dl_batch s') = []"
  by (auto simp: flush_body_batch_def batch_clear_def empty_batch_def Let_def split: if_splits prod.splits)

lemma batch_append_zero:
  "batch_append b (Some rest) now = (0, b') \<Longrightarrow> rest \<noteq> [] \<Longrightarrow> bb_bytes b \<noteq> []"
  by (cases rest) (auto simp: batch_append_def Let_def batch_flush_bytes_def split: if_splits)

function body_loop :: "jvm \<Rightarrow> nat \<Rightarrow> bytes \<Rightarrow> delivery \<Rightarrow> delivery" where
  "body_loop jni now rest s =
     (if rest = [] then s
      else
        let (copied, b) = batch_append (dl_batch s) (Some rest) now in
        if copied = 0 then
          (let (ok, s1) = flush_body_batch jni s in
           if \<not> ok then report_jni_body_failure s1 else body_loop jni now rest s1)
        else
          let s1 = s\<lparr>dl_batch := b\<rparr> in
          if batch_should_flush b now then
            (let (ok, s2) = flush_body_batch jni s1 in
             if \<not> ok then report_jni_body_failure s2 else body_loop jni now (drop copied rest) s2)
          else body_loop jni now (drop copied rest) s1)"
  by pat_completeness auto

termination
  by (relation "measures [\<lambda>(jni, now, rest, s). length rest, \<lambda>(jni, now, rest, s). length (bb_bytes (dl_batch s))]")
     (auto dest!: batch_append_zero [OF sym] flush_clears [OF sym])

declare body_loop.simps [simp del]

definition body_event :: "jvm \<Rightarrow> nat \<Rightarrow> bytes option \<Rightarrow> nat \<Rightarrow> delivery \<Rightarrow> delivery" where
  "body_event jni now data data_len s =
     (if dl_failure_reported s then s
      else if data_len \<noteq> 0 \<and> data = None then report_jni_body_failure s
      else body_loop jni now (if data_len = 0 then [] else take data_len (the data)) s)"

subsection \<open>The callback\<close>

text \<open>\<open>J_error\<close> is every kind that is not headers, body or complete.\<close>

datatype jni_event =
    J_headers int nat "string option list option" "string option list option"
  | J_body "bytes option" nat
  | J_complete
  | J_error int

definition terminal_event :: "jvm \<Rightarrow> jni_event \<Rightarrow> delivery \<Rightarrow> delivery" where
  "terminal_event jni ev s =
     (let s1 = s\<lparr>dl_terminal := True\<rparr>;
          s2 = (if dl_failure_reported s1 then s1
                else
                  let (ok, s') = flush_body_batch jni s1 in
                  if \<not> ok then report_jni_body_failure s'
                  else (case ev of J_complete \<Rightarrow> emit On_complete s'
                                 | J_error code \<Rightarrow> emit (On_error code) s'
                                 | _ \<Rightarrow> s'))
      in s2\<lparr>dl_released := True\<rparr>)"

text \<open>\<open>attached\<close> says whether the thread has a JNI environment.\<close>

definition event_cb :: "jvm \<Rightarrow> bool \<times> nat \<times> jni_event \<Rightarrow> delivery \<Rightarrow> delivery" where
  "event_cb jni x s =
     (let (attached, now, ev) = x in
      if dl_terminal s then s
      else if \<not> attached then s
      else (case ev of
              J_headers status n names values \<Rightarrow> headers_event jni status n names values s
            | J_body data n \<Rightarrow> body_event jni now data n s
            | _ \<Rightarrow> terminal_event jni ev s))"

subsection \<open>What Java has seen\<close>

fun bodies :: "java_call list \<Rightarrow> bytes" where
  "bodies [] = []"
| "bodies (On_body b # cs) = b @ bodies cs"
| "bodies (_ # cs) = bodies cs"

fun terminal_call :: "java_call \<Rightarrow> bool" where
  "terminal_call On_complete = True"
| "terminal_call (On_error _) = True"
| "terminal_call _ = False"

fun is_headers_call :: "java_call \<Rightarrow> bool" where
  "is_headers_call (On_headers _ _ _) = True"
| "is_headers_call _ = False"

text \<open>At most one terminal call, and only headers after it.\<close>

fun well_formed_log :: "java_call list \<Rightarrow> bool" where
  "well_formed_log [] = True"
| "well_formed_log (c # cs) =
     (if terminal_call c then list_all is_headers_call cs else well_formed_log cs)"

definition terminals :: "java_call list \<Rightarrow> nat" where
  "terminals log = length (filter terminal_call log)"

lemma bodies_append [simp]: "bodies (xs @ ys) = bodies xs @ bodies ys"
  by (induction xs rule: bodies.induct) auto

lemma headers_not_terminal [simp]: "is_headers_call c \<Longrightarrow> \<not> terminal_call c"
  by (cases c) auto

lemma terminals_simps [simp]:
  "terminals [] = 0" "terminals (xs @ ys) = terminals xs + terminals ys"
  "terminals (c # cs) = (if terminal_call c then 1 else 0) + terminals cs"
  by (auto simp: terminals_def)

lemma terminals_zero_iff: "terminals log = 0 \<longleftrightarrow> (\<forall>c\<in>set log. \<not> terminal_call c)"
  by (auto simp: terminals_def filter_empty_conv)

lemma well_formed_open: "terminals log = 0 \<Longrightarrow> well_formed_log (log @ [c])"
  by (induction log) auto

lemma well_formed_open': "terminals log = 0 \<Longrightarrow> well_formed_log log"
  by (induction log) auto

lemma well_formed_headers: "well_formed_log log \<Longrightarrow> is_headers_call c \<Longrightarrow> well_formed_log (log @ [c])"
  by (induction log) auto

lemma open_no_complete: "terminals log = 0 \<Longrightarrow> On_complete \<notin> set log"
  by (auto simp: terminals_zero_iff)

text \<open>The state after receiving the bytes \<open>r\<close>: still open, or failed with one error reported.\<close>

definition open_for :: "bytes \<Rightarrow> delivery \<Rightarrow> bool" where
  "open_for r s \<longleftrightarrow> \<not> dl_failure_reported s \<and> terminals (dl_log s) = 0 \<and>
     bodies (dl_log s) @ bb_bytes (dl_batch s) = r"

definition failed_for :: "bytes \<Rightarrow> delivery \<Rightarrow> bool" where
  "failed_for r s \<longleftrightarrow> dl_failure_reported s \<and> terminals (dl_log s) = 1 \<and> well_formed_log (dl_log s) \<and>
     On_complete \<notin> set (dl_log s) \<and> prefix (bodies (dl_log s)) r"

definition running_for :: "bytes \<Rightarrow> delivery \<Rightarrow> bool" where
  "running_for r s \<longleftrightarrow> \<not> dl_terminal s \<and> \<not> dl_released s \<and> (open_for r s \<or> failed_for r s)"

lemma failed_for_more: "failed_for r s \<Longrightarrow> failed_for (r @ r') s"
  by (auto simp: failed_for_def)

text \<open>A failing step can only have handed over what the batch held.\<close>

definition stopped_for :: "bytes \<Rightarrow> delivery \<Rightarrow> bool" where
  "stopped_for r s \<longleftrightarrow> \<not> dl_failure_reported s \<and> terminals (dl_log s) = 0 \<and> prefix (bodies (dl_log s)) r"

lemma open_stopped: "open_for r s \<Longrightarrow> stopped_for (r @ r') s"
  by (auto simp: open_for_def stopped_for_def prefix_def)

lemma report_failed: "stopped_for r s \<Longrightarrow> failed_for r (report_jni_body_failure s)"
  by (auto simp: stopped_for_def failed_for_def report_jni_body_failure_def emit_def
      well_formed_open open_no_complete)

lemma report_keeps:
  "failed_for r s \<Longrightarrow> report_jni_body_failure s = s"
  by (simp add: failed_for_def report_jni_body_failure_def)

lemma jni_call_keeps:
  assumes "jni_call jni s = (ok, s')"
  shows "dl_terminal s' = dl_terminal s" "dl_released s' = dl_released s" "dl_log s' = dl_log s"
    "dl_batch s' = dl_batch s" "dl_failure_reported s' = dl_failure_reported s"
  using assms by (auto simp: jni_call_def)

lemma flush_spec:
  assumes "flush_body_batch jni s = (ok, s')" "open_for r s"
  shows "dl_terminal s' = dl_terminal s" "dl_released s' = dl_released s"
    "ok \<Longrightarrow> open_for r s' \<and> bodies (dl_log s') = r" "\<not> ok \<Longrightarrow> stopped_for (r @ r') s'"
  using assms
  by (auto simp: flush_body_batch_def open_for_def stopped_for_def Let_def emit_def batch_clear_def
      empty_batch_def jni_call_def split: if_splits)

lemma report_flags [simp]:
  "dl_terminal (report_jni_body_failure s) = dl_terminal s"
  "dl_released (report_jni_body_failure s) = dl_released s"
  by (simp_all add: report_jni_body_failure_def emit_def)

lemma body_loop_spec:
  "open_for r s \<Longrightarrow>
     dl_terminal (body_loop jni now rest s) = dl_terminal s \<and>
     dl_released (body_loop jni now rest s) = dl_released s \<and>
     (open_for (r @ rest) (body_loop jni now rest s) \<or> failed_for (r @ rest) (body_loop jni now rest s))"
proof (induction jni now rest s arbitrary: r rule: body_loop.induct)
  case (1 jni now rest s)
  note IH = 1(1-3) and op = 1(4)
  show ?case
  proof (cases "rest = []")
    case True
    then show ?thesis using op by (simp add: body_loop.simps)
  next
    case False
    obtain copied b where ab: "batch_append (dl_batch s) (Some rest) now = (copied, b)" by fastforce
    note eq = body_loop.simps [of jni now rest s]
    show ?thesis
    proof (cases "copied = 0")
      case True
      obtain ok s1 where fl: "flush_body_batch jni s = (ok, s1)" by fastforce
      note F = flush_spec [OF fl op]
      show ?thesis
      proof (cases ok)
        case True
        then have "open_for r s1" using F(3) by simp
        from IH(1) [OF False refl ab [symmetric] \<open>copied = 0\<close> refl fl [symmetric] _ this] True F(1,2)
        show ?thesis using False ab \<open>copied = 0\<close> fl eq by simp
      next
        case notok: False
        then show ?thesis using False ab \<open>copied = 0\<close> fl eq F(1,2) report_failed [OF F(4)] by simp
      qed
    next
      case pos: False
      have bb: "bb_bytes b = bb_bytes (dl_batch s) @ take copied rest"
        using ab pos by (auto simp: batch_append_def Let_def split: if_splits)
      then have op1: "open_for (r @ take copied rest) (s\<lparr>dl_batch := b\<rparr>)"
        using op by (auto simp: open_for_def)
      show ?thesis
      proof (cases "batch_should_flush b now")
        case True
        obtain ok s2 where fl: "flush_body_batch jni (s\<lparr>dl_batch := b\<rparr>) = (ok, s2)" by fastforce
        note F = flush_spec [OF fl op1]
        show ?thesis
        proof (cases ok)
          case ok: True
          then have "open_for (r @ take copied rest) s2" using F(3) by simp
          from IH(2) [OF False refl ab [symmetric] pos refl True refl fl [symmetric] _ this] ok F(1,2)
          show ?thesis using False ab pos True fl eq by (simp add: Let_def)
        next
          case notok: False
          then show ?thesis
            using False ab pos True fl eq F(1,2) report_failed [OF F(4) [of "drop copied rest"]]
            by (simp add: Let_def)
        qed
      next
        case nofl: False
        from IH(3) [OF False refl ab [symmetric] pos refl nofl op1]
        show ?thesis using False ab pos nofl eq by (simp add: Let_def)
      qed
    qed
  qed
qed

lemma header_loop_keeps:
  assumes "header_loop jni hs s = (ok, s')"
  shows "dl_terminal s' = dl_terminal s" "dl_released s' = dl_released s" "dl_log s' = dl_log s"
    "dl_batch s' = dl_batch s" "dl_failure_reported s' = dl_failure_reported s"
  using assms
  by (induction jni hs s rule: header_loop.induct)
     (auto simp: jni_call_def Let_def split: if_splits)

lemma keeps_running:
  assumes "dl_terminal s' = dl_terminal s" "dl_released s' = dl_released s" "dl_log s' = dl_log s"
    "dl_batch s' = dl_batch s" "dl_failure_reported s' = dl_failure_reported s" "running_for r s"
  shows "running_for r s'"
  using assms by (simp add: running_for_def open_for_def failed_for_def)

lemma running_report: "running_for r s \<Longrightarrow> running_for r (report_jni_body_failure s)"
  using report_failed [OF open_stopped [of r s "[]"]] report_keeps [of r s]
  by (auto simp: running_for_def)

lemma running_headers_call:
  "running_for r s \<Longrightarrow> is_headers_call c \<Longrightarrow> running_for r (emit c s)"
  by (cases c) (auto simp: running_for_def open_for_def failed_for_def emit_def well_formed_headers)

lemma headers_event_running:
  assumes "running_for r s"
  shows "running_for r (headers_event jni status n names values s)"
proof -
  obtain ok1 s1 where 1: "jni_call jni s = (ok1, s1)" by fastforce
  obtain ok2 s2 where 2: "jni_call jni s1 = (ok2, s2)" by fastforce
  obtain ok3 s3 where 3: "header_loop jni (zip (if n = 0 then [] else the names)
      (if n = 0 then [] else the values)) s2 = (ok3, s3)" by fastforce
  have r1: "running_for r s1" by (rule keeps_running [OF jni_call_keeps [OF 1] assms])
  have r2: "running_for r s2" by (rule keeps_running [OF jni_call_keeps [OF 2] r1])
  have r3: "running_for r s3" by (rule keeps_running [OF header_loop_keeps [OF 3] r2])
  show ?thesis
    using running_report [OF assms] running_report [OF r2] running_report [OF r3]
      running_headers_call [OF r3]
    by (auto simp: headers_event_def 1 2 3 Let_def)
qed

definition event_bytes :: "bool \<times> nat \<times> jni_event \<Rightarrow> bytes" where
  "event_bytes x = (case snd (snd x) of
     J_body (Some d) n \<Rightarrow> take n d | _ \<Rightarrow> [])"

definition is_final :: "bool \<times> nat \<times> jni_event \<Rightarrow> bool" where
  "is_final x = (case snd (snd x) of J_complete \<Rightarrow> True | J_error _ \<Rightarrow> True | _ \<Rightarrow> False)"

lemma body_event_running:
  assumes run: "running_for r s"
  shows "running_for (r @ event_bytes (a, now, J_body data n)) (body_event jni now data n s)"
proof (cases "dl_failure_reported s")
  case True
  then show ?thesis
    using run failed_for_more [of r s]
    by (auto simp: running_for_def body_event_def open_for_def)
next
  case False
  then have op: "open_for r s" using run by (auto simp: running_for_def failed_for_def)
  show ?thesis
  proof (cases "n \<noteq> 0 \<and> data = None")
    case True
    then show ?thesis
      using False running_report [OF run] by (simp add: body_event_def event_bytes_def)
  next
    case ok: False
    have "event_bytes (a, now, J_body data n) = (if n = 0 then [] else take n (the data))"
      using ok by (auto simp: event_bytes_def split: option.splits)
    then show ?thesis
      using body_loop_spec [OF op, of jni now "if n = 0 then [] else take n (the data)"] False ok run
      by (auto simp: body_event_def running_for_def)
  qed
qed

definition finished_for :: "bytes \<Rightarrow> bool \<Rightarrow> delivery \<Rightarrow> bool" where
  "finished_for r complete s \<longleftrightarrow> dl_terminal s \<and> dl_released s \<and> terminals (dl_log s) = 1 \<and>
     well_formed_log (dl_log s) \<and> prefix (bodies (dl_log s)) r \<and>
     (On_complete \<in> set (dl_log s) \<longrightarrow> complete \<and> bodies (dl_log s) = r)"

lemma terminal_event_finished:
  assumes run: "running_for r s" and fin: "is_final (a, now, ev)"
  shows "finished_for r (ev = J_complete) (terminal_event jni ev s)"
proof (cases "dl_failure_reported s")
  case True
  then show ?thesis
    using run by (auto simp: terminal_event_def running_for_def finished_for_def failed_for_def open_for_def)
next
  case False
  then have op: "open_for r (s\<lparr>dl_terminal := True\<rparr>)"
    using run by (auto simp: running_for_def failed_for_def open_for_def)
  obtain ok s1 where fl: "flush_body_batch jni (s\<lparr>dl_terminal := True\<rparr>) = (ok, s1)" by fastforce
  note F = flush_spec [OF fl op]
  show ?thesis
  proof (cases ok)
    case True
    then have s1: "terminals (dl_log s1) = 0" "bodies (dl_log s1) = r" "dl_terminal s1"
      using F(1,3) by (auto simp: open_for_def)
    then show ?thesis
      using False True fl fin well_formed_open [OF s1(1)] open_no_complete [OF s1(1)]
      by (cases ev) (auto simp: terminal_event_def finished_for_def emit_def is_final_def Let_def)
  next
    case notok: False
    then have "failed_for r (report_jni_body_failure s1)"
      using report_failed [OF F(4) [of "[]"]] by simp
    then show ?thesis
      using False notok fl F(1) by (auto simp: terminal_event_def finished_for_def failed_for_def Let_def)
  qed
qed

lemma event_cb_running:
  assumes "running_for r s" "fst x" "\<not> is_final x"
  shows "running_for (r @ event_bytes x) (event_cb jni x s)"
proof -
  obtain a now ev where x: "x = (a, now, ev)" by (cases x)
  show ?thesis
  proof (cases ev)
    case (J_headers st n ns vs)
    then show ?thesis
      using assms x headers_event_running [OF assms(1)]
      by (auto simp: event_cb_def event_bytes_def running_for_def)
  next
    case (J_body data n)
    then show ?thesis
      using assms x body_event_running [OF assms(1), of a now data n]
      by (auto simp: event_cb_def running_for_def)
  qed (use assms x in \<open>simp_all add: is_final_def\<close>)
qed

lemma event_cb_final:
  assumes "running_for r s" "fst x" "is_final x"
  shows "finished_for r (snd (snd x) = J_complete) (event_cb jni x s)"
  using assms terminal_event_finished [OF assms(1), of "fst x" "fst (snd x)" "snd (snd x)"]
  by (cases x; cases "snd (snd x)") (auto simp: event_cb_def running_for_def is_final_def)

lemma event_cb_after: "dl_terminal s \<Longrightarrow> fold (event_cb jni) xs s = s"
  by (induction xs arbitrary: s) (auto simp: event_cb_def split: prod.splits)

definition received :: "(bool \<times> nat \<times> jni_event) list \<Rightarrow> bytes" where
  "received xs = concat (map event_bytes (takeWhile (\<lambda>x. \<not> is_final x) xs))"

lemma fold_delivers:
  "running_for r s \<Longrightarrow> list_all fst xs \<Longrightarrow>
     (if list_ex is_final xs
      then finished_for (r @ received xs)
             (snd (snd (hd (dropWhile (\<lambda>x. \<not> is_final x) xs))) = J_complete) (fold (event_cb jni) xs s)
      else running_for (r @ received xs) (fold (event_cb jni) xs s))"
proof (induction xs arbitrary: r s)
  case (Cons x xs)
  show ?case
  proof (cases "is_final x")
    case True
    have "finished_for r (snd (snd x) = J_complete) (event_cb jni x s)"
      by (rule event_cb_final) (use Cons.prems True in auto)
    moreover from this have "fold (event_cb jni) xs (event_cb jni x s) = event_cb jni x s"
      by (intro event_cb_after) (simp add: finished_for_def)
    ultimately show ?thesis using True by (simp add: received_def)
  next
    case False
    have "running_for (r @ event_bytes x) (event_cb jni x s)"
      by (rule event_cb_running) (use Cons.prems False in auto)
    from Cons.IH [OF this] show ?thesis using False Cons.prems by (simp add: received_def split: if_splits)
  qed
qed (simp add: received_def)

text \<open>An event on a thread without a JNI environment does nothing.\<close>

lemma unattached_events_do_nothing:
  "fold (event_cb jni) xs s = fold (event_cb jni) (filter fst xs) s"
  by (induction xs arbitrary: s) (auto simp: event_cb_def)

text \<open>Property C3: what Java sees of a request, whatever JNI calls fail and whichever threads can be attached to the
  JVM.  It sees at most one terminal call, and exactly one once an event that ends the request came on an attached
  thread; nothing but headers can follow it; the body bytes it is given are a prefix of those that came on
  attached threads, and all of these when it is told that the request completed.  An event on a
  thread that cannot be attached has no effect, so its bytes are missing although the request may still
  complete (\<open>unattached_body_is_lost\<close>); where every thread is attached these are all the bytes of the request.\<close>

theorem java_sees_one_outcome:
  "let log = dl_log (fold (event_cb jni) xs new_delivery); reached = filter fst xs
   in well_formed_log log \<and> terminals log \<le> 1 \<and> (list_ex is_final reached \<longrightarrow> terminals log = 1) \<and>
      prefix (bodies log) (received reached) \<and>
      (On_complete \<in> set log \<longrightarrow>
         bodies log = received reached \<and> snd (snd (hd (dropWhile (\<lambda>x. \<not> is_final x) reached))) = J_complete)"
proof -
  have "running_for [] new_delivery"
    by (simp add: running_for_def open_for_def new_delivery_def empty_batch_def)
  moreover have "list_all fst (filter fst xs)" by (simp add: list_all_iff)
  ultimately show ?thesis
    using fold_delivers [of "[]" new_delivery "filter fst xs" jni] unattached_events_do_nothing [of jni xs new_delivery]
    by (auto simp: Let_def finished_for_def running_for_def open_for_def failed_for_def
        well_formed_open' open_no_complete prefixI [OF sym] split: if_splits)
qed

lemma java_sees_one_outcome_witness:
  "let xs = [(True, 5, J_headers 200 1 (Some [Some ''a'']) (Some [Some ''b''])),
             (True, 6, J_body (Some [1, 2, 3]) 3), (False, 6, J_body (Some [4]) 1), (True, 7, J_complete)];
       log = dl_log (fold (event_cb (\<lambda>n. True)) xs new_delivery)
   in log = [On_headers 200 [''a''] [''b''], On_body [1, 2, 3], On_complete] \<and> bodies log = received (filter fst xs)"
proof -
  let ?xs = "[(True, 5, J_headers 200 1 (Some [Some ''a'']) (Some [Some ''b''])),
             (True, 6, J_body (Some [1, 2, 3]) 3), (False, 6, J_body (Some [4]) 1), (True, 7, J_complete)]"
  have log: "dl_log (fold (event_cb (\<lambda>n. True)) ?xs new_delivery)
      = [On_headers 200 [''a''] [''b''], On_body [1, 2, 3], On_complete]" by code_simp
  then have "On_complete \<in> set (dl_log (fold (event_cb (\<lambda>n. True)) ?xs new_delivery))" by simp
  then have "bodies (dl_log (fold (event_cb (\<lambda>n. True)) ?xs new_delivery)) = received (filter fst ?xs)"
    using java_sees_one_outcome [of "\<lambda>n. True" ?xs] by (simp only: Let_def)
  with log show ?thesis unfolding Let_def by blast
qed

text \<open>On a thread that cannot be attached, body bytes are dropped and the request still completes.\<close>

lemma unattached_body_is_lost:
  "dl_log (fold (event_cb (\<lambda>n. True))
     [(False, 6, J_body (Some [1, 2, 3]) 3), (True, 7, J_complete)] new_delivery) = [On_complete]"
  by code_simp

end
