(* ===== verification/Job.thy ===== *)
theory Job
  imports Request Redirect Response_Cache Transport_Policy
begin

text \<open>
  One request/response exchange (\<^verbatim>\<open>Job\<close> in \<^verbatim>\<open>src/core/quic_client.h\<close>), shared by the HTTP/3 session, the
  connection and the engine.  The fields are those of the struct, grouped by who works on them: the
  header block being received, the request body being uploaded, the receive credit, the deadlines and
  the cache.  A mutex inside the job makes each operation on its group one step.
\<close>

definition u64_sub :: "nat \<Rightarrow> nat \<Rightarrow> nat" where
  "u64_sub a b = (if b \<le> a then a - b else a + 18446744073709551616 - b)"

lemma u64_sub_le [simp]: "b \<le> a \<Longrightarrow> u64_sub a b = a - b"
  by (simp add: u64_sub_def)

subsection \<open>The groups of fields\<close>

record header_block =
  hd_fields :: header_list
  hd_status_count :: nat
  hd_saw_regular :: bool
  hd_section_bytes :: nat
  hd_count :: nat

definition empty_header_block :: header_block where
  "empty_header_block = \<lparr>hd_fields = [], hd_status_count = 0, hd_saw_regular = False,
                         hd_section_bytes = 0, hd_count = 0\<rparr>"

record upload =
  up_sent :: nat
  up_chunks :: "bytes list"
  up_chunk_offset :: nat
  up_buffered :: nat
  up_finished :: bool

definition new_upload :: upload where
  "new_upload = \<lparr>up_sent = 0, up_chunks = [], up_chunk_offset = 0, up_buffered = 0, up_finished = False\<rparr>"

record receive_credit =
  rc_unconsumed :: nat
  rc_delivered :: nat
  rc_consumed :: nat
  rc_pending_credit :: nat
  rc_blocked_since :: nat

definition new_receive_credit :: receive_credit where
  "new_receive_credit = \<lparr>rc_unconsumed = 0, rc_delivered = 0, rc_consumed = 0, rc_pending_credit = 0,
                         rc_blocked_since = 0\<rparr>"

record job_clock =
  jc_submitted_at :: nat
  jc_headers_at :: nat
  jc_read_progress :: nat
  jc_write_progress :: nat

record cache_capture =
  cpt_enabled :: bool
  cpt_max_bytes :: nat
  cpt_body :: bytes

record cache_validation =
  cv_stored :: cached_response
  cv_candidate_ids :: "nat list"
  cv_response_headers :: header_list
  cv_serve_stale_on_error :: bool
  cv_sent_if_modified_since :: bool

record job_cache =
  jk_capture :: "cache_capture option"
  jk_validation :: "cache_validation option"
  jk_cached_response :: "cached_response option"
  jk_request_headers :: "header_list option"
  jk_request_wall :: "nat option"

subsection \<open>The job\<close>

record job =
  jb_id :: int
  jb_request :: request
  jb_url :: url
  jb_stream_id :: int
  jb_http3_ready :: bool
  jb_committed :: bool
  jb_cancelled :: bool
  jb_completed :: bool
  jb_redirected :: bool
  jb_response :: response
  jb_saw_headers :: bool
  jb_block :: header_block
  jb_upload :: upload
  jb_credit :: receive_credit
  jb_clock :: job_clock
  jb_redirect_count :: nat
  jb_declared_length :: int
  jb_received_bytes :: nat
  jb_streaming :: bool
  jb_cache :: job_cache

definition new_job :: "int \<Rightarrow> request \<Rightarrow> url \<Rightarrow> job" where
  "new_job request_id req u =
     \<lparr>jb_id = request_id, jb_request = req, jb_url = u, jb_stream_id = -1, jb_http3_ready = False,
      jb_committed = False, jb_cancelled = False, jb_completed = False, jb_redirected = False,
      jb_response = new_response\<lparr>rs_url := u\<rparr>, jb_saw_headers = False, jb_block = empty_header_block,
      jb_upload = new_upload, jb_credit = new_receive_credit,
      jb_clock = \<lparr>jc_submitted_at = 0, jc_headers_at = 0, jc_read_progress = 0, jc_write_progress = 0\<rparr>,
      jb_redirect_count = 0, jb_declared_length = -1, jb_received_bytes = 0,
      jb_streaming = rq_streaming req,
      jb_cache = \<lparr>jk_capture = None, jk_validation = None, jk_cached_response = None,
                  jk_request_headers = None, jk_request_wall = None\<rparr>\<rparr>"

end
