(* ===== verification/Http3_Headers.thy ===== *)
theory Http3_Headers
  imports Job
begin

text \<open>
  The response header callbacks of \<^verbatim>\<open>src/core/http3_session.cc\<close>.  A callback works on the job of its
  stream; \<open>None\<close> is \<^verbatim>\<open>NGHTTP3_ERR_MALFORMED_HTTP_HEADER\<close>, after which nghttp3 ends the connection.
  \<^verbatim>\<open>notify_job_headers\<close> is the value \<open>end_headers\<close> returns beside the job.
\<close>

definition max_header_section_bytes :: nat where "max_header_section_bytes = 262144"
definition max_header_count :: nat where "max_header_count = 256"
definition max_header_value_bytes :: nat where "max_header_value_bytes = 65536"

definition is_trailers_value :: "string \<Rightarrow> bool" where
  "is_trailers_value value = ascii_iequals (trim_ows value) ''trailers''"

definition reset_header_block :: "job \<Rightarrow> job" where
  "reset_header_block j = j\<lparr>jb_block := empty_header_block\<rparr>"

definition begin_headers :: "job \<Rightarrow> job" where
  "begin_headers j =
     reset_header_block
       (if \<not> jb_saw_headers j
        then j\<lparr>jb_response := (jb_response j)\<lparr>rs_headers := [], rs_status_code := 0\<rparr>\<rparr> else j)"

definition name_char_ok :: "char \<Rightarrow> bool" where
  "name_char_ok ch \<longleftrightarrow> \<not> (ch \<le> CHR 0x20 \<or> ch \<ge> CHR 0x7f \<or> (CHR ''A'' \<le> ch \<and> ch \<le> CHR ''Z''))"

definition connection_specific :: "string \<Rightarrow> bool" where
  "connection_specific name \<longleftrightarrow>
     name = ''connection'' \<or> name = ''keep-alive'' \<or> name = ''proxy-connection'' \<or>
     name = ''transfer-encoding'' \<or> name = ''upgrade''"

definition int_min :: int where "int_min = -2147483648"
definition int_max :: int where "int_max = 2147483647"

definition parse_status :: "string \<Rightarrow> int option" where
  "parse_status value =
     (case parse_all_int int_min int_max value of
        None \<Rightarrow> None
      | Some status \<Rightarrow> if status < 100 \<or> status > 599 then None else Some status)"

text \<open>The size checks: the block with the field counted, or \<open>None\<close>.\<close>

definition count_field :: "string \<Rightarrow> string \<Rightarrow> header_block \<Rightarrow> header_block option" where
  "count_field name value b =
     (let b1 = b\<lparr>hd_count := hd_count b + 1\<rparr>;
          room = u64_sub max_header_section_bytes (hd_section_bytes b)
      in if name = [] \<or> length value > max_header_value_bytes \<or> hd_count b1 > max_header_count \<or>
            length name > room \<or> length value > u64_sub room (length name)
         then None
         else Some (b1\<lparr>hd_section_bytes := hd_section_bytes b + (length name + length value)\<rparr>))"

definition recv_header :: "string \<Rightarrow> string \<Rightarrow> job \<Rightarrow> job option" where
  "recv_header name value j =
     (case count_field name value (jb_block j) of
        None \<Rightarrow> None
      | Some b \<Rightarrow>
          if \<not> list_all name_char_ok name then None
          else if name = '':status'' then
            (if hd_saw_regular b then None
             else
               let b1 = b\<lparr>hd_status_count := (hd_status_count b + 1) mod 256\<rparr> in
               if hd_status_count b1 \<noteq> 1 then None
               else case parse_status value of
                      None \<Rightarrow> None
                    | Some status \<Rightarrow>
                        Some (j\<lparr>jb_block := b1,
                                jb_response := (jb_response j)\<lparr>rs_status_code := status\<rparr>\<rparr>))
          else if hd name = CHR '':'' then None
          else if connection_specific name \<or> (name = ''te'' \<and> \<not> is_trailers_value value) then None
          else Some (j\<lparr>jb_block := b\<lparr>hd_saw_regular := True, hd_fields := hl_add (hd_fields b) name value\<rparr>\<rparr>))"

definition end_headers :: "nat \<Rightarrow> job \<Rightarrow> ((int \<times> header_list) option \<times> job) option" where
  "end_headers now j =
     (if hd_status_count (jb_block j) \<noteq> 1 then None
      else
        let status = rs_status_code (jb_response j) in
        if 100 \<le> status \<and> status < 200 then
          (if status = 101 then None
           else Some (None, reset_header_block
                              (j\<lparr>jb_response := (jb_response j)\<lparr>rs_status_code := 0\<rparr>\<rparr>)))
        else if jb_saw_headers j then None
        else
          let j1 = j\<lparr>jb_saw_headers := True,
                     jb_response := (jb_response j)\<lparr>rs_headers := hd_fields (jb_block j)\<rparr>,
                     jb_block := (jb_block j)\<lparr>hd_fields := []\<rparr>,
                     jb_clock := (jb_clock j)\<lparr>jc_headers_at := now, jc_read_progress := now\<rparr>\<rparr>
          in Some (Some (status, rs_headers (jb_response j1)), j1))"

subsection \<open>The callbacks of one stream\<close>

datatype header_event = Ev_begin | Ev_field string string | Ev_end nat

type_synonym header_run = "job \<times> (int \<times> header_list) list"

fun header_step :: "header_event \<Rightarrow> header_run \<Rightarrow> header_run option" where
  "header_step Ev_begin (j, out) = Some (begin_headers j, out)"
| "header_step (Ev_field n v) (j, out) = map_option (\<lambda>j'. (j', out)) (recv_header n v j)"
| "header_step (Ev_end now) (j, out) =
     (case end_headers now j of
        None \<Rightarrow> None
      | Some (notified, j') \<Rightarrow> Some (j', out @ (case notified of None \<Rightarrow> [] | Some n \<Rightarrow> [n])))"

fun header_events :: "header_event list \<Rightarrow> header_run \<Rightarrow> header_run option" where
  "header_events [] s = Some s"
| "header_events (e # es) s = (case header_step e s of None \<Rightarrow> None | Some s' \<Rightarrow> header_events es s')"

subsection \<open>What the engine is told\<close>

definition response_field_ok :: "header \<Rightarrow> bool" where
  "response_field_ok h \<longleftrightarrow>
     h_name h \<noteq> [] \<and> list_all name_char_ok (h_name h) \<and> hd (h_name h) \<noteq> CHR '':'' \<and>
     \<not> connection_specific (h_name h) \<and>
     (h_name h = ''te'' \<longrightarrow> is_trailers_value (h_value h)) \<and>
     length (h_value h) \<le> max_header_value_bytes"

definition fields_size :: "header_list \<Rightarrow> nat" where
  "fields_size hs = sum_list (map (\<lambda>h. length (h_name h) + length (h_value h)) hs)"

definition fields_ok :: "header_list \<Rightarrow> bool" where
  "fields_ok hs \<longleftrightarrow>
     list_all response_field_ok hs \<and> length hs \<le> max_header_count \<and>
     fields_size hs \<le> max_header_section_bytes"

definition block_ok :: "header_block \<Rightarrow> bool" where
  "block_ok b \<longleftrightarrow>
     list_all response_field_ok (hd_fields b) \<and> length (hd_fields b) \<le> hd_count b \<and>
     hd_count b \<le> max_header_count \<and> fields_size (hd_fields b) \<le> hd_section_bytes b \<and>
     hd_section_bytes b \<le> max_header_section_bytes"

definition header_run_ok :: "header_run \<Rightarrow> bool" where
  "header_run_ok s \<longleftrightarrow>
     (let (j, out) = s in
      block_ok (jb_block j) \<and>
      (hd_status_count (jb_block j) = 1 \<longrightarrow>
         100 \<le> rs_status_code (jb_response j) \<and> rs_status_code (jb_response j) \<le> 599) \<and>
      length out = (if jb_saw_headers j then 1 else 0) \<and>
      (\<forall>(status, hs)\<in>set out. 200 \<le> status \<and> status \<le> 599 \<and> fields_ok hs))"

lemma fields_size_add [simp]:
  "fields_size (hl_add hs n v) = fields_size hs + (length n + length v)"
  by (simp add: fields_size_def hl_add_def mk_header_def)

lemma empty_block_ok [simp]: "block_ok empty_header_block"
  by (simp add: block_ok_def empty_header_block_def fields_size_def)

lemma count_field_Some:
  assumes "block_ok b" "count_field n v b = Some b'"
  shows "n \<noteq> []" "length v \<le> max_header_value_bytes" "hd_fields b' = hd_fields b"
    "hd_count b' = hd_count b + 1" "hd_count b' \<le> max_header_count"
    "hd_section_bytes b' = hd_section_bytes b + (length n + length v)"
    "hd_section_bytes b' \<le> max_header_section_bytes" "hd_status_count b' = hd_status_count b"
  using assms by (auto simp: count_field_def Let_def block_ok_def)

lemma parse_status_range: "parse_status v = Some st \<Longrightarrow> 100 \<le> st \<and> st \<le> 599"
  by (auto simp: parse_status_def split: option.splits if_splits)

lemma recv_header_ok:
  assumes ok: "header_run_ok (j, out)" and r: "recv_header n v j = Some j'"
  shows "header_run_ok (j', out)"
proof -
  obtain b where b: "count_field n v (jb_block j) = Some b"
    using r by (auto simp: recv_header_def split: option.splits)
  have bok: "block_ok (jb_block j)" using ok by (simp add: header_run_ok_def)
  note C = count_field_Some [OF bok b]
  show ?thesis
    using ok r b C bok
    by (auto simp: recv_header_def header_run_ok_def block_ok_def response_field_ok_def hl_add_def
        mk_header_def fields_size_def Let_def dest: parse_status_range split: if_splits option.splits)
qed

lemma end_headers_ok:
  "header_run_ok (j, out) \<Longrightarrow> end_headers now j = Some (notified, j') \<Longrightarrow>
     header_run_ok (j', out @ (case notified of None \<Rightarrow> [] | Some n \<Rightarrow> [n]))"
  by (auto simp: end_headers_def header_run_ok_def reset_header_block_def Let_def block_ok_def
      fields_ok_def fields_size_def empty_header_block_def split: if_splits)

lemma begin_headers_ok: "header_run_ok (j, out) \<Longrightarrow> header_run_ok (begin_headers j, out)"
  by (auto simp: begin_headers_def reset_header_block_def header_run_ok_def empty_header_block_def
      block_ok_def fields_size_def)

lemma header_step_ok: "header_run_ok s \<Longrightarrow> header_step e s = Some s' \<Longrightarrow> header_run_ok s'"
  by (cases s; cases e)
     (auto intro: begin_headers_ok recv_header_ok dest: end_headers_ok split: option.splits)

lemma header_events_ok: "header_run_ok s \<Longrightarrow> header_events es s = Some s' \<Longrightarrow> header_run_ok s'"
  by (induction es arbitrary: s) (auto dest: header_step_ok split: option.splits)

text \<open>Property C40: whatever header blocks, fields and block ends a server sends on a request stream,
  informational responses included, the engine is told of at most one response; its status is a final
  one from 200 to 599, its field names are lower-case, not pseudo-header and not connection-specific,
  and it has at most 256 fields of at most 256 KiB together.\<close>

theorem response_head_sound:
  assumes "header_events es (new_job request_id req u, []) = Some (j, out)"
  shows "length out \<le> 1 \<and>
    (\<forall>(status, hs)\<in>set out. 200 \<le> status \<and> status \<le> 599 \<and> fields_ok hs)"
proof -
  have "header_run_ok (new_job request_id req u, [])"
    by (simp add: header_run_ok_def new_job_def empty_header_block_def block_ok_def fields_size_def)
  from header_events_ok [OF this assms] show ?thesis by (auto simp: header_run_ok_def split: if_splits)
qed

definition hints_then_response :: "header_event list" where
  "hints_then_response =
     [Ev_begin, Ev_field '':status'' ''103'', Ev_field ''link'' ''x'', Ev_end 4,
      Ev_begin, Ev_field '':status'' ''200'', Ev_field ''etag'' ''y'', Ev_end 5]"

lemma response_head_sound_witness:
  "map_option snd (header_events hints_then_response (new_job 1 (new_request ''GET'' ''u'') empty_url, []))
     = Some [(200, [mk_header ''etag'' ''y''])] \<and> fields_ok [mk_header ''etag'' ''y'']"
proof -
  have run: "map_option snd (header_events hints_then_response
      (new_job 1 (new_request ''GET'' ''u'') empty_url, [])) = Some [(200, [mk_header ''etag'' ''y''])]"
    by code_simp
  then obtain j where "header_events hints_then_response
      (new_job 1 (new_request ''GET'' ''u'') empty_url, []) = Some (j, [(200, [mk_header ''etag'' ''y''])])"
    by (auto simp: map_option_case split: option.splits)
  from response_head_sound [OF this] have "fields_ok [mk_header ''etag'' ''y'']" by simp
  with run show ?thesis ..
qed

end
