(* ===== verification/Http3_Upload.thy ===== *)
theory Http3_Upload
  imports Http3_Headers
begin

text \<open>
  The request side of \<^verbatim>\<open>src/core/http3_session.cc\<close> and \<^verbatim>\<open>QuicClient::append_request_body\<close>: the header
  fields of a request and the body bytes nghttp3 is given.  nghttp3 calls \<open>data_read\<close> for the next DATA
  vector of a stream; its answer is a value here.  A producer adds bytes to a streaming body from
  another thread, under the mutex of the job's body.
\<close>

subsection \<open>Offering body bytes\<close>

datatype read_result =
    Rd_failure
  | Rd_wouldblock
  | Rd_data bytes bool

definition max_buffered_body :: nat where "max_buffered_body = 4194304"

text \<open>The loop that drops the chunks already offered; \<open>None\<close> is the offset check that fails.\<close>

fun drop_offered :: "bytes list \<Rightarrow> nat \<Rightarrow> (bytes list \<times> nat) option" where
  "drop_offered [] off = Some ([], off)"
| "drop_offered (c # cs) off =
     (if off > length c then None
      else if off \<noteq> length c then Some (c # cs, off)
      else drop_offered cs 0)"

definition read_streaming :: "int \<Rightarrow> upload \<Rightarrow> read_result \<times> upload" where
  "read_streaming declared u =
     (case drop_offered (up_chunks u) (up_chunk_offset u) of
        None \<Rightarrow> (Rd_failure, u)
      | Some ([], off) \<Rightarrow>
          let u1 = u\<lparr>up_chunks := [], up_chunk_offset := off\<rparr> in
          if up_finished u
          then (if declared \<ge> 0 \<and> up_sent u \<noteq> nat declared then (Rd_failure, u1)
                else (Rd_data [] True, u1))
          else (Rd_wouldblock, u1)
      | Some (chunk # rest, off) \<Rightarrow>
          let u1 = u\<lparr>up_chunks := chunk # rest, up_chunk_offset := off\<rparr> in
          (case request_body_remaining (length chunk) off of
             None \<Rightarrow> (Rd_failure, u1)
           | Some remaining \<Rightarrow>
               if remaining = 0 then (Rd_failure, u1)
               else
                 let offered = request_body_next_chunk_size remaining in
                 if \<not> request_body_can_advance (up_sent u) offered u64_max then (Rd_failure, u1)
                 else if declared \<ge> 0 \<and>
                         (nat declared > u64_max \<or>
                          \<not> request_body_can_advance (up_sent u) offered (nat declared))
                 then (Rd_failure, u1)
                 else if up_buffered u < offered then (Rd_failure, u1)
                 else
                   let u2 = u1\<lparr>up_sent := up_sent u + offered, up_buffered := up_buffered u - offered,
                               up_chunk_offset := off + offered\<rparr>
                   in (Rd_data (take offered (drop off chunk))
                         (up_finished u \<and> rest = [] \<and> off + offered = length chunk), u2)))"

definition read_buffered :: "bytes \<Rightarrow> upload \<Rightarrow> read_result \<times> upload" where
  "read_buffered body u =
     (case request_body_remaining (length body) (up_sent u) of
        None \<Rightarrow> (Rd_failure, u)
      | Some remaining \<Rightarrow>
          if remaining \<noteq> 0 then
            let offered = request_body_next_chunk_size remaining;
                u1 = u\<lparr>up_sent := up_sent u + offered\<rparr>
            in (Rd_data (take offered (drop (up_sent u) body)) (up_sent u1 = length body), u1)
          else (Rd_data [] True, u))"

definition data_read :: "job \<Rightarrow> read_result \<times> job" where
  "data_read j =
     (let (r, u) = (if rq_streaming_body (jb_request j)
                    then read_streaming (rq_streaming_body_length (jb_request j)) (jb_upload j)
                    else read_buffered (rq_body (jb_request j)) (jb_upload j))
      in (r, j\<lparr>jb_upload := u\<rparr>))"

subsection \<open>Producing body bytes\<close>

definition append_body :: "bytes \<Rightarrow> bool \<Rightarrow> upload \<Rightarrow> kat_error \<times> upload" where
  "append_body data finished u =
     (if length data > u64_sub max_buffered_body (up_buffered u) then (ERR_NOMEM, u)
      else if up_finished u then (ERR_INVALID_ARG, u)
      else
        let u1 = (if data \<noteq> []
                  then u\<lparr>up_chunks := up_chunks u @ [data], up_buffered := up_buffered u + length data\<rparr>
                  else u)
        in (KAT_OK, u1\<lparr>up_finished := finished\<rparr>))"

subsection \<open>Submitting a request\<close>

definition has_content_length :: "header_list \<Rightarrow> bool" where
  "has_content_length hs = list_ex (\<lambda>h. ascii_iequals (c_str (h_name h)) ''content-length'') hs"

text \<open>The fields handed to \<^verbatim>\<open>nghttp3_conn_submit_request\<close>, and whether a data reader goes with them.\<close>

definition submit_fields :: "url \<Rightarrow> request \<Rightarrow> header_list \<times> bool" where
  "submit_fields u r =
     (let pseudo = [\<lparr>h_name = '':method'', h_value = rq_method r\<rparr>,
                    \<lparr>h_name = '':scheme'', h_value = u_scheme u\<rparr>,
                    \<lparr>h_name = '':authority'', h_value = authority u\<rparr>,
                    \<lparr>h_name = '':path'', h_value = request_target u\<rparr>];
          nva = pseudo @ rq_headers r;
          has_body = (rq_body r \<noteq> [] \<or> rq_streaming_body r)
      in (if has_body \<and> \<not> has_content_length (rq_headers r) \<and>
             (\<not> rq_streaming_body r \<or> rq_streaming_body_length r \<ge> 0)
          then nva @ [\<lparr>h_name = ''content-length'',
                       h_value = int_to_string (if rq_streaming_body r then rq_streaming_body_length r
                                          else int (length (rq_body r)))\<rparr>]
          else nva, has_body))"

subsection \<open>A producer and nghttp3 taking turns on a streaming body\<close>

datatype upload_op = Produce bytes bool | Read_next

record upload_run =
  ur_upload :: upload
  ur_accepted :: bytes
  ur_offered :: bytes
  ur_eof :: bool

definition new_upload_run :: upload_run where
  "new_upload_run = \<lparr>ur_upload = new_upload, ur_accepted = [], ur_offered = [], ur_eof = False\<rparr>"

fun upload_step :: "int \<Rightarrow> upload_run \<Rightarrow> upload_op \<Rightarrow> upload_run" where
  "upload_step declared s (Produce data finished) =
     (case append_body data finished (ur_upload s) of
        (e, u) \<Rightarrow> s\<lparr>ur_upload := u, ur_accepted := ur_accepted s @ (if e = KAT_OK then data else [])\<rparr>)"
| "upload_step declared s Read_next =
     (case read_streaming declared (ur_upload s) of
        (Rd_data data eof, u) \<Rightarrow>
          s\<lparr>ur_upload := u, ur_offered := ur_offered s @ data, ur_eof := ur_eof s \<or> eof\<rparr>
      | (_, u) \<Rightarrow> s\<lparr>ur_upload := u\<rparr>)"

definition up_pending :: "upload \<Rightarrow> bytes" where
  "up_pending u = drop (up_chunk_offset u) (concat (up_chunks u))"

definition upload_ok :: "upload \<Rightarrow> bool" where
  "upload_ok u \<longleftrightarrow>
     list_all (\<lambda>c. c \<noteq> []) (up_chunks u) \<and>
     (case up_chunks u of [] \<Rightarrow> up_chunk_offset u = 0 | c # _ \<Rightarrow> up_chunk_offset u \<le> length c) \<and>
     up_buffered u = length (up_pending u) \<and> up_buffered u \<le> max_buffered_body"

definition upload_run_ok :: "int \<Rightarrow> upload_run \<Rightarrow> bool" where
  "upload_run_ok declared s \<longleftrightarrow>
     (let u = ur_upload s in
      upload_ok u \<and> ur_accepted s = ur_offered s @ up_pending u \<and>
      up_sent u = length (ur_offered s) \<and>
      (declared \<ge> 0 \<longrightarrow> int (up_sent u) \<le> declared) \<and>
      (ur_eof s \<longrightarrow> up_finished u \<and> up_pending u = []))"

lemma drop_offered_ok:
  assumes "list_all (\<lambda>c. c \<noteq> []) cs"
    and "case cs of [] \<Rightarrow> off = 0 | c # _ \<Rightarrow> off \<le> length c"
  shows "\<exists>cs' off'. drop_offered cs off = Some (cs', off') \<and> list_all (\<lambda>c. c \<noteq> []) cs' \<and>
     drop off' (concat cs') = drop off (concat cs) \<and>
     (case cs' of [] \<Rightarrow> off' = 0 | c # _ \<Rightarrow> off' < length c)"
  using assms
proof (induction cs off rule: drop_offered.induct)
  case (2 c cs off)
  show ?case
  proof (cases "off = length c")
    case True
    have "\<exists>cs' off'. drop_offered cs 0 = Some (cs', off') \<and> list_all (\<lambda>c. c \<noteq> []) cs' \<and>
     drop off' (concat cs') = drop 0 (concat cs) \<and>
     (case cs' of [] \<Rightarrow> off' = 0 | c # _ \<Rightarrow> off' < length c)"
      using 2 True by (intro "2.IH") (auto split: list.splits)
    then show ?thesis using True by auto
  qed (use 2 in auto)
qed auto

lemma append_body_ok:
  assumes "upload_ok u" "append_body data finished u = (e, u')"
  shows "upload_ok u' \<and> up_pending u' = up_pending u @ (if e = KAT_OK then data else []) \<and>
    up_sent u' = up_sent u \<and> (up_finished u \<longrightarrow> u' = u \<and> e \<noteq> KAT_OK)"
proof -
  have off: "up_chunk_offset u \<le> length (concat (up_chunks u))"
    using assms(1) by (cases "up_chunks u") (auto simp: upload_ok_def)
  have buf: "up_buffered u \<le> max_buffered_body" using assms(1) by (simp add: upload_ok_def)
  show ?thesis
    using assms off buf
    by (auto simp: append_body_def Let_def upload_ok_def up_pending_def split: if_splits list.splits)
qed

text \<open>What one read does to a body in good order.\<close>

text \<open>A read that finds a chunk: nothing but a failed check keeps it from offering the chunk's next bytes.\<close>

lemma read_streaming_chunk:
  assumes "read_streaming declared u = (r, u')" "drop_offered (up_chunks u) (up_chunk_offset u) = Some (cs, off)"
    and ne: "list_all (\<lambda>c. c \<noteq> []) cs" and pend: "drop off (concat cs) = up_pending u"
    and Cons: "cs = chunk # rest" and lt: "off < length chunk"
    and buf: "up_buffered u = length (up_pending u)" "up_buffered u \<le> max_buffered_body"
  shows "upload_ok u' \<and> up_finished u' = up_finished u \<and>
    (case r of
       Rd_data data eof \<Rightarrow> up_pending u = data @ up_pending u' \<and> up_sent u' = up_sent u + length data \<and>
         length data \<le> max_data_reader_bytes \<and> (declared \<ge> 0 \<longrightarrow> int (up_sent u') \<le> declared) \<and>
         (eof \<longleftrightarrow> up_finished u \<and> up_pending u' = [])
     | _ \<Rightarrow> up_pending u' = up_pending u \<and> up_sent u' = up_sent u)"
proof -
  define n where "n = min (length chunk - off) max_data_reader_bytes"
  have n: "0 < n" "off + n \<le> length chunk" "n \<le> max_data_reader_bytes"
    using lt by (auto simp: n_def max_data_reader_bytes_def)
  have rest_ne: "concat rest = [] \<longleftrightarrow> rest = []" using ne Cons by (cases rest) auto
  have split: "up_pending u = take n (drop off chunk) @ drop (off + n) (concat cs)"
  proof -
    have "drop off chunk = take n (drop off chunk) @ drop n (drop off chunk)"
      by (rule append_take_drop_id [symmetric])
    also have "drop n (drop off chunk) = drop (off + n) chunk" by (simp add: add.commute)
    finally have "drop off chunk @ concat rest = take n (drop off chunk) @ drop (off + n) chunk @ concat rest"
      by simp
    then show ?thesis using pend [symmetric] Cons n by simp
  qed
  define u1 where "u1 = u\<lparr>up_chunks := cs, up_chunk_offset := off\<rparr>"
  define u2 where "u2 = u1\<lparr>up_sent := up_sent u + n, up_buffered := up_buffered u - n,
                             up_chunk_offset := off + n\<rparr>"
  define bad where "bad \<longleftrightarrow> \<not> request_body_can_advance (up_sent u) n u64_max \<or>
     (declared \<ge> 0 \<and> (nat declared > u64_max \<or> \<not> request_body_can_advance (up_sent u) n (nat declared))) \<or>
     up_buffered u < n"
  have res: "(r, u') = (if bad then (Rd_failure, u1)
     else (Rd_data (take n (drop off chunk)) (up_finished u \<and> rest = [] \<and> off + n = length chunk), u2))"
    using assms(1,2) Cons lt
    by (auto simp: read_streaming_def request_body_remaining_def request_body_next_chunk_size_def
        n_def [symmetric] Let_def bad_def u1_def u2_def split: if_splits)
  have u1: "up_pending u1 = up_pending u" "upload_ok u1"
    using pend buf ne Cons lt by (simp_all add: u1_def up_pending_def upload_ok_def)
  have p2: "up_pending u2 = drop (off + n) (concat cs)" by (simp add: u2_def u1_def up_pending_def)
  have eof: "drop (off + n) (concat cs) = [] \<longleftrightarrow> rest = [] \<and> off + n = length chunk"
    using Cons n rest_ne by auto
  show ?thesis
  proof (cases bad)
    case True
    then show ?thesis using res u1 by (simp add: u1_def)
  next
    case False
    have "length (up_pending u) = n + length (up_pending u2)"
      using split n p2 by simp
    then have ok2: "upload_ok u2" using buf ne Cons n p2
      by (simp add: upload_ok_def) (simp add: u2_def u1_def)
    have le: "declared \<ge> 0 \<longrightarrow> int (up_sent u + n) \<le> declared"
      using False by (auto simp: bad_def request_body_can_advance_def)
    show ?thesis
      using res False ok2 le n split p2 eof by (auto simp: u2_def u1_def)
  qed
qed

lemma read_streaming_ok:
  assumes "upload_ok u" "read_streaming declared u = (r, u')"
    and "declared \<ge> 0 \<longrightarrow> int (up_sent u) \<le> declared"
  shows "upload_ok u'" "up_finished u' = up_finished u"
    "case r of
       Rd_data data eof \<Rightarrow> up_pending u = data @ up_pending u' \<and> up_sent u' = up_sent u + length data \<and>
         length data \<le> max_data_reader_bytes \<and> (declared \<ge> 0 \<longrightarrow> int (up_sent u') \<le> declared) \<and>
         (eof \<longleftrightarrow> up_finished u \<and> up_pending u' = [])
     | _ \<Rightarrow> up_pending u' = up_pending u \<and> up_sent u' = up_sent u"
proof -
  obtain cs off where d: "drop_offered (up_chunks u) (up_chunk_offset u) = Some (cs, off)"
    and ne: "list_all (\<lambda>c. c \<noteq> []) cs"
    and pend: "drop off (concat cs) = up_pending u"
    and hd: "case cs of [] \<Rightarrow> off = 0 | c # _ \<Rightarrow> off < length c"
    using drop_offered_ok [of "up_chunks u" "up_chunk_offset u"] assms(1)
    by (auto simp: upload_ok_def up_pending_def)
  have buf: "up_buffered u = length (up_pending u)" "up_buffered u \<le> max_buffered_body"
    using assms(1) by (auto simp: upload_ok_def)
  have "upload_ok u' \<and> up_finished u' = up_finished u \<and>
    (case r of
       Rd_data data eof \<Rightarrow> up_pending u = data @ up_pending u' \<and> up_sent u' = up_sent u + length data \<and>
         length data \<le> max_data_reader_bytes \<and> (declared \<ge> 0 \<longrightarrow> int (up_sent u') \<le> declared) \<and>
         (eof \<longleftrightarrow> up_finished u \<and> up_pending u' = [])
     | _ \<Rightarrow> up_pending u' = up_pending u \<and> up_sent u' = up_sent u)"
  proof (cases cs)
    case Nil
    then show ?thesis
      using assms(2,3) d pend hd buf
      by (auto simp: read_streaming_def Let_def upload_ok_def up_pending_def split: if_splits)
  next
    case (Cons chunk rest)
    have lt: "off < length chunk" using hd Cons by simp
    show ?thesis by (rule read_streaming_chunk [OF assms(2) d ne pend Cons lt buf])
  qed
  then show "upload_ok u'" "up_finished u' = up_finished u" "case r of
       Rd_data data eof \<Rightarrow> up_pending u = data @ up_pending u' \<and> up_sent u' = up_sent u + length data \<and>
         length data \<le> max_data_reader_bytes \<and> (declared \<ge> 0 \<longrightarrow> int (up_sent u') \<le> declared) \<and>
         (eof \<longleftrightarrow> up_finished u \<and> up_pending u' = [])
     | _ \<Rightarrow> up_pending u' = up_pending u \<and> up_sent u' = up_sent u" by auto
qed

lemma upload_step_ok:
  assumes "upload_run_ok declared s"
  shows "upload_run_ok declared (upload_step declared s op)"
proof (cases op)
  case (Produce data finished)
  obtain e u where a: "append_body data finished (ur_upload s) = (e, u)" by fastforce
  show ?thesis
    using assms append_body_ok [OF _ a] Produce a
    by (cases "e = KAT_OK") (auto simp: upload_run_ok_def Let_def)
next
  case Read_next
  obtain r u where rd: "read_streaming declared (ur_upload s) = (r, u)" by fastforce
  have ok: "upload_ok (ur_upload s)" "0 \<le> declared \<longrightarrow> int (up_sent (ur_upload s)) \<le> declared"
    using assms by (auto simp: upload_run_ok_def Let_def)
  note R = read_streaming_ok [OF ok(1) rd ok(2)]
  have step: "upload_step declared s op =
      (case r of Rd_data data eof \<Rightarrow>
          s\<lparr>ur_upload := u, ur_offered := ur_offered s @ data, ur_eof := ur_eof s \<or> eof\<rparr>
       | _ \<Rightarrow> s\<lparr>ur_upload := u\<rparr>)" using Read_next rd by simp
  show ?thesis
    using assms R(1,2) R(3) unfolding step upload_run_ok_def Let_def
    by (cases r) auto
qed

interpretation uploads: step_system "upload_step declared" "upload_run_ok declared" for declared
  by unfold_locales (rule upload_step_ok)

lemma new_upload_run_ok: "upload_run_ok declared new_upload_run"
  by (simp add: upload_run_ok_def new_upload_run_def new_upload_def upload_ok_def up_pending_def
      max_buffered_body_def)

text \<open>Property C16: however the producer and nghttp3 take turns on a streaming request body, the bytes
  offered to the server are exactly the first bytes the producer had accepted, in order and none twice;
  what is left is what the job still buffers, never more than 4 MiB; a declared length is never
  exceeded; and the end of the body is signalled only once the producer has finished and every
  accepted byte was offered.\<close>

theorem upload_offers_prefix:
  "let s = foldl (upload_step declared) new_upload_run ops; u = ur_upload s in
     ur_accepted s = ur_offered s @ up_pending u \<and>
     up_sent u = length (ur_offered s) \<and> up_buffered u = length (up_pending u) \<and>
     up_buffered u \<le> 4194304 \<and> (0 \<le> declared \<longrightarrow> int (length (ur_offered s)) \<le> declared) \<and>
     (ur_eof s \<longrightarrow> up_finished u \<and> ur_offered s = ur_accepted s)"
  using uploads.run_inv [OF new_upload_run_ok, of declared ops]
  by (auto simp: upload_run_ok_def Let_def upload_ok_def max_buffered_body_def)

definition two_chunk_upload :: "upload_op list" where
  "two_chunk_upload = [Read_next, Produce [1, 2, 3] False, Read_next, Produce [4] True, Read_next]"

lemma upload_offers_prefix_witness:
  "ur_offered (foldl (upload_step 4) new_upload_run two_chunk_upload) =
     ur_accepted (foldl (upload_step 4) new_upload_run two_chunk_upload) \<and>
   int (length (ur_offered (foldl (upload_step 4) new_upload_run two_chunk_upload))) \<le> 4"
proof -
  have "ur_eof (foldl (upload_step 4) new_upload_run two_chunk_upload)" by code_simp
  then show ?thesis using upload_offers_prefix [of 4 two_chunk_upload] unfolding Let_def by (metis zero_le_numeral)
qed

text \<open>
  Two gaps of the code.  A last chunk that is appended as finished before it is read ends the body
  whatever was declared; the check is only on the branch of an empty queue.  And a chunk is freed at the
  next read after its last byte was offered, with nothing acknowledged: \<^verbatim>\<open>acked_stream_data_cb\<close> does
  nothing, while nghttp3 keeps pointers to the bytes until then.
\<close>

lemma short_upload_ends_cleanly:
  "map (\<lambda>ops. (\<lambda>s. (ur_eof s, up_sent (ur_upload s))) (foldl (upload_step 5) new_upload_run ops))
     [[Produce [1, 2, 3] True, Read_next, Read_next],
      [Produce [1, 2, 3] False, Read_next, Produce [] True, Read_next]] = [(True, 3), (False, 3)]"
  by code_simp

lemma offered_chunk_is_freed:
  "(\<lambda>s. (up_chunks (ur_upload s), ur_offered s))
     (foldl (upload_step (-1)) new_upload_run [Produce [7] False, Read_next, Read_next]) = ([], [7])"
  by code_simp

subsection \<open>A body known in advance\<close>

text \<open>nghttp3 reading a stream until the end of its body, at most \<open>n\<close> vectors.\<close>

fun read_body :: "nat \<Rightarrow> job \<Rightarrow> (bytes list \<times> job) option" where
  "read_body 0 j = None"
| "read_body (Suc n) j =
     (case data_read j of
        (Rd_data d eof, j') \<Rightarrow>
          if eof then Some ([d], j') else map_option (\<lambda>(ds, j''). (d # ds, j'')) (read_body n j')
      | _ \<Rightarrow> None)"

lemma read_body_from:
  assumes "\<not> rq_streaming_body (jb_request j)" "up_sent (jb_upload j) < length (rq_body (jb_request j))"
    and "length (rq_body (jb_request j)) - up_sent (jb_upload j) \<le> n * 65536"
  shows "\<exists>ds j'. read_body n j = Some (ds, j') \<and>
     concat ds = drop (up_sent (jb_upload j)) (rq_body (jb_request j)) \<and>
     (\<forall>d\<in>set ds. d \<noteq> [] \<and> length d \<le> 65536) \<and>
     up_sent (jb_upload j') = length (rq_body (jb_request j))"
  using assms
proof (induction n arbitrary: j)
  case (Suc n)
  define k where "k = min (length (rq_body (jb_request j)) - up_sent (jb_upload j)) 65536"
  define d where "d = take k (drop (up_sent (jb_upload j)) (rq_body (jb_request j)))"
  define j1 where "j1 = j\<lparr>jb_upload := (jb_upload j)\<lparr>up_sent := up_sent (jb_upload j) + k\<rparr>\<rparr>"
  have k: "0 < k" "up_sent (jb_upload j) + k \<le> length (rq_body (jb_request j))" "k \<le> 65536"
    using Suc.prems by (auto simp: k_def)
  have dr: "data_read j = (Rd_data d (up_sent (jb_upload j) + k = length (rq_body (jb_request j))), j1)"
    using Suc.prems k
    by (simp add: data_read_def read_buffered_def request_body_remaining_def Let_def
        request_body_next_chunk_size_def max_data_reader_bytes_def k_def d_def j1_def)
  have d: "d \<noteq> []" "length d \<le> 65536" using k by (auto simp: d_def)
  show ?case
  proof (cases "up_sent (jb_upload j) + k = length (rq_body (jb_request j))")
    case True
    then have "d = drop (up_sent (jb_upload j)) (rq_body (jb_request j))" by (simp add: d_def)
    then show ?thesis using dr True d by (simp add: j1_def)
  next
    case False
    then have "k = 65536" using k by (auto simp: k_def min_def split: if_splits)
    then have "\<exists>ds j'. read_body n j1 = Some (ds, j') \<and>
       concat ds = drop (up_sent (jb_upload j1)) (rq_body (jb_request j1)) \<and>
       (\<forall>d\<in>set ds. d \<noteq> [] \<and> length d \<le> 65536) \<and>
       up_sent (jb_upload j') = length (rq_body (jb_request j1))"
      using False k Suc.prems by (intro Suc.IH) (auto simp: j1_def)
    then obtain ds j' where ds: "read_body n j1 = Some (ds, j')"
      "concat ds = drop (up_sent (jb_upload j1)) (rq_body (jb_request j1))"
      "\<forall>d\<in>set ds. d \<noteq> [] \<and> length d \<le> 65536"
      "up_sent (jb_upload j') = length (rq_body (jb_request j1))" by blast
    have "d @ drop (up_sent (jb_upload j) + k) (rq_body (jb_request j)) =
        drop (up_sent (jb_upload j)) (rq_body (jb_request j))"
      unfolding d_def by (metis add.commute append_take_drop_id drop_drop)
    then show ?thesis using dr False ds d by (auto simp: j1_def)
  qed
qed simp

text \<open>Property C37: a buffered request body is offered completely, in order, in non-empty vectors of at
  most 64 KiB, and its end is signalled with the last of them: as many reads as there are 64 KiB pieces
  are enough, so no further empty read is needed to end the stream.\<close>

theorem buffered_upload_complete:
  assumes "\<not> rq_streaming_body (jb_request j)" "up_sent (jb_upload j) = 0" "rq_body (jb_request j) \<noteq> []"
  shows "\<exists>ds j'. read_body ((length (rq_body (jb_request j)) + 65535) div 65536) j = Some (ds, j') \<and>
     concat ds = rq_body (jb_request j) \<and> (\<forall>d\<in>set ds. d \<noteq> [] \<and> length d \<le> 65536)"
proof -
  have "length (rq_body (jb_request j)) \<le> (length (rq_body (jb_request j)) + 65535) div 65536 * 65536"
    by linarith
  then show ?thesis using read_body_from [of j] assms by (metis diff_zero drop0 length_greater_0_conv)
qed

lemma buffered_upload_complete_witness:
  "\<exists>ds j'. read_body 1 (new_job 1 (snd (set_body (new_request ''POST'' ''u'') (Some [5, 6]) 2)) empty_url)
     = Some (ds, j') \<and> concat ds = [5, 6] \<and> (\<forall>d\<in>set ds. d \<noteq> [] \<and> length d \<le> 65536)"
proof -
  let ?j = "new_job 1 (snd (set_body (new_request ''POST'' ''u'') (Some [5, 6]) 2)) empty_url"
  have "\<not> rq_streaming_body (jb_request ?j)" "up_sent (jb_upload ?j) = 0" "rq_body (jb_request ?j) = [5, 6]"
    by (simp_all add: new_job_def set_body_def new_upload_def)
  with buffered_upload_complete [of ?j] show ?thesis by simp
qed

subsection \<open>The fields of a submitted request\<close>

lemma header_ok_content_length:
  assumes "header_ok h"
  shows "ascii_iequals (c_str (h_name h)) ''content-length'' \<longleftrightarrow> h_name h = ''content-length''"
proof -
  have c: "token_char c" "\<not> is_upper c" if "c \<in> set (h_name h)" for c
    using assms that by (auto simp: header_ok_def)
  have "c \<noteq> CHR 0x00" if "c \<in> set (h_name h)" for c
    using c(1) [OF that] by (auto simp: token_char_def is_digit_def is_upper_def is_lower_def less_eq_char_def)
  then have "c_str (h_name h) = h_name h" by (intro c_str_id) auto
  moreover have "lower (h_name h) = h_name h"
    using c by (simp add: lower_def lower_char_def map_idI)
  moreover have "lower ''content-length'' = ''content-length''" by code_simp
  ultimately show ?thesis by (simp add: ascii_iequals_lower)
qed

lemma request_ok_content_length:
  "request_ok r \<Longrightarrow> has_content_length (rq_headers r) \<longleftrightarrow> cl_fields r \<noteq> []"
  by (auto simp: has_content_length_def list_ex_iff request_ok_def cl_fields_def
      header_ok_content_length filter_empty_conv)

definition announced :: "request \<Rightarrow> int" where
  "announced r = (if rq_streaming_body r then rq_streaming_body_length r else int (length (rq_body r)))"

definition submitted_ok :: "request \<Rightarrow> header_list \<times> bool \<Rightarrow> bool" where
  "submitted_ok r s \<longleftrightarrow>
     (let (fs, has_body) = s in
      map h_name (take 4 fs) = ['':method'', '':scheme'', '':authority'', '':path''] \<and>
      (\<forall>h\<in>set (drop 4 fs). hd (h_name h) \<noteq> CHR '':'' \<and> (\<forall>c\<in>set (h_name h). \<not> is_upper c)) \<and>
      (\<forall>h\<in>set fs. h_name h = ''content-length'' \<longrightarrow>
         map_option int (parse_all u64_max (h_value h)) = Some (announced r)) \<and>
      (has_body \<longrightarrow> announced r < 0 \<or> (\<exists>h\<in>set fs. h_name h = ''content-length'')))"

lemma header_ok_name:
  assumes "header_ok h"
  shows "hd (h_name h) \<noteq> CHR '':'' \<and> (\<forall>c\<in>set (h_name h). \<not> is_upper c)"
proof -
  have ne: "h_name h \<noteq> []" and tok: "\<forall>c\<in>set (h_name h). token_char c \<and> \<not> is_upper c"
    using assms unfolding header_ok_def by blast+
  have "\<not> token_char CHR '':''"
    by (simp add: token_char_def is_digit_def is_upper_def is_lower_def less_eq_char_def)
  then show ?thesis using ne tok by (metis hd_in_set)
qed

lemma content_length_name: "\<forall>c\<in>set ''content-length''. \<not> is_upper c"
  by code_simp

text \<open>The field section of a request that passed the framing check starts with the four
  pseudo-header fields, every other name is lower-case and not a pseudo-header, every
  \<^verbatim>\<open>content-length\<close> in it, given by the application or generated, is the length that is offered or
  enforced, and it is missing only where a streaming body has no known length.\<close>

lemma submitted_length_agrees:
  assumes ok: "request_ok r" and valid: "fst (validate_request_body_framing r)"
    and len: "int (length (rq_body r)) \<le> i64_max" "rq_streaming_body_length r \<le> i64_max"
  shows "let r' = snd (validate_request_body_framing r) in submitted_ok r' (submit_fields u r')"
proof -
  obtain l where r': "snd (validate_request_body_framing r) = r\<lparr>rq_streaming_body_length := l\<rparr>"
    and spec: "framing_spec r"
    and stream: "rq_streaming_body r \<and> cl_fields r \<noteq> [] \<longrightarrow>
       (\<forall>h\<in>set (cl_fields r). parse_all u64_max (h_value h) = Some (nat l)) \<and> 0 \<le> l"
    and same: "\<not> rq_streaming_body r \<or> cl_fields r = [] \<longrightarrow> l = rq_streaming_body_length r"
    using framing_check_correct [of r] valid by auto
  let ?r = "r\<lparr>rq_streaming_body_length := l\<rparr>"
  have given: "map_option int (parse_all u64_max (h_value h)) = Some (announced ?r)"
    if "h \<in> set (rq_headers r)" "h_name h = ''content-length''" for h
  proof -
    have h: "h \<in> set (cl_fields r)" using that by (simp add: cl_fields_def)
    then have ne: "cl_fields r \<noteq> []" by auto
    show ?thesis using h ne spec stream by (auto simp: framing_spec_def announced_def)
  qed
  have cl: "has_content_length (rq_headers r) \<longleftrightarrow> cl_fields r \<noteq> []"
    by (rule request_ok_content_length [OF ok])
  have gen: "map_option int (parse_all u64_max (int_to_string (announced ?r))) = Some (announced ?r)"
    if "announced ?r \<ge> 0" "announced ?r \<le> i64_max"
    using that by (simp add: int_to_string_def u64_max_def i64_max_def)
  have names: "\<forall>h\<in>set (rq_headers r). hd (h_name h) \<noteq> CHR '':'' \<and> (\<forall>c\<in>set (h_name h). \<not> is_upper c)"
    using ok header_ok_name unfolding request_ok_def by blast
  have small: "announced ?r \<le> i64_max" if "cl_fields r = []"
    using len same that by (simp add: announced_def)
  have has: "cl_fields r \<noteq> [] \<Longrightarrow> \<exists>h\<in>set (rq_headers r). h_name h = ''content-length''"
    by (auto simp: cl_fields_def filter_empty_conv)
  show ?thesis
    unfolding Let_def r'
    using given gen names small has cl content_length_name
    by (auto simp: submitted_ok_def submit_fields_def Let_def announced_def)
qed

definition post_example :: request where
  "post_example = snd (set_body (new_request ''POST'' ''https://a/'') (Some [1, 2, 3]) 3)"

lemma submitted_length_agrees_witness:
  "let r' = snd (validate_request_body_framing post_example) in
     submitted_ok r' (submit_fields empty_url r')"
proof -
  have 1: "request_ok post_example" by code_simp
  have 2: "fst (validate_request_body_framing post_example)" by code_simp
  have 3: "int (length (rq_body post_example)) \<le> i64_max" by code_simp
  have 4: "rq_streaming_body_length post_example \<le> i64_max" by code_simp
  show ?thesis by (rule submitted_length_agrees [OF 1 2 3 4])
qed

end
