(* ===== verification/Quic_Jobs.thy ===== *)
theory Quic_Jobs
  imports Http3_Upload Dns_Cache
begin

text \<open>
  The jobs of one connection: \<^verbatim>\<open>pending_jobs_\<close> and \<^verbatim>\<open>active_jobs_\<close> of \<^verbatim>\<open>QuicClient\<close>, the stream map of its
  \<^verbatim>\<open>Http3Session\<close>, and every operation that moves a job between them.  A list owns its jobs; the first
  component of an entry is the address of the job, which the stream map keeps as a plain pointer.  A job
  leaves a list by moving to the other one or by being destroyed.  What ngtcp2 answers when a stream is
  opened is a parameter of the operation, and what the engine is told is a list of notes.
\<close>

type_synonym owned = "(nat \<times> job) list"

record quic_jobs =
  qj_next :: nat
  qj_pending :: owned
  qj_active :: owned
  qj_streams :: "int \<Rightarrow> nat option"
  qj_session :: bool
  qj_codec :: bool
  qj_ready :: bool
  qj_early :: bool
  qj_confirmed :: bool
  qj_state :: connection_state
  qj_stop :: bool
  qj_precommit :: bool
  qj_fallbacks :: "endpoint list"
  qj_started :: bool
  qj_resumes :: "int list"

definition new_quic_jobs :: quic_jobs where
  "new_quic_jobs = \<lparr>qj_next = 0, qj_pending = [], qj_active = [], qj_streams = (\<lambda>_. None),
     qj_session = False, qj_codec = False, qj_ready = False, qj_early = False, qj_confirmed = False,
     qj_state = CS_Connecting, qj_stop = False, qj_precommit = False, qj_fallbacks = [],
     qj_started = False, qj_resumes = []\<rparr>"

datatype job_note =
    Nt_headers job int header_list
  | Nt_body job bytes
  | Nt_complete job
  | Nt_error job kat_error

definition is_draining :: "quic_jobs \<Rightarrow> bool" where
  "is_draining q \<longleftrightarrow> qj_state q = CS_Draining"

definition find_job :: "int \<Rightarrow> quic_jobs \<Rightarrow> nat option" where
  "find_job stream_id q = qj_streams q stream_id"

definition map_stream :: "int \<Rightarrow> nat \<Rightarrow> quic_jobs \<Rightarrow> quic_jobs" where
  "map_stream stream_id p q = q\<lparr>qj_streams := (qj_streams q)(stream_id \<mapsto> p)\<rparr>"

definition unmap_stream :: "int \<Rightarrow> quic_jobs \<Rightarrow> quic_jobs" where
  "unmap_stream stream_id q = q\<lparr>qj_streams := (qj_streams q)(stream_id := None)\<rparr>"

text \<open>The job a plain pointer leads to: \<open>None\<close> when nothing owns one at that address.\<close>

definition deref :: "nat \<Rightarrow> quic_jobs \<Rightarrow> job option" where
  "deref p q = map_of (qj_pending q @ qj_active q) p"

definition update_at :: "nat \<Rightarrow> (job \<Rightarrow> job) \<Rightarrow> owned \<Rightarrow> owned" where
  "update_at p f js = map (\<lambda>(a, j). (a, if a = p then f j else j)) js"

subsection \<open>Jobs entering\<close>

text \<open>(is the worker to be started, state); otherwise the worker is woken.\<close>

definition submit_job :: "nat \<Rightarrow> job \<Rightarrow> quic_jobs \<Rightarrow> bool \<times> quic_jobs" where
  "submit_job now j q =
     (let j1 = j\<lparr>jb_clock := (jb_clock j)\<lparr>jc_submitted_at := now, jc_write_progress := now\<rparr>\<rparr>;
          (won, started) = claim_after_enqueue (qj_started q)
      in (won, q\<lparr>qj_next := qj_next q + 1, qj_pending := qj_pending q @ [(qj_next q, j1)],
                 qj_started := started\<rparr>))"

subsection \<open>0-RTT\<close>

definition is_0rtt_replay_safe :: "job \<Rightarrow> bool" where
  "is_0rtt_replay_safe j \<longleftrightarrow>
     (let r = jb_request j in
      rq_body r = [] \<and> \<not> rq_streaming_body r \<and>
      (rq_method r = ''GET'' \<or> rq_method r = ''HEAD'') \<and>
      list_all (\<lambda>h. h_name h \<noteq> ''authorization'' \<and> h_name h \<noteq> ''proxy-authorization'' \<and>
                    h_name h \<noteq> ''cookie'') (rq_headers r))"

subsection \<open>Opening streams\<close>

text \<open>The answers of ngtcp2 and nghttp3 to one attempt: \<^verbatim>\<open>NGTCP2_ERR_STREAM_ID_BLOCKED\<close>, another error,
  or a new stream and whether \<^verbatim>\<open>nghttp3_conn_submit_request\<close> accepted the fields.\<close>

datatype open_result = Open_blocked | Open_failed | Open_ok int bool

text \<open>The loop over \<^verbatim>\<open>pending_jobs_\<close>: (what stays pending, state, jobs moved to \<^verbatim>\<open>failed\<close>).\<close>

fun submit_loop ::
  "(nat \<Rightarrow> open_result) \<Rightarrow> nat \<Rightarrow> owned \<Rightarrow> quic_jobs \<Rightarrow> owned \<times> quic_jobs \<times> (job \<times> kat_error) list" where
  "submit_loop env n [] q = ([], q, [])"
| "submit_loop env n ((p, j) # rest) q =
     (if jb_cancelled j then submit_loop env n rest q
      else if qj_early q \<and> \<not> qj_confirmed q \<and> \<not> is_0rtt_replay_safe j then ((p, j) # rest, q, [])
      else case env n of
          Open_blocked \<Rightarrow> ((p, j) # rest, q, [])
        | Open_failed \<Rightarrow>
            (case submit_loop env (Suc n) rest q of (stay, q', failed) \<Rightarrow> (stay, q', (j, ERR_QUIC) # failed))
        | Open_ok stream_id submitted \<Rightarrow>
            let j1 = j\<lparr>jb_stream_id := stream_id, jb_http3_ready := True\<rparr> in
            if \<not> submitted then
              (case submit_loop env (Suc n) rest q of (stay, q', failed) \<Rightarrow> (stay, q', (j1, ERR_HTTP3) # failed))
            else
              let q1 = map_stream stream_id p q in
              submit_loop env (Suc n) rest
                (q1\<lparr>qj_active := qj_active q1 @ [(p, j1\<lparr>jb_committed := True\<rparr>)]\<rparr>))"

definition try_submit_pending :: "(nat \<Rightarrow> open_result) \<Rightarrow> quic_jobs \<Rightarrow> job_note list \<times> quic_jobs" where
  "try_submit_pending env q =
     (if is_draining q then ([], q)
      else if \<not> qj_ready q \<or> \<not> qj_session q \<or> \<not> qj_codec q then ([], q)
      else
        let (stay, q1, failed) = submit_loop env 0 (qj_pending q) q
        in (map (\<lambda>(j, e). Nt_error j e) failed, q1\<lparr>qj_pending := stay\<rparr>))"

subsection \<open>The handshake\<close>

definition on_handshake_confirmed :: "(nat \<Rightarrow> open_result) \<Rightarrow> quic_jobs \<Rightarrow> job_note list \<times> quic_jobs" where
  "on_handshake_confirmed env q =
     (let q1 = q\<lparr>qj_confirmed := True, qj_state := CS_Active\<rparr> in
      if qj_precommit q1
      then try_submit_pending env (q1\<lparr>qj_precommit := False, qj_fallbacks := []\<rparr>)
      else ([], q1))"

text \<open>\<open>codec_ok\<close> is the answer of \<^verbatim>\<open>Http3Session::setup_codec\<close>; (result, notes, state).\<close>

definition on_handshake_completed ::
  "bool \<Rightarrow> (nat \<Rightarrow> open_result) \<Rightarrow> quic_jobs \<Rightarrow> bool \<times> job_note list \<times> quic_jobs" where
  "on_handshake_completed codec_ok env q =
     (if \<not> qj_ready q \<and> qj_session q then
        (if codec_ok then
           let q1 = q\<lparr>qj_codec := True, qj_ready := True\<rparr>;
               (notes, q2) = (if \<not> qj_precommit q1 then try_submit_pending env q1 else ([], q1))
           in (True, notes, q2)
         else (False, [], q))
      else (True, [], q))"

text \<open>The part of \<^verbatim>\<open>setup_connection\<close> that concerns jobs: a new session, early data if TLS can resume.\<close>

definition start_session ::
  "bool \<Rightarrow> bool \<Rightarrow> (nat \<Rightarrow> open_result) \<Rightarrow> quic_jobs \<Rightarrow> job_note list \<times> quic_jobs" where
  "start_session early codec_ok env q =
     (let q1 = q\<lparr>qj_early := early, qj_session := True, qj_codec := False, qj_streams := (\<lambda>_. None)\<rparr>;
          (notes, q2) =
            (if early \<and> codec_ok then
               let q' = q1\<lparr>qj_codec := True, qj_ready := True\<rparr>
               in if \<not> qj_precommit q' then try_submit_pending env q' else ([], q')
             else ([], q1))
      in (notes, q2\<lparr>qj_confirmed := False, qj_state := CS_Connecting\<rparr>))"

text \<open>The part of \<^verbatim>\<open>adopt_handshake_winner\<close> that concerns jobs: the session of a candidate that won.\<close>

definition adopt_session ::
  "bool \<Rightarrow> (nat \<Rightarrow> open_result) \<Rightarrow> quic_jobs \<Rightarrow> bool \<times> job_note list \<times> quic_jobs" where
  "adopt_session codec_ok env q =
     (let q1 = q\<lparr>qj_precommit := True, qj_session := True, qj_codec := False, qj_streams := (\<lambda>_. None),
                 qj_ready := False, qj_confirmed := False, qj_state := CS_Connecting\<rparr>;
          (ok, notes, q2) = on_handshake_completed codec_ok env q1
      in (ok, notes, if ok then q2 else q2\<lparr>qj_session := False, qj_codec := False, qj_streams := (\<lambda>_. None)\<rparr>))"

text \<open>\<^verbatim>\<open>discard_current_connection\<close>\<close>

definition discard_session :: "quic_jobs \<Rightarrow> quic_jobs" where
  "discard_session q =
     q\<lparr>qj_session := False, qj_codec := False, qj_streams := (\<lambda>_. None), qj_ready := False,
       qj_confirmed := False, qj_state := CS_Connecting, qj_early := False\<rparr>"

definition on_early_data_rejected :: "quic_jobs \<Rightarrow> quic_jobs" where
  "on_early_data_rejected q =
     (if \<not> qj_early q then q
      else q\<lparr>qj_early := False,
             qj_pending := qj_pending q @
               map (\<lambda>(p, j). (p, j\<lparr>jb_stream_id := -1, jb_http3_ready := False\<rparr>)) (qj_active q),
             qj_active := [], qj_session := True, qj_codec := False, qj_streams := (\<lambda>_. None),
             qj_ready := False\<rparr>)"

subsection \<open>Callbacks of a stream\<close>

text \<open>
  A callback of nghttp3 finds its job through the stream map.  \<open>on_stream\<close> runs \<open>f\<close> on that job;
  \<open>f\<close> gives the notes and the job, or \<open>None\<close> for an error returned to nghttp3.
\<close>

definition on_stream ::
  "int \<Rightarrow> (job \<Rightarrow> (job_note list \<times> job) option) \<Rightarrow> quic_jobs \<Rightarrow> (job_note list \<times> quic_jobs) option" where
  "on_stream stream_id f q =
     (case find_job stream_id q of
        None \<Rightarrow> Some ([], q)
      | Some p \<Rightarrow>
          (case deref p q of
             None \<Rightarrow> None
           | Some j \<Rightarrow>
               (case f j of
                  None \<Rightarrow> None
                | Some (notes, j') \<Rightarrow>
                    Some (notes, q\<lparr>qj_pending := update_at p (\<lambda>_. j') (qj_pending q),
                                   qj_active := update_at p (\<lambda>_. j') (qj_active q)\<rparr>))))"

definition begin_headers_cb :: "int \<Rightarrow> quic_jobs \<Rightarrow> (job_note list \<times> quic_jobs) option" where
  "begin_headers_cb stream_id = on_stream stream_id (\<lambda>j. Some ([], begin_headers j))"

definition recv_header_cb :: "int \<Rightarrow> string \<Rightarrow> string \<Rightarrow> quic_jobs \<Rightarrow> (job_note list \<times> quic_jobs) option" where
  "recv_header_cb stream_id n v =
     on_stream stream_id (\<lambda>j. map_option (\<lambda>j'. ([], j')) (recv_header n v j))"

definition end_headers_cb :: "int \<Rightarrow> nat \<Rightarrow> quic_jobs \<Rightarrow> (job_note list \<times> quic_jobs) option" where
  "end_headers_cb stream_id now =
     on_stream stream_id
       (\<lambda>j. map_option (\<lambda>(told, j'). (case told of None \<Rightarrow> [] | Some (st, hs) \<Rightarrow> [Nt_headers j' st hs], j'))
              (end_headers now j))"

text \<open>\<open>recv_data\<close> also returns what it credits at once: the bytes of a buffered response.\<close>

definition recv_data :: "nat \<Rightarrow> bytes \<Rightarrow> job \<Rightarrow> nat \<times> job" where
  "recv_data now data j =
     (let c = jb_credit j;
          c1 = c\<lparr>rc_delivered := rc_delivered c + length data\<rparr>;
          c2 = (if jb_streaming j then c1\<lparr>rc_unconsumed := rc_unconsumed c1 + length data\<rparr> else c1)
      in (if \<not> jb_streaming j then length data else 0,
          j\<lparr>jb_clock := (jb_clock j)\<lparr>jc_read_progress := now\<rparr>, jb_credit := c2\<rparr>))"

definition recv_data_cb :: "int \<Rightarrow> nat \<Rightarrow> bytes \<Rightarrow> quic_jobs \<Rightarrow> (job_note list \<times> quic_jobs) option" where
  "recv_data_cb stream_id now data =
     on_stream stream_id (\<lambda>j. let j' = snd (recv_data now data j) in Some ([Nt_body j' data], j'))"

text \<open>What \<^verbatim>\<open>recv_stream_data\<close> credits besides: the bytes nghttp3 consumed itself, unless the stream's
  job is a streaming one.\<close>

definition recv_stream_credit :: "int \<Rightarrow> nat \<Rightarrow> quic_jobs \<Rightarrow> nat" where
  "recv_stream_credit stream_id consumed q =
     (case find_job stream_id q of
        None \<Rightarrow> consumed
      | Some p \<Rightarrow> (case deref p q of None \<Rightarrow> 0 | Some j \<Rightarrow> if \<not> jb_streaming j then consumed else 0))"

definition end_stream_cb :: "int \<Rightarrow> quic_jobs \<Rightarrow> (job_note list \<times> quic_jobs) option" where
  "end_stream_cb stream_id =
     on_stream stream_id (\<lambda>j. let j' = j\<lparr>jb_completed := True\<rparr> in Some ([Nt_complete j'], j'))"

definition close_error :: "job \<Rightarrow> kat_error" where
  "close_error j =
     (if jb_declared_length j \<ge> 0 \<and> jb_received_bytes j < nat (jb_declared_length j)
      then ERR_BODY else ERR_HTTP3)"

definition stream_close_cb :: "int \<Rightarrow> quic_jobs \<Rightarrow> (job_note list \<times> quic_jobs) option" where
  "stream_close_cb stream_id q =
     map_option (\<lambda>(notes, q'). (notes, unmap_stream stream_id q'))
       (on_stream stream_id
          (\<lambda>j. Some (if \<not> jb_completed j then [Nt_error j (close_error j)] else [], j)) q)"

fun erase_stream :: "int \<Rightarrow> owned \<Rightarrow> owned" where
  "erase_stream stream_id [] = []"
| "erase_stream stream_id ((p, j) # rest) =
     (if jb_stream_id j = stream_id then rest else (p, j) # erase_stream stream_id rest)"

text \<open>\<open>known\<close>: nghttp3 has the stream, so \<^verbatim>\<open>nghttp3_conn_close_stream\<close> calls back.\<close>

definition on_stream_close :: "bool \<Rightarrow> int \<Rightarrow> quic_jobs \<Rightarrow> (job_note list \<times> quic_jobs) option" where
  "on_stream_close known stream_id q =
     (case (if qj_session q \<and> qj_codec q \<and> known then stream_close_cb stream_id q else Some ([], q)) of
        None \<Rightarrow> None
      | Some (notes, q1) \<Rightarrow>
          let q2 = q1\<lparr>qj_active := erase_stream stream_id (qj_active q1)\<rparr>
          in Some (notes, if is_draining q2 \<and> qj_active q2 = [] then q2\<lparr>qj_stop := True\<rparr> else q2))"

text \<open>\<open>notice\<close> is \<^verbatim>\<open>NGHTTP3_SHUTDOWN_NOTICE_STREAM_ID\<close>.\<close>

definition goaway_rejects :: "int \<Rightarrow> int \<Rightarrow> job \<Rightarrow> bool" where
  "goaway_rejects notice stream_id j \<longleftrightarrow> stream_id \<noteq> notice \<and> jb_stream_id j \<ge> stream_id"

definition on_goaway :: "int \<Rightarrow> int \<Rightarrow> quic_jobs \<Rightarrow> job_note list \<times> quic_jobs" where
  "on_goaway notice stream_id q =
     (let mark = (\<lambda>(p, j). (p, if goaway_rejects notice stream_id j then j\<lparr>jb_cancelled := True\<rparr> else j));
          active = map mark (qj_active q)
      in (map (\<lambda>(p, j). Nt_error j ERR_HTTP3) (filter (\<lambda>(p, j). goaway_rejects notice stream_id j) active),
          q\<lparr>qj_state := CS_Draining, qj_active := active\<rparr>))"

subsection \<open>Operations from other threads\<close>

fun cancel_first :: "int \<Rightarrow> owned \<Rightarrow> owned option" where
  "cancel_first job_id [] = None"
| "cancel_first job_id ((p, j) # rest) =
     (if jb_id j = job_id then Some ((p, j\<lparr>jb_cancelled := True\<rparr>) # rest)
      else map_option (\<lambda>r. (p, j) # r) (cancel_first job_id rest))"

definition cancel_job :: "int \<Rightarrow> quic_jobs \<Rightarrow> bool \<times> quic_jobs" where
  "cancel_job job_id q =
     (case cancel_first job_id (qj_pending q) of
        Some pending \<Rightarrow> (True, q\<lparr>qj_pending := pending\<rparr>)
      | None \<Rightarrow>
          (case cancel_first job_id (qj_active q) of
             Some active \<Rightarrow> (True, q\<lparr>qj_active := active\<rparr>)
           | None \<Rightarrow> (False, q)))"

definition live_with_id :: "int \<Rightarrow> nat \<times> job \<Rightarrow> bool" where
  "live_with_id request_id e \<longleftrightarrow>
     jb_id (snd e) = request_id \<and> \<not> jb_cancelled (snd e) \<and> \<not> jb_completed (snd e)"

text \<open>The last match of the two loops is the target.\<close>

definition append_request_body :: "int \<Rightarrow> bytes \<Rightarrow> bool \<Rightarrow> quic_jobs \<Rightarrow> kat_error \<times> quic_jobs" where
  "append_request_body request_id data finished q =
     (case filter (live_with_id request_id) (qj_pending q @ qj_active q) of
        [] \<Rightarrow> (ERR_CLOSED, q)
      | found \<Rightarrow>
          let (p, j) = last found;
              (e, u) = append_body data finished (jb_upload j)
          in if e \<noteq> KAT_OK then (e, q)
             else
               (KAT_OK,
                q\<lparr>qj_pending := update_at p (\<lambda>j. j\<lparr>jb_upload := u\<rparr>) (qj_pending q),
                  qj_active := update_at p (\<lambda>j. j\<lparr>jb_upload := u\<rparr>) (qj_active q),
                  qj_resumes := (if jb_stream_id j \<ge> 0 then qj_resumes q @ [jb_stream_id j]
                                 else qj_resumes q)\<rparr>))"

definition note_write_progress :: "nat \<Rightarrow> int \<Rightarrow> quic_jobs \<Rightarrow> quic_jobs" where
  "note_write_progress now stream_id q =
     (case find (\<lambda>(p, j). jb_stream_id j = stream_id) (qj_active q) of
        None \<Rightarrow> q
      | Some (p, _) \<Rightarrow>
          q\<lparr>qj_active := update_at p
              (\<lambda>j. j\<lparr>jb_clock := (jb_clock j)\<lparr>jc_write_progress := now\<rparr>\<rparr>) (qj_active q)\<rparr>)"

definition has_live_pending_job :: "quic_jobs \<Rightarrow> bool" where
  "has_live_pending_job q = list_ex (\<lambda>(p, j). \<not> jb_cancelled j) (qj_pending q)"

text \<open>\<^verbatim>\<open>NGTCP2_KEEP_ALIVE\<close> of \<^verbatim>\<open>update_keep_alive\<close>; \<open>peer\<close> is the peer's idle timeout if known.\<close>

definition keep_alive_timeout :: "nat option \<Rightarrow> quic_jobs \<Rightarrow> nat" where
  "keep_alive_timeout peer q =
     (case peer of
        None \<Rightarrow> u64_max
      | Some idle \<Rightarrow> if qj_active q = [] \<or> idle = 0 then u64_max else max 1 (idle div 2))"

text \<open>The first and last part of \<^verbatim>\<open>process_wakeup\<close>: (streams to reset, streams to resume, state).\<close>

definition streams_to_reset :: "quic_jobs \<Rightarrow> int list" where
  "streams_to_reset q =
     map (\<lambda>(p, j). jb_stream_id j) (filter (\<lambda>(p, j). jb_cancelled j \<and> jb_stream_id j \<ge> 0) (qj_active q))"

definition process_wakeup_streams :: "quic_jobs \<Rightarrow> int list \<times> int list \<times> quic_jobs" where
  "process_wakeup_streams q =
     (let ready = (qj_session q \<and> qj_codec q)
      in (if ready then streams_to_reset q else [], if ready then qj_resumes q else [],
          q\<lparr>qj_resumes := []\<rparr>))"

definition fail_all_pending :: "kat_error \<Rightarrow> quic_jobs \<Rightarrow> job_note list \<times> quic_jobs" where
  "fail_all_pending err q =
     (map (\<lambda>(p, j). Nt_error j err) (qj_pending q @ qj_active q),
      q\<lparr>qj_pending := [], qj_active := []\<rparr>)"

end
