(* ===== verification/Quic_Timeouts.thy ===== *)
theory Quic_Timeouts
  imports Quic_Jobs "HOL-Library.Multiset"
begin

text \<open>
  \<^verbatim>\<open>QuicTimeouts\<close>, the defaults the constructor of \<^verbatim>\<open>QuicClient\<close> fills in, and \<^verbatim>\<open>expire_requests\<close>:
  which jobs have run out of time, and what the others suffer when that condemns the connection.
\<close>

record quic_timeouts =
  tm_connect :: nat
  tm_request :: nat
  tm_idle :: nat
  tm_dns :: nat
  tm_handshake :: nat
  tm_response_headers :: nat
  tm_read :: nat
  tm_write :: nat
  tm_call :: nat
  tm_consumer_stall :: nat

definition default_timeouts :: "quic_timeouts \<Rightarrow> quic_timeouts" where
  "default_timeouts t =
     (let t1 = t\<lparr>tm_dns := (if tm_dns t \<noteq> 0 then tm_dns t else tm_connect t)\<rparr>;
          t2 = t1\<lparr>tm_handshake := (if tm_handshake t1 \<noteq> 0 then tm_handshake t1 else tm_connect t1)\<rparr>;
          t3 = t2\<lparr>tm_response_headers :=
                    (if tm_response_headers t2 \<noteq> 0 then tm_response_headers t2 else tm_request t2)\<rparr>;
          t4 = t3\<lparr>tm_read := (if tm_read t3 \<noteq> 0 then tm_read t3 else tm_idle t3)\<rparr>;
          t5 = t4\<lparr>tm_write := (if tm_write t4 \<noteq> 0 then tm_write t4 else tm_idle t4)\<rparr>;
          t6 = t5\<lparr>tm_call := (if tm_call t5 \<noteq> 0 then tm_call t5 else tm_request t5)\<rparr>
      in t6\<lparr>tm_consumer_stall := (if tm_consumer_stall t6 \<noteq> 0 then tm_consumer_stall t6 else tm_read t6)\<rparr>)"

subsection \<open>One job\<close>

definition elapsed_ms :: "nat \<Rightarrow> nat \<Rightarrow> nat \<Rightarrow> bool" where
  "elapsed_ms now started ms \<longleftrightarrow> deadline_elapsed_ns now started (milliseconds_to_ns_saturated ms)"

definition consumer_blocked :: "nat \<Rightarrow> job \<Rightarrow> bool" where
  "consumer_blocked connection_unconsumed j \<longleftrightarrow>
     jb_streaming j \<and>
     receive_credit_blocked_by_consumer (rc_unconsumed (jb_credit j)) connection_unconsumed"

definition blocked_since :: "nat \<Rightarrow> nat \<Rightarrow> job \<Rightarrow> nat" where
  "blocked_since now connection_unconsumed j =
     (if consumer_blocked connection_unconsumed j
      then (if rc_blocked_since (jb_credit j) = 0 then now else rc_blocked_since (jb_credit j))
      else 0)"

definition expiry_error :: "quic_timeouts \<Rightarrow> nat \<Rightarrow> nat \<Rightarrow> job \<Rightarrow> kat_error" where
  "expiry_error t now connection_unconsumed j =
     (let c = jb_clock j;
          blocked = consumer_blocked connection_unconsumed j;
          stall = (if blocked \<and> elapsed_ms now (blocked_since now connection_unconsumed j)
                                  (tm_consumer_stall t)
                   then ERR_CONSUMER_STALL else KAT_OK)
      in if elapsed_ms now (jc_submitted_at c) (tm_call t) then ERR_CALL_TIMEOUT
         else if jb_stream_id j \<ge> 0 \<and> \<not> jb_saw_headers j \<and> tm_response_headers t \<noteq> 0 \<and>
                 elapsed_ms now (jc_submitted_at c) (tm_response_headers t)
         then ERR_RESPONSE_HEADERS_TIMEOUT
         else if stall = KAT_OK \<and> jb_saw_headers j \<and> jc_read_progress c \<noteq> 0 \<and> tm_read t \<noteq> 0 \<and>
                 \<not> blocked \<and> elapsed_ms now (jc_read_progress c) (tm_read t)
         then ERR_READ_TIMEOUT
         else if up_sent (jb_upload j) < length (rq_body (jb_request j)) \<and>
                 jc_write_progress c \<noteq> 0 \<and> tm_write t \<noteq> 0 \<and>
                 elapsed_ms now (jc_write_progress c) (tm_write t)
         then ERR_WRITE_TIMEOUT
         else stall)"

definition condemns_connection :: "kat_error \<Rightarrow> bool" where
  "condemns_connection e \<longleftrightarrow>
     e = ERR_RESPONSE_HEADERS_TIMEOUT \<or> e = ERR_READ_TIMEOUT \<or> e = ERR_WRITE_TIMEOUT"

subsection \<open>All jobs\<close>

text \<open>\<^verbatim>\<open>collect_expired\<close>: (jobs, is the connection condemned, expired jobs).\<close>

fun collect_expired ::
  "quic_timeouts \<Rightarrow> nat \<Rightarrow> nat \<Rightarrow> owned \<Rightarrow> bool \<Rightarrow> owned \<times> bool \<times> (nat \<times> job \<times> kat_error) list" where
  "collect_expired t now unconsumed [] triggered = ([], triggered, [])"
| "collect_expired t now unconsumed ((p, j) # rest) triggered =
     (if jb_cancelled j \<or> jc_submitted_at (jb_clock j) = 0 \<or> triggered then
        (case collect_expired t now unconsumed rest triggered of
           (js, tr, ex) \<Rightarrow> ((p, j) # js, tr, ex))
      else
        let error = expiry_error t now unconsumed j;
            j1 = j\<lparr>jb_credit := (jb_credit j)\<lparr>rc_blocked_since := blocked_since now unconsumed j\<rparr>\<rparr>
        in if error = KAT_OK then
             (case collect_expired t now unconsumed rest triggered of
                (js, tr, ex) \<Rightarrow> ((p, j1) # js, tr, ex))
           else
             let j2 = j1\<lparr>jb_cancelled := True\<rparr>
             in (case collect_expired t now unconsumed rest (condemns_connection error) of
                   (js, tr, ex) \<Rightarrow> ((p, j2) # js, tr, (p, j2, error) # ex)))"

definition cancel_owned :: "nat \<times> job \<Rightarrow> nat \<times> job" where
  "cancel_owned e = (fst e, (snd e)\<lparr>jb_cancelled := True\<rparr>)"

definition fail_remaining :: "owned \<Rightarrow> owned \<times> (nat \<times> job \<times> kat_error) list" where
  "fail_remaining js =
     (map cancel_owned js,
      map (\<lambda>e. (fst e, snd (cancel_owned e), ERR_QUIC)) (filter (\<lambda>e. \<not> jb_cancelled (snd e)) js))"

definition connection_unconsumed :: "owned \<Rightarrow> nat" where
  "connection_unconsumed active =
     sum_list (map (\<lambda>(p, j). if jb_streaming j then rc_unconsumed (jb_credit j) else 0) active)"

text \<open>(jobs reported with their error, state)\<close>

definition expire_jobs :: "quic_timeouts \<Rightarrow> nat \<Rightarrow> quic_jobs \<Rightarrow> (nat \<times> job \<times> kat_error) list \<times> quic_jobs" where
  "expire_jobs t now q =
     (let unconsumed = connection_unconsumed (qj_active q);
          (pending, t1, e1) = collect_expired t now unconsumed (qj_pending q) False;
          (active, t2, e2) = collect_expired t now unconsumed (qj_active q) t1
      in if t2 then
           (let (pending', e3) = fail_remaining pending; (active', e4) = fail_remaining active
            in (e1 @ e2 @ e3 @ e4,
                q\<lparr>qj_pending := pending', qj_active := active', qj_state := CS_Draining\<rparr>))
         else (e1 @ e2, q\<lparr>qj_pending := pending, qj_active := active\<rparr>))"

definition expire_requests :: "quic_timeouts \<Rightarrow> nat \<Rightarrow> quic_jobs \<Rightarrow> job_note list \<times> quic_jobs" where
  "expire_requests t now q =
     (let (expired, q') = expire_jobs t now q in (map (\<lambda>(p, j, e). Nt_error j e) expired, q'))"

subsection \<open>A reference for the loop\<close>

text \<open>Every job has its own verdict; the loop acts on the jobs up to and including the first one that
  condemns the connection.\<close>

definition verdict :: "quic_timeouts \<Rightarrow> nat \<Rightarrow> nat \<Rightarrow> job \<Rightarrow> kat_error" where
  "verdict t now u j =
     (if jb_cancelled j \<or> jc_submitted_at (jb_clock j) = 0 then KAT_OK else expiry_error t now u j)"

definition touch :: "quic_timeouts \<Rightarrow> nat \<Rightarrow> nat \<Rightarrow> nat \<times> job \<Rightarrow> nat \<times> job" where
  "touch t now u e =
     (let j = snd e;
          j1 = j\<lparr>jb_credit := (jb_credit j)\<lparr>rc_blocked_since := blocked_since now u j\<rparr>\<rparr>
      in (fst e,
          if jb_cancelled j \<or> jc_submitted_at (jb_clock j) = 0 then j
          else if verdict t now u j = KAT_OK then j1 else j1\<lparr>jb_cancelled := True\<rparr>))"

definition reports :: "quic_timeouts \<Rightarrow> nat \<Rightarrow> nat \<Rightarrow> owned \<Rightarrow> (nat \<times> job \<times> kat_error) list" where
  "reports t now u js =
     map (\<lambda>e. (fst e, snd (touch t now u e), verdict t now u (snd e)))
       (filter (\<lambda>e. verdict t now u (snd e) \<noteq> KAT_OK) js)"

definition harmless :: "quic_timeouts \<Rightarrow> nat \<Rightarrow> nat \<Rightarrow> nat \<times> job \<Rightarrow> bool" where
  "harmless t now u e \<longleftrightarrow> \<not> condemns_connection (verdict t now u (snd e))"

definition examined :: "quic_timeouts \<Rightarrow> nat \<Rightarrow> nat \<Rightarrow> owned \<Rightarrow> owned" where
  "examined t now u js =
     takeWhile (harmless t now u) js @ take 1 (dropWhile (harmless t now u) js)"

lemma not_condemns_OK [simp]: "\<not> condemns_connection KAT_OK"
  by (simp add: condemns_connection_def)

definition live :: "nat \<times> job \<Rightarrow> bool" where
  "live e \<longleftrightarrow> \<not> jb_cancelled (snd e)"

lemma collect_triggered [simp]: "collect_expired t now u js True = (js, True, [])"
  by (induction js) auto

lemma collect_expired_eq:
  "collect_expired t now u js False =
     (map (touch t now u) (examined t now u js) @ drop 1 (dropWhile (harmless t now u) js),
      \<not> list_all (harmless t now u) js, reports t now u (examined t now u js))"
proof (induction js)
  case (Cons e js)
  obtain p j where e: "e = (p, j)" by (cases e)
  consider (skip) "jb_cancelled j \<or> jc_submitted_at (jb_clock j) = 0"
    | (fine) "\<not> (jb_cancelled j \<or> jc_submitted_at (jb_clock j) = 0)" "expiry_error t now u j = KAT_OK"
    | (bad) "\<not> (jb_cancelled j \<or> jc_submitted_at (jb_clock j) = 0)" "expiry_error t now u j \<noteq> KAT_OK"
    by argo
  then show ?case
  proof cases
    case skip
    then show ?thesis
      using Cons e by (auto simp: harmless_def verdict_def touch_def examined_def reports_def Let_def)
  next
    case fine
    then show ?thesis
      using Cons e by (simp add: harmless_def verdict_def touch_def examined_def reports_def Let_def)
  next
    case bad
    then show ?thesis
      using Cons e
      by (cases "condemns_connection (expiry_error t now u j)")
         (simp_all add: harmless_def verdict_def touch_def examined_def reports_def Let_def)
  qed
qed (simp add: examined_def reports_def)

lemma collect_expired_append:
  "collect_expired t now u (xs @ ys) tr =
     (let (xs', t1, e1) = collect_expired t now u xs tr;
          (ys', t2, e2) = collect_expired t now u ys t1
      in (xs' @ ys', t2, e1 @ e2))"
  by (induction xs arbitrary: tr) (auto simp: Let_def split: prod.splits)

lemma touch_fst [simp]: "fst (touch t now u e) = fst e"
  by (simp add: touch_def Let_def)

lemma touch_cancelled:
  "jb_cancelled (snd (touch t now u e)) \<longleftrightarrow> jb_cancelled (snd e) \<or> verdict t now u (snd e) \<noteq> KAT_OK"
  by (auto simp: touch_def verdict_def Let_def)

subsection \<open>What expiry reports\<close>

definition jobs_of :: "quic_jobs \<Rightarrow> owned" where
  "jobs_of q = qj_pending q @ qj_active q"

definition unconsumed_of :: "quic_jobs \<Rightarrow> nat" where
  "unconsumed_of q = connection_unconsumed (qj_active q)"

definition condemned :: "quic_timeouts \<Rightarrow> nat \<Rightarrow> quic_jobs \<Rightarrow> bool" where
  "condemned t now q \<longleftrightarrow> (\<exists>e\<in>set (jobs_of q). condemns_connection (verdict t now (unconsumed_of q) (snd e)))"

lemma expire_jobs_whole:
  assumes "expire_jobs t now q = (ex, q')"
  defines "js \<equiv> examined t now (unconsumed_of q) (jobs_of q)"
    and "rest \<equiv> drop 1 (dropWhile (harmless t now (unconsumed_of q)) (jobs_of q))"
  shows "jobs_of q' = (if condemned t now q
            then map cancel_owned (map (touch t now (unconsumed_of q)) js @ rest)
            else map (touch t now (unconsumed_of q)) (jobs_of q))"
    "ex = (if condemned t now q
           then reports t now (unconsumed_of q) js @
                snd (fail_remaining (map (touch t now (unconsumed_of q)) js @ rest))
           else reports t now (unconsumed_of q) (jobs_of q))"
    "qj_state q' = (if condemned t now q then CS_Draining else qj_state q)"
    "js @ rest = jobs_of q" "\<not> condemned t now q \<Longrightarrow> js = jobs_of q"
proof -
  let ?u = "unconsumed_of q"
  obtain p1 t1 e1 where 1: "collect_expired t now ?u (qj_pending q) False = (p1, t1, e1)"
    by (metis prod_cases3)
  obtain p2 t2 e2 where 2: "collect_expired t now ?u (qj_active q) t1 = (p2, t2, e2)"
    by (metis prod_cases3)
  have "collect_expired t now ?u (jobs_of q) False = (p1 @ p2, t2, e1 @ e2)"
    by (simp add: jobs_of_def collect_expired_append 1 2)
  then have c: "p1 @ p2 = map (touch t now ?u) js @ rest" "t2 = condemned t now q"
      "e1 @ e2 = reports t now ?u js"
    by (auto simp: collect_expired_eq js_def rest_def condemned_def list_all_iff harmless_def)
  show whole: "js @ rest = jobs_of q"
    unfolding js_def rest_def examined_def append_assoc
    by (metis append_take_drop_id takeWhile_dropWhile_id)
  show all: "\<not> condemned t now q \<Longrightarrow> js = jobs_of q"
  proof -
    assume "\<not> condemned t now q"
    then have h: "\<forall>e\<in>set (jobs_of q). harmless t now ?u e" by (auto simp: condemned_def harmless_def)
    then have "examined t now ?u (jobs_of q) = jobs_of q"
      unfolding examined_def by (metis append_Nil2 dropWhile_eq_Nil_conv takeWhile_eq_all_conv take_Nil)
    then show ?thesis unfolding js_def .
  qed
  then have none: "\<not> condemned t now q \<Longrightarrow> rest = []" using whole by auto
  have res: "(ex, q') =
     (if t2 then (e1 @ e2 @ snd (fail_remaining p1) @ snd (fail_remaining p2),
                  q\<lparr>qj_pending := fst (fail_remaining p1), qj_active := fst (fail_remaining p2),
                    qj_state := CS_Draining\<rparr>)
      else (e1 @ e2, q\<lparr>qj_pending := p1, qj_active := p2\<rparr>))"
    using assms(1) 1 2
    by (simp add: expire_jobs_def unconsumed_of_def [symmetric] Let_def fail_remaining_def split: if_splits)
  show "jobs_of q' = (if condemned t now q
            then map cancel_owned (map (touch t now ?u) js @ rest)
            else map (touch t now ?u) (jobs_of q))"
    using res c(2) c(1) [symmetric] none all
    by (cases t2) (simp_all add: jobs_of_def fail_remaining_def)
  show "ex = (if condemned t now q
           then reports t now ?u js @ snd (fail_remaining (map (touch t now ?u) js @ rest))
           else reports t now ?u (jobs_of q))"
    using res c(2) c(3) c(1) [symmetric] none all
    by (cases t2) (simp_all add: fail_remaining_def)
  show "qj_state q' = (if condemned t now q then CS_Draining else qj_state q)"
    using res c(2) by (auto split: if_splits)
qed

lemma reports_fst: "map fst (reports t now u js) = map fst (filter (\<lambda>e. verdict t now u (snd e) \<noteq> KAT_OK) js)"
  by (simp add: reports_def o_def)

lemma fail_remaining_snd:
  "map fst (snd (fail_remaining js)) = map fst (filter live js)"
  by (simp add: fail_remaining_def live_def [abs_def] o_def)

text \<open>Which jobs are told of a condemned connection: those reported and those left alive are the jobs
  that were alive, none twice.\<close>

lemma condemned_split:
  "mset (map fst (filter (\<lambda>e. verdict t now u (snd e) \<noteq> KAT_OK) js @
                  filter live (map (touch t now u) js @ rest))) =
   mset (map fst (filter live (js @ rest)))"
proof -
  have "mset (map fst (filter (\<lambda>e. verdict t now u (snd e) \<noteq> KAT_OK) js @ filter live (map (touch t now u) js)))
      = mset (map fst (filter live js))"
    by (induction js) (auto simp: live_def touch_cancelled, auto simp: verdict_def)
  then show ?thesis by simp
qed

text \<open>Property C18: expiring requests looks at every live job once.  When no job has a response-header,
  read or write timeout, exactly the jobs with an expired deadline are reported; when one has, the
  connection drains and exactly the live jobs are reported.  No job is reported twice, none that was
  already cancelled, and every job that is reported is cancelled afterwards.\<close>

theorem expiry_reports_each_live_job_once:
  assumes "expire_jobs t now q = (ex, q')"
  shows "mset (map fst ex) =
      mset (map fst (filter (\<lambda>e. if condemned t now q then live e
                                 else verdict t now (unconsumed_of q) (snd e) \<noteq> KAT_OK) (jobs_of q))) \<and>
    map fst (jobs_of q') = map fst (jobs_of q) \<and>
    (if condemned t now q then qj_state q' = CS_Draining \<and> filter live (jobs_of q') = []
     else qj_state q' = qj_state q \<and>
          map fst (filter live (jobs_of q')) =
          map fst (filter (\<lambda>e. live e \<and> verdict t now (unconsumed_of q) (snd e) = KAT_OK) (jobs_of q)))"
proof -
  note W = expire_jobs_whole [OF assms]
  show ?thesis
  proof (cases "condemned t now q")
    case True
    define js where "js = examined t now (unconsumed_of q) (jobs_of q)"
    define rest where "rest = drop 1 (dropWhile (harmless t now (unconsumed_of q)) (jobs_of q))"
    have "map fst ex = map fst (filter (\<lambda>e. verdict t now (unconsumed_of q) (snd e) \<noteq> KAT_OK) js @
                  filter live (map (touch t now (unconsumed_of q)) js @ rest))"
      using W(2) True unfolding js_def [symmetric] rest_def [symmetric]
      by (simp only: if_True map_append reports_fst fail_remaining_snd)
    also have "mset \<dots> = mset (map fst (filter live (js @ rest)))" by (rule condemned_split)
    also have "js @ rest = jobs_of q" using W(4) by (simp add: js_def rest_def)
    finally have "mset (map fst ex) = mset (map fst (filter live (jobs_of q)))" .
    moreover have "filter live (jobs_of q') = []"
      using W(1) True by (auto simp: filter_empty_conv live_def cancel_owned_def)
    moreover have "map fst (jobs_of q') = map fst (jobs_of q)"
    proof -
      have "map fst (jobs_of q') = map fst (js @ rest)"
        using W(1) True by (simp add: js_def rest_def cancel_owned_def o_def)
      then show ?thesis by (simp only: \<open>js @ rest = jobs_of q\<close>)
    qed
    ultimately show ?thesis using True W(3) by simp
  next
    case False
    have "filter live (map (touch t now (unconsumed_of q)) js) =
        map (touch t now (unconsumed_of q))
          (filter (\<lambda>e. live e \<and> verdict t now (unconsumed_of q) (snd e) = KAT_OK) js)" for js
      by (induction js) (auto simp: live_def touch_cancelled)
    then show ?thesis
      using W False by (simp add: reports_fst o_def)
  qed
qed

definition get_job :: "nat \<Rightarrow> int \<Rightarrow> nat \<Rightarrow> job" where
  "get_job submitted sid progress =
     (let j = new_job sid (new_request ''GET'' ''u'') empty_url
      in j\<lparr>jb_stream_id := sid, jb_saw_headers := (progress \<noteq> 0),
           jb_clock := (jb_clock j)\<lparr>jc_submitted_at := submitted, jc_read_progress := progress\<rparr>\<rparr>)"

definition read_timeout_only :: quic_timeouts where
  "read_timeout_only = \<lparr>tm_connect = 0, tm_request = 0, tm_idle = 0, tm_dns = 0, tm_handshake = 0,
     tm_response_headers = 0, tm_read = 1, tm_write = 0, tm_call = 0, tm_consumer_stall = 0\<rparr>"

definition expiry_example :: quic_jobs where
  "expiry_example = new_quic_jobs\<lparr>qj_active := [(0, get_job 1 0 5), (1, get_job 1 4 2000000)],
                                  qj_pending := [(2, get_job 1 (-1) 0)]\<rparr>"

lemma expiry_reports_each_live_job_once_witness:
  "mset (map fst (fst (expire_jobs read_timeout_only 2000000 expiry_example))) = mset [2, 0, 1]"
proof -
  let ?r = "expire_jobs read_timeout_only 2000000 expiry_example"
  have c: "condemned read_timeout_only 2000000 expiry_example"
    unfolding condemned_def by code_simp
  have l: "map fst (filter live (jobs_of expiry_example)) = [2, 0, 1]" by code_simp
  from expiry_reports_each_live_job_once [of read_timeout_only 2000000 expiry_example "fst ?r" "snd ?r"]
  have "mset (map fst (fst ?r)) = mset (map fst (filter live (jobs_of expiry_example)))"
    using c by simp
  with l show ?thesis by simp
qed

text \<open>
  \<^verbatim>\<open>completed\<close> is not looked at: a job whose response has ended, and whose stream is still open for the
  rest of its upload, has a read timeout that fails every other job of the connection.
\<close>

lemma completed_job_condemns_connection:
  "map (\<lambda>(p, j, e). (p, jb_completed j, e))
     (fst (expire_jobs read_timeout_only 2000000
        (new_quic_jobs\<lparr>qj_active := [(0, (get_job 1 0 5)\<lparr>jb_completed := True\<rparr>),
                                     (1, get_job 1 4 2000000)]\<rparr>)))
   = [(0, True, ERR_READ_TIMEOUT), (1, False, ERR_QUIC)]"
  by code_simp

subsection \<open>The defaults\<close>

lemma timeout_defaults:
  "let d = default_timeouts t; pick = (\<lambda>a b. if a = (0::nat) then b else a) in
     tm_connect d = tm_connect t \<and> tm_request d = tm_request t \<and> tm_idle d = tm_idle t \<and>
     tm_dns d = pick (tm_dns t) (tm_connect t) \<and>
     tm_handshake d = pick (tm_handshake t) (tm_connect t) \<and>
     tm_response_headers d = pick (tm_response_headers t) (tm_request t) \<and>
     tm_read d = pick (tm_read t) (tm_idle t) \<and> tm_write d = pick (tm_write t) (tm_idle t) \<and>
     tm_call d = pick (tm_call t) (tm_request t) \<and>
     tm_consumer_stall d = pick (tm_consumer_stall t) (pick (tm_read t) (tm_idle t))"
  by (cases t) (simp add: default_timeouts_def)

end
