(* ===== verification/Quic_System.thy ===== *)
theory Quic_System
  imports Quic_Timeouts
begin

text \<open>
  A connection as a transition system.  Its worker runs the operations of \<open>Quic_Jobs\<close> and
  \<open>Quic_Timeouts\<close> one after the other, as the event loop and the callbacks of ngtcp2 and nghttp3 call
  them; other threads submit, cancel and append to a body between them, and the engine writes its own
  fields of a job while it handles a note.  The second component of a state tells whether the worker
  runs; it ends by failing the jobs or by leaving its loop.
\<close>

type_synonym quic_state = "quic_jobs \<times> bool"

text \<open>What no callback changes of a job.\<close>

definition same_core :: "job \<Rightarrow> job \<Rightarrow> bool" where
  "same_core j j' \<longleftrightarrow>
     jb_id j' = jb_id j \<and> jb_request j' = jb_request j \<and> jb_stream_id j' = jb_stream_id j"

inductive quic_trans :: "quic_state \<Rightarrow> job_note list \<Rightarrow> quic_state \<Rightarrow> bool" where
  Q_submit: "quic_trans (q, r) [] (snd (submit_job now j q), r)"
| Q_cancel: "quic_trans (q, r) [] (snd (cancel_job request_id q), r)"
| Q_append: "quic_trans (q, r) [] (snd (append_request_body request_id data fin q), r)"
| Q_engine: "same_core j j' \<Longrightarrow> deref p q = Some j \<Longrightarrow>
    quic_trans (q, True) []
      (q\<lparr>qj_pending := update_at p (\<lambda>_. j') (qj_pending q),
         qj_active := update_at p (\<lambda>_. j') (qj_active q)\<rparr>, True)"
| Q_session: "\<not> qj_confirmed q \<Longrightarrow> start_session early codec_ok env q = (notes, q') \<Longrightarrow>
    quic_trans (q, True) notes (q', True)"
| Q_adopt: "adopt_session codec_ok env q = (ok, notes, q') \<Longrightarrow> quic_trans (q, True) notes (q', True)"
| Q_discard: "quic_trans (q, True) [] (discard_session q, True)"
| Q_completed: "on_handshake_completed codec_ok env q = (ok, notes, q') \<Longrightarrow>
    quic_trans (q, True) notes (q', True)"
| Q_confirmed: "on_handshake_confirmed env q = (notes, q') \<Longrightarrow> quic_trans (q, True) notes (q', True)"
| Q_rejected: "quic_trans (q, True) [] (on_early_data_rejected q, True)"
| Q_try: "try_submit_pending env q = (notes, q') \<Longrightarrow> quic_trans (q, True) notes (q', True)"
| Q_begin: "begin_headers_cb sid q = Some (notes, q') \<Longrightarrow> quic_trans (q, True) notes (q', True)"
| Q_field: "recv_header_cb sid n v q = Some (notes, q') \<Longrightarrow> quic_trans (q, True) notes (q', True)"
| Q_head: "end_headers_cb sid now q = Some (notes, q') \<Longrightarrow> quic_trans (q, True) notes (q', True)"
| Q_data: "recv_data_cb sid now data q = Some (notes, q') \<Longrightarrow> quic_trans (q, True) notes (q', True)"
| Q_end: "end_stream_cb sid q = Some (notes, q') \<Longrightarrow> quic_trans (q, True) notes (q', True)"
| Q_close: "(known \<longleftrightarrow> find_job sid q \<noteq> None) \<Longrightarrow> on_stream_close known sid q = Some (notes, q') \<Longrightarrow>
    quic_trans (q, True) notes (q', True)"
| Q_goaway: "on_goaway notice sid q = (notes, q') \<Longrightarrow> quic_trans (q, True) notes (q', True)"
| Q_progress: "quic_trans (q, True) [] (note_write_progress now sid q, True)"
| Q_wakeup: "process_wakeup_streams q = (resets, resumes, q') \<Longrightarrow> quic_trans (q, True) [] (q', True)"
| Q_expire: "expire_requests t now q = (notes, q') \<Longrightarrow> quic_trans (q, True) notes (q', True)"
| Q_fail: "fail_all_pending err q = (notes, q') \<Longrightarrow> quic_trans (q, True) notes (q', False)"
| Q_leave: "quic_trans (q, True) [] (q, False)"

text \<open>The rule \<open>Q_close\<close> relies on nghttp3: it calls back for the streams a request was submitted on and
  that it has not closed, which are those the stream map holds.\<close>

subsection \<open>The invariant\<close>

definition addresses :: "quic_jobs \<Rightarrow> nat list" where
  "addresses q = map fst (qj_pending q @ qj_active q)"

definition quic_inv :: "quic_jobs \<Rightarrow> bool" where
  "quic_inv q \<longleftrightarrow>
     distinct (addresses q) \<and> (\<forall>p\<in>set (addresses q). p < qj_next q) \<and>
     (\<forall>sid p. qj_streams q sid = Some p \<longrightarrow>
        (\<exists>j. (p, j) \<in> set (qj_active q) \<and> jb_stream_id j = sid \<and>
             (qj_early q \<and> \<not> qj_confirmed q \<longrightarrow> is_0rtt_replay_safe j))) \<and>
     ((\<exists>sid. qj_streams q sid \<noteq> None) \<longrightarrow> qj_session q \<and> qj_codec q)"

definition quic_state_inv :: "quic_state \<Rightarrow> bool" where
  "quic_state_inv s \<longleftrightarrow> snd s \<longrightarrow> quic_inv (fst s)"

lemma quic_invI:
  assumes "distinct (addresses q)" "\<And>p. p \<in> set (addresses q) \<Longrightarrow> p < qj_next q"
    and "\<And>sid p. qj_streams q sid = Some p \<Longrightarrow>
        \<exists>j. (p, j) \<in> set (qj_active q) \<and> jb_stream_id j = sid \<and>
             (qj_early q \<and> \<not> qj_confirmed q \<longrightarrow> is_0rtt_replay_safe j)"
    and "\<And>sid p. qj_streams q sid = Some p \<Longrightarrow> qj_session q \<and> qj_codec q"
  shows "quic_inv q"
  using assms unfolding quic_inv_def by fastforce

lemma quic_inv_stream:
  "quic_inv q \<Longrightarrow> qj_streams q sid = Some p \<Longrightarrow>
     \<exists>j. (p, j) \<in> set (qj_active q) \<and> jb_stream_id j = sid \<and>
         (qj_early q \<and> \<not> qj_confirmed q \<longrightarrow> is_0rtt_replay_safe j)"
  unfolding quic_inv_def by blast

lemma quic_inv_session: "quic_inv q \<Longrightarrow> qj_streams q sid = Some p \<Longrightarrow> qj_session q \<and> qj_codec q"
  unfolding quic_inv_def by blast

lemma quic_inv_distinct: "quic_inv q \<Longrightarrow> distinct (addresses q)"
  by (simp add: quic_inv_def)

lemma deref_unique:
  assumes "distinct (addresses q)" "(p, j) \<in> set (qj_pending q @ qj_active q)"
  shows "deref p q = Some j"
  using assms unfolding deref_def addresses_def by (rule map_of_is_SomeI)

text \<open>A state that only changes jobs in place keeps the invariant if it keeps the core of each.\<close>

lemma replay_safe_core: "same_core j j' \<Longrightarrow> is_0rtt_replay_safe j' = is_0rtt_replay_safe j"
  by (simp add: same_core_def is_0rtt_replay_safe_def)

definition same_entry :: "nat \<times> job \<Rightarrow> nat \<times> job \<Rightarrow> bool" where
  "same_entry e e' \<longleftrightarrow> fst e' = fst e \<and> same_core (snd e) (snd e')"

abbreviation same_entries :: "owned \<Rightarrow> owned \<Rightarrow> bool" where
  "same_entries \<equiv> list_all2 same_entry"

lemma same_core_refl [simp]: "same_core j j"
  by (simp add: same_core_def)

lemma same_core_updates [simp]:
  "same_core j (j\<lparr>jb_cancelled := b\<rparr>)" "same_core j (j\<lparr>jb_clock := c\<rparr>)" "same_core j (j\<lparr>jb_upload := u\<rparr>)"
  "same_core j (j\<lparr>jb_credit := k\<rparr>)" "same_core j (j\<lparr>jb_credit := k, jb_cancelled := b\<rparr>)"
  "same_core j (j\<lparr>jb_clock := c, jb_credit := k\<rparr>)" "same_core j (j\<lparr>jb_completed := b\<rparr>)"
  by (simp_all add: same_core_def)

lemma same_entry_pair [simp]: "same_entry (p, j) (a, j') \<longleftrightarrow> a = p \<and> same_core j j'"
  by (simp add: same_entry_def)

lemma same_entry_refl [simp]: "same_entry e e"
  by (cases e) simp

lemma same_entries_refl [simp]: "same_entries js js"
  by (simp add: list_all2_same)

lemma core_fst: "same_entries js js' \<Longrightarrow> map fst js' = map fst js"
  by (induction rule: list_all2_induct) (auto simp: same_entry_def)

lemma same_entries_map: "(\<And>e. e \<in> set js \<Longrightarrow> same_entry e (g e)) \<Longrightarrow> same_entries js (map g js)"
  by (simp add: list.rel_map list_all2_same)

lemma quic_inv_core_map:
  assumes inv: "quic_inv q"
    and act: "same_entries (qj_active q) (qj_active q')"
    and pend: "map fst (qj_pending q') = map fst (qj_pending q)"
    and same: "qj_next q' = qj_next q" "qj_streams q' = qj_streams q" "qj_session q' = qj_session q"
      "qj_codec q' = qj_codec q" "qj_early q' = qj_early q" "qj_confirmed q' = qj_confirmed q"
  shows "quic_inv q'"
proof -
  have fsts: "map fst (qj_active q') = map fst (qj_active q)"
    by (rule core_fst [OF act])
  then have addr: "addresses q' = addresses q" using pend by (simp add: addresses_def)
  have corr: "\<exists>j'. (p, j') \<in> set (qj_active q') \<and> same_core j j'" if "(p, j) \<in> set (qj_active q)" for p j
    using act that by (induction rule: list_all2_induct) (auto simp: same_entry_def)
  show ?thesis
  proof (rule quic_invI)
    fix sid p assume "qj_streams q' sid = Some p"
    then obtain j where j: "(p, j) \<in> set (qj_active q)" "jb_stream_id j = sid"
      "qj_early q \<and> \<not> qj_confirmed q \<longrightarrow> is_0rtt_replay_safe j"
      using quic_inv_stream [OF inv, of sid p] same by auto
    obtain j' where j': "(p, j') \<in> set (qj_active q')" "same_core j j'" using corr [OF j(1)] by blast
    have "jb_stream_id j' = sid" using j'(2) j(2) by (simp add: same_core_def)
    moreover have "is_0rtt_replay_safe j' = is_0rtt_replay_safe j" by (rule replay_safe_core [OF j'(2)])
    ultimately show "\<exists>j. (p, j) \<in> set (qj_active q') \<and> jb_stream_id j = sid \<and>
             (qj_early q' \<and> \<not> qj_confirmed q' \<longrightarrow> is_0rtt_replay_safe j)"
      using j(3) j'(1) same(5,6) by blast
    next
    show "distinct (addresses q')" using quic_inv_distinct [OF inv] addr by simp
  next
    show "\<And>p. p \<in> set (addresses q') \<Longrightarrow> p < qj_next q'" using inv addr same unfolding quic_inv_def by simp
  next
    show "\<And>sid p. qj_streams q' sid = Some p \<Longrightarrow> qj_session q' \<and> qj_codec q'"
      using quic_inv_session [OF inv] same by simp
  qed
qed

lemma update_at_fst [simp]: "map fst (update_at p f js) = map fst js"
  by (simp add: update_at_def o_def case_prod_unfold)

lemma quic_inv_update:
  assumes "quic_inv q" "deref p q = Some j" "same_core j j'"
  shows "quic_inv (q\<lparr>qj_pending := update_at p (\<lambda>_. j') (qj_pending q),
                     qj_active := update_at p (\<lambda>_. j') (qj_active q)\<rparr>)"
proof (rule quic_inv_core_map [OF assms(1)])
  have "\<And>a j0. (a, j0) \<in> set (qj_active q) \<Longrightarrow> a = p \<Longrightarrow> j0 = j"
    using deref_unique [OF quic_inv_distinct [OF assms(1)]] assms(2) by fastforce
  then show "same_entries (qj_active q)
     (qj_active (q\<lparr>qj_pending := update_at p (\<lambda>_. j') (qj_pending q),
                   qj_active := update_at p (\<lambda>_. j') (qj_active q)\<rparr>))"
    using assms(3) by (auto simp: update_at_def intro!: same_entries_map)
qed simp_all

lemma on_stream_inv:
  assumes "quic_inv q" "on_stream sid f q = Some (notes, q')"
    and "\<And>j notes j'. f j = Some (notes, j') \<Longrightarrow> same_core j j'"
  shows "quic_inv q'"
  using assms by (auto simp: on_stream_def quic_inv_update split: option.splits)

text \<open>The pointer of a mapped stream is never dangling, so a callback fails only by its own check.\<close>

lemma mapped_stream_deref:
  assumes "quic_inv q" "find_job sid q = Some p"
  shows "\<exists>j. deref p q = Some j \<and> jb_stream_id j = sid"
  using quic_inv_stream [OF assms(1), of sid p] deref_unique [OF quic_inv_distinct [OF assms(1)]] assms(2)
  by (auto simp: find_job_def)

subsection \<open>Opening streams keeps the invariant\<close>

lemma quic_inv_drop:
  assumes "quic_inv (q\<lparr>qj_pending := (p, j) # rest\<rparr>)"
  shows "quic_inv (q\<lparr>qj_pending := rest\<rparr>)"
  using assms by (auto simp: quic_inv_def addresses_def)

lemma quic_inv_move:
  assumes inv: "quic_inv (q\<lparr>qj_pending := (p, j) # rest\<rparr>)" and up: "qj_session q" "qj_codec q"
    and safe: "qj_early q \<and> \<not> qj_confirmed q \<longrightarrow> is_0rtt_replay_safe j'" and sid: "jb_stream_id j' = sid"
  shows "quic_inv (q\<lparr>qj_streams := (qj_streams q)(sid \<mapsto> p), qj_active := qj_active q @ [(p, j')],
                     qj_pending := rest\<rparr>)"
proof (rule quic_invI)
  fix s a assume a: "qj_streams (q\<lparr>qj_streams := (qj_streams q)(sid \<mapsto> p), qj_active := qj_active q @ [(p, j')],
                     qj_pending := rest\<rparr>) s = Some a"
  then show "\<exists>j. (a, j) \<in> set (qj_active (q\<lparr>qj_streams := (qj_streams q)(sid \<mapsto> p), qj_active := qj_active q @ [(p, j')],
                     qj_pending := rest\<rparr>)) \<and> jb_stream_id j = s \<and>
             (qj_early (q\<lparr>qj_streams := (qj_streams q)(sid \<mapsto> p), qj_active := qj_active q @ [(p, j')],
                     qj_pending := rest\<rparr>) \<and>
              \<not> qj_confirmed (q\<lparr>qj_streams := (qj_streams q)(sid \<mapsto> p), qj_active := qj_active q @ [(p, j')],
                     qj_pending := rest\<rparr>) \<longrightarrow> is_0rtt_replay_safe j)"
    using quic_inv_stream [OF inv, of s a] safe sid by (auto split: if_splits)
qed (use inv up in \<open>auto simp: quic_inv_def addresses_def\<close>)

text \<open>The cases of one turn of the loop.\<close>

lemma submit_loop_Cons:
  assumes "submit_loop env n ((p, j) # rest) q = (stay, q', failed)"
  obtains (skip) "jb_cancelled j" "submit_loop env n rest q = (stay, q', failed)"
  | (break) "stay = (p, j) # rest" "q' = q" "failed = []"
  | (fail) j1 e f where "submit_loop env (Suc n) rest q = (stay, q', f)" "failed = (j1, e) # f" "jb_id j1 = jb_id j"
  | (move) sid j1 where
      "qj_early q \<and> \<not> qj_confirmed q \<longrightarrow> is_0rtt_replay_safe j"
      "j1 = j\<lparr>jb_stream_id := sid, jb_http3_ready := True, jb_committed := True\<rparr>"
      "submit_loop env (Suc n) rest
         (q\<lparr>qj_streams := (qj_streams q)(sid \<mapsto> p), qj_active := qj_active q @ [(p, j1)]\<rparr>)
       = (stay, q', failed)" "\<not> jb_cancelled j"
proof (cases "jb_cancelled j")
  case True
  then show thesis using assms skip by simp
next
  case nc: False
  show thesis
  proof (cases "qj_early q \<and> \<not> qj_confirmed q \<and> \<not> is_0rtt_replay_safe j")
    case True
    then show thesis using assms break nc by simp
  next
    case safe: False
    obtain st1 q1 f1 where r: "submit_loop env (Suc n) rest q = (st1, q1, f1)" by (metis prod_cases3)
    show thesis
    proof (cases "env n")
      case Open_blocked
      show thesis by (rule break) (use assms nc safe Open_blocked in simp_all)
    next
      case Open_failed
      then have "st1 = stay" "q1 = q'" "failed = (j, ERR_QUIC) # f1" using assms nc safe r by simp_all
      then show thesis using r fail by blast
    next
      case (Open_ok sid ok)
      show thesis
      proof (cases ok)
        case False
        then have "st1 = stay" "q1 = q'"
          "failed = (j\<lparr>jb_stream_id := sid, jb_http3_ready := True\<rparr>, ERR_HTTP3) # f1"
          using assms nc safe r Open_ok by simp_all
        then show thesis using r fail [of f1 "j\<lparr>jb_stream_id := sid, jb_http3_ready := True\<rparr>" ERR_HTTP3] by simp
      next
        case True
        show thesis
          by (rule move [OF _ refl, where sid = sid]) (use assms nc safe Open_ok True in \<open>auto simp: map_stream_def\<close>)
      qed
    qed
  qed
qed

lemma submit_loop_inv:
  assumes "submit_loop env n js q = (stay, q', failed)" "quic_inv (q\<lparr>qj_pending := js\<rparr>)"
    and "qj_session q" "qj_codec q"
  shows "quic_inv (q'\<lparr>qj_pending := stay\<rparr>)"
  using assms
proof (induction js arbitrary: n q failed)
  case (Cons e rest)
  obtain p j where e: "e = (p, j)" by (cases e)
  note drop = quic_inv_drop [OF Cons.prems(2) [unfolded e]]
  from Cons.prems(1) [unfolded e] show ?case
  proof (cases rule: submit_loop_Cons)
    case skip
    then show ?thesis using Cons.IH drop Cons.prems by blast
  next
    case break
    then show ?thesis using Cons.prems e by simp
  next
    case (fail j1 e f)
    then show ?thesis using Cons.IH drop Cons.prems by blast
  next
    case (move sid j1)
    have "is_0rtt_replay_safe j1 = is_0rtt_replay_safe j" unfolding move(2) by (simp add: is_0rtt_replay_safe_def)
    then have "quic_inv (q\<lparr>qj_streams := (qj_streams q)(sid \<mapsto> p), qj_active := qj_active q @ [(p, j1)],
                     qj_pending := rest\<rparr>)"
      using move(1,2) Cons.prems(3,4) by (intro quic_inv_move [OF Cons.prems(2) [unfolded e]]) auto
    then show ?thesis
      by (intro Cons.IH [OF move(3)]) (use Cons.prems in simp_all)
  qed
qed simp

lemma submit_loop_keeps:
  assumes "submit_loop env n js q = (stay, q', failed)"
  shows "qj_next q' = qj_next q \<and> qj_early q' = qj_early q \<and> qj_confirmed q' = qj_confirmed q \<and>
     qj_session q' = qj_session q \<and> qj_codec q' = qj_codec q \<and> qj_state q' = qj_state q \<and>
     qj_pending q' = qj_pending q"
  using assms
proof (induction js arbitrary: n q failed)
  case (Cons e rest)
  obtain p j where e: "e = (p, j)" by (cases e)
  from Cons.prems [unfolded e] show ?case
  proof (cases rule: submit_loop_Cons)
    case (move sid j1)
    from Cons.IH [OF move(3)] show ?thesis by simp
  qed (use Cons.IH in blast)+
qed simp

lemma try_submit_inv:
  assumes "try_submit_pending env q = (notes, q')" "quic_inv q"
  shows "quic_inv q' \<and> qj_confirmed q' = qj_confirmed q \<and> qj_early q' = qj_early q"
proof (cases "is_draining q \<or> \<not> qj_ready q \<or> \<not> qj_session q \<or> \<not> qj_codec q")
  case True
  then show ?thesis using assms by (auto simp: try_submit_pending_def split: if_splits)
next
  case False
  obtain stay q1 failed where s: "submit_loop env 0 (qj_pending q) q = (stay, q1, failed)"
    by (metis prod_cases3)
  then have q': "q' = q1\<lparr>qj_pending := stay\<rparr>"
    using assms False by (auto simp: try_submit_pending_def)
  have "quic_inv q'" unfolding q'
    by (rule submit_loop_inv [OF s]) (use assms False in auto)
  then show ?thesis using submit_loop_keeps [OF s] q' by simp
qed

subsection \<open>Every step keeps the invariant\<close>

lemma quic_inv_fields:
  assumes "quic_inv q" "qj_next q' = qj_next q" "addresses q' = addresses q" "qj_active q' = qj_active q"
    "qj_streams q' = qj_streams q" "qj_session q \<and> qj_codec q \<longrightarrow> qj_session q' \<and> qj_codec q'"
    "qj_early q' \<and> \<not> qj_confirmed q' \<longrightarrow> qj_early q \<and> \<not> qj_confirmed q"
  shows "quic_inv q'"
proof (rule quic_invI)
  fix sid p assume "qj_streams q' sid = Some p"
  then show "\<exists>j. (p, j) \<in> set (qj_active q') \<and> jb_stream_id j = sid \<and>
             (qj_early q' \<and> \<not> qj_confirmed q' \<longrightarrow> is_0rtt_replay_safe j)"
    and "qj_session q' \<and> qj_codec q'"
    using quic_inv_stream [OF assms(1), of sid p] quic_inv_session [OF assms(1), of sid p] assms by auto
qed (use assms in \<open>simp_all add: quic_inv_def\<close>)

lemma no_streams_inv:
  "quic_inv q \<Longrightarrow> addresses q' = addresses q \<Longrightarrow> qj_next q' = qj_next q \<Longrightarrow> qj_streams q' = (\<lambda>_. None) \<Longrightarrow>
     quic_inv q'"
  by (simp add: quic_inv_def)

lemma submit_job_inv:
  assumes "quic_inv q"
  shows "quic_inv (snd (submit_job now j q))"
proof (rule quic_invI)
  let ?q = "snd (submit_job now j q)"
  have fresh: "qj_next q \<notin> set (addresses q)" using assms unfolding quic_inv_def by fastforce
  show "distinct (addresses ?q)"
    using quic_inv_distinct [OF assms] fresh
    by (auto simp: submit_job_def claim_after_enqueue_def addresses_def Let_def)
  show "\<And>p. p \<in> set (addresses ?q) \<Longrightarrow> p < qj_next ?q"
  proof -
    have "set (addresses ?q) = insert (qj_next q) (set (addresses q))" "qj_next ?q = Suc (qj_next q)"
      by (auto simp: submit_job_def claim_after_enqueue_def addresses_def Let_def)
    then show "p \<in> set (addresses ?q) \<Longrightarrow> p < qj_next ?q" for p
      using assms unfolding quic_inv_def by (metis insertE less_Suc_eq)
  qed
  fix sid p assume "qj_streams ?q sid = Some p"
  then show "\<exists>j. (p, j) \<in> set (qj_active ?q) \<and> jb_stream_id j = sid \<and>
             (qj_early ?q \<and> \<not> qj_confirmed ?q \<longrightarrow> is_0rtt_replay_safe j)"
    and "qj_session ?q \<and> qj_codec ?q"
    using quic_inv_stream [OF assms, of sid p] quic_inv_session [OF assms, of sid p]
    by (auto simp: submit_job_def claim_after_enqueue_def Let_def)
qed

lemma cancel_first_core: "cancel_first i js = Some js' \<Longrightarrow> same_entries js js'"
  by (induction js arbitrary: js') (auto split: if_splits)

lemma core_update_at: "(\<And>j. same_core j (f j)) \<Longrightarrow> same_entries js (update_at p f js)"
  by (auto simp: update_at_def intro!: same_entries_map)

lemma cancel_job_inv:
  assumes "quic_inv q"
  shows "quic_inv (snd (cancel_job i q))"
  by (rule quic_inv_core_map [OF assms])
     (auto simp: cancel_job_def core_fst cancel_first_core split: option.splits)

lemma append_inv:
  assumes "quic_inv q"
  shows "quic_inv (snd (append_request_body i data fin q))"
  by (rule quic_inv_core_map [OF assms])
     (auto simp: append_request_body_def Let_def intro!: core_update_at split: list.splits prod.splits)

lemma note_write_progress_inv:
  assumes "quic_inv q"
  shows "quic_inv (note_write_progress now sid q)"
  by (rule quic_inv_core_map [OF assms])
     (auto simp: note_write_progress_def intro!: core_update_at split: option.splits)

lemma goaway_inv:
  assumes "quic_inv q" "on_goaway notice sid q = (notes, q')"
  shows "quic_inv q'"
  by (rule quic_inv_core_map [OF assms(1)])
     (use assms(2) in \<open>auto simp: on_goaway_def Let_def intro!: same_entries_map\<close>)

lemma collect_expired_core: "same_entries js (fst (collect_expired t now u js tr))"
proof (induction js arbitrary: tr)
  case (Cons e js)
  obtain p j where e: "e = (p, j)" by (cases e)
  have IH: "same_entries js (fst (collect_expired t now u js tr'))" for tr' by (rule Cons.IH)
  show ?case
    using IH [of tr] IH [of False] IH [of "condemns_connection (expiry_error t now u j)"]
    by (cases "collect_expired t now u js tr"; cases "collect_expired t now u js False";
        cases "collect_expired t now u js (condemns_connection (expiry_error t now u j))")
       (simp add: e Let_def)
qed simp

lemma cancel_entries:
  assumes "same_entries xs ys"
  shows "same_entries xs (map cancel_owned ys)"
  using assms by (induction rule: list_all2_induct) (auto simp: cancel_owned_def same_entry_def same_core_def)

lemma expire_entries:
  assumes "expire_requests t now q = (notes, q')"
  shows "same_entries (qj_pending q) (qj_pending q')" "same_entries (qj_active q) (qj_active q')"
    "qj_next q' = qj_next q \<and> qj_streams q' = qj_streams q \<and> qj_session q' = qj_session q \<and>
     qj_codec q' = qj_codec q \<and> qj_early q' = qj_early q \<and> qj_confirmed q' = qj_confirmed q"
proof -
  let ?u = "connection_unconsumed (qj_active q)"
  obtain p1 t1 e1 where 1: "collect_expired t now ?u (qj_pending q) False = (p1, t1, e1)"
    by (metis prod_cases3)
  obtain p2 t2 e2 where 2: "collect_expired t now ?u (qj_active q) t1 = (p2, t2, e2)"
    by (metis prod_cases3)
  have c: "same_entries (qj_pending q) p1" "same_entries (qj_active q) p2"
    using collect_expired_core [of "qj_pending q" t now ?u False] 1
      collect_expired_core [of "qj_active q" t now ?u t1] 2 by auto
  have q': "q' = (if t2 then q\<lparr>qj_pending := map cancel_owned p1, qj_active := map cancel_owned p2,
                              qj_state := CS_Draining\<rparr>
                  else q\<lparr>qj_pending := p1, qj_active := p2\<rparr>)"
    using assms 1 2 by (auto simp: expire_requests_def expire_jobs_def fail_remaining_def Let_def split: if_splits)
  show "same_entries (qj_pending q) (qj_pending q')" "same_entries (qj_active q) (qj_active q')"
    using c cancel_entries by (simp_all add: q')
  show "qj_next q' = qj_next q \<and> qj_streams q' = qj_streams q \<and> qj_session q' = qj_session q \<and>
     qj_codec q' = qj_codec q \<and> qj_early q' = qj_early q \<and> qj_confirmed q' = qj_confirmed q"
    by (simp add: q')
qed

lemma expire_inv:
  assumes "quic_inv q" "expire_requests t now q = (notes, q')"
  shows "quic_inv q'"
  using expire_entries [OF assms(2)] by (intro quic_inv_core_map [OF assms(1)]) (auto simp: core_fst)

lemma erase_stream_subset: "set (erase_stream sid js) \<subseteq> set js"
  by (induction js rule: erase_stream.induct) auto

lemma erase_stream_keeps: "(p, j) \<in> set js \<Longrightarrow> jb_stream_id j \<noteq> sid \<Longrightarrow> (p, j) \<in> set (erase_stream sid js)"
  by (induction js rule: erase_stream.induct) auto

lemma erase_stream_distinct: "distinct (xs @ map fst js) \<Longrightarrow> distinct (xs @ map fst (erase_stream sid js))"
proof (induction js arbitrary: xs rule: erase_stream.induct)
  case (2 sid p j rest)
  show ?case
  proof (cases "jb_stream_id j = sid")
    case False
    then have "distinct ((xs @ [p]) @ map fst (erase_stream sid rest))"
      using 2 by (intro "2.IH") auto
    then show ?thesis using False by simp
  qed (use 2 in auto)
qed simp

lemma erase_stream_inv:
  assumes inv: "quic_inv q" and un: "qj_streams q sid = None"
  shows "quic_inv (q\<lparr>qj_active := erase_stream sid (qj_active q)\<rparr>)"
proof (rule quic_invI)
  let ?q = "q\<lparr>qj_active := erase_stream sid (qj_active q)\<rparr>"
  show "distinct (addresses ?q)"
    using erase_stream_distinct [of "map fst (qj_pending q)" "qj_active q" sid] quic_inv_distinct [OF inv]
    by (simp add: addresses_def)
  have "set (addresses ?q) \<subseteq> set (addresses q)"
    using erase_stream_subset [of sid "qj_active q"] by (auto simp: addresses_def)
  then show "\<And>p. p \<in> set (addresses ?q) \<Longrightarrow> p < qj_next ?q"
    using inv unfolding quic_inv_def by auto
  fix s p assume s: "qj_streams ?q s = Some p"
  then have "s \<noteq> sid" using un by auto
  then show "\<exists>j. (p, j) \<in> set (qj_active ?q) \<and> jb_stream_id j = s \<and>
             (qj_early ?q \<and> \<not> qj_confirmed ?q \<longrightarrow> is_0rtt_replay_safe j)"
    using quic_inv_stream [OF inv, of s p] s erase_stream_keeps by fastforce
  show "qj_session ?q \<and> qj_codec ?q" using quic_inv_session [OF inv, of s p] s by simp
qed

lemma unmap_inv: "quic_inv q \<Longrightarrow> quic_inv (unmap_stream sid q)"
  unfolding unmap_stream_def
  by (rule quic_invI)
     (auto simp: addresses_def quic_inv_def split: if_splits)

lemma stop_inv: "quic_inv q \<Longrightarrow> quic_inv (q\<lparr>qj_stop := b\<rparr>)"
  by (erule quic_inv_fields) (simp_all add: addresses_def)

lemma stream_close_inv:
  assumes inv: "quic_inv q" and known: "known \<longleftrightarrow> find_job sid q \<noteq> None"
    and c: "on_stream_close known sid q = Some (notes, q')"
  shows "quic_inv q'"
proof -
  obtain n1 q1 where q1: "quic_inv q1" "qj_streams q1 sid = None"
    and q': "q' = (let q2 = q1\<lparr>qj_active := erase_stream sid (qj_active q1)\<rparr>
                   in if is_draining q2 \<and> qj_active q2 = [] then q2\<lparr>qj_stop := True\<rparr> else q2)"
  proof (cases "find_job sid q")
    case None
    then show thesis using that [OF inv] c known by (auto simp: on_stream_close_def find_job_def Let_def)
  next
    case (Some p)
    then have "qj_session q \<and> qj_codec q" using quic_inv_session [OF inv] by (simp add: find_job_def)
    then obtain n2 q2 where st: "on_stream sid (\<lambda>j. Some (if \<not> jb_completed j then [Nt_error j (close_error j)] else [], j)) q
         = Some (n2, q2)" and "q' = (let q2 = (unmap_stream sid q2)\<lparr>qj_active := erase_stream sid (qj_active (unmap_stream sid q2))\<rparr>
                   in if is_draining q2 \<and> qj_active q2 = [] then q2\<lparr>qj_stop := True\<rparr> else q2)"
      using c known Some by (auto simp: on_stream_close_def stream_close_cb_def Let_def split: option.splits)
    moreover have "quic_inv q2" by (rule on_stream_inv [OF inv st]) auto
    ultimately show thesis using that [of "unmap_stream sid q2"] unmap_inv by (auto simp: unmap_stream_def)
  qed
  show ?thesis using erase_stream_inv [OF q1] stop_inv q' by (auto simp: Let_def)
qed

lemma rejected_inv:
  assumes "quic_inv q"
  shows "quic_inv (on_early_data_rejected q)"
proof (cases "qj_early q")
  case True
  let ?q = "on_early_data_rejected q"
  have "map fst (qj_pending ?q) = addresses q" "qj_active ?q = []" "qj_streams ?q = (\<lambda>_. None)" "qj_next ?q = qj_next q"
    using True by (auto simp: on_early_data_rejected_def addresses_def)
  then show ?thesis using assms by (simp add: quic_inv_def addresses_def)
qed (use assms in \<open>simp add: on_early_data_rejected_def\<close>)

lemma confirmed_inv:
  assumes "quic_inv q" "on_handshake_confirmed env q = (notes, q')"
  shows "quic_inv q'"
proof -
  have "quic_inv (q\<lparr>qj_confirmed := True, qj_state := CS_Active\<rparr>)"
    "quic_inv (q\<lparr>qj_confirmed := True, qj_state := CS_Active, qj_precommit := False, qj_fallbacks := []\<rparr>)"
    by (rule quic_inv_fields [OF assms(1)]; simp add: addresses_def)+
  then show ?thesis
    using assms(2) try_submit_inv by (auto simp: on_handshake_confirmed_def Let_def split: if_splits)
qed

lemma completed_inv:
  assumes "quic_inv q" "on_handshake_completed codec_ok env q = (ok, notes, q')"
  shows "quic_inv q'"
proof -
  have "qj_session q \<Longrightarrow> quic_inv (q\<lparr>qj_codec := True, qj_ready := True\<rparr>)"
    by (rule quic_inv_fields [OF assms(1)]; simp add: addresses_def)
  then show ?thesis
    using assms try_submit_inv
    by (auto simp: on_handshake_completed_def Let_def split: if_splits prod.splits)
qed

lemma session_inv:
  assumes "quic_inv q" "\<not> qj_confirmed q" "start_session early codec_ok env q = (notes, q')"
  shows "quic_inv q'"
proof -
  let ?q1 = "q\<lparr>qj_early := early, qj_session := True, qj_codec := False, qj_streams := (\<lambda>_. None)\<rparr>"
  let ?q2 = "?q1\<lparr>qj_codec := True, qj_ready := True\<rparr>"
  have 1: "quic_inv ?q1" "quic_inv ?q2"
    by (rule no_streams_inv [OF assms(1)]; simp add: addresses_def)+
  obtain q3 where q3: "quic_inv q3" "\<not> qj_confirmed q3"
    and q': "q' = q3\<lparr>qj_confirmed := False, qj_state := CS_Connecting\<rparr>"
  proof (cases "early \<and> codec_ok \<and> \<not> qj_precommit q")
    case True
    obtain n3 q3 where t: "try_submit_pending env ?q2 = (n3, q3)" by (cases "try_submit_pending env ?q2")
    show thesis
      by (rule that [of q3])
         (use try_submit_inv [OF t 1(2)] assms(2,3) True t in \<open>auto simp: start_session_def Let_def\<close>)
  next
    case False
    then show thesis
      using that [OF 1(1)] that [OF 1(2)] assms(2,3)
      by (auto simp: start_session_def Let_def split: if_splits)
  qed
  show ?thesis unfolding q' by (rule quic_inv_fields [OF q3(1)]) (use q3(2) in \<open>auto simp: addresses_def\<close>)
qed

lemma adopt_inv:
  assumes "quic_inv q" "adopt_session codec_ok env q = (ok, notes, q')"
  shows "quic_inv q'" "addresses q' = addresses q"
proof -
  let ?q1 = "q\<lparr>qj_precommit := True, qj_session := True, qj_codec := False, qj_streams := (\<lambda>_. None),
                 qj_ready := False, qj_confirmed := False, qj_state := CS_Connecting\<rparr>"
  have c: "qj_streams q' = (\<lambda>_. None)" "qj_next q' = qj_next q" "addresses q' = addresses q"
    using assms(2)
    by (auto simp: adopt_session_def on_handshake_completed_def Let_def addresses_def split: if_splits)
  then show "quic_inv q'" by (intro no_streams_inv [OF assms(1)]) simp_all
  show "addresses q' = addresses q" by (rule c(3))
qed

lemma discard_inv: "quic_inv q \<Longrightarrow> quic_inv (discard_session q)"
  by (erule no_streams_inv) (simp_all add: discard_session_def addresses_def)

lemma wakeup_inv: "quic_inv q \<Longrightarrow> process_wakeup_streams q = (resets, resumes, q') \<Longrightarrow> quic_inv q'"
  by (erule quic_inv_fields) (auto simp: process_wakeup_streams_def Let_def addresses_def)

lemma same_core_recv_header: "recv_header n v j = Some j' \<Longrightarrow> same_core j j'"
  by (auto simp: recv_header_def same_core_def Let_def split: option.splits if_splits)

lemma same_core_end_headers: "end_headers now j = Some (told, j') \<Longrightarrow> same_core j j'"
  by (auto simp: end_headers_def reset_header_block_def same_core_def Let_def split: if_splits)

lemma callbacks_inv:
  assumes "quic_inv q"
  shows "begin_headers_cb sid q = Some (notes, q') \<Longrightarrow> quic_inv q'"
    "recv_header_cb sid n v q = Some (notes, q') \<Longrightarrow> quic_inv q'"
    "end_headers_cb sid now q = Some (notes, q') \<Longrightarrow> quic_inv q'"
    "recv_data_cb sid now data q = Some (notes, q') \<Longrightarrow> quic_inv q'"
    "end_stream_cb sid q = Some (notes, q') \<Longrightarrow> quic_inv q'"
  unfolding begin_headers_cb_def recv_header_cb_def end_headers_cb_def recv_data_cb_def end_stream_cb_def
  by (erule on_stream_inv [OF assms];
      auto simp: begin_headers_def reset_header_block_def recv_data_def Let_def
        dest: same_core_recv_header same_core_end_headers; simp add: same_core_def)+

lemmas quic_steps_inv = submit_job_inv cancel_job_inv append_inv quic_inv_update session_inv adopt_inv(1) discard_inv completed_inv
  confirmed_inv rejected_inv try_submit_inv callbacks_inv stream_close_inv goaway_inv
  note_write_progress_inv wakeup_inv expire_inv

lemma quic_trans_inv: "quic_trans s notes s' \<Longrightarrow> quic_state_inv s \<Longrightarrow> quic_state_inv s'"
  by (induction rule: quic_trans.induct) (auto simp: quic_state_inv_def dest: quic_steps_inv intro: quic_steps_inv)

definition quic_start :: "quic_state \<Rightarrow> bool" where
  "quic_start s \<longleftrightarrow> s = (new_quic_jobs, True)"

lemma quic_start_inv: "quic_start s \<Longrightarrow> quic_state_inv s"
  by (simp add: quic_start_def quic_state_inv_def new_quic_jobs_def quic_inv_def addresses_def)

interpretation connection: transition_system quic_start quic_trans quic_state_inv
  by unfold_locales (use quic_start_inv quic_trans_inv in blast)+

subsection \<open>Memory safety and 0-RTT\<close>

text \<open>Property C4: in every state a running connection can reach, no job is owned twice and the pointer
  nghttp3's callbacks find for a stream leads to a job that is still owned, is in the active list and
  carries that stream id: no callback touches a destroyed job or the job of another stream.\<close>

theorem streams_lead_to_live_jobs:
  assumes "reachable quic_start quic_trans (q, True)"
  shows "distinct (map fst (qj_pending q @ qj_active q)) \<and>
    (\<forall>sid p. find_job sid q = Some p \<longrightarrow>
       (\<exists>j. deref p q = Some j \<and> (p, j) \<in> set (qj_active q) \<and> jb_stream_id j = sid))"
proof -
  have inv: "quic_inv q" using connection.reachable_inv [OF assms] by (simp add: quic_state_inv_def)
  show ?thesis
    using quic_inv_distinct [OF inv] quic_inv_stream [OF inv] deref_unique [OF quic_inv_distinct [OF inv]]
    unfolding addresses_def find_job_def by (metis UnCI set_append)
qed

text \<open>Property C6: while early data is in use and the handshake is not confirmed, the only requests that
  have a stream are GET and HEAD without a body, without a streaming body and without credentials or
  cookies, whatever the application submitted and however often the connection was set up again.\<close>

theorem zero_rtt_requests_are_replay_safe:
  assumes "reachable quic_start quic_trans (q, True)" "qj_early q" "\<not> qj_confirmed q"
    and "find_job sid q = Some p"
  shows "\<exists>j. deref p q = Some j \<and> rq_method (jb_request j) \<in> {''GET'', ''HEAD''} \<and>
    rq_body (jb_request j) = [] \<and> \<not> rq_streaming_body (jb_request j) \<and>
    (\<forall>h\<in>set (rq_headers (jb_request j)).
       h_name h \<notin> {''authorization'', ''proxy-authorization'', ''cookie''})"
proof -
  have inv: "quic_inv q" using connection.reachable_inv [OF assms(1)] by (simp add: quic_state_inv_def)
  obtain j where j: "(p, j) \<in> set (qj_active q)" "is_0rtt_replay_safe j"
    using quic_inv_stream [OF inv] assms(2-4) unfolding find_job_def by blast
  have "deref p q = Some j" using deref_unique [OF quic_inv_distinct [OF inv]] j(1) by simp
  with j(2) show ?thesis by (auto simp: is_0rtt_replay_safe_def Let_def list_all_iff)
qed

text \<open>A run: a GET is submitted and the connection is set up with early data.\<close>

definition early_get :: quic_jobs where
  "early_get = snd (start_session True True (\<lambda>_. Open_ok 0 True)
     (snd (submit_job 1 (new_job 7 (new_request ''GET'' ''u'') empty_url) new_quic_jobs)))"

lemma early_get_reachable: "reachable quic_start quic_trans (early_get, True)"
proof -
  let ?q1 = "snd (submit_job 1 (new_job 7 (new_request ''GET'' ''u'') empty_url) new_quic_jobs)"
  have "reachable quic_start quic_trans (new_quic_jobs, True)"
    by (rule reachable_start) (simp add: quic_start_def)
  then have 1: "reachable quic_start quic_trans (?q1, True)" by (rule reachable_step) (rule Q_submit)
  have "\<not> qj_confirmed ?q1" by (simp add: submit_job_def new_quic_jobs_def claim_after_enqueue_def)
  then have "quic_trans (?q1, True) (fst (start_session True True (\<lambda>_. Open_ok 0 True) ?q1)) (early_get, True)"
    unfolding early_get_def by (rule Q_session) simp
  with 1 show ?thesis by (rule reachable_step)
qed

lemma early_get_stream: "find_job 0 early_get = Some 0" "qj_early early_get" "\<not> qj_confirmed early_get"
  by code_simp+

lemma streams_lead_to_live_jobs_witness:
  "\<exists>j. deref 0 early_get = Some j \<and> (0, j) \<in> set (qj_active early_get) \<and> jb_stream_id j = 0"
  using streams_lead_to_live_jobs [OF early_get_reachable] early_get_stream(1) by blast

lemma zero_rtt_requests_are_replay_safe_witness:
  "\<exists>j. deref 0 early_get = Some j \<and> rq_method (jb_request j) \<in> {''GET'', ''HEAD''} \<and>
    rq_body (jb_request j) = []"
  using zero_rtt_requests_are_replay_safe [OF early_get_reachable early_get_stream(2,3,1)] by blast

subsection \<open>No job disappears silently\<close>

text \<open>A job in the active list that its stream does not lead to (any more): the code has such jobs once an attempt to connect
  has failed after it submitted them, since the stream table goes with the session and the list stays.\<close>

definition leftover :: "quic_jobs \<Rightarrow> nat \<times> job \<Rightarrow> bool" where
  "leftover q e \<longleftrightarrow> e \<in> set (qj_active q) \<and> qj_streams q (jb_stream_id (snd e)) \<noteq> Some (fst e)"

definition accounted :: "quic_jobs \<Rightarrow> job_note list \<Rightarrow> nat \<times> job \<Rightarrow> bool" where
  "accounted q' notes e \<longleftrightarrow>
     fst e \<in> set (addresses q') \<or> jb_cancelled (snd e) \<or> jb_completed (snd e) \<or>
     (\<exists>j' err. Nt_error j' err \<in> set notes \<and> jb_id j' = jb_id (snd e))"

lemma accounted_kept: "fst e \<in> set (addresses q') \<Longrightarrow> accounted q' notes e"
  by (simp add: accounted_def)

lemma jobs_of_addresses: "e \<in> set (jobs_of q) \<Longrightarrow> fst e \<in> set (addresses q)"
  by (auto simp: jobs_of_def addresses_def)

lemma submit_loop_accounts:
  assumes "submit_loop env n js q = (stay, q', failed)"
  shows "set (map fst (qj_active q)) \<subseteq> set (map fst (qj_active q')) \<and>
    (\<forall>(p, j)\<in>set js. p \<in> set (map fst stay) \<or> p \<in> set (map fst (qj_active q')) \<or> jb_cancelled j \<or>
       (\<exists>(j', e)\<in>set failed. jb_id j' = jb_id j))"
  using assms
proof (induction js arbitrary: n q failed)
  case (Cons e rest)
  obtain p j where e: "e = (p, j)" by (cases e)
  from Cons.prems [unfolded e] show ?case
  proof (cases rule: submit_loop_Cons)
    case skip
    from Cons.IH [OF skip(2)] show ?thesis using skip e by auto
  next
    case break
    then show ?thesis using e by force
  next
    case (fail j1 err f)
    from Cons.IH [OF fail(1)] show ?thesis using fail e by fastforce
  next
    case (move sid j1)
    from Cons.IH [OF move(3)] show ?thesis using e by auto
  qed
qed simp

lemma try_submit_accounts:
  assumes "try_submit_pending env q = (notes, q')" "e \<in> set (jobs_of q)"
  shows "accounted q' notes e"
proof (cases "is_draining q \<or> \<not> qj_ready q \<or> \<not> qj_session q \<or> \<not> qj_codec q")
  case True
  then show ?thesis using assms by (auto simp: try_submit_pending_def intro!: accounted_kept jobs_of_addresses split: if_splits)
next
  case False
  obtain stay q1 failed where s: "submit_loop env 0 (qj_pending q) q = (stay, q1, failed)"
    by (metis prod_cases3)
  then have r: "q' = q1\<lparr>qj_pending := stay\<rparr>" "notes = map (\<lambda>(j, e). Nt_error j e) failed"
    using assms False by (auto simp: try_submit_pending_def)
  obtain p j where e: "e = (p, j)" by (cases e)
  have addr: "set (addresses q') = set (map fst stay) \<union> set (map fst (qj_active q1))"
    by (auto simp: r(1) addresses_def)
  from assms(2) consider "(p, j) \<in> set (qj_active q)" | "(p, j) \<in> set (qj_pending q)"
    by (auto simp: jobs_of_def e)
  then show ?thesis
  proof cases
    case 1
    then have "p \<in> set (map fst (qj_active q))" by force
    then have "p \<in> set (map fst (qj_active q1))" using submit_loop_accounts [OF s] by blast
    then show ?thesis using addr e by (intro accounted_kept) simp
  next
    case 2
    then consider "p \<in> set (addresses q')" | "jb_cancelled j"
      | j' err where "(j', err) \<in> set failed" "jb_id j' = jb_id j"
      using submit_loop_accounts [OF s] addr by blast
    then show ?thesis by cases (force simp: accounted_def e r(2))+
  qed
qed

text \<open>The steps that keep every job where it is owned.\<close>

lemma cancel_addresses: "addresses (snd (cancel_job i q)) = addresses q"
  by (simp add: cancel_job_def addresses_def core_fst [OF cancel_first_core] split: option.splits)

lemma append_addresses: "addresses (snd (append_request_body i data fin q)) = addresses q"
  by (simp add: append_request_body_def addresses_def Let_def split: list.splits prod.splits)

lemma progress_addresses: "addresses (note_write_progress now sid q) = addresses q"
  by (simp add: note_write_progress_def addresses_def split: option.splits prod.splits)

lemma goaway_addresses: "on_goaway notice sid q = (notes, q') \<Longrightarrow> addresses q' = addresses q"
  by (auto simp: on_goaway_def addresses_def Let_def o_def case_prod_unfold)

lemma on_stream_addresses: "on_stream sid f q = Some (notes, q') \<Longrightarrow> addresses q' = addresses q"
  unfolding on_stream_def addresses_def map_append by (simp split: option.splits prod.splits) auto

lemma wakeup_addresses: "process_wakeup_streams q = (resets, resumes, q') \<Longrightarrow> addresses q' = addresses q"
  by (auto simp: process_wakeup_streams_def addresses_def Let_def)

lemma rejected_addresses: "addresses (on_early_data_rejected q) = addresses q"
  by (simp add: on_early_data_rejected_def addresses_def o_def case_prod_unfold)

lemma discard_addresses: "addresses (discard_session q) = addresses q"
  by (simp add: discard_session_def addresses_def)

lemma submit_addresses: "set (addresses q) \<subseteq> set (addresses (snd (submit_job now j q)))"
  by (auto simp: submit_job_def addresses_def Let_def claim_after_enqueue_def)

lemma expire_addresses: "expire_requests t now q = (notes, q') \<Longrightarrow> addresses q' = addresses q"
  using expire_entries(1,2) by (metis addresses_def core_fst map_append)

lemma jobs_of_fields: "qj_pending q' = qj_pending q \<Longrightarrow> qj_active q' = qj_active q \<Longrightarrow> jobs_of q' = jobs_of q"
  by (simp add: jobs_of_def)

lemma accounted_fields:
  "qj_pending q' = qj_pending q \<Longrightarrow> qj_active q' = qj_active q \<Longrightarrow> accounted q' n e = accounted q n e"
  by (simp add: accounted_def addresses_def)

text \<open>The operations that end by opening streams.\<close>

lemma session_accounts:
  assumes "e \<in> set (jobs_of q)" "start_session early codec_ok env q = (notes, q')"
  shows "accounted q' notes e"
proof -
  let ?q1 = "q\<lparr>qj_early := early, qj_session := True, qj_codec := False, qj_streams := (\<lambda>_. None)\<rparr>"
  let ?q2 = "?q1\<lparr>qj_codec := True, qj_ready := True\<rparr>"
  have e: "e \<in> set (jobs_of ?q2)" using assms(1) by (simp add: jobs_of_def)
  show ?thesis
  proof (cases "early \<and> codec_ok \<and> \<not> qj_precommit q")
    case True
    obtain n3 q3 where t: "try_submit_pending env ?q2 = (n3, q3)" by (cases "try_submit_pending env ?q2")
    have "accounted q3 n3 e" by (rule try_submit_accounts [OF t e])
    moreover have "notes = n3" "qj_pending q' = qj_pending q3" "qj_active q' = qj_active q3"
      using assms(2) True t by (auto simp: start_session_def Let_def)
    ultimately show ?thesis using accounted_fields by blast
  next
    case False
    then have "addresses q' = addresses q"
      using assms(2) by (auto simp: start_session_def Let_def addresses_def split: if_splits)
    then show ?thesis using jobs_of_addresses [OF assms(1)] accounted_kept by simp
  qed
qed

lemma completed_accounts:
  assumes "e \<in> set (jobs_of q)" "on_handshake_completed codec_ok env q = (ok, notes, q')"
  shows "accounted q' notes e"
proof -
  let ?q1 = "q\<lparr>qj_codec := True, qj_ready := True\<rparr>"
  have e: "e \<in> set (jobs_of ?q1)" using assms(1) by (simp add: jobs_of_def)
  show ?thesis
  proof (cases "\<not> qj_ready q \<and> qj_session q \<and> codec_ok \<and> \<not> qj_precommit q")
    case True
    then have "try_submit_pending env ?q1 = (notes, q')"
      using assms(2) by (auto simp: on_handshake_completed_def Let_def split: prod.splits)
    then show ?thesis by (rule try_submit_accounts [OF _ e])
  next
    case False
    then have "addresses q' = addresses q"
      using assms(2) by (auto simp: on_handshake_completed_def Let_def addresses_def split: if_splits)
    then show ?thesis using jobs_of_addresses [OF assms(1)] accounted_kept by simp
  qed
qed

lemma confirmed_accounts:
  assumes "e \<in> set (jobs_of q)" "on_handshake_confirmed env q = (notes, q')"
  shows "accounted q' notes e"
proof -
  let ?q1 = "q\<lparr>qj_confirmed := True, qj_state := CS_Active, qj_precommit := False, qj_fallbacks := []\<rparr>"
  have e: "e \<in> set (jobs_of ?q1)" using assms(1) by (simp add: jobs_of_def)
  show ?thesis
  proof (cases "qj_precommit q")
    case True
    then have "try_submit_pending env ?q1 = (notes, q')"
      using assms(2) by (auto simp: on_handshake_confirmed_def Let_def)
    then show ?thesis by (rule try_submit_accounts [OF _ e])
  next
    case False
    then have "addresses q' = addresses q"
      using assms(2) by (auto simp: on_handshake_confirmed_def Let_def addresses_def)
    then show ?thesis using jobs_of_addresses [OF assms(1)] accounted_kept by simp
  qed
qed

lemma erase_stream_addresses:
  "p \<in> set (map fst js) \<Longrightarrow> p \<notin> set (map fst (erase_stream sid js)) \<Longrightarrow>
     \<exists>j. (p, j) \<in> set js \<and> jb_stream_id j = sid"
  by (induction js rule: erase_stream.induct) (auto split: if_splits)

lemma on_stream_Some:
  assumes "on_stream sid f q = Some (notes, q')" "find_job sid q = Some p" "deref p q = Some j"
  shows "\<exists>j'. f j = Some (notes, j') \<and> addresses q' = addresses q \<and>
     qj_active q' = update_at p (\<lambda>_. j') (qj_active q)"
  using assms on_stream_addresses [OF assms(1)] by (auto simp: on_stream_def split: option.splits)

lemma close_accounts:
  assumes inv: "quic_inv q" and att: "\<not> leftover q e" and known: "known \<longleftrightarrow> find_job sid q \<noteq> None"
    and c: "on_stream_close known sid q = Some (notes, q')" and e: "e \<in> set (jobs_of q)"
  shows "accounted q' notes e"
proof (rule ccontr)
  assume not: "\<not> accounted q' notes e"
  then have gone: "fst e \<notin> set (addresses q')" using accounted_kept by blast
  have here: "fst e \<in> set (addresses q)" by (rule jobs_of_addresses [OF e])
  have only: "qj_streams q sid = Some (fst e)" if "(fst e, j) \<in> set (qj_active q)" "jb_stream_id j = sid" for j
  proof -
    have "deref (fst e) q = Some j" "deref (fst e) q = Some (snd e)"
      using deref_unique [OF quic_inv_distinct [OF inv], of "fst e"] that(1) e by (simp_all add: jobs_of_def)
    then have "e \<in> set (qj_active q)" "jb_stream_id (snd e) = sid" using that by auto
    then show ?thesis using att by (auto simp: leftover_def)
  qed
  show False
  proof (cases "find_job sid q")
    case None
    then have "addresses q' = map fst (qj_pending q) @ map fst (erase_stream sid (qj_active q))"
      using c known by (auto simp: on_stream_close_def addresses_def Let_def)
    then obtain j where "(fst e, j) \<in> set (qj_active q)" "jb_stream_id j = sid"
      using gone here erase_stream_addresses [of "fst e" "qj_active q" sid] by (auto simp: addresses_def)
    then show False using only None by (simp add: find_job_def)
  next
    case (Some p)
    have up: "qj_session q \<and> qj_codec q" using quic_inv_session [OF inv] Some by (simp add: find_job_def)
    obtain j where j: "deref p q = Some j" using mapped_stream_deref [OF inv Some] by blast
    obtain n2 q2 where st: "on_stream sid (\<lambda>j. Some (if \<not> jb_completed j then [Nt_error j (close_error j)] else [], j)) q
         = Some (n2, q2)" and n: "notes = n2"
      and addr: "addresses q' = map fst (qj_pending q2) @ map fst (erase_stream sid (qj_active q2))"
      using c known Some up
      by (auto simp: on_stream_close_def stream_close_cb_def Let_def addresses_def unmap_stream_def split: option.splits)
    from on_stream_Some [OF st Some j]
    have q2: "n2 = (if \<not> jb_completed j then [Nt_error j (close_error j)] else [])" "addresses q2 = addresses q"
      "qj_active q2 = update_at p (\<lambda>_. j) (qj_active q)" by auto
    then obtain ja where ja: "(fst e, ja) \<in> set (qj_active q2)" "jb_stream_id ja = sid"
      using gone here addr erase_stream_addresses [of "fst e" "qj_active q2" sid]
      unfolding addresses_def by (metis Un_iff map_append set_append)
    show False
    proof (cases "fst e = p")
      case True
      have "deref (fst e) q = Some (snd e)"
        using deref_unique [OF quic_inv_distinct [OF inv], of "fst e" "snd e"] e by (simp add: jobs_of_def)
      then have "snd e = j" using True j by simp
      then show False using not n q2(1) by (auto simp: accounted_def split: if_splits)
    next
      case False
      then have "(fst e, ja) \<in> set (qj_active q)" using ja(1) q2(3) by (auto simp: update_at_def)
      then show False using only [OF _ ja(2)] Some False by (simp add: find_job_def)
    qed
  qed
qed

lemma fail_accounts:
  "e \<in> set (jobs_of q) \<Longrightarrow> fail_all_pending err q = (notes, q') \<Longrightarrow> accounted q' notes e"
  by (cases e) (force simp: fail_all_pending_def accounted_def jobs_of_def)

lemma same_addresses_accounted:
  "e \<in> set (jobs_of q) \<Longrightarrow> addresses q' = addresses q \<Longrightarrow> accounted q' notes e"
  by (metis accounted_kept jobs_of_addresses)

lemmas steps_account = session_accounts completed_accounts confirmed_accounts try_submit_accounts fail_accounts

lemma callbacks_addresses:
  "begin_headers_cb sid q = Some (notes, q') \<Longrightarrow> addresses q' = addresses q"
  "recv_header_cb sid n v q = Some (notes, q') \<Longrightarrow> addresses q' = addresses q"
  "end_headers_cb sid now q = Some (notes, q') \<Longrightarrow> addresses q' = addresses q"
  "recv_data_cb sid now data q = Some (notes, q') \<Longrightarrow> addresses q' = addresses q"
  "end_stream_cb sid q = Some (notes, q') \<Longrightarrow> addresses q' = addresses q"
  unfolding begin_headers_cb_def recv_header_cb_def end_headers_cb_def recv_data_cb_def end_stream_cb_def
  by (rule on_stream_addresses; assumption)+

lemmas steps_keep = discard_addresses cancel_addresses append_addresses progress_addresses rejected_addresses

lemmas steps_keep_if = goaway_addresses wakeup_addresses expire_addresses callbacks_addresses

lemma trans_accounts:
  assumes "quic_inv q" "\<not> leftover q e" "e \<in> set (jobs_of q)" "quic_trans (q, True) notes (q', r)"
  shows "accounted q' notes e"
  using assms(4)
proof (cases rule: quic_trans.cases)
  case (Q_submit now j)
  then show ?thesis using submit_addresses jobs_of_addresses [OF assms(3)] accounted_kept by blast
next
  case (Q_engine j j' p)
  then show ?thesis by (intro same_addresses_accounted [OF assms(3)]) (simp add: addresses_def)
next
  case (Q_close known sid)
  then show ?thesis using close_accounts [OF assms(1,2)] assms(3) by blast
qed (use assms(3) in \<open>auto simp: steps_keep intro: steps_account same_addresses_accounted
       dest: steps_keep_if adopt_inv(2) [OF assms(1)]\<close>)



subsection \<open>What the code does not get right\<close>

text \<open>
  A second attempt to connect.  \<^verbatim>\<open>http3_ready_\<close> is still set when the first attempt got as far as the codec,
  so the codec of the new session is never set up; and the jobs of the first attempt stay in the active
  list without a stream.
\<close>

lemma retry_has_no_codec:
  assumes "qj_ready q" "q1 = snd (start_session False codec_ok env q)"
  shows "qj_session q1" "\<not> qj_codec q1" "qj_active q1 = qj_active q" "qj_streams q1 = (\<lambda>_. None)"
    "on_handshake_completed codec_ok' env' q1 = (True, [], q1)"
  using assms by (simp_all add: start_session_def on_handshake_completed_def)

text \<open>A stream of the same number that closes in the second attempt destroys the job of the first, and nobody is told.\<close>

lemma leftover_job_is_dropped:
  "(\<lambda>q. (map (\<lambda>(p, j). (jb_id j, jb_cancelled j, jb_completed j)) (qj_active q),
       map_option (\<lambda>(notes, q'). (length notes, length (qj_pending q' @ qj_active q'))) (on_stream_close False 0 q)))
     (snd (start_session False True (\<lambda>_. Open_ok 0 True) early_get)) = ([(7, False, False)], Some (0, 0))"
  by code_simp

text \<open>The window before the confirmation holds requests back in two places only; the event loop's own
  call of \<^verbatim>\<open>try_submit_pending\<close> commits them.\<close>

definition adopted_connection :: quic_jobs where
  "adopted_connection = (snd (submit_job 1 (new_job 7 (new_request ''POST'' ''u'') empty_url) new_quic_jobs))
     \<lparr>qj_session := True, qj_codec := True, qj_ready := True, qj_precommit := True\<rparr>"

lemma precommit_window_does_not_hold_requests:
  "(\<lambda>q. (map (\<lambda>(p, j). (jb_id j, jb_committed j)) (qj_active q), qj_precommit q, qj_confirmed q))
     (snd (try_submit_pending (\<lambda>_. Open_ok 0 True) adopted_connection)) = ([(7, True)], True, False)"
  by code_simp

text \<open>After a GOAWAY the worker stops when the last stream closes, whatever is still pending.\<close>

lemma draining_stops_with_pending_jobs:
  "map_option (\<lambda>(notes, q). (length notes, length (qj_pending q), qj_active q = [], qj_stop q))
     (on_stream_close True 0 (snd (submit_job 2 (new_job 8 (new_request ''GET'' ''u'') empty_url)
        (snd (on_goaway (-1) 4 early_get))))) = Some (1, 1, True, True)"
  by code_simp

end
