(* ===== verification/Receive_Credit.thy ===== *)
theory Receive_Credit
  imports Quic_Jobs
begin

text \<open>
  Flow-control credit of streaming responses: \<^verbatim>\<open>QuicClient::consume\<close>, the queue \<^verbatim>\<open>pending_consumes_\<close> with its
  \<^verbatim>\<open>WakeupCoalescer\<close>, and the part of \<^verbatim>\<open>process_wakeup\<close> that extends the QUIC windows.  The application
  consumes on its own threads, the worker extends the windows on its own.
\<close>

subsection \<open>Consuming bytes of a job\<close>

text \<open>(credit to grant, job), or \<open>None\<close> when the call is refused.\<close>

definition consume_job :: "nat \<Rightarrow> job \<Rightarrow> (nat \<times> job) option" where
  "consume_job amount j =
     (let c = jb_credit j in
      if jb_cancelled j \<or> jb_completed j \<or> amount > rc_unconsumed c then None
      else
        let c1 = c\<lparr>rc_unconsumed := rc_unconsumed c - amount, rc_consumed := rc_consumed c + amount,
                   rc_pending_credit := rc_pending_credit c + amount\<rparr>
        in Some (rc_pending_credit c1, j\<lparr>jb_credit := c1\<lparr>rc_pending_credit := 0\<rparr>\<rparr>))"

text \<open>(result, what is queued as credit, state); the first active job with the id is the one.\<close>

definition consume :: "int \<Rightarrow> nat \<Rightarrow> quic_jobs \<Rightarrow> kat_error \<times> (int \<times> nat) option \<times> quic_jobs" where
  "consume request_id amount q =
     (if amount = 0 then (KAT_OK, None, q)
      else case find (\<lambda>(p, j). jb_id j = request_id) (qj_active q) of
          None \<Rightarrow> (ERR_CLOSED, None, q)
        | Some (p, j) \<Rightarrow>
            (case consume_job amount j of
               None \<Rightarrow> (ERR_INVALID_ARG, None, q)
             | Some (credit, j') \<Rightarrow>
                 let q' = q\<lparr>qj_active := update_at p (\<lambda>_. j') (qj_active q)\<rparr>
                 in if jb_stream_id j < 0 then (ERR_CLOSED, None, q')
                    else (KAT_OK, Some (jb_stream_id j, credit), q')))"

subsection \<open>The queue of credit\<close>

text \<open>
  \<open>cc_writers\<close> counts the producers that left the queue's mutex and have yet to write the eventfd;
  \<open>cc_drained\<close> is the worker between \<^verbatim>\<open>drain_wakeup\<close> and the swap.  \<open>cc_stream\<close> and \<open>cc_connection\<close> are
  what the windows were extended by, \<open>cc_granted\<close> what consumers were promised per stream.
\<close>

record credit_channel =
  cc_queue :: "(int \<times> nat) list"
  cc_flag :: bool
  cc_eventfd :: bool
  cc_writers :: nat
  cc_drained :: bool
  cc_stream :: "int \<Rightarrow> nat"
  cc_connection :: nat
  cc_granted :: "int \<Rightarrow> nat"
  cc_granted_total :: nat

definition new_credit_channel :: credit_channel where
  "new_credit_channel = \<lparr>cc_queue = [], cc_flag = False, cc_eventfd = False, cc_writers = 0,
     cc_drained = False, cc_stream = (\<lambda>_. 0), cc_connection = 0, cc_granted = (\<lambda>_. 0), cc_granted_total = 0\<rparr>"

definition push_credit :: "int \<Rightarrow> nat \<Rightarrow> credit_channel \<Rightarrow> credit_channel" where
  "push_credit sid amount c =
     (let (signal, flag) = wakeup_request (cc_flag c)
      in c\<lparr>cc_queue := cc_queue c @ [(sid, amount)], cc_flag := flag,
           cc_writers := (if signal then cc_writers c + 1 else cc_writers c),
           cc_granted := (cc_granted c)(sid := cc_granted c sid + amount),
           cc_granted_total := cc_granted_total c + amount\<rparr>)"

text \<open>The loop that sums the queue per stream and for the connection.\<close>

fun sum_credit :: "(int \<times> nat) list \<Rightarrow> (int \<Rightarrow> nat) \<times> nat \<Rightarrow> (int \<Rightarrow> nat) \<times> nat" where
  "sum_credit [] acc = acc"
| "sum_credit ((sid, n) # rest) (stream, tot) = sum_credit rest (stream(sid := stream sid + n), tot + n)"

definition apply_credit :: "credit_channel \<Rightarrow> credit_channel" where
  "apply_credit c =
     (let (stream, tot) = sum_credit (cc_queue c) (\<lambda>_. 0, 0)
      in c\<lparr>cc_queue := [], cc_flag := wakeup_reset (cc_flag c), cc_drained := False,
           cc_stream := (\<lambda>sid. cc_stream c sid + stream sid),
           cc_connection := cc_connection c + tot\<rparr>)"

datatype credit_event = Cr_push int nat | Cr_write | Cr_other_wakeup | Cr_drain | Cr_apply

inductive credit_trans :: "credit_channel \<Rightarrow> credit_event \<Rightarrow> credit_channel \<Rightarrow> bool" where
  C_push: "credit_trans c (Cr_push sid n) (push_credit sid n c)"
| C_write: "cc_writers c > 0 \<Longrightarrow>
    credit_trans c Cr_write (c\<lparr>cc_writers := cc_writers c - 1, cc_eventfd := True\<rparr>)"
| C_other: "credit_trans c Cr_other_wakeup (c\<lparr>cc_eventfd := True\<rparr>)"
| C_drain: "cc_eventfd c \<Longrightarrow> \<not> cc_drained c \<Longrightarrow>
    credit_trans c Cr_drain (c\<lparr>cc_eventfd := False, cc_drained := True\<rparr>)"
| C_apply: "cc_drained c \<Longrightarrow> credit_trans c Cr_apply (apply_credit c)"

subsection \<open>No credit is lost and no wakeup is missed\<close>

definition queued :: "int \<Rightarrow> (int \<times> nat) list \<Rightarrow> nat" where
  "queued sid q = sum_list (map snd (filter (\<lambda>e. fst e = sid) q))"

definition credit_inv :: "credit_channel \<Rightarrow> bool" where
  "credit_inv c \<longleftrightarrow>
     (cc_queue c \<noteq> [] \<longrightarrow> cc_flag c) \<and>
     (cc_flag c \<longrightarrow> cc_eventfd c \<or> cc_writers c > 0 \<or> cc_drained c) \<and>
     (\<forall>sid. cc_stream c sid + queued sid (cc_queue c) = cc_granted c sid) \<and>
     cc_connection c + sum_list (map snd (cc_queue c)) = cc_granted_total c"

lemma sum_credit_eq:
  "sum_credit q (stream, tot) = (\<lambda>sid. stream sid + queued sid q, tot + sum_list (map snd q))"
  by (induction q "(stream, tot)" arbitrary: stream tot rule: sum_credit.induct)
     (auto simp: queued_def fun_eq_iff)

lemma credit_trans_inv: "credit_trans c e c' \<Longrightarrow> credit_inv c \<Longrightarrow> credit_inv c'"
  by (induction rule: credit_trans.induct)
     (auto simp: credit_inv_def push_credit_def apply_credit_def sum_credit_eq wakeup_request_def
       wakeup_reset_def Let_def queued_def)

definition credit_start :: "credit_channel \<Rightarrow> bool" where
  "credit_start c \<longleftrightarrow> c = new_credit_channel"

lemma credit_start_inv: "credit_start c \<Longrightarrow> credit_inv c"
  by (simp add: credit_start_def credit_inv_def new_credit_channel_def queued_def)

interpretation credits: transition_system credit_start credit_trans credit_inv
  by unfold_locales (use credit_start_inv credit_trans_inv in blast)+

text \<open>Property C8: however consumers, the wakeup writes and the worker interleave, credit that is queued
  always has a wakeup on its way (the eventfd is readable, a producer is about to write it, or the
  worker is about to take the queue), every stream's window has been extended by exactly what its
  consumers were granted less what is still queued, and the connection's window by the total.\<close>

theorem no_credit_is_lost:
  assumes "reachable credit_start credit_trans c"
  shows "(cc_queue c = [] \<or> cc_eventfd c \<or> cc_writers c > 0 \<or> cc_drained c) \<and>
    (\<forall>sid. cc_stream c sid + queued sid (cc_queue c) = cc_granted c sid) \<and>
    cc_connection c + sum_list (map snd (cc_queue c)) = cc_granted_total c"
  using credits.reachable_inv [OF assms] by (auto simp: credit_inv_def)

text \<open>Two consumers and one wakeup: the second finds the flag set and does not write.\<close>

definition two_consumers :: credit_channel where
  "two_consumers = push_credit 4 5 (push_credit 0 3 new_credit_channel)"

lemma no_credit_is_lost_witness:
  "cc_writers two_consumers = 1 \<and> cc_connection two_consumers + sum_list (map snd (cc_queue two_consumers)) = 8"
proof -
  have "reachable credit_start credit_trans new_credit_channel"
    by (rule reachable_start) (simp add: credit_start_def)
  then have "reachable credit_start credit_trans (push_credit 0 3 new_credit_channel)"
    by (rule reachable_step) (rule C_push)
  then have "reachable credit_start credit_trans two_consumers"
    unfolding two_consumers_def by (rule reachable_step) (rule C_push)
  from no_credit_is_lost [OF this] show ?thesis
    by (simp add: two_consumers_def push_credit_def new_credit_channel_def wakeup_request_def)
qed

subsection \<open>The account of a job\<close>

datatype credit_op = Deliver nat bytes | Consume_bytes nat

text \<open>A run of deliveries and consumptions; the second component is all credit granted.\<close>

fun credit_step :: "job \<times> nat \<Rightarrow> credit_op \<Rightarrow> job \<times> nat" where
  "credit_step (j, granted) (Deliver now data) = (snd (recv_data now data j), granted)"
| "credit_step (j, granted) (Consume_bytes n) =
     (case consume_job n j of None \<Rightarrow> (j, granted) | Some (credit, j') \<Rightarrow> (j', granted + credit))"

definition job_credit_ok :: "job \<times> nat \<Rightarrow> bool" where
  "job_credit_ok s \<longleftrightarrow>
     (let c = jb_credit (fst s) in
      rc_pending_credit c = 0 \<and> rc_consumed c = snd s \<and>
      (if jb_streaming (fst s) then rc_delivered c = rc_consumed c + rc_unconsumed c
       else rc_unconsumed c = 0 \<and> rc_consumed c = 0))"

lemma credit_step_ok: "job_credit_ok s \<Longrightarrow> job_credit_ok (credit_step s op)"
  by (cases s; cases op)
     (auto simp: job_credit_ok_def recv_data_def consume_job_def Let_def split: option.splits if_splits)

lemma credit_step_streaming: "jb_streaming (fst (credit_step s op)) = jb_streaming (fst s)"
  by (cases s; cases op) (auto simp: recv_data_def consume_job_def Let_def split: option.splits if_splits)

interpretation job_credits: step_system credit_step job_credit_ok
  by unfold_locales (rule credit_step_ok)

text \<open>For a job whose body is delivered and consumed in any order, the credit granted is
  exactly the number of bytes consumed, and with those still unconsumed it is the number delivered; a
  job that is not streaming never grants credit this way.\<close>

lemma job_credit_balances:
  "let (j, granted) = foldl credit_step (new_job i req u, 0) ops; c = jb_credit j in
     rc_consumed c = granted \<and>
     (if rq_streaming req then rc_delivered c = granted + rc_unconsumed c else granted = 0)"
proof -
  have start: "job_credit_ok (new_job i req u, 0)"
    by (simp add: job_credit_ok_def new_job_def new_receive_credit_def)
  have "jb_streaming (fst (foldl credit_step (new_job i req u, 0) ops)) = rq_streaming req"
    by (rule job_credits.run_keeps [OF _ start]) (simp_all add: credit_step_streaming new_job_def)
  with job_credits.run_inv [OF start, of ops] show ?thesis
    by (auto simp: job_credit_ok_def Let_def split: prod.splits if_splits)
qed

text \<open>The bytes of a finished streaming response that the application has not consumed by then never
  return credit: consuming them is refused.\<close>

lemma finished_response_keeps_credit: "consume_job n (j\<lparr>jb_completed := True\<rparr>) = None"
  by (simp add: consume_job_def)

end
