(* ===== verification/Quic_Race.thy ===== *)
theory Quic_Race
  imports Quic_Jobs
begin

text \<open>
  The handshake race of \<^verbatim>\<open>quic_client.cc\<close>: the callbacks of a \<^verbatim>\<open>HandshakeCandidate\<close>, the choice and adoption
  of the winner, the endpoints remembered for a failure before any request is committed, and their use.
  Sockets, TLS and ngtcp2 are the events a candidate receives.
\<close>

subsection \<open>Candidates\<close>

record candidate =
  cd_endpoint :: endpoint
  cd_completed :: bool
  cd_rx_ready :: bool
  cd_ready_at :: nat
  cd_confirmed :: bool
  cd_buffer :: handshake_buffer
  cd_adopted :: bool
  cd_abandoned :: bool
  cd_failed :: bool
  cd_owns_connection :: bool

definition new_candidate :: "endpoint \<Rightarrow> candidate" where
  "new_candidate e = \<lparr>cd_endpoint = e, cd_completed = False, cd_rx_ready = False, cd_ready_at = 0,
     cd_confirmed = False, cd_buffer = empty_handshake_buffer, cd_adopted = False, cd_abandoned = False,
     cd_failed = False, cd_owns_connection = True\<rparr>"

definition candidate_handshake_completed :: "candidate \<Rightarrow> candidate" where
  "candidate_handshake_completed c = c\<lparr>cd_completed := True\<rparr>"

definition candidate_handshake_confirmed :: "candidate \<Rightarrow> candidate" where
  "candidate_handshake_confirmed c = (if cd_abandoned c then c else c\<lparr>cd_confirmed := True\<rparr>)"

definition candidate_recv_rx_key :: "bool \<Rightarrow> nat \<Rightarrow> candidate \<Rightarrow> candidate" where
  "candidate_recv_rx_key one_rtt now c =
     (if \<not> one_rtt \<or> cd_abandoned c then c
      else c\<lparr>cd_rx_ready := True, cd_completed := True,
             cd_ready_at := (if cd_ready_at c = 0 then now else cd_ready_at c)\<rparr>)"

text \<open>Stream data before adoption is buffered; the result is what ngtcp2 is told.  After adoption it goes
  to the connection, whose answer is \<open>forwarded\<close>.\<close>

definition candidate_recv_stream_data ::
  "bool \<Rightarrow> nat \<Rightarrow> int \<Rightarrow> nat \<Rightarrow> bytes option \<Rightarrow> nat \<Rightarrow> candidate \<Rightarrow> bool \<times> candidate" where
  "candidate_recv_stream_data forwarded flags sid offset data len c =
     (if cd_abandoned c then (True, c)
      else if cd_adopted c then (forwarded, c)
      else
        let (ok, b) = hb_append (cd_buffer c) flags sid offset data len
        in if \<not> ok then (False, c\<lparr>cd_failed := True\<rparr>) else (True, c\<lparr>cd_buffer := b\<rparr>))"

definition candidate_fail :: "candidate \<Rightarrow> candidate" where
  "candidate_fail c = c\<lparr>cd_failed := True\<rparr>"

subsection \<open>Choosing and adopting the winner\<close>

definition ready_times :: "candidate list \<Rightarrow> nat list" where
  "ready_times cs = map (\<lambda>c. if \<not> cd_failed c \<and> \<not> cd_abandoned c then cd_ready_at c else 0) cs"

definition race_winner :: "candidate list \<Rightarrow> nat option" where
  "race_winner cs = select_earliest_1rtt_candidate (ready_times cs)"

fun replay_buffered :: "(buffered_stream_data \<Rightarrow> bool) \<Rightarrow> buffered_stream_data list \<Rightarrow> bool \<times> buffered_stream_data list" where
  "replay_buffered accept [] = (True, [])"
| "replay_buffered accept (e # es) =
     (if \<not> accept e then (False, [e])
      else case replay_buffered accept es of (ok, fed) \<Rightarrow> (ok, e # fed))"

text \<open>(adopted, candidate, events handed to the connection); \<open>codec_ok\<close> is the answer of
  \<^verbatim>\<open>on_handshake_completed\<close>, \<open>accept\<close> that of \<^verbatim>\<open>on_recv_stream_data\<close>.\<close>

definition adopt_candidate ::
  "bool \<Rightarrow> (buffered_stream_data \<Rightarrow> bool) \<Rightarrow> candidate \<Rightarrow> bool \<times> candidate \<times> buffered_stream_data list" where
  "adopt_candidate codec_ok accept c =
     (if \<not> cd_completed c \<or> \<not> cd_rx_ready c \<or> cd_ready_at c = 0 then (False, c, [])
      else if \<not> codec_ok then (False, c\<lparr>cd_failed := True\<rparr>, [])
      else
        let (ok, fed) = replay_buffered accept (hb_events (cd_buffer c))
        in if \<not> ok then (False, c\<lparr>cd_adopted := False, cd_failed := True\<rparr>, fed)
           else (True, c\<lparr>cd_adopted := True, cd_buffer := hb_clear (cd_buffer c),
                         cd_owns_connection := False\<rparr>, fed))"

subsection \<open>Fallbacks before a request is committed\<close>

definition same_endpoint :: "endpoint \<Rightarrow> endpoint \<Rightarrow> bool" where
  "same_endpoint a b \<longleftrightarrow> ep_family a = ep_family b \<and> ep_ip a = ep_ip b \<and> ep_port a = ep_port b"

definition add_if_distinct :: "endpoint \<Rightarrow> endpoint list \<Rightarrow> endpoint \<Rightarrow> endpoint list" where
  "add_if_distinct winner fallbacks e =
     (if same_endpoint e winner then fallbacks
      else if list_ex (\<lambda>x. same_endpoint x e) fallbacks then fallbacks
      else fallbacks @ [e])"

definition remember_precommit_fallbacks :: "endpoint \<Rightarrow> candidate list \<Rightarrow> endpoint list \<Rightarrow> endpoint list" where
  "remember_precommit_fallbacks winner candidates endpoints =
     foldl (add_if_distinct winner)
       (foldl (add_if_distinct winner) []
          (map cd_endpoint (filter (\<lambda>c. \<not> cd_abandoned c) candidates)))
       endpoints"

definition can_fail_over :: "quic_jobs \<Rightarrow> bool" where
  "can_fail_over q \<longleftrightarrow>
     can_fail_over_before_request_commit (qj_precommit q) (qj_stop q) False (has_live_pending_job q) \<and>
     \<not> list_ex (\<lambda>(p, j). jb_committed j \<or> up_sent (jb_upload j) \<noteq> 0) (qj_active q) \<and>
     qj_active q = [] \<and> qj_fallbacks q \<noteq> []"

text \<open>(endpoint connected to, state); \<open>usable\<close> tells whether connecting and setting up work, \<open>stop\<close> is
  the flag at each turn, \<open>start\<close> what setting up does to the jobs.\<close>

fun fallback_loop ::
  "(endpoint \<Rightarrow> bool) \<Rightarrow> (nat \<Rightarrow> bool) \<Rightarrow> nat \<Rightarrow> (quic_jobs \<Rightarrow> quic_jobs) \<Rightarrow> endpoint list \<Rightarrow> quic_jobs \<Rightarrow>
     endpoint option \<times> quic_jobs" where
  "fallback_loop usable stop i start [] q = (None, q)"
| "fallback_loop usable stop i start (e # rest) q =
     (if stop i then (None, q)
      else
        let q1 = discard_session (q\<lparr>qj_fallbacks := rest\<rparr>)
        in if \<not> usable e then fallback_loop usable stop (Suc i) start rest q1 else (Some e, start q1))"

definition restart_precommit_fallback ::
  "(endpoint \<Rightarrow> bool) \<Rightarrow> (nat \<Rightarrow> bool) \<Rightarrow> (quic_jobs \<Rightarrow> quic_jobs) \<Rightarrow> quic_jobs \<Rightarrow> endpoint option \<times> quic_jobs" where
  "restart_precommit_fallback usable stop start q = fallback_loop usable stop 0 start (qj_fallbacks q) q"

subsection \<open>The candidate's life\<close>

datatype candidate_event =
    Cd_completed
  | Cd_confirmed
  | Cd_rx_key bool nat
  | Cd_data bool nat int nat "bytes option" nat
  | Cd_fail

fun candidate_step :: "candidate \<Rightarrow> candidate_event \<Rightarrow> candidate" where
  "candidate_step c Cd_completed = candidate_handshake_completed c"
| "candidate_step c Cd_confirmed = candidate_handshake_confirmed c"
| "candidate_step c (Cd_rx_key one_rtt now) = candidate_recv_rx_key one_rtt now c"
| "candidate_step c (Cd_data fwd flags sid off data len) =
     snd (candidate_recv_stream_data fwd flags sid off data len c)"
| "candidate_step c Cd_fail = candidate_fail c"

definition candidate_ok :: "candidate \<Rightarrow> bool" where
  "candidate_ok c \<longleftrightarrow> (cd_ready_at c \<noteq> 0 \<longrightarrow> cd_rx_ready c \<and> cd_completed c)"

lemma candidate_step_ok: "candidate_ok c \<Longrightarrow> candidate_ok (candidate_step c e)"
  by (cases e)
     (auto simp: candidate_ok_def candidate_handshake_completed_def candidate_handshake_confirmed_def
       candidate_recv_rx_key_def candidate_recv_stream_data_def candidate_fail_def Let_def split: prod.splits)

interpretation candidates: step_system candidate_step candidate_ok
  by unfold_locales (rule candidate_step_ok)

lemma replay_all: "replay_buffered accept es = (ok, fed) \<Longrightarrow> (ok \<longrightarrow> fed = es) \<and> (ok \<longleftrightarrow> (\<forall>e\<in>set es. accept e)) \<and> (\<exists>rest. es = fed @ rest)"
  by (induction es arbitrary: ok fed) (auto split: if_splits prod.splits)

text \<open>The winner of the handshake race is a candidate that has neither failed nor been
  abandoned, none of the others was ready for 1-RTT before it, and adopting it cannot be refused for a
  missing handshake or key: if the codec can be set up and the buffered stream data is accepted, it is
  adopted, and the connection has been handed exactly the data buffered during the race, in order.\<close>

lemma race_adopts_earliest_ready:
  assumes "race_winner cs = Some k"
    and "\<forall>c\<in>set cs. \<exists>e events. c = foldl candidate_step (new_candidate e) events"
    and "\<forall>e\<in>set (hb_events (cd_buffer (cs ! k))). accept e"
  shows "k < length cs \<and> \<not> cd_failed (cs ! k) \<and> \<not> cd_abandoned (cs ! k) \<and>
    (\<forall>c\<in>set cs. cd_failed c \<or> cd_abandoned c \<or> cd_ready_at c = 0 \<or> cd_ready_at (cs ! k) \<le> cd_ready_at c) \<and>
    (\<exists>c'. adopt_candidate True accept (cs ! k) = (True, c', hb_events (cd_buffer (cs ! k))) \<and>
          cd_adopted c' \<and> hb_events (cd_buffer c') = [])"
proof -
  have spec: "race_spec (ready_times cs) (Some k)"
    using select_earliest_spec [of "ready_times cs"] assms(1) by (simp add: race_winner_def)
  have k: "k < length cs" "ready_times cs ! k \<noteq> 0"
    "\<forall>j<length cs. ready_times cs ! j = 0 \<or> ready_times cs ! k \<le> ready_times cs ! j"
    using spec by (auto simp: race_spec_def ready_times_def)
  have w: "\<not> cd_failed (cs ! k)" "\<not> cd_abandoned (cs ! k)" "cd_ready_at (cs ! k) \<noteq> 0"
    using k(1,2) by (auto simp: ready_times_def split: if_splits)
  have first: "cd_failed c \<or> cd_abandoned c \<or> cd_ready_at c = 0 \<or> cd_ready_at (cs ! k) \<le> cd_ready_at c"
    if "c \<in> set cs" for c
  proof -
    from that obtain j where "j < length cs" "cs ! j = c" by (auto simp: in_set_conv_nth)
    then show ?thesis using k(3) k(1) w by (auto simp: ready_times_def split: if_splits)
  qed
  obtain e events where "cs ! k = foldl candidate_step (new_candidate e) events"
    using assms(2) k(1) by (meson nth_mem)
  moreover have "candidate_ok (new_candidate e)" by (simp add: candidate_ok_def new_candidate_def)
  ultimately have "candidate_ok (cs ! k)" using candidates.run_inv by metis
  then have ready: "cd_completed (cs ! k)" "cd_rx_ready (cs ! k)" using w(3) by (auto simp: candidate_ok_def)
  obtain ok fed where r: "replay_buffered accept (hb_events (cd_buffer (cs ! k))) = (ok, fed)" by fastforce
  have "ok" "fed = hb_events (cd_buffer (cs ! k))" using replay_all [OF r] assms(3) by auto
  then have "\<exists>c'. adopt_candidate True accept (cs ! k) = (True, c', hb_events (cd_buffer (cs ! k))) \<and>
          cd_adopted c' \<and> hb_events (cd_buffer c') = []"
    using r ready w(3) by (simp add: adopt_candidate_def hb_clear_def empty_handshake_buffer_def)
  with k(1) w first show ?thesis by blast
qed

definition two_candidates :: "candidate list" where
  "two_candidates =
     [foldl candidate_step (new_candidate (mk_endpoint ''::1'' 443 10)) [Cd_rx_key True 90],
      foldl candidate_step (new_candidate (mk_endpoint ''1.1.1.1'' 443 2))
        [Cd_data True 0 3 0 (Some [1, 2]) 2, Cd_rx_key True 80]]"

lemma race_adopts_earliest_ready_witness:
  "\<exists>c'. adopt_candidate True (\<lambda>_. True) (two_candidates ! 1) =
     (True, c', hb_events (cd_buffer (two_candidates ! 1))) \<and> cd_adopted c'"
proof -
  have w: "race_winner two_candidates = Some 1" by code_simp
  have runs: "\<forall>c\<in>set two_candidates. \<exists>e events. c = foldl candidate_step (new_candidate e) events"
    unfolding two_candidates_def by (simp del: foldl_Cons) blast
  from race_adopts_earliest_ready [OF w runs, of "\<lambda>_. True"] show ?thesis by blast
qed

subsection \<open>Fallback endpoints\<close>

definition endpoint_key :: "endpoint \<Rightarrow> int \<times> string \<times> nat" where
  "endpoint_key e = (ep_family e, ep_ip e, ep_port e)"

lemma same_endpoint_key: "same_endpoint a b \<longleftrightarrow> endpoint_key a = endpoint_key b"
  by (simp add: same_endpoint_def endpoint_key_def)

lemma add_all_distinct:
  assumes "distinct (map endpoint_key fs)" "endpoint_key w \<notin> endpoint_key ` set fs"
  shows "distinct (map endpoint_key (foldl (add_if_distinct w) fs es)) \<and>
    endpoint_key ` set (foldl (add_if_distinct w) fs es) =
      endpoint_key ` set fs \<union> (endpoint_key ` set es - {endpoint_key w})"
  using assms
proof (induction es arbitrary: fs)
  case (Cons e es)
  have "distinct (map endpoint_key (add_if_distinct w fs e)) \<and>
     endpoint_key w \<notin> endpoint_key ` set (add_if_distinct w fs e) \<and>
     endpoint_key ` set (add_if_distinct w fs e) =
       endpoint_key ` set fs \<union> (if endpoint_key e = endpoint_key w then {} else {endpoint_key e})"
    using Cons.prems
    by (auto simp: add_if_distinct_def same_endpoint_key list_ex_iff) (metis imageI)+
  then have IH: "distinct (map endpoint_key (foldl (add_if_distinct w) (add_if_distinct w fs e) es)) \<and>
    endpoint_key ` set (foldl (add_if_distinct w) (add_if_distinct w fs e) es) =
      (endpoint_key ` set fs \<union> (if endpoint_key e = endpoint_key w then {} else {endpoint_key e})) \<union>
      (endpoint_key ` set es - {endpoint_key w})"
    using Cons.IH [of "add_if_distinct w fs e"] by metis
  show ?case using IH by (cases "endpoint_key e = endpoint_key w") (simp_all add: insert_Diff_if)
qed simp

text \<open>The fallbacks are the other endpoints, each once: those of the race that were not abandoned first,
  then the resolver's.\<close>

lemma fallbacks_are_the_other_endpoints:
  "distinct (map endpoint_key (remember_precommit_fallbacks w cs es)) \<and>
   endpoint_key ` set (remember_precommit_fallbacks w cs es) =
     endpoint_key ` (cd_endpoint ` {c \<in> set cs. \<not> cd_abandoned c} \<union> set es) - {endpoint_key w}"
proof -
  let ?cs = "map cd_endpoint (filter (\<lambda>c. \<not> cd_abandoned c) cs)"
  have 1: "distinct (map endpoint_key (foldl (add_if_distinct w) [] ?cs)) \<and>
    endpoint_key ` set (foldl (add_if_distinct w) [] ?cs) = endpoint_key ` set ?cs - {endpoint_key w}"
    using add_all_distinct [of "[]" w ?cs] by simp
  then have "endpoint_key w \<notin> endpoint_key ` set (foldl (add_if_distinct w) [] ?cs)" by simp
  with 1 add_all_distinct [of "foldl (add_if_distinct w) [] ?cs" w es]
  show ?thesis unfolding remember_precommit_fallbacks_def by auto
qed

text \<open>A failover never replays a request: it needs an empty active list.\<close>

lemma failover_replays_nothing:
  "can_fail_over q \<Longrightarrow> qj_active q = [] \<and> qj_precommit q \<and> \<not> qj_stop q \<and> has_live_pending_job q"
  by (simp add: can_fail_over_def can_fail_over_before_request_commit_def)

end
