(* ===== verification/Quic_Run.thy ===== *)
theory Quic_Run
  imports Quic_Race Quic_Timeouts
begin

text \<open>
  The life of a connection's worker, \<^verbatim>\<open>QuicClient::run\<close>: endpoints, attempts, failover, the verdict on the
  jobs that remain, and the smaller decisions of the event loop.  What one attempt meets (ngtcp2, TLS,
  sockets, the clock) is an observation; an event loop is its result, the error it recorded and whether
  the handshake was confirmed.
\<close>

subsection \<open>Socket and network state\<close>

record net_state =
  ns_terminal_error :: kat_error
  ns_socket_failed :: bool
  ns_migrating :: bool
  ns_applied_generation :: nat
  ns_network :: nat

definition record_socket_error :: "errno \<Rightarrow> net_state \<Rightarrow> bool \<times> net_state" where
  "record_socket_error e s =
     (if udp_error_is_temporary e then (False, s)
      else (True, s\<lparr>ns_terminal_error := (if udp_error_is_network_lost e then ERR_NETWORK_LOST else ERR_QUIC),
                    ns_socket_failed := True\<rparr>))"

text \<open>What a migration meets: opening, connecting and asking the new socket for its addresses, whether
  its local address differs, and whether ngtcp2 accepts the migration.\<close>

record migration =
  mg_opened :: bool
  mg_connected :: bool
  mg_addresses :: bool
  mg_local_changed :: bool
  mg_accepted :: bool

definition process_network_change ::
  "network_change_request \<Rightarrow> bool \<Rightarrow> bool \<Rightarrow> bool \<Rightarrow> migration \<Rightarrow> net_state \<Rightarrow> bool \<times> net_state" where
  "process_network_change request confirmed attempt_migration has_peer m s =
     (let action = network_change_action request (ns_applied_generation s) confirmed attempt_migration in
      if action = NC_None then (True, s)
      else
        let s1 = s\<lparr>ns_applied_generation := nc_generation request\<rparr>;
            lost = (False, s1\<lparr>ns_terminal_error := ERR_NETWORK_LOST\<rparr>)
        in if action = NC_Reconnect \<or> \<not> has_peer then lost
           else if \<not> mg_opened m \<or> \<not> mg_connected m \<or> \<not> mg_addresses m then lost
           else if mg_local_changed m \<and> \<not> mg_accepted m then lost
           else (True, s1\<lparr>ns_migrating := (if mg_local_changed m then True else ns_migrating s1),
                          ns_network := nc_network request, ns_socket_failed := False\<rparr>))"

definition on_path_validation :: "bool \<Rightarrow> net_state \<Rightarrow> net_state" where
  "on_path_validation success s =
     (if \<not> ns_migrating s then s
      else if success then s\<lparr>ns_migrating := False\<rparr>
      else s\<lparr>ns_migrating := False, ns_terminal_error := ERR_NETWORK_LOST, ns_socket_failed := True\<rparr>)"

subsection \<open>Timers and the send quantum\<close>

text \<open>The poll timeout; \<open>None\<close> is a null connection.\<close>

definition compute_timeout :: "nat option \<Rightarrow> nat \<Rightarrow> nat" where
  "compute_timeout expiry now =
     (case expiry of
        None \<Rightarrow> 1000
      | Some e \<Rightarrow> if e \<le> now then 0 else min 1000 ((e - now) div 1000000))"

definition minimum_send_quantum :: nat where "minimum_send_quantum = 2048"

record send_quantum =
  sq_bytes :: nat
  sq_sent :: nat
  sq_packet :: bool

definition begin_send_quantum :: "nat \<Rightarrow> send_quantum" where
  "begin_send_quantum conn_quantum =
     \<lparr>sq_bytes = max minimum_send_quantum conn_quantum, sq_sent = 0, sq_packet = False\<rparr>"

definition send_quantum_exhausted :: "bool \<Rightarrow> send_quantum \<Rightarrow> bool" where
  "send_quantum_exhausted wants_write s \<longleftrightarrow> sq_sent s \<ge> sq_bytes s \<or> wants_write"

definition count_packet :: "nat \<Rightarrow> send_quantum \<Rightarrow> send_quantum" where
  "count_packet len s = s\<lparr>sq_sent := sq_sent s + len, sq_packet := True\<rparr>"

text \<open>The packet loop of \<^verbatim>\<open>write_pending\<close>: \<open>None\<close> is \<^verbatim>\<open>WRITE_MORE\<close>, \<open>Some n\<close> a packet of \<open>n\<close> bytes (none if 0),
  with the error of its send and whether the socket then has packets queued.\<close>

fun write_loop :: "(nat option \<times> errno option \<times> bool) list \<Rightarrow> send_quantum \<times> net_state \<Rightarrow> send_quantum \<times> net_state" where
  "write_loop [] s = s"
| "write_loop ((None, _, _) # rest) s = write_loop rest s"
| "write_loop ((Some n, err, wants_write) # rest) (s, ns) =
     (if n = 0 then (s, ns)
      else case err of
          Some e \<Rightarrow> (s, snd (record_socket_error e ns))
        | None \<Rightarrow>
            let s1 = count_packet n s
            in if send_quantum_exhausted wants_write s1 then (s1, ns) else write_loop rest (s1, ns))"

subsection \<open>Endpoints\<close>

datatype dns_outcome =
    Dns_refused
  | Dns_network_changed
  | Dns_stopped
  | Dns_deadline
  | Dns_answer "endpoint list"

text \<open>The addresses a request brings, or what the wait for the resolver ends with; \<open>late\<close> is the check
  after it.  (result, endpoints, recorded error)\<close>

definition prepare_endpoints ::
  "bool \<Rightarrow> dns_outcome \<Rightarrow> bool \<Rightarrow> quic_jobs \<Rightarrow> kat_error \<Rightarrow> bool \<times> endpoint list \<times> kat_error" where
  "prepare_endpoints network_changed dns late q err =
     (case qj_pending q of
        [] \<Rightarrow> (False, [], err)
      | (p, j) # _ \<Rightarrow>
          if network_changed then (False, [], ERR_NETWORK_LOST)
          else
            let finish = (\<lambda>endpoints. if late then (False, [], ERR_DNS_TIMEOUT)
                                      else (endpoints \<noteq> [], endpoints, err))
            in case rq_addresses (jb_request j) of
                 a # as \<Rightarrow>
                   finish (map (\<lambda>(ip, port). mk_endpoint ip port
                                  (if find_char (CHR '':'') ip = None then af_inet else af_inet6)) (a # as))
               | [] \<Rightarrow>
                   (case dns of
                      Dns_refused \<Rightarrow> (False, [], ERR_DNS)
                    | Dns_network_changed \<Rightarrow> (False, [], ERR_NETWORK_LOST)
                    | Dns_stopped \<Rightarrow> (False, [], err)
                    | Dns_deadline \<Rightarrow> (False, [], ERR_DNS_TIMEOUT)
                    | Dns_answer endpoints \<Rightarrow> finish endpoints))"

subsection \<open>Attempts one after the other\<close>

record attempt =
  at_stop :: bool
  at_connect_timeout :: bool
  at_setup_ok :: bool
  at_loop_ok :: bool
  at_error :: kat_error
  at_tls :: kat_error
  at_confirmed :: bool

text \<open>The local flag \<^verbatim>\<open>connection_failed\<close>, the confirmed handshake, the recorded error, the TLS failure.\<close>

record run_vars =
  rv_failed :: bool
  rv_confirmed :: bool
  rv_error :: kat_error
  rv_tls :: kat_error

definition certificate_failure :: "kat_error \<Rightarrow> bool" where
  "certificate_failure code \<longleftrightarrow>
     code = ERR_CERTIFICATE_VERIFY \<or> code = ERR_HOSTNAME_MISMATCH \<or> code = ERR_NO_TRUST_PROVIDER"

fun attempt_loop :: "attempt list \<Rightarrow> run_vars \<Rightarrow> run_vars" where
  "attempt_loop [] v = v"
| "attempt_loop (a # rest) v =
     (if at_stop a \<or> rv_confirmed v then v
      else if at_connect_timeout a then v\<lparr>rv_error := ERR_CONNECT_TIMEOUT\<rparr>
      else if \<not> at_setup_ok a then attempt_loop rest (v\<lparr>rv_tls := KAT_OK\<rparr>)
      else
        let v1 = v\<lparr>rv_confirmed := at_confirmed a, rv_error := at_error a, rv_tls := at_tls a\<rparr>
        in if at_loop_ok a then v1
           else if at_error a = ERR_NETWORK_LOST then v1\<lparr>rv_failed := True\<rparr>
           else if certificate_failure (at_tls a) then v1\<lparr>rv_failed := True\<rparr>
           else attempt_loop rest (v1\<lparr>rv_failed := False\<rparr>))"

definition failure_code :: "kat_error \<Rightarrow> kat_error \<Rightarrow> kat_error" where
  "failure_code tls error = (if tls \<noteq> KAT_OK then tls else error)"

text \<open>With which error the remaining jobs are failed, if they are.\<close>

definition sequential_verdict :: "attempt list \<Rightarrow> kat_error \<Rightarrow> kat_error option" where
  "sequential_verdict attempts error =
     (let v = attempt_loop attempts \<lparr>rv_failed = False, rv_confirmed = False, rv_error = error, rv_tls = KAT_OK\<rparr>
      in if rv_failed v \<and> rv_confirmed v then Some (failure_code (rv_tls v) (rv_error v))
         else if \<not> rv_confirmed v then Some (failure_code (rv_tls v) (rv_error v))
         else None)"

subsection \<open>After a race\<close>

record loop_end =
  le_ok :: bool
  le_stop :: bool
  le_error :: kat_error
  le_tls :: kat_error
  le_failover :: bool

text \<open>The loop of restarts: the ends of the event loops of the fallbacks that could be restarted.\<close>

fun restart_loop :: "loop_end list \<Rightarrow> loop_end \<Rightarrow> loop_end" where
  "restart_loop [] l = l\<lparr>le_failover := False\<rparr>"
| "restart_loop (r # rest) l =
     (if le_ok r \<or> le_stop r then r
      else if \<not> le_failover r then r
      else restart_loop rest r)"

definition race_verdict :: "loop_end \<Rightarrow> loop_end list \<Rightarrow> kat_error option" where
  "race_verdict ended restarts =
     (let l = (if \<not> le_ok ended \<and> \<not> le_stop ended \<and> le_error ended \<noteq> ERR_NETWORK_LOST \<and> le_failover ended
               then restart_loop restarts ended else ended)
      in if \<not> le_ok l \<and> \<not> le_stop l \<and> (le_error l = ERR_NETWORK_LOST \<or> \<not> le_failover l)
         then Some (failure_code (le_tls l) (le_error l)) else None)"

subsection \<open>The whole run\<close>

record run_observation =
  ro_network_changed :: bool
  ro_dns :: dns_outcome
  ro_late :: bool
  ro_early_resumption :: bool
  ro_race :: "(loop_end \<times> loop_end list) option"
  ro_race_error :: kat_error
  ro_attempts :: "attempt list"

datatype run_verdict = Run_unused | Run_left | Run_failed kat_error

definition verdict_of :: "kat_error option \<Rightarrow> run_verdict" where
  "verdict_of v = (case v of None \<Rightarrow> Run_left | Some e \<Rightarrow> Run_failed e)"

definition run :: "run_observation \<Rightarrow> quic_jobs \<Rightarrow> run_verdict" where
  "run ro q =
     (if \<not> has_live_pending_job q then Run_unused
      else
        case prepare_endpoints (ro_network_changed ro) (ro_dns ro) (ro_late ro) q ERR_QUIC of
          (ok, endpoints, error) \<Rightarrow>
            if \<not> ok then Run_failed (if error = ERR_QUIC then ERR_DNS else error)
            else
              let has_ipv4 = list_ex (\<lambda>e. ep_family e = af_inet) endpoints;
                  has_ipv6 = list_ex (\<lambda>e. ep_family e = af_inet6) endpoints
              in if has_ipv4 \<and> has_ipv6 \<and> \<not> ro_early_resumption ro then
                   (case ro_race ro of
                      Some (ended, restarts) \<Rightarrow> verdict_of (race_verdict ended restarts)
                    | None \<Rightarrow>
                        if ro_race_error ro = ERR_NETWORK_LOST then Run_failed ERR_NETWORK_LOST
                        else verdict_of (sequential_verdict (ro_attempts ro) (ro_race_error ro)))
                 else verdict_of (sequential_verdict (ro_attempts ro) error))"

text \<open>What the engine hears at the end of the run, about the jobs there are by then.\<close>

definition finish_run :: "run_verdict \<Rightarrow> quic_jobs \<Rightarrow> job_note list \<times> quic_jobs" where
  "finish_run v q =
     (case v of Run_failed e \<Rightarrow> fail_all_pending e (q\<lparr>qj_state := CS_Closed\<rparr>)
      | _ \<Rightarrow> ([], q\<lparr>qj_state := CS_Closed\<rparr>))"

subsection \<open>Network changes\<close>

text \<open>A generation is acted on at most once; after a change that succeeds the socket is healthy and bound to
  the requested network, after one that fails the connection ends with the network lost.\<close>

lemma network_change_applied_once:
  assumes "process_network_change r confirmed migrate has_peer m s = (ok, s')"
  shows "(if nc_generation r \<le> ns_applied_generation s then ok \<and> s' = s
    else ns_applied_generation s' = nc_generation r \<and>
         (if ok then ns_network s' = nc_network r \<and> \<not> ns_socket_failed s' \<and> confirmed \<and> migrate \<and> nc_network r \<noteq> 0
          else ns_terminal_error s' = ERR_NETWORK_LOST))"
    "process_network_change r confirmed' migrate' has_peer' m' s' = (True, s')"
  using assms
  by (auto simp: process_network_change_def network_change_action_def Let_def split: if_splits)

subsection \<open>The send quantum\<close>

text \<open>One turn of the worker sends less than one packet more than its quantum.\<close>

lemma write_loop_bounded:
  assumes "\<forall>(n, err, w)\<in>set rs. \<forall>k. n = Some k \<longrightarrow> k \<le> m" "sq_sent s < sq_bytes s"
  shows "sq_sent (fst (write_loop rs (s, ns))) < sq_bytes s + m \<and> sq_bytes (fst (write_loop rs (s, ns))) = sq_bytes s"
  using assms
proof (induction rs "(s, ns)" arbitrary: s ns rule: write_loop.induct)
  case (3 n err wants_write rest s ns)
  show ?case
  proof (cases "n = 0 \<or> err \<noteq> None")
    case True
    then show ?thesis using "3.prems" by (auto split: option.splits)
  next
    case False
    show ?thesis
    proof (cases "send_quantum_exhausted wants_write (count_packet n s)")
      case exhausted: True
      then show ?thesis using "3.prems" False by (auto simp: count_packet_def Let_def)
    next
      case more: False
      then have "sq_sent (count_packet n s) < sq_bytes (count_packet n s)"
        by (simp add: send_quantum_exhausted_def)
      from "3.hyps" [OF _ _ refl more _ this] "3.prems" False more
      show ?thesis by (auto simp: count_packet_def Let_def)
    qed
  qed
qed auto

lemma send_turn_bounded:
  assumes "\<forall>(n, err, w)\<in>set rs. \<forall>k. n = Some k \<longrightarrow> k \<le> 2048"
  shows "sq_sent (fst (write_loop rs (begin_send_quantum quantum, ns))) < max 2048 quantum + 2048"
  using write_loop_bounded [OF assms, of "begin_send_quantum quantum" ns]
  by (simp add: begin_send_quantum_def minimum_send_quantum_def)

subsection \<open>A run that never connects\<close>

lemma attempt_loop_unconfirmed:
  assumes "\<forall>a\<in>set as. \<not> at_confirmed a \<and> at_error a \<noteq> KAT_OK" "\<not> rv_confirmed v" "rv_error v \<noteq> KAT_OK"
  shows "\<not> rv_confirmed (attempt_loop as v) \<and> rv_error (attempt_loop as v) \<noteq> KAT_OK"
  using assms by (induction as arbitrary: v) (auto simp: Let_def)

lemma prepare_endpoints_error:
  "err \<noteq> KAT_OK \<Longrightarrow> snd (snd (prepare_endpoints changed dns late q err)) \<noteq> KAT_OK"
  by (simp add: prepare_endpoints_def split: list.splits dns_outcome.splits prod.splits)

text \<open>A worker whose connection was never confirmed (no addresses, a lost race, every attempt
  failed or timed out) ends by failing every job there is, pending or active, with one error that is
  not success; and no job is left.\<close>

lemma unconnected_run_fails_all_jobs:
  assumes "has_live_pending_job q" "ro_race ro = None" "ro_race_error ro \<noteq> KAT_OK"
    and "\<forall>a\<in>set (ro_attempts ro). \<not> at_confirmed a \<and> at_error a \<noteq> KAT_OK"
  shows "\<exists>e. e \<noteq> KAT_OK \<and> run ro q = Run_failed e \<and>
    (\<forall>q'. fst (finish_run (run ro q) q') = map (\<lambda>(p, j). Nt_error j e) (qj_pending q' @ qj_active q') \<and>
          qj_pending (snd (finish_run (run ro q) q')) = [] \<and> qj_active (snd (finish_run (run ro q) q')) = [])"
proof -
  have seq: "\<exists>e. e \<noteq> KAT_OK \<and> sequential_verdict (ro_attempts ro) err = Some e" if "err \<noteq> KAT_OK" for err
    using attempt_loop_unconfirmed [OF assms(4), of "\<lparr>rv_failed = False, rv_confirmed = False, rv_error = err, rv_tls = KAT_OK\<rparr>"] that
    by (simp add: sequential_verdict_def failure_code_def Let_def)
  obtain ok es err where p: "prepare_endpoints (ro_network_changed ro) (ro_dns ro) (ro_late ro) q ERR_QUIC = (ok, es, err)"
    by (metis prod_cases3)
  then have err: "err \<noteq> KAT_OK"
    using prepare_endpoints_error [of ERR_QUIC "ro_network_changed ro" "ro_dns ro" "ro_late ro" q] by simp
  have "\<exists>e. e \<noteq> KAT_OK \<and> run ro q = Run_failed e"
  proof (cases ok)
    case False
    then show ?thesis using p err assms(1) by (simp add: run_def)
  next
    case True
    obtain e1 e2 where v: "sequential_verdict (ro_attempts ro) err = Some e1" "e1 \<noteq> KAT_OK"
      "sequential_verdict (ro_attempts ro) (ro_race_error ro) = Some e2" "e2 \<noteq> KAT_OK"
      using seq [OF err] seq [OF assms(3)] by blast
    show ?thesis using True p assms(1,2) v by (simp add: run_def verdict_of_def Let_def)
  qed
  then show ?thesis by (auto simp: finish_run_def fail_all_pending_def)
qed

definition refused_run :: run_observation where
  "refused_run = \<lparr>ro_network_changed = False, ro_dns = Dns_answer [mk_endpoint ''192.0.2.1'' 443 2],
     ro_late = False, ro_early_resumption = False, ro_race = None, ro_race_error = ERR_QUIC,
     ro_attempts = [\<lparr>at_stop = False, at_connect_timeout = False, at_setup_ok = True, at_loop_ok = False,
       at_error = ERR_HANDSHAKE_TIMEOUT, at_tls = KAT_OK, at_confirmed = False\<rparr>]\<rparr>"

definition one_job :: quic_jobs where
  "one_job = snd (submit_job 1 (new_job 7 (new_request ''GET'' ''u'') empty_url) new_quic_jobs)"

lemma unconnected_run_fails_all_jobs_witness:
  "\<exists>e. e \<noteq> KAT_OK \<and> run refused_run one_job = Run_failed e"
proof -
  have 1: "has_live_pending_job one_job" by code_simp
  have 2: "ro_race refused_run = None" "ro_race_error refused_run \<noteq> KAT_OK"
    "\<forall>a\<in>set (ro_attempts refused_run). \<not> at_confirmed a \<and> at_error a \<noteq> KAT_OK"
    by (simp_all add: refused_run_def)
  from unconnected_run_fails_all_jobs [OF 1 2] show ?thesis by blast
qed

text \<open>
  What the code does not get right: when an attempt was confirmed and its event loop then fails, with
  the network not lost and no certificate at fault, \<^verbatim>\<open>connection_failed\<close> is cleared before the loop
  condition ends the loop, and neither branch that fails the jobs is taken.
\<close>

lemma lost_connection_leaves_jobs:
  assumes "at_confirmed a" "\<not> at_loop_ok a" "at_setup_ok a" "\<not> at_stop a" "\<not> at_connect_timeout a"
    and "at_error a \<noteq> ERR_NETWORK_LOST" "\<not> certificate_failure (at_tls a)"
  shows "sequential_verdict (a # rest) err = None"
    "finish_run (verdict_of (sequential_verdict (a # rest) err)) q = ([], q\<lparr>qj_state := CS_Closed\<rparr>)"
proof -
  have "attempt_loop (a # rest) v = v\<lparr>rv_confirmed := True, rv_error := at_error a, rv_tls := at_tls a, rv_failed := False\<rparr>"
    if "\<not> rv_confirmed v" for v
    using assms that by (cases rest) (simp_all add: Let_def)
  then show "sequential_verdict (a # rest) err = None" by (simp add: sequential_verdict_def Let_def)
  then show "finish_run (verdict_of (sequential_verdict (a # rest) err)) q = ([], q\<lparr>qj_state := CS_Closed\<rparr>)"
    by (simp add: verdict_of_def finish_run_def)
qed

end
