(* ===== verification/Quic_Race_Loop.thy ===== *)
theory Quic_Race_Loop
  imports Quic_Race Quic_Timeouts
begin

text \<open>
  The loop of \<^verbatim>\<open>QuicClient::run_handshake_race\<close> (\<^verbatim>\<open>src/core/quic_client.cc\<close>): starting the second address family
  after 250 ms or when the first has failed, polling, and the reasons to give the race up.  A turn of the
  loop is what it reads: clocks, flags, and what ngtcp2 and the sockets answer for every candidate.
\<close>

subsection \<open>One candidate in one turn\<close>

text \<open>Callbacks ngtcp2 makes during a call, and whether the call succeeds.\<close>

type_synonym conn_call = "candidate_event list \<times> bool"

definition call_conn :: "conn_call \<Rightarrow> candidate \<Rightarrow> candidate" where
  "call_conn call c =
     (let c1 = foldl candidate_step c (fst call) in if snd call then c1 else candidate_fail c1)"

record poll_turn =
  pt_reads :: "conn_call list"
  pt_flush :: bool
  pt_expiry :: conn_call
  pt_write :: conn_call

text \<open>The datagrams of a batch; reading stops at the first packet ngtcp2 refuses.\<close>

fun read_datagrams :: "conn_call list \<Rightarrow> candidate \<Rightarrow> candidate" where
  "read_datagrams [] c = c"
| "read_datagrams (r # rs) c = (if snd r then read_datagrams rs (call_conn r c) else call_conn r c)"

record racing =
  rn_candidate :: candidate
  rn_started :: nat

definition process_candidate :: "nat \<Rightarrow> nat \<Rightarrow> poll_turn \<Rightarrow> racing \<Rightarrow> kat_error \<Rightarrow> racing \<times> kat_error" where
  "process_candidate handshake_ms progressed pt r err =
     (let c1 = read_datagrams (pt_reads pt) (rn_candidate r);
          c2 = (if \<not> cd_failed c1 \<and> \<not> pt_flush pt then candidate_fail c1 else c1);
          c3 = (if \<not> cd_failed c2 then call_conn (pt_expiry pt) c2 else c2);
          c4 = (if \<not> cd_failed c3 then call_conn (pt_write pt) c3 else c3)
      in if \<not> cd_failed c4 \<and> handshake_ms \<noteq> 0 \<and> elapsed_ms progressed (rn_started r) handshake_ms
         then (r\<lparr>rn_candidate := candidate_fail c4\<rparr>, ERR_HANDSHAKE_TIMEOUT)
         else (r\<lparr>rn_candidate := c4\<rparr>, err))"

fun process_all :: "nat \<Rightarrow> nat \<Rightarrow> poll_turn list \<Rightarrow> racing list \<Rightarrow> kat_error \<Rightarrow> racing list \<times> kat_error" where
  "process_all handshake_ms progressed (p # ps) (r # rs) err =
     (if cd_failed (rn_candidate r)
      then (case process_all handshake_ms progressed (p # ps) rs err of (rs', e) \<Rightarrow> (r # rs', e))
      else case process_candidate handshake_ms progressed p r err of
             (r', e1) \<Rightarrow> (case process_all handshake_ms progressed ps rs e1 of (rs', e) \<Rightarrow> (r' # rs', e)))"
| "process_all handshake_ms progressed ps rs err = (rs, err)"

subsection \<open>The loop\<close>

definition family_fallback_delay_ns :: nat where "family_fallback_delay_ns = 250 * 1000000"

record race_turn =
  rt_stop :: bool
  rt_network_changed :: bool
  rt_now :: nat
  rt_fallback_ok :: bool
  rt_fallback_started_at :: nat
  rt_poll_ok :: bool
  rt_progressed :: nat
  rt_polled :: "poll_turn list"

record race_state =
  rc_racing :: "racing list"
  rc_fallback_started :: bool
  rc_error :: kat_error

datatype race_end = Race_given_up | Race_won nat

text \<open>The timer of \<^verbatim>\<open>poll\<close> in milliseconds.\<close>

definition race_timeout_ms :: "nat \<Rightarrow> nat \<Rightarrow> bool \<Rightarrow> nat" where
  "race_timeout_ms now race_started fallback_started =
     (if fallback_started then 10
      else min ((family_fallback_delay_ns - min (elapsed_ns now race_started) family_fallback_delay_ns) div 1000000) 10)"

text \<open>Starting the second family, if it is time to.\<close>

definition start_fallback :: "nat \<Rightarrow> endpoint \<Rightarrow> race_turn \<Rightarrow> race_state \<Rightarrow> race_state" where
  "start_fallback race_started fallback t s =
     (if \<not> rc_fallback_started s \<and>
         (elapsed_ns (rt_now t) race_started \<ge> family_fallback_delay_ns \<or> cd_failed (rn_candidate (hd (rc_racing s))))
      then
        let s1 = s\<lparr>rc_fallback_started := True\<rparr>
        in if rt_fallback_ok t
           then s1\<lparr>rc_racing := rc_racing s1 @ [\<lparr>rn_candidate = new_candidate fallback, rn_started = rt_fallback_started_at t\<rparr>]\<rparr>
           else s1\<lparr>rc_error := ERR_QUIC\<rparr>
      else s)"

text \<open>\<open>Inl\<close>: the race is over; \<open>Inr\<close>: the state of the next turn.\<close>

definition race_turn_step ::
  "nat \<Rightarrow> nat \<Rightarrow> nat \<Rightarrow> nat \<Rightarrow> endpoint \<Rightarrow> race_turn \<Rightarrow> race_state \<Rightarrow> race_end \<times> race_state + race_state" where
  "race_turn_step connect_ms handshake_ms connection_started race_started fallback t s =
     (if rt_stop t then Inl (Race_given_up, s)
      else if rt_network_changed t then Inl (Race_given_up, s\<lparr>rc_error := ERR_NETWORK_LOST\<rparr>)
      else
        let s1 = start_fallback race_started fallback t s
        in case race_winner (map rn_candidate (rc_racing s1)) of
             Some i \<Rightarrow> Inl (Race_won i, s1)
           | None \<Rightarrow>
               if connect_ms \<noteq> 0 \<and> elapsed_ms (rt_now t) connection_started connect_ms
               then Inl (Race_given_up, s1\<lparr>rc_error := ERR_CONNECT_TIMEOUT\<rparr>)
               else if list_all (\<lambda>r. cd_failed (rn_candidate r)) (rc_racing s1) \<and> rc_fallback_started s1
               then Inl (Race_given_up, s1\<lparr>rc_error := ERR_QUIC\<rparr>)
               else if \<not> list_all (\<lambda>r. cd_failed (rn_candidate r)) (rc_racing s1) \<and> \<not> rt_poll_ok t
               then Inl (Race_given_up, s1\<lparr>rc_error := ERR_QUIC\<rparr>)
               else case process_all handshake_ms (rt_progressed t) (rt_polled t) (rc_racing s1) (rc_error s1) of
                      (rs, e) \<Rightarrow> Inr (s1\<lparr>rc_racing := rs, rc_error := e\<rparr>))"

text \<open>The whole race over the turns that are observed; \<open>None\<close> where it is not over after them.\<close>

fun race_turns ::
  "nat \<Rightarrow> nat \<Rightarrow> nat \<Rightarrow> nat \<Rightarrow> endpoint \<Rightarrow> race_turn list \<Rightarrow> race_state \<Rightarrow> (race_end \<times> race_state) option" where
  "race_turns connect_ms handshake_ms cs rs fallback [] s = None"
| "race_turns connect_ms handshake_ms cs rs fallback (t # ts) s =
     (case race_turn_step connect_ms handshake_ms cs rs fallback t s of
        Inl e \<Rightarrow> Some e
      | Inr s1 \<Rightarrow> race_turns connect_ms handshake_ms cs rs fallback ts s1)"

text \<open>\<^verbatim>\<open>run_handshake_race\<close>; \<open>primary_ok\<close> tells whether the first candidate could be started, \<open>started\<close> when.\<close>

definition run_handshake_race ::
  "nat \<Rightarrow> nat \<Rightarrow> nat \<Rightarrow> nat \<Rightarrow> bool \<Rightarrow> nat \<Rightarrow> endpoint list \<Rightarrow> race_turn list \<Rightarrow> kat_error \<Rightarrow> (race_end \<times> race_state) option" where
  "run_handshake_race connect_ms handshake_ms connection_started race_started primary_ok started endpoints turns err =
     (let plan = make_happy_eyeballs_plan endpoints;
          idle = \<lparr>rc_racing = [], rc_fallback_started = False, rc_error = err\<rparr>
      in case he_primary plan of
           None \<Rightarrow> Some (Race_given_up, idle)
         | Some p \<Rightarrow>
             (case he_fallback plan of
                None \<Rightarrow> Some (Race_given_up, idle)
              | Some f \<Rightarrow>
                  if \<not> primary_ok then Some (Race_given_up, idle)
                  else race_turns connect_ms handshake_ms connection_started race_started (endpoints ! f) turns
                         (idle\<lparr>rc_racing := [\<lparr>rn_candidate = new_candidate (endpoints ! p), rn_started = started\<rparr>]\<rparr>)))"

subsection \<open>What the loop keeps\<close>

definition raced :: "candidate \<Rightarrow> bool" where
  "raced c \<longleftrightarrow> (\<exists>events. c = foldl candidate_step (new_candidate (cd_endpoint c)) events)"

lemma step_endpoint [simp]: "cd_endpoint (candidate_step c e) = cd_endpoint c"
  by (cases e)
     (auto simp: candidate_handshake_completed_def candidate_handshake_confirmed_def
       candidate_recv_rx_key_def candidate_recv_stream_data_def candidate_fail_def Let_def split: prod.splits)

lemma step_failed: "cd_failed c \<Longrightarrow> cd_failed (candidate_step c e)"
  by (cases e)
     (auto simp: candidate_handshake_completed_def candidate_handshake_confirmed_def
       candidate_recv_rx_key_def candidate_recv_stream_data_def candidate_fail_def Let_def split: prod.splits)

lemma raced_new: "raced (new_candidate e)"
  unfolding raced_def by (rule exI [of _ "[]"]) (simp add: new_candidate_def)

lemma raced_step: "raced c \<Longrightarrow> raced (candidate_step c e)"
  unfolding raced_def by (metis foldl_append foldl_Cons foldl_Nil step_endpoint)

text \<open>\<open>later c c'\<close>: the same attempt, further on.\<close>

definition later :: "candidate \<Rightarrow> candidate \<Rightarrow> bool" where
  "later c c' \<longleftrightarrow> (raced c \<longrightarrow> raced c') \<and> cd_endpoint c' = cd_endpoint c \<and> (cd_failed c \<longrightarrow> cd_failed c')"

lemma later_refl [simp]: "later c c"
  by (simp add: later_def)

lemma later_trans [trans]: "later a b \<Longrightarrow> later b c \<Longrightarrow> later a c"
  by (auto simp: later_def)

lemma later_step: "later c (candidate_step c e)"
  by (simp add: later_def raced_step step_failed)

lemma later_fail: "later c (candidate_fail c)"
  using later_step [of c Cd_fail] by simp

lemma later_events: "later c (foldl candidate_step c es)"
proof (induction es arbitrary: c)
  case (Cons e es)
  show ?case using later_trans [OF later_step Cons] by simp
qed simp

lemma later_call: "later c (call_conn call c)"
  by (simp add: call_conn_def Let_def later_events later_trans [OF later_events later_fail])

lemma later_reads: "later c (read_datagrams rs c)"
  by (induction rs arbitrary: c) (auto intro: later_trans later_call)

lemma later_process:
  assumes "process_candidate handshake_ms progressed pt r err = (r', e)"
  shows "later (rn_candidate r) (rn_candidate r')" "e = err \<or> e = ERR_HANDSHAKE_TIMEOUT"
proof -
  let ?c1 = "read_datagrams (pt_reads pt) (rn_candidate r)"
  let ?c2 = "if \<not> cd_failed ?c1 \<and> \<not> pt_flush pt then candidate_fail ?c1 else ?c1"
  let ?c3 = "if \<not> cd_failed ?c2 then call_conn (pt_expiry pt) ?c2 else ?c2"
  let ?c4 = "if \<not> cd_failed ?c3 then call_conn (pt_write pt) ?c3 else ?c3"
  have "later (rn_candidate r) ?c1" by (rule later_reads)
  moreover have "later ?c1 ?c2" by (simp add: later_fail)
  moreover have "later ?c2 ?c3" by (simp add: later_call del: if_not_P)
  moreover have "later ?c3 ?c4" by (simp add: later_call del: if_not_P)
  ultimately have 4: "later (rn_candidate r) ?c4" by (blast intro: later_trans)
  have out: "r' = r\<lparr>rn_candidate := ?c4\<rparr> \<and> e = err \<or> r' = r\<lparr>rn_candidate := candidate_fail ?c4\<rparr> \<and> e = ERR_HANDSHAKE_TIMEOUT"
    using assms unfolding process_candidate_def Let_def by (auto split: if_split_asm)
  then show "later (rn_candidate r) (rn_candidate r')"
    using 4 later_trans [OF 4 later_fail] by auto
  show "e = err \<or> e = ERR_HANDSHAKE_TIMEOUT" using out by blast
qed

lemma later_process_all:
  assumes "process_all handshake_ms progressed ps rs err = (rs', e)"
  shows "list_all2 (\<lambda>r r'. later (rn_candidate r) (rn_candidate r')) rs rs'"
  using assms
proof (induction handshake_ms progressed ps rs err arbitrary: rs' e rule: process_all.induct)
  case (1 handshake_ms progressed p ps r rs err)
  then show ?case by (auto split: if_splits prod.splits dest: later_process)
qed (auto intro: list.rel_refl)

text \<open>One or two attempts, each a candidate's life; the second is started late or after a failure.\<close>

definition race_ok :: "endpoint \<Rightarrow> endpoint \<Rightarrow> bool \<Rightarrow> race_state \<Rightarrow> bool" where
  "race_ok p f late s \<longleftrightarrow>
     (\<forall>r\<in>set (rc_racing s). raced (rn_candidate r)) \<and>
     (map (cd_endpoint \<circ> rn_candidate) (rc_racing s) = [p] \<or>
      map (cd_endpoint \<circ> rn_candidate) (rc_racing s) = [p, f] \<and> rc_fallback_started s) \<and>
     (rc_fallback_started s \<longrightarrow> late \<or> cd_failed (rn_candidate (hd (rc_racing s))))"

lemma race_ok_racing: "race_ok p f late s \<Longrightarrow> \<exists>r rs. rc_racing s = r # rs"
  by (cases "rc_racing s") (auto simp: race_ok_def)

lemma race_ok_mono: "race_ok p f late s \<Longrightarrow> (late \<Longrightarrow> late') \<Longrightarrow> race_ok p f late' s"
  by (auto simp: race_ok_def)

lemma race_ok_error [simp]: "race_ok p f late (s\<lparr>rc_error := e\<rparr>) = race_ok p f late s"
  by (simp add: race_ok_def)

lemma start_fallback_ok:
  assumes "race_ok p f late s"
  shows "race_ok p f (late \<or> family_fallback_delay_ns \<le> elapsed_ns (rt_now t) race_started) (start_fallback race_started f t s)"
proof -
  obtain r rs where "rc_racing s = r # rs" using race_ok_racing [OF assms] by blast
  then show ?thesis
    using assms by (auto simp: race_ok_def start_fallback_def Let_def raced_new) (auto simp: new_candidate_def)
qed

lemma process_all_ok:
  assumes "race_ok p f late s" "process_all handshake_ms progressed ps (rc_racing s) (rc_error s) = (rs, e)"
  shows "race_ok p f late (s\<lparr>rc_racing := rs, rc_error := e\<rparr>)"
proof -
  have l: "list_all2 (\<lambda>r r'. later (rn_candidate r) (rn_candidate r')) (rc_racing s) rs"
    by (rule later_process_all [OF assms(2)])
  then have len: "length rs = length (rc_racing s)" by (simp add: list_all2_lengthD)
  have nth: "later (rn_candidate (rc_racing s ! i)) (rn_candidate (rs ! i))" if "i < length rs" for i
    using list_all2_nthD [OF l, of i] that len by simp
  have "map (cd_endpoint \<circ> rn_candidate) rs = map (cd_endpoint \<circ> rn_candidate) (rc_racing s)"
    using nth len by (intro nth_equalityI) (auto simp: later_def)
  moreover have "\<forall>r\<in>set rs. raced (rn_candidate r)"
  proof
    fix r
    assume "r \<in> set rs"
    then obtain i where i: "i < length rs" "r = rs ! i" by (auto simp: in_set_conv_nth)
    then have "rc_racing s ! i \<in> set (rc_racing s)" using len by simp
    then have "raced (rn_candidate (rc_racing s ! i))" using assms(1) by (simp add: race_ok_def)
    then show "raced (rn_candidate r)" using nth [OF i(1)] i(2) by (simp add: later_def)
  qed
  moreover have "cd_failed (rn_candidate (hd (rc_racing s))) \<longrightarrow> cd_failed (rn_candidate (hd rs))"
    using nth [of 0] len race_ok_racing [OF assms(1)] by (cases rs) (auto simp: later_def)
  ultimately show ?thesis using assms(1) by (auto simp: race_ok_def)
qed

text \<open>The reasons to give up in a turn, and the error that goes with each.\<close>

definition lost_because :: "kat_error \<Rightarrow> nat \<Rightarrow> nat \<Rightarrow> race_turn \<Rightarrow> race_state \<Rightarrow> bool" where
  "lost_because err connect_ms cs t s \<longleftrightarrow>
     (if rt_stop t then rc_error s \<in> {err, ERR_QUIC, ERR_HANDSHAKE_TIMEOUT}
      else if rt_network_changed t then rc_error s = ERR_NETWORK_LOST
      else race_winner (map rn_candidate (rc_racing s)) = None \<and>
        (if connect_ms \<noteq> 0 \<and> elapsed_ms (rt_now t) cs connect_ms then rc_error s = ERR_CONNECT_TIMEOUT
         else rc_error s = ERR_QUIC \<and>
           (rc_fallback_started s \<and> (\<forall>r\<in>set (rc_racing s). cd_failed (rn_candidate r)) \<or> \<not> rt_poll_ok t)))"

lemma lost_because_earlier:
  "\<lbrakk>lost_because e connect_ms cs t s; e \<in> {err, ERR_QUIC, ERR_HANDSHAKE_TIMEOUT}\<rbrakk> \<Longrightarrow> lost_because err connect_ms cs t s"
  by (auto simp: lost_because_def split: if_split_asm)

lemma race_turn_over:
  assumes "race_turn_step connect_ms handshake_ms cs race_started f t s = Inl (out, s')" "race_ok p f late s"
  shows "race_ok p f (late \<or> family_fallback_delay_ns \<le> elapsed_ns (rt_now t) race_started) s' \<and>
    (case out of
       Race_won i \<Rightarrow> race_winner (map rn_candidate (rc_racing s')) = Some i \<and> \<not> rt_stop t \<and> \<not> rt_network_changed t
     | Race_given_up \<Rightarrow> lost_because (rc_error s) connect_ms cs t s')"
proof -
  let ?late = "late \<or> family_fallback_delay_ns \<le> elapsed_ns (rt_now t) race_started"
  have "race_ok p f ?late s" using assms(2) by (auto intro: race_ok_mono)
  moreover have "race_ok p f ?late (start_fallback race_started f t s)" by (rule start_fallback_ok [OF assms(2)])
  ultimately show ?thesis
    using assms(1)
    by (auto simp: race_turn_step_def Let_def lost_because_def list_all_iff split: if_splits option.splits prod.splits)
qed

lemma process_all_error:
  "process_all handshake_ms progressed ps rs err = (rs', e) \<Longrightarrow> e = err \<or> e = ERR_HANDSHAKE_TIMEOUT"
proof (induction handshake_ms progressed ps rs err arbitrary: rs' e rule: process_all.induct)
  case (1 handshake_ms progressed p ps r rs err)
  then show ?case by (auto split: if_splits prod.splits dest: later_process(2))
qed auto

lemma race_turn_more:
  assumes "race_turn_step connect_ms handshake_ms cs race_started f t s = Inr s'" "race_ok p f late s"
  shows "race_ok p f (late \<or> family_fallback_delay_ns \<le> elapsed_ns (rt_now t) race_started) s'"
    "\<not> rt_stop t" "\<not> (connect_ms \<noteq> 0 \<and> elapsed_ms (rt_now t) cs connect_ms)"
    "rc_error s' \<in> {rc_error s, ERR_QUIC, ERR_HANDSHAKE_TIMEOUT}"
proof -
  let ?late = "late \<or> family_fallback_delay_ns \<le> elapsed_ns (rt_now t) race_started"
  have ok: "race_ok p f ?late (start_fallback race_started f t s)" by (rule start_fallback_ok [OF assms(2)])
  have err: "rc_error (start_fallback race_started f t s) \<in> {rc_error s, ERR_QUIC}"
    by (simp add: start_fallback_def Let_def)
  show "race_ok p f ?late s'" "\<not> rt_stop t" "\<not> (connect_ms \<noteq> 0 \<and> elapsed_ms (rt_now t) cs connect_ms)"
    "rc_error s' \<in> {rc_error s, ERR_QUIC, ERR_HANDSHAKE_TIMEOUT}"
    using assms(1) process_all_ok [OF ok] err
    by (auto dest: process_all_error simp: race_turn_step_def Let_def split: if_splits option.splits prod.splits)
qed

lemma race_turns_over:
  assumes "race_turns connect_ms handshake_ms cs race_started f ts s = Some (out, s')" "race_ok p f late s"
  shows "race_ok p f (late \<or> (\<exists>t\<in>set ts. family_fallback_delay_ns \<le> elapsed_ns (rt_now t) race_started)) s' \<and>
    (case out of
       Race_won i \<Rightarrow> race_winner (map rn_candidate (rc_racing s')) = Some i
     | Race_given_up \<Rightarrow> \<exists>pre t post. ts = pre @ t # post \<and>
         race_turns connect_ms handshake_ms cs race_started f pre s = None \<and>
         lost_because (rc_error s) connect_ms cs t s')"
  using assms
proof (induction ts arbitrary: s late)
  case (Cons t ts)
  show ?case
  proof (cases "race_turn_step connect_ms handshake_ms cs race_started f t s")
    case (Inl e)
    then have "race_turn_step connect_ms handshake_ms cs race_started f t s = Inl (out, s')" using Cons.prems(1) by simp
    note over = race_turn_over [OF this Cons.prems(2)]
    then have ok: "race_ok p f (late \<or> (\<exists>t\<in>set (t # ts). family_fallback_delay_ns \<le> elapsed_ns (rt_now t) race_started)) s'"
      by (auto intro: race_ok_mono)
    show ?thesis
    proof (cases out)
      case Race_given_up
      have "t # ts = [] @ t # ts" "race_turns connect_ms handshake_ms cs race_started f [] s = None" by simp_all
      then show ?thesis using over ok unfolding Race_given_up race_end.case by blast
    qed (use over ok in simp)
  next
    case (Inr s1)
    then have more: "race_turns connect_ms handshake_ms cs race_started f ts s1 = Some (out, s')" using Cons.prems(1) by simp
    note IH = Cons.IH [OF more race_turn_more(1) [OF Inr Cons.prems(2)]] and e = race_turn_more(4) [OF Inr Cons.prems(2)]
    then have ok: "race_ok p f (late \<or> (\<exists>t\<in>set (t # ts). family_fallback_delay_ns \<le> elapsed_ns (rt_now t) race_started)) s'"
      by (auto intro: race_ok_mono)
    show ?thesis
    proof (cases out)
      case Race_given_up
      obtain pre u post where u: "ts = pre @ u # post"
        "race_turns connect_ms handshake_ms cs race_started f pre s1 = None" "lost_because (rc_error s1) connect_ms cs u s'"
        using IH unfolding Race_given_up race_end.case by blast
      have "t # ts = (t # pre) @ u # post" "race_turns connect_ms handshake_ms cs race_started f (t # pre) s = None"
        "lost_because (rc_error s) connect_ms cs u s'"
        using u(1,2) Inr lost_because_earlier [OF u(3) e] by simp_all
      then show ?thesis using ok unfolding Race_given_up race_end.case by blast
    qed (use IH ok in simp)
  qed
qed simp

text \<open>A turn at the connect deadline, or with the client stopped, is the last one.\<close>

lemma race_turns_end:
  assumes "t \<in> set ts" "rt_stop t \<or> connect_ms \<noteq> 0 \<and> elapsed_ms (rt_now t) cs connect_ms" "race_ok p f late s"
  shows "race_turns connect_ms handshake_ms cs race_started f ts s \<noteq> None"
  using assms
proof (induction ts arbitrary: s late)
  case (Cons u ts)
  show ?case
  proof (cases "race_turn_step connect_ms handshake_ms cs race_started f u s")
    case (Inr s1)
    then have "t \<in> set ts" using race_turn_more(2,3) [OF Inr Cons.prems(3)] Cons.prems(1,2) by auto
    then show ?thesis using Cons.IH [OF _ Cons.prems(2) race_turn_more(1) [OF Inr Cons.prems(3)]] Inr by simp
  qed simp
qed simp

subsection \<open>The race\<close>

lemma plan_families:
  assumes "make_happy_eyeballs_plan endpoints = plan" "he_primary plan = Some p" "he_fallback plan = Some f"
  shows "p < length endpoints \<and> f < length endpoints \<and> ep_family (endpoints ! p) \<noteq> ep_family (endpoints ! f)"
  using assms
  by (auto simp: make_happy_eyeballs_plan_def find_if_Some split: list.splits if_splits option.splits)

lemma plan_without_primary:
  "he_primary (make_happy_eyeballs_plan endpoints) = None \<Longrightarrow> he_fallback (make_happy_eyeballs_plan endpoints) = None"
  by (cases endpoints)
    (auto simp: make_happy_eyeballs_plan_def simp del: not_None_eq split: if_split_asm option.split_asm)

lemma given_a_race:
  assumes "run_handshake_race connect_ms handshake_ms cs race_started primary_ok started endpoints turns err = Some (out, s)"
  shows "out = Race_given_up \<and> rc_racing s = [] \<and> rc_error s = err \<and>
      (he_fallback (make_happy_eyeballs_plan endpoints) = None \<or> \<not> primary_ok) \<or>
    (\<exists>p f late s0. race_ok p f late s \<and> race_turns connect_ms handshake_ms cs race_started f turns s0 = Some (out, s) \<and>
       {p, f} \<subseteq> set endpoints \<and> ep_family p \<noteq> ep_family f \<and>
       he_fallback (make_happy_eyeballs_plan endpoints) \<noteq> None \<and> primary_ok \<and>
       (late \<longrightarrow> (\<exists>t\<in>set turns. family_fallback_delay_ns \<le> elapsed_ns (rt_now t) race_started)) \<and>
       (case out of
          Race_won i \<Rightarrow> race_winner (map rn_candidate (rc_racing s)) = Some i
        | Race_given_up \<Rightarrow> \<exists>pre t post. turns = pre @ t # post \<and>
            run_handshake_race connect_ms handshake_ms cs race_started primary_ok started endpoints pre err = None \<and>
            lost_because err connect_ms cs t s))"
proof (cases "he_primary (make_happy_eyeballs_plan endpoints)")
  case (Some p)
  show ?thesis
  proof (cases "he_fallback (make_happy_eyeballs_plan endpoints) = None \<or> \<not> primary_ok")
    case False
    then obtain f where f: "he_fallback (make_happy_eyeballs_plan endpoints) = Some f" and ok: primary_ok by auto
    let ?s0 = "\<lparr>rc_racing = [\<lparr>rn_candidate = new_candidate (endpoints ! p), rn_started = started\<rparr>],
                rc_fallback_started = False, rc_error = err\<rparr>"
    have ts: "race_turns connect_ms handshake_ms cs race_started (endpoints ! f) turns ?s0 = Some (out, s)"
      using assms Some f ok by (simp add: run_handshake_race_def Let_def)
    have "race_ok (endpoints ! p) (endpoints ! f) False ?s0"
      by (simp add: race_ok_def raced_new) (simp add: new_candidate_def)
    note over = race_turns_over [OF ts this]
    have "run_handshake_race connect_ms handshake_ms cs race_started primary_ok started endpoints pre err =
        race_turns connect_ms handshake_ms cs race_started (endpoints ! f) pre ?s0" for pre
      using Some f ok by (simp add: run_handshake_race_def Let_def)
    then show ?thesis
      using over ts plan_families [OF refl Some f] f ok
      by (intro disjI2 exI [of _ "endpoints ! p"] exI [of _ "endpoints ! f"]) (auto split: race_end.splits)
  next
    case True
    then show ?thesis using assms Some by (auto simp: run_handshake_race_def Let_def split: option.splits)
  qed
qed (use assms plan_without_primary in \<open>auto simp: run_handshake_race_def Let_def\<close>)

lemma race_attempts:
  assumes "race_ok p f late s" "{p, f} \<subseteq> set endpoints" "ep_family p \<noteq> ep_family f"
  shows "cd_endpoint ` rn_candidate ` set (rc_racing s) \<subseteq> set endpoints"
    "(\<exists>a. rc_racing s = [a]) \<or>
     (\<exists>a b. rc_racing s = [a, b] \<and>
        ep_family (cd_endpoint (rn_candidate a)) \<noteq> ep_family (cd_endpoint (rn_candidate b)) \<and>
        (cd_failed (rn_candidate a) \<or> late))"
  using assms by (auto simp: race_ok_def map_eq_Cons_conv)

lemma winner_is_adopted:
  assumes "race_ok p f late s" "race_winner (map rn_candidate (rc_racing s)) = Some i"
  defines "w \<equiv> rn_candidate (rc_racing s ! i)"
  shows "i < length (rc_racing s)" "\<not> cd_failed w" "\<not> cd_abandoned w"
    "r \<in> set (rc_racing s) \<Longrightarrow> cd_failed (rn_candidate r) \<or> cd_abandoned (rn_candidate r) \<or>
       cd_ready_at (rn_candidate r) = 0 \<or> cd_ready_at w \<le> cd_ready_at (rn_candidate r)"
    "\<forall>e\<in>set (hb_events (cd_buffer w)). accept e \<Longrightarrow>
       \<exists>c'. adopt_candidate True accept w = (True, c', hb_events (cd_buffer w)) \<and> cd_adopted c'"
proof -
  have reach: "\<forall>c\<in>set (map rn_candidate (rc_racing s)). \<exists>e events. c = foldl candidate_step (new_candidate e) events"
    using assms(1) unfolding race_ok_def raced_def set_map by blast
  note adopts = race_adopts_earliest_ready [OF assms(2) reach]
  show "i < length (rc_racing s)" using adopts [of "\<lambda>_. True"] by simp
  then have w: "map rn_candidate (rc_racing s) ! i = w" by (simp add: w_def)
  show "\<not> cd_failed w" "\<not> cd_abandoned w"
    "r \<in> set (rc_racing s) \<Longrightarrow> cd_failed (rn_candidate r) \<or> cd_abandoned (rn_candidate r) \<or>
       cd_ready_at (rn_candidate r) = 0 \<or> cd_ready_at w \<le> cd_ready_at (rn_candidate r)"
    using adopts [of "\<lambda>_. True"] w by auto
  show "\<exists>c'. adopt_candidate True accept w = (True, c', hb_events (cd_buffer w)) \<and> cd_adopted c'"
    if "\<forall>e\<in>set (hb_events (cd_buffer w)). accept e"
    using adopts [of accept] w that by auto
qed


text \<open>The race ends: at the latest in the first turn at the connect deadline, or when the client is stopped.\<close>

lemma race_ends_by_deadline:
  assumes "t \<in> set turns" "rt_stop t \<or> connect_ms \<noteq> 0 \<and> elapsed_ms (rt_now t) connection_started connect_ms"
  shows "run_handshake_race connect_ms handshake_ms connection_started race_started primary_ok started endpoints turns err \<noteq> None"
proof -
  have "race_turns connect_ms handshake_ms connection_started race_started f turns
     \<lparr>rc_racing = [\<lparr>rn_candidate = new_candidate p, rn_started = started\<rparr>], rc_fallback_started = False, rc_error = err\<rparr> \<noteq> None" for p f
    by (rule race_turns_end [OF assms, of p f False]) (simp add: race_ok_def raced_new, simp add: new_candidate_def)
  then show ?thesis by (simp add: run_handshake_race_def Let_def split: option.split)
qed

text \<open>A handshake timeout recorded by an attempt is never what a lost race reports: the next turn finds no attempt left and
  overwrites it.\<close>

lemma race_hides_handshake_timeout:
  assumes "run_handshake_race connect_ms handshake_ms cs race_started primary_ok started endpoints turns ERR_QUIC = Some (Race_given_up, s)"
    "\<forall>t\<in>set turns. \<not> rt_stop t"
  shows "rc_error s \<noteq> ERR_HANDSHAKE_TIMEOUT"
  using given_a_race [OF assms(1)] assms(2) by (auto simp: lost_because_def split: if_splits)

definition quiet_turn :: poll_turn where
  "quiet_turn = \<lparr>pt_reads = [], pt_flush = True, pt_expiry = ([], True), pt_write = ([], True)\<rparr>"

definition demo_race :: "race_turn list" where
  "demo_race =
     [\<lparr>rt_stop = False, rt_network_changed = False, rt_now = 10, rt_fallback_ok = True, rt_fallback_started_at = 0,
       rt_poll_ok = True, rt_progressed = 11, rt_polled = [quiet_turn]\<rparr>,
      \<lparr>rt_stop = False, rt_network_changed = False, rt_now = 260000000, rt_fallback_ok = True, rt_fallback_started_at = 260000001,
       rt_poll_ok = True, rt_progressed = 260000005,
       rt_polled = [quiet_turn, quiet_turn\<lparr>pt_reads := [([Cd_data True 0 3 0 (Some [1, 2]) 2, Cd_rx_key True 260000004], True)]\<rparr>]\<rparr>,
      \<lparr>rt_stop = False, rt_network_changed = False, rt_now = 270000000, rt_fallback_ok = True, rt_fallback_started_at = 0,
       rt_poll_ok = True, rt_progressed = 0, rt_polled = []\<rparr>]"


end
