(* ===== verification/Udp_Socket.thy ===== *)
theory Udp_Socket
  imports Dns_Cache Transport_Policy Kat_System "HOL-Library.Multiset"
begin

text \<open>
  The UDP socket of a connection (\<^verbatim>\<open>src/core/udp_socket.cc\<close>): the queue of datagrams the kernel would not
  take yet, its flushing with segmentation offload (GSO), and the metadata of received datagrams.  The
  kernel is the sequence of its answers, one per system call; what a datagram looks like on the wire is
  its bytes and its ECN mark.
\<close>

subsection \<open>State\<close>

record datagram =
  dg_data :: bytes
  dg_ecn :: nat

record udp_socket =
  us_open :: bool
  us_family :: int
  us_connected :: bool
  us_queue :: "datagram list"
  us_queued_bytes :: nat
  us_gso :: bool

definition new_socket :: udp_socket where
  "new_socket = \<lparr>us_open = False, us_family = 0, us_connected = False, us_queue = [], us_queued_bytes = 0,
                 us_gso = True\<rparr>"

datatype sys_result = Sent nat | Failed errno

definition einval :: errno where "einval = Errno_other 22"
definition eio :: errno where "eio = Errno_other 5"
definition enoprotoopt :: errno where "enoprotoopt = Errno_other 92"
definition enotsup :: errno where "enotsup = Errno_other 95"
definition emsgsize :: errno where "emsgsize = Errno_other 90"

definition max_queued_packets :: nat where "max_queued_packets = 1024"
definition max_queued_bytes :: nat where "max_queued_bytes = 4 * 1024 * 1024"

text \<open>A closed socket fails with the errno an earlier call has left.\<close>

definition syscall :: "udp_socket \<Rightarrow> sys_result \<Rightarrow> sys_result" where
  "syscall s r = (if us_open s then r else case r of Failed e \<Rightarrow> Failed e | Sent n \<Rightarrow> Failed EAGAIN)"

definition send_now_gso :: "udp_socket \<Rightarrow> datagram \<Rightarrow> sys_result \<Rightarrow> sys_result" where
  "send_now_gso s p r = (if dg_data p = [] then (case r of Failed e \<Rightarrow> Failed e | Sent n \<Rightarrow> Failed EAGAIN) else syscall s r)"

definition would_block :: "errno \<Rightarrow> bool" where
  "would_block e \<longleftrightarrow> e = EAGAIN \<or> e = EWOULDBLOCK \<or> e = ENOBUFS"

definition gso_unsupported :: "errno \<Rightarrow> bool" where
  "gso_unsupported e \<longleftrightarrow> e = einval \<or> e = enoprotoopt \<or> e = enotsup"

subsection \<open>Opening, closing, moving\<close>

definition close_socket :: "udp_socket \<Rightarrow> udp_socket" where
  "close_socket s = s\<lparr>us_queue := [], us_queued_bytes := 0, us_open := False\<rparr>"

definition open_socket :: "int \<Rightarrow> bool \<Rightarrow> bool \<Rightarrow> udp_socket \<Rightarrow> bool \<times> udp_socket" where
  "open_socket family socket_ok network_ok s =
     (let s1 = s\<lparr>us_family := family\<rparr>
      in if \<not> socket_ok then (False, s1\<lparr>us_open := False\<rparr>)
         else if \<not> network_ok then (False, close_socket (s1\<lparr>us_open := True\<rparr>))
         else (True, s1\<lparr>us_open := True\<rparr>))"

definition bind_any :: "bool \<Rightarrow> udp_socket \<Rightarrow> bool \<times> udp_socket" where
  "bind_any bind_ok s = (if \<not> us_open s \<or> \<not> bind_ok then (False, s) else (True, s\<lparr>us_connected := False\<rparr>))"

definition connect_socket :: "int \<Rightarrow> bool \<Rightarrow> udp_socket \<Rightarrow> bool \<times> udp_socket" where
  "connect_socket family connect_ok s =
     (let s1 = s\<lparr>us_family := family\<rparr>
      in if family \<noteq> af_inet \<and> family \<noteq> af_inet6 then (False, s1)
         else if \<not> connect_ok then (False, s1)
         else (True, s1\<lparr>us_connected := True\<rparr>))"

text \<open>Move construction: the new socket and what is left of the old one.\<close>

definition move_socket :: "udp_socket \<Rightarrow> udp_socket \<times> udp_socket" where
  "move_socket other =
     (other, other\<lparr>us_open := False, us_family := 0, us_connected := False, us_queue := [],
                   us_queued_bytes := 0, us_gso := True\<rparr>)"

text \<open>Move assignment closes the target's own socket first; assigning a socket to itself does nothing.\<close>

definition move_assign :: "bool \<Rightarrow> udp_socket \<Rightarrow> udp_socket \<Rightarrow> udp_socket \<times> udp_socket" where
  "move_assign same target other = (if same then (target, target) else move_socket other)"

subsection \<open>Sending\<close>

text \<open>\<^verbatim>\<open>send\<close>: the bytes taken or the error, the socket, and what went on the wire.\<close>

definition send :: "sys_result \<Rightarrow> datagram \<Rightarrow> udp_socket \<Rightarrow> sys_result \<times> udp_socket \<times> datagram list" where
  "send r d s =
     (if dg_data d = [] then (Failed einval, s, [])
      else
        let n = length (dg_data d)
        in case syscall s r of
             Sent m \<Rightarrow> if m = n then (Sent n, s, [d]) else (Failed eio, s, [])
           | Failed e \<Rightarrow>
               if \<not> would_block e then (Failed e, s, [])
               else if length (us_queue s) \<ge> max_queued_packets \<or> us_queued_bytes s + n > max_queued_bytes
               then (Failed ENOBUFS, s, [])
               else (Sent n, s\<lparr>us_queue := us_queue s @ [d], us_queued_bytes := us_queued_bytes s + n\<rparr>, []))"

text \<open>How many datagrams of the queue one GSO call can carry.\<close>

definition batch_count :: "datagram list \<Rightarrow> nat" where
  "batch_count q =
     (case q of
        [] \<Rightarrow> 0
      | p # rest \<Rightarrow>
          1 + length (takeWhile (\<lambda>x. dg_ecn x = dg_ecn p \<and> length (dg_data x) = length (dg_data p)) (take 15 rest)))"

text \<open>What UDP GSO does with the bytes of a call: it cuts them into datagrams of the segment size.\<close>

fun gso_cut :: "nat \<Rightarrow> nat \<Rightarrow> nat \<Rightarrow> bytes \<Rightarrow> datagram list" where
  "gso_cut 0 segment ecn bs = []"
| "gso_cut (Suc n) segment ecn bs =
     (if bs = [] then [] else \<lparr>dg_data = take segment bs, dg_ecn = ecn\<rparr> # gso_cut n segment ecn (drop segment bs))"

definition pop_packets :: "nat \<Rightarrow> udp_socket \<Rightarrow> udp_socket" where
  "pop_packets n s =
     s\<lparr>us_queue := drop n (us_queue s),
       us_queued_bytes := us_queued_bytes s - sum_list (map (length \<circ> dg_data) (take n (us_queue s)))\<rparr>"

text \<open>\<^verbatim>\<open>flush_send_queue\<close>; \<open>k i\<close> is the kernel's answer to the \<open>i\<close>-th call.  The result, the number of calls
  made, the socket and the datagrams on the wire.\<close>

function flush_send_queue ::
  "(nat \<Rightarrow> sys_result) \<Rightarrow> nat \<Rightarrow> udp_socket \<Rightarrow> datagram list \<Rightarrow> bool \<times> nat \<times> udp_socket \<times> datagram list" where
  "flush_send_queue k i s wire =
     (case us_queue s of
        [] \<Rightarrow> (True, i, s, wire)
      | p # rest \<Rightarrow>
          let count = batch_count (us_queue s);
              batch = take count (us_queue s);
              bytes = concat (map dg_data batch)
          in if us_gso s \<and> length (dg_data p) \<le> u16_max \<and> rest \<noteq> [] \<and> count > 1 then
               (case send_now_gso s p (k i) of
                  Failed e \<Rightarrow>
                    if would_block e then (True, i + 1, s, wire)
                    else if gso_unsupported e then flush_send_queue k (i + 1) (s\<lparr>us_gso := False\<rparr>) wire
                    else (False, i + 1, s, wire)
                | Sent n \<Rightarrow>
                    if n \<noteq> length bytes then (False, i + 1, s, wire)
                    else flush_send_queue k (i + 1) (pop_packets count s)
                           (wire @ gso_cut (length bytes) (length (dg_data p)) (dg_ecn p) bytes))
             else
               (case syscall s (k i) of
                  Failed e \<Rightarrow> if would_block e then (True, i + 1, s, wire) else (False, i + 1, s, wire)
                | Sent n \<Rightarrow>
                    if n \<noteq> length (dg_data p) then (False, i + 1, s, wire)
                    else flush_send_queue k (i + 1) (pop_packets 1 s) (wire @ [p])))"
  by pat_completeness auto
termination
  by (relation "measure (\<lambda>(k, i, s, wire). 2 * length (us_queue s) + (if us_gso s then 1 else 0))")
     (auto simp: pop_packets_def)

declare flush_send_queue.simps [simp del]

subsection \<open>Receiving\<close>

datatype control = Tos bytes | Tclass bytes | Other_control

text \<open>A control message's integer: an \<^verbatim>\<open>int\<close> where the payload has one, otherwise its first byte (the byte
  order is the machine's, little-endian on the platforms the code is built for).\<close>

definition read_control_integer :: "bytes \<Rightarrow> nat option" where
  "read_control_integer payload =
     (if length payload \<ge> 4
      then Some (unat (payload ! 0) + 256 * unat (payload ! 1) + 65536 * unat (payload ! 2) + 16777216 * unat (payload ! 3))
      else if payload \<noteq> [] then Some (unat (payload ! 0)) else None)"

definition control_ecn :: "nat \<Rightarrow> bytes \<Rightarrow> nat" where
  "control_ecn ecn payload = (case read_control_integer payload of None \<Rightarrow> ecn | Some v \<Rightarrow> v mod 4)"

fun decode_controls :: "int \<Rightarrow> control list \<Rightarrow> nat \<Rightarrow> nat" where
  "decode_controls family [] ecn = ecn"
| "decode_controls family (Tos p # cs) ecn =
     decode_controls family cs (if family = af_inet then control_ecn ecn p else ecn)"
| "decode_controls family (Tclass p # cs) ecn =
     decode_controls family cs (if family = af_inet6 then control_ecn ecn p else ecn)"
| "decode_controls family (Other_control # cs) ecn = decode_controls family cs ecn"

definition decode_receive_metadata :: "int \<Rightarrow> control list \<Rightarrow> nat" where
  "decode_receive_metadata family controls = decode_controls family controls 0"

text \<open>One message of a batch, as the kernel fills it in: its bytes, whether it was truncated, its controls.
  A truncated datagram is given size 0, which the connection skips.\<close>

record raw_message =
  rm_data :: bytes
  rm_truncated :: bool
  rm_controls :: "control list"

definition recv_message :: "int \<Rightarrow> raw_message \<Rightarrow> datagram" where
  "recv_message family m =
     (if rm_truncated m then \<lparr>dg_data = [], dg_ecn = 0\<rparr>
      else \<lparr>dg_data = rm_data m, dg_ecn = decode_receive_metadata family (rm_controls m)\<rparr>)"

definition max_receive_batch :: nat where "max_receive_batch = 16"

text \<open>\<^verbatim>\<open>recv_batch\<close> into buffers of the given capacities; \<^verbatim>\<open>errno\<close> of a closed socket is what an earlier call has left.\<close>

definition recv_batch :: "nat list \<Rightarrow> errno \<Rightarrow> errno + raw_message list \<Rightarrow> udp_socket \<Rightarrow> errno + datagram list" where
  "recv_batch capacities stale answer s =
     (if \<not> us_open s then Inl stale
      else if capacities = [] \<or> length capacities > max_receive_batch then Inl einval
      else if 0 \<in> set capacities then Inl einval
      else case answer of
             Inl e \<Rightarrow> Inl e
           | Inr ms \<Rightarrow> Inr (map (recv_message (us_family s)) (take (length capacities) ms)))"

text \<open>\<^verbatim>\<open>recv\<close> of one datagram; an empty one is given no ECN mark.\<close>

definition recv :: "nat \<Rightarrow> errno \<Rightarrow> errno + raw_message \<Rightarrow> udp_socket \<Rightarrow> errno + datagram" where
  "recv capacity stale answer s =
     (if \<not> us_open s then Inl stale
      else if capacity = 0 then Inl einval
      else case answer of
             Inl e \<Rightarrow> Inl e
           | Inr m \<Rightarrow>
               if rm_data m = [] then Inr \<lparr>dg_data = [], dg_ecn = 0\<rparr>
               else if rm_truncated m then Inl emsgsize
               else Inr (recv_message (us_family s) m))"

text \<open>The control message \<^verbatim>\<open>send_now\<close> attaches to mark a datagram, and the mark the other end reads from it.\<close>

definition int_bytes :: "nat \<Rightarrow> bytes" where
  "int_bytes n = [of_nat n, of_nat (n div 256), of_nat (n div 65536), of_nat (n div 16777216)]"

definition ecn_control :: "int \<Rightarrow> nat \<Rightarrow> control" where
  "ecn_control family ecn = (if family = af_inet then Tos (int_bytes ecn) else Tclass (int_bytes ecn))"

lemma ecn_mark_round_trip:
  assumes "family = af_inet \<or> family = af_inet6"
  shows "decode_receive_metadata family [ecn_control family ecn] = ecn mod 4"
proof -
  have low: "(ecn mod 256 + 256 * a + 65536 * b + 16777216 * c) mod 4 = ecn mod 4" for a b c :: nat
  proof -
    have "ecn mod 256 + 256 * a + 65536 * b + 16777216 * c = ecn mod 256 + (64 * a + 16384 * b + 4194304 * c) * 4" by simp
    then have "(ecn mod 256 + 256 * a + 65536 * b + 16777216 * c) mod 4 = ecn mod 256 mod 4" by (simp only: mod_mult_self1)
    then show ?thesis by (simp add: mod_mod_cancel)
  qed
  have "control_ecn 0 (int_bytes ecn) = ecn mod 4"
    by (simp add: control_ecn_def read_control_integer_def int_bytes_def unat_of_nat low)
  then show ?thesis
    using assms by (auto simp: decode_receive_metadata_def ecn_control_def af_inet_def af_inet6_def)
qed

lemma control_ecn_bound: "ecn < 4 \<Longrightarrow> control_ecn ecn payload < 4"
  by (simp add: control_ecn_def split: option.split)

lemma decoded_ecn: "decode_receive_metadata family controls < 4"
proof -
  have "e < 4 \<Longrightarrow> decode_controls family controls e < 4" for e
    by (induction family controls e rule: decode_controls.induct) (auto simp: control_ecn_bound)
  then show ?thesis by (simp add: decode_receive_metadata_def)
qed

subsection \<open>The queue\<close>

definition data_bytes :: "datagram list \<Rightarrow> nat" where
  "data_bytes ds = sum_list (map (length \<circ> dg_data) ds)"

definition socket_ok :: "udp_socket \<Rightarrow> bool" where
  "socket_ok s \<longleftrightarrow>
     us_queued_bytes s = data_bytes (us_queue s) \<and> list_all (\<lambda>d. dg_data d \<noteq> []) (us_queue s) \<and>
     length (us_queue s) \<le> max_queued_packets \<and> us_queued_bytes s \<le> max_queued_bytes"

lemma data_bytes_split: "data_bytes ds = data_bytes (take n ds) + data_bytes (drop n ds)"
  unfolding data_bytes_def by (metis append_take_drop_id map_append sum_list_append)

lemma pop_packets_ok:
  assumes "socket_ok s"
  shows "socket_ok (pop_packets n s)" "us_queue (pop_packets n s) = drop n (us_queue s)"
  using assms data_bytes_split [of "us_queue s" n]
  by (auto simp: socket_ok_def pop_packets_def data_bytes_def comp_def list_all_iff dest: in_set_dropD)

lemma gso_cut_batch:
  assumes "\<forall>d\<in>set ds. length (dg_data d) = m \<and> dg_ecn d = e" "0 < m" "length ds \<le> n"
  shows "gso_cut n m e (concat (map dg_data ds)) = ds"
  using assms
proof (induction n arbitrary: ds)
  case (Suc n)
  then show ?case by (cases ds) (auto simp: datagram.equality)
qed simp

lemma batch_uniform:
  assumes "us_queue s = p # rest" "d \<in> set (take (batch_count (us_queue s)) (us_queue s))"
  shows "length (dg_data d) = length (dg_data p) \<and> dg_ecn d = dg_ecn p"
proof -
  let ?P = "\<lambda>x. dg_ecn x = dg_ecn p \<and> length (dg_data x) = length (dg_data p)"
  let ?n = "length (takeWhile ?P (take 15 rest))"
  have "?n \<le> 15" using length_takeWhile_le [of ?P "take 15 rest"] by simp
  then have "take ?n rest = take ?n (take 15 rest)" by (simp add: min_def)
  then have "take ?n rest = takeWhile ?P (take 15 rest)" by (simp only: takeWhile_eq_take [symmetric])
  then have "d = p \<or> d \<in> set (takeWhile ?P (take 15 rest))"
    using assms by (auto simp: batch_count_def)
  then show ?thesis by (auto dest: set_takeWhileD)
qed

lemma batch_wire:
  assumes "us_queue s = p # rest" "socket_ok s"
  shows "gso_cut (length (concat (map dg_data (take (batch_count (us_queue s)) (us_queue s))))) (length (dg_data p)) (dg_ecn p)
           (concat (map dg_data (take (batch_count (us_queue s)) (us_queue s)))) = take (batch_count (us_queue s)) (us_queue s)"
proof (rule gso_cut_batch)
  let ?b = "take (batch_count (us_queue s)) (us_queue s)"
  show "\<forall>d\<in>set ?b. length (dg_data d) = length (dg_data p) \<and> dg_ecn d = dg_ecn p"
    using batch_uniform [OF assms(1)] by blast
  have p: "dg_data p \<noteq> []" using assms by (simp add: socket_ok_def)
  then show "0 < length (dg_data p)" by simp
  have "length ds \<le> length (concat (map dg_data ds))" if "\<forall>d\<in>set ds. dg_data d \<noteq> []" for ds :: "datagram list"
    using that
  proof (induction ds)
    case (Cons d ds)
    then have "0 < length (dg_data d)" "length ds \<le> length (concat (map dg_data ds))" by auto
    then have "Suc (length ds) \<le> length (dg_data d) + length (concat (map dg_data ds))" by linarith
    then show ?case by simp
  qed simp
  moreover have "\<forall>d\<in>set ?b. dg_data d \<noteq> []"
    using assms(2) by (auto simp: socket_ok_def list_all_iff dest: in_set_takeD)
  ultimately show "length ?b \<le> length (concat (map dg_data ?b))" by blast
qed

text \<open>One round of the loop: it ends there, or goes on with a prefix of the queue on the wire.\<close>

lemma flush_step:
  assumes "socket_ok s" "us_queue s \<noteq> []"
  obtains (stop) r where "flush_send_queue k i s wire = (r, i + 1, s, wire)"
      "r \<longrightarrow> (\<exists>e. syscall s (k i) = Failed e \<and> would_block e)"
  | (go) t m where "flush_send_queue k i s wire = flush_send_queue k (i + 1) t (wire @ take m (us_queue s))"
      "socket_ok t" "us_queue t = drop m (us_queue s)" "0 < m \<and> us_gso t = us_gso s \<or> us_gso s \<and> \<not> us_gso t"
proof -
  obtain p rest where q: "us_queue s = p # rest" using assms(2) by (cases "us_queue s") auto
  have p: "dg_data p \<noteq> []" using assms(1) q by (simp add: socket_ok_def)
  let ?c = "batch_count (us_queue s)"
  have c: "0 < ?c" by (simp add: q batch_count_def)
  have popped: "us_gso (pop_packets n s) = us_gso s" for n by (simp add: pop_packets_def)
  note unf = flush_send_queue.simps [of k i s wire]
  show thesis
  proof (cases "us_gso s \<and> length (dg_data p) \<le> u16_max \<and> rest \<noteq> [] \<and> ?c > 1")
    case gso: True
    show thesis
    proof (cases "syscall s (k i)")
      case (Failed e)
      show thesis
      proof (cases "\<not> would_block e \<and> gso_unsupported e")
        case True
        show thesis
          by (rule go [of "s\<lparr>us_gso := False\<rparr>" 0])
            (use unf gso True q Failed p assms(1) in \<open>auto simp: Let_def send_now_gso_def socket_ok_def\<close>)
      next
        case False
        show thesis
          by (rule stop [of "would_block e"])
            (use unf gso False q Failed p in \<open>auto simp: Let_def send_now_gso_def\<close>)
      qed
    next
      case (Sent n)
      show thesis
      proof (cases "n = length (concat (map dg_data (take ?c (us_queue s))))")
        case True
        show thesis
          by (rule go [OF _ pop_packets_ok [OF assms(1), of ?c]])
            (use unf gso True q Sent p c popped batch_wire [OF q assms(1)] in \<open>auto simp: Let_def send_now_gso_def\<close>)
      next
        case False
        show thesis
          by (rule stop [of False]) (use unf gso False q Sent p in \<open>auto simp: Let_def send_now_gso_def\<close>)
      qed
    qed
  next
    case single: False
    show thesis
    proof (cases "syscall s (k i) = Sent (length (dg_data p))")
      case True
      show thesis
        by (rule go [OF _ pop_packets_ok [OF assms(1), of 1]])
          (use unf single True q popped in \<open>auto simp: Let_def\<close>)
    next
      case False
      show thesis
        by (rule stop [of "\<exists>e. syscall s (k i) = Failed e \<and> would_block e"])
          (use unf single False q in \<open>auto simp: Let_def split: sys_result.split\<close>)
    qed
  qed
qed

text \<open>Whatever the kernel answers, flushing puts a prefix of the queue on the wire, as it was queued.\<close>

definition flush_cost :: "udp_socket \<Rightarrow> nat" where
  "flush_cost s = length (us_queue s) + (if us_gso s then 1 else 0)"

definition flushed :: "(nat \<Rightarrow> sys_result) \<Rightarrow> nat \<Rightarrow> udp_socket \<Rightarrow> datagram list \<Rightarrow>
    bool \<times> nat \<times> udp_socket \<times> datagram list \<Rightarrow> bool" where
  "flushed k i s wire res = (case res of (ok, i', s', wire') \<Rightarrow>
     socket_ok s' \<and>
     (\<exists>n \<le> length (us_queue s). us_queue s' = drop n (us_queue s) \<and> wire' = wire @ take n (us_queue s)) \<and>
     i' \<le> i + flush_cost s \<and>
     (ok \<longrightarrow> us_queue s' = [] \<or> (i < i' \<and> (\<exists>e. syscall s' (k (i' - 1)) = Failed e \<and> would_block e))))"

lemma flush_prefix:
  assumes "socket_ok s"
  shows "flushed k i s wire (flush_send_queue k i s wire)"
  using assms
proof (induction "flush_cost s" arbitrary: i s wire rule: less_induct)
  case less
  show ?case
  proof (cases "us_queue s = []")
    case True
    then show ?thesis using less.prems by (subst flush_send_queue.simps) (simp add: flushed_def)
  next
    case False
    show ?thesis
    proof (cases rule: flush_step [OF less.prems False, of k i wire, case_names stop go])
      case (stop r)
      then show ?thesis using less.prems False
        by (cases r) (auto simp: flushed_def flush_cost_def Suc_le_eq intro: exI [of _ 0])
    next
      case (go t m)
      obtain ok i' s' wire' where res: "flush_send_queue k (i + 1) t (wire @ take m (us_queue s)) = (ok, i', s', wire')"
        by (metis prod_cases4)
      have cost: "flush_cost t < flush_cost s"
        using go(3,4) False by (cases "us_queue s") (auto simp: flush_cost_def)
      have ih: "flushed k (i + 1) t (wire @ take m (us_queue s)) (ok, i', s', wire')"
        using less.hyps [OF cost go(2), of "i + 1" "wire @ take m (us_queue s)"] res by simp
      then obtain n where n: "n \<le> length (us_queue t)" "us_queue s' = drop n (us_queue t)"
        "wire' = (wire @ take m (us_queue s)) @ take n (us_queue t)" by (auto simp: flushed_def)
      have "us_queue s' = drop (m + n) (us_queue s)" "wire' = wire @ take (m + n) (us_queue s)"
        using n go(3) by (simp_all add: add.commute take_add)
      then have "\<exists>j \<le> length (us_queue s). us_queue s' = drop j (us_queue s) \<and> wire' = wire @ take j (us_queue s)"
        by (intro exI [of _ "min (m + n) (length (us_queue s))"]) (auto simp: min_def)
      moreover have "i' \<le> i + flush_cost s" using ih cost by (simp add: flushed_def)
      ultimately show ?thesis using ih go(1) res by (auto simp: flushed_def)
    qed
  qed
qed

subsection \<open>A socket in use\<close>

text \<open>What a connection does with its socket between opening and closing it.  The system keeps, beside the
  socket, what went on the wire and the datagrams \<open>send\<close> has accepted.\<close>

datatype socket_op = Op_send sys_result datagram | Op_flush "nat \<Rightarrow> sys_result"

record socket_system =
  ss_socket :: udp_socket
  ss_wire :: "datagram list"
  ss_accepted :: "datagram list"

definition socket_step :: "socket_system \<Rightarrow> socket_op \<Rightarrow> socket_system" where
  "socket_step y action =
     (case action of
        Op_send r d \<Rightarrow>
          (case send r d (ss_socket y) of (res, s, w) \<Rightarrow>
             y\<lparr>ss_socket := s, ss_wire := ss_wire y @ w,
               ss_accepted := ss_accepted y @ (case res of Sent _ \<Rightarrow> [d] | Failed _ \<Rightarrow> [])\<rparr>)
      | Op_flush k \<Rightarrow>
          (case flush_send_queue k 0 (ss_socket y) (ss_wire y) of (ok, i, s, w) \<Rightarrow>
             y\<lparr>ss_socket := s, ss_wire := w\<rparr>))"

definition socket_run :: "socket_op list \<Rightarrow> socket_system \<Rightarrow> socket_system" where
  "socket_run ops y = foldl socket_step y ops"

definition socket_system_ok :: "socket_system \<Rightarrow> bool" where
  "socket_system_ok y \<longleftrightarrow>
     socket_ok (ss_socket y) \<and> mset (ss_accepted y) = mset (ss_wire y) + mset (us_queue (ss_socket y))"

lemma data_bytes_append: "data_bytes (a @ b) = data_bytes a + data_bytes b"
  by (simp add: data_bytes_def)

lemma send_ok:
  assumes "socket_ok s" "send r d s = (res, s', w)"
  shows "socket_ok s'" "mset w + mset (us_queue s') = mset (us_queue s) + (case res of Sent _ \<Rightarrow> {#d#} | Failed _ \<Rightarrow> {#})"
    "us_open s' = us_open s"
  using assms
  by (auto simp: send_def Let_def socket_ok_def data_bytes_def split: if_splits sys_result.splits)

lemma socket_step_ok:
  assumes "socket_system_ok y"
  shows "socket_system_ok (socket_step y action)"
proof (cases action)
  case (Op_send r d)
  obtain res s w where out: "send r d (ss_socket y) = (res, s, w)" by (metis prod_cases3)
  show ?thesis
    using assms send_ok [OF _ out] Op_send out
    by (auto simp: socket_system_ok_def socket_step_def split: sys_result.splits)
next
  case (Op_flush k)
  obtain ok i s w where out: "flush_send_queue k 0 (ss_socket y) (ss_wire y) = (ok, i, s, w)"
    by (metis prod_cases4)
  have ok: "socket_ok (ss_socket y)" using assms by (simp add: socket_system_ok_def)
  obtain n where n: "socket_ok s" "us_queue s = drop n (us_queue (ss_socket y))"
    "w = ss_wire y @ take n (us_queue (ss_socket y))"
    using flush_prefix [OF ok, of k 0 "ss_wire y"] out by (auto simp: flushed_def)
  have "mset (take n (us_queue (ss_socket y))) + mset (drop n (us_queue (ss_socket y))) = mset (us_queue (ss_socket y))"
    by (metis append_take_drop_id mset_append)
  then show ?thesis
    using assms n by (simp add: socket_system_ok_def socket_step_def Op_flush out add.assoc)
qed

definition opened :: "int \<Rightarrow> socket_system" where
  "opened family = \<lparr>ss_socket = snd (open_socket family True True new_socket), ss_wire = [], ss_accepted = []\<rparr>"

interpretation sock: bounded_system socket_step socket_system_ok "\<lambda>y. length (us_queue (ss_socket y))" max_queued_packets
  by unfold_locales (rule socket_step_ok, assumption, simp add: socket_system_ok_def socket_ok_def)

lemma opened_ok: "socket_system_ok (opened family)"
  by (simp add: socket_system_ok_def opened_def open_socket_def new_socket_def socket_ok_def data_bytes_def Let_def)

lemma socket_run_ok: "socket_system_ok (socket_run ops (opened family))"
  unfolding socket_run_def by (rule sock.run_inv [OF opened_ok])

text \<open>Property C23 (safety): Take a socket that was opened and then used by any sequence of \<^verbatim>\<open>send\<close> and
  \<^verbatim>\<open>flush_send_queue\<close> calls, whatever the kernel answers to each system call.  Every datagram \<^verbatim>\<open>send\<close>
  has accepted is on the wire or in the queue exactly once, with its bytes and ECN mark, so segmentation offload
  loses, duplicates and merges nothing.  The queue holds at most 1024 datagrams of at most 4 MiB, which the
  byte counter counts exactly.  And one more flush makes at most one system call per queued datagram plus one (the
  retry without offload), puts a prefix of the queue on the wire in order, and reports success only with the queue
  empty or the kernel asking to wait.\<close>

theorem queued_datagrams_are_sent_once:
  assumes "y = socket_run ops (opened family)" "s = ss_socket y"
    "flush_send_queue k 0 s [] = (ok, calls, s', sent)"
  shows "mset (ss_accepted y) = mset (ss_wire y) + mset (us_queue s) \<and>
    length (us_queue s) \<le> 1024 \<and> us_queued_bytes s = data_bytes (us_queue s) \<and> us_queued_bytes s \<le> 4 * 1024 * 1024 \<and>
    us_queue s = sent @ us_queue s' \<and> us_queued_bytes s' = data_bytes (us_queue s') \<and>
    calls \<le> length (us_queue s) + 1 \<and>
    (ok \<longrightarrow> us_queue s' = [] \<or> (\<exists>e. syscall s' (k (calls - 1)) = Failed e \<and> would_block e))"
proof -
  have y: "socket_system_ok y" using socket_run_ok assms(1) by simp
  then have s: "socket_ok s" by (simp add: socket_system_ok_def assms(2))
  have "flushed k 0 s [] (ok, calls, s', sent)" using flush_prefix [OF s, of k 0 "[]"] assms(3) by simp
  then show ?thesis
    using y s assms(2)
    by (auto simp: flushed_def flush_cost_def socket_system_ok_def socket_ok_def max_queued_packets_def
        max_queued_bytes_def split: if_splits)
qed

definition demo_datagram :: "8 word \<Rightarrow> datagram" where
  "demo_datagram b = \<lparr>dg_data = [b, b], dg_ecn = 0\<rparr>"

definition demo_use :: socket_system where
  "demo_use = socket_run [Op_send (Failed EAGAIN) (demo_datagram 1), Op_send (Failed EAGAIN) (demo_datagram 2),
     Op_send (Sent 2) (demo_datagram 3)] (opened af_inet)"

theorem queued_datagrams_are_sent_once_witness:
  "us_queue (ss_socket demo_use) = [demo_datagram 1, demo_datagram 2] \<and> ss_wire demo_use = [demo_datagram 3] \<and>
   fst (snd (flush_send_queue (\<lambda>i. if i = 0 then Failed einval else Sent 2) 0 (ss_socket demo_use) [])) \<le> 3"
proof -
  obtain ok calls s' sent where
    out: "flush_send_queue (\<lambda>i. if i = 0 then Failed einval else Sent 2) 0 (ss_socket demo_use) [] = (ok, calls, s', sent)"
    by (metis prod_cases4)
  have demo: "us_queue (ss_socket demo_use) = [demo_datagram 1, demo_datagram 2]" "ss_wire demo_use = [demo_datagram 3]"
    by (simp_all add: demo_use_def socket_run_def socket_step_def opened_def open_socket_def new_socket_def send_def
        syscall_def would_block_def demo_datagram_def max_queued_packets_def max_queued_bytes_def Let_def)
  have "calls \<le> 3"
    using queued_datagrams_are_sent_once [OF demo_use_def refl out] demo(1) by simp
  with demo out show ?thesis by simp
qed

end
