(* ===== verification/Quic_Write.thy ===== *)
theory Quic_Write
  imports Quic_Run Udp_Socket "HOL-Library.Sublist"
begin

text \<open>
  A connection's turn of writing: \<^verbatim>\<open>Http3Session::pump_write\<close> (\<^verbatim>\<open>src/core/http3_session.cc\<close>) and
  \<^verbatim>\<open>QuicClient::write_pending\<close> (\<^verbatim>\<open>src/core/quic_client.cc\<close>) over the UDP socket.  nghttp3, ngtcp2 and the kernel
  are the sequence of their answers, one record a round of a loop.
\<close>

subsection \<open>State\<close>

text \<open>Beside the socket and the quantum: the bytes reported to nghttp3 as written per stream, the streams reported as
  blocked and as shut, the packets ngtcp2 produced, with their ECN mark as ngtcp2 wants it, and what went on the wire.\<close>

record write_state =
  ws_socket :: udp_socket
  ws_quantum :: send_quantum
  ws_net :: net_state
  ws_jobs :: quic_jobs
  ws_written :: "int \<Rightarrow> nat"
  ws_blocked :: "int list"
  ws_shut :: "int list"
  ws_produced :: "datagram list"
  ws_wire :: "datagram list"

definition ws_exhausted :: "write_state \<Rightarrow> bool" where
  "ws_exhausted s = send_quantum_exhausted (us_queue (ws_socket s) \<noteq> []) (ws_quantum s)"

text \<open>Handing a packet to the socket, and what both loops make of it.\<close>

definition hand_over :: "sys_result \<Rightarrow> datagram \<Rightarrow> write_state \<Rightarrow> bool \<times> write_state" where
  "hand_over r d s =
     (case send r d (ws_socket s) of
        (Sent n, sock, w) \<Rightarrow>
          (True, s\<lparr>ws_socket := sock, ws_quantum := count_packet (length (dg_data d)) (ws_quantum s), ws_wire := ws_wire s @ w\<rparr>)
      | (Failed e, sock, w) \<Rightarrow>
          (False, s\<lparr>ws_socket := sock, ws_net := snd (record_socket_error e (ws_net s)), ws_wire := ws_wire s @ w\<rparr>))"

text \<open>\<^verbatim>\<open>send_packet\<close> passes no mark of its own: every packet of \<^verbatim>\<open>pump_write\<close> goes out as not ECN-capable.\<close>

definition send_packet :: "sys_result \<Rightarrow> bytes \<Rightarrow> write_state \<Rightarrow> write_state" where
  "send_packet r data s = snd (hand_over r \<lparr>dg_data = data, dg_ecn = 0\<rparr> s)"

subsection \<open>Stream data\<close>

datatype stream_write =
    Write_more "nat option"
  | Stream_blocked
  | Stream_shut
  | Stream_error
  | Packet "nat option" datagram

text \<open>While it fills its vectors nghttp3 reads request bodies, of the streams \<open>ht_reads\<close>.\<close>

definition read_body_cb :: "int \<Rightarrow> quic_jobs \<Rightarrow> quic_jobs" where
  "read_body_cb stream q =
     (case on_stream stream (\<lambda>j. Some ([], snd (data_read j))) q of None \<Rightarrow> q | Some (_, q1) \<Rightarrow> q1)"

definition read_bodies :: "int list \<Rightarrow> write_state \<Rightarrow> write_state" where
  "read_bodies streams s = s\<lparr>ws_jobs := foldl (\<lambda>q i. read_body_cb i q) (ws_jobs s) streams\<rparr>"

record h3_turn =
  ht_reads :: "int list"
  ht_vectors :: int
  ht_stream :: int
  ht_write :: stream_write
  ht_offset_ok :: bool
  ht_send :: sys_result

definition add_write_offset :: "int \<Rightarrow> nat option \<Rightarrow> write_state \<Rightarrow> write_state" where
  "add_write_offset stream n s =
     (case n of None \<Rightarrow> s | Some k \<Rightarrow> s\<lparr>ws_written := (ws_written s)(stream := ws_written s stream + k)\<rparr>)"

text \<open>Where the list ends the loop would go on with nghttp3's next answer.\<close>

definition stream_progress :: "nat \<Rightarrow> int \<Rightarrow> nat option \<Rightarrow> write_state \<Rightarrow> write_state" where
  "stream_progress now stream n s =
     (case n of Some (Suc _) \<Rightarrow> s\<lparr>ws_jobs := note_write_progress now stream (ws_jobs s)\<rparr> | _ \<Rightarrow> s)"

fun pump_write :: "nat \<Rightarrow> h3_turn list \<Rightarrow> write_state \<Rightarrow> write_state" where
  "pump_write now [] s = s"
| "pump_write now (t # ts) s0 =
     (let s = read_bodies (ht_reads t) s0
      in if ht_vectors t < 0 then s
      else if ht_vectors t = 0 \<and> ht_stream t = -1 then s
      else case ht_write t of
        Write_more n \<Rightarrow>
          if n \<noteq> None \<and> \<not> ht_offset_ok t then s
          else pump_write now ts (add_write_offset (ht_stream t) n s)
      | Stream_blocked \<Rightarrow> pump_write now ts (s\<lparr>ws_blocked := ht_stream t # ws_blocked s\<rparr>)
      | Stream_shut \<Rightarrow> pump_write now ts (s\<lparr>ws_shut := ht_stream t # ws_shut s\<rparr>)
      | Stream_error \<Rightarrow> s
      | Packet n d \<Rightarrow>
          let s1 = s\<lparr>ws_produced := ws_produced s @ (if dg_data d = [] then [] else [d])\<rparr>
          in if n \<noteq> None \<and> \<not> ht_offset_ok t then s1
             else
               let s2 = stream_progress now (ht_stream t) n (add_write_offset (ht_stream t) n s1)
               in if dg_data d = [] then s2
                  else
                    let s3 = send_packet (ht_send t) (dg_data d) s2
                    in if ws_exhausted s3 then s3 else pump_write now ts s3)"

subsection \<open>Packets of the connection\<close>

datatype conn_write = Conn_more | Conn_error | Conn_nothing | Conn_packet datagram sys_result

fun write_packets :: "conn_write list \<Rightarrow> write_state \<Rightarrow> bool \<times> write_state" where
  "write_packets [] s = (True, s)"
| "write_packets (Conn_more # ws) s = write_packets ws s"
| "write_packets (Conn_error # ws) s = (False, s)"
| "write_packets (Conn_nothing # ws) s = (True, s)"
| "write_packets (Conn_packet d r # ws) s =
     (case hand_over r d (s\<lparr>ws_produced := ws_produced s @ [d]\<rparr>) of
        (False, s1) \<Rightarrow> (True, s1)
      | (True, s1) \<Rightarrow> if ws_exhausted s1 then (True, s1) else write_packets ws s1)"

definition pump_turn :: "nat \<Rightarrow> nat \<Rightarrow> bool \<Rightarrow> h3_turn list \<Rightarrow> write_state \<Rightarrow> write_state" where
  "pump_turn now conn_quantum h3_ready turns s =
     (let s1 = s\<lparr>ws_quantum := begin_send_quantum conn_quantum\<rparr>
      in if h3_ready then pump_write now turns s1 else s1)"

text \<open>\<^verbatim>\<open>write_pending\<close>; the first result tells whether the time of transmission was reported to ngtcp2.\<close>

definition write_pending ::
  "nat \<Rightarrow> nat \<Rightarrow> bool \<Rightarrow> h3_turn list \<Rightarrow> conn_write list \<Rightarrow> write_state \<Rightarrow> bool \<times> write_state" where
  "write_pending now conn_quantum h3_ready turns packets s =
     (let s2 = pump_turn now conn_quantum h3_ready turns s
      in if ws_exhausted s2 then (sq_packet (ws_quantum s2), s2)
         else case write_packets packets s2 of
                (finished, s3) \<Rightarrow> (finished \<and> sq_packet (ws_quantum s3), s3))"

subsection \<open>What a turn does\<close>

definition sizes :: "datagram list \<Rightarrow> nat" where
  "sizes ds = sum_list (map (length \<circ> dg_data) ds)"

lemma sizes_simps [simp]: "sizes [] = 0" "sizes (a @ b) = sizes a + sizes b" "sizes (d # ds) = length (dg_data d) + sizes ds"
  by (simp_all add: sizes_def)

text \<open>How a later state of a turn relates to an earlier one: of the packets produced in between all but \<open>lost\<close> were
  accepted by the socket, each once, in their order, and counted; those the kernel took are the new ones on the wire, and what it
  would not take yet is the new end of the queue.\<close>

definition progress :: "nat \<Rightarrow> write_state \<Rightarrow> write_state \<Rightarrow> bool" where
  "progress lost s s' \<longleftrightarrow> socket_ok (ws_socket s') \<and>
     (\<exists>taken ds w q. ws_produced s' = ws_produced s @ ds \<and> subseq taken ds \<and> length ds \<le> length taken + lost \<and>
        ws_wire s' = ws_wire s @ w \<and> us_queue (ws_socket s') = us_queue (ws_socket s) @ q \<and>
        map dg_data (w @ q) = map dg_data taken \<and>
        sq_bytes (ws_quantum s') = sq_bytes (ws_quantum s) \<and>
        sq_sent (ws_quantum s') = sq_sent (ws_quantum s) + sizes taken)"

lemma progress_refl: "socket_ok (ws_socket s) \<Longrightarrow> progress 0 s s"
  unfolding progress_def by (intro conjI exI [of _ "[]"]) simp_all

text \<open>Only from a state with an empty queue does the order stay that of the packets.\<close>

lemma progress_trans:
  assumes "progress a s t" "progress b t u" "us_queue (ws_socket t) = []"
  shows "progress (a + b) s u"
proof -
  obtain t1 d1 w1 q1 where 1: "ws_produced t = ws_produced s @ d1" "subseq t1 d1" "length d1 \<le> length t1 + a"
    "ws_wire t = ws_wire s @ w1" "us_queue (ws_socket t) = us_queue (ws_socket s) @ q1" "map dg_data (w1 @ q1) = map dg_data t1"
    "sq_bytes (ws_quantum t) = sq_bytes (ws_quantum s)" "sq_sent (ws_quantum t) = sq_sent (ws_quantum s) + sizes t1"
    using assms(1) unfolding progress_def by blast
  obtain t2 d2 w2 q2 where 2: "ws_produced u = ws_produced t @ d2" "subseq t2 d2" "length d2 \<le> length t2 + b"
    "ws_wire u = ws_wire t @ w2" "us_queue (ws_socket u) = us_queue (ws_socket t) @ q2" "map dg_data (w2 @ q2) = map dg_data t2"
    "sq_bytes (ws_quantum u) = sq_bytes (ws_quantum t)"
    "sq_sent (ws_quantum u) = sq_sent (ws_quantum t) + sizes t2" "socket_ok (ws_socket u)"
    using assms(2) unfolding progress_def by blast
  have q: "q1 = []" "us_queue (ws_socket s) = []" using 1(5) assms(3) by simp_all
  show ?thesis
    unfolding progress_def using 1 2 q
    by (intro conjI exI [of _ "t1 @ t2"] exI [of _ "d1 @ d2"] exI [of _ "w1 @ w2"] exI [of _ q2]) (simp_all add: list_emb_append_mono)
qed

lemma progress_weaken: "progress a s t \<Longrightarrow> a \<le> b \<Longrightarrow> progress b s t"
  unfolding progress_def by fastforce

text \<open>Changes that do not concern the socket.\<close>

lemma progress_same:
  assumes "progress a s t" "ws_produced u = ws_produced t" "ws_socket u = ws_socket t" "ws_wire u = ws_wire t"
    "ws_quantum u = ws_quantum t"
  shows "progress a s u"
  using assms by (simp add: progress_def)

lemma hand_over_progress:
  assumes "hand_over r d s = (ok, s')" "socket_ok (ws_socket s)" "s = s0\<lparr>ws_produced := ws_produced s0 @ [d']\<rparr>"
    "dg_data d' = dg_data d"
  shows "progress (if ok then 0 else 1) s0 s'"
    "length (us_queue (ws_socket s')) \<le> length (us_queue (ws_socket s0)) + 1"
    "length (us_queue (ws_socket s')) > length (us_queue (ws_socket s0)) \<longrightarrow> ok"
proof -
  obtain res sock w where out: "send r d (ws_socket s) = (res, sock, w)" by (metis prod_cases3)
  note so = send_ok(1) [OF assms(2) out]
  have s': "s' = (case res of Sent _ \<Rightarrow> s\<lparr>ws_socket := sock, ws_quantum := count_packet (length (dg_data d)) (ws_quantum s), ws_wire := ws_wire s @ w\<rparr>
      | Failed e \<Rightarrow> s\<lparr>ws_socket := sock, ws_net := snd (record_socket_error e (ws_net s)), ws_wire := ws_wire s @ w\<rparr>)"
    "ok = (case res of Sent _ \<Rightarrow> True | Failed _ \<Rightarrow> False)"
    using assms(1) out by (auto simp: hand_over_def split: sys_result.splits)
  show "progress (if ok then 0 else 1) s0 s'"
  proof (cases res)
    case (Sent n)
    then obtain q where "us_queue sock = us_queue (ws_socket s) @ q" "w @ q = [d]"
      using out by (auto simp: send_def Let_def split: if_splits sys_result.splits)
    then show ?thesis
      unfolding progress_def using so s' assms(3,4) Sent
      by (intro conjI exI [of _ "[d']"] exI [of _ "[d']"] exI [of _ w] exI [of _ q])
        (simp_all add: count_packet_def flip: map_append)
  next
    case (Failed e)
    then have "sock = ws_socket s" "w = []"
      using out by (auto simp: send_def Let_def split: if_splits sys_result.splits)
    then show ?thesis
      unfolding progress_def using so s' assms(3,4) Failed
      by (intro conjI exI [of _ "[]"] exI [of _ "[d']"]) simp_all
  qed
  show "length (us_queue (ws_socket s')) \<le> length (us_queue (ws_socket s0)) + 1"
    "length (us_queue (ws_socket s')) > length (us_queue (ws_socket s0)) \<longrightarrow> ok"
    using out s' assms(3) by (auto simp: send_def Let_def split: if_splits sys_result.splits)
qed

text \<open>The quantum is overrun by less than one packet, at most one packet is queued, and then the turn ends.\<close>

definition limits :: "nat \<Rightarrow> write_state \<Rightarrow> write_state \<Rightarrow> bool" where
  "limits m s s' \<longleftrightarrow>
     (sq_sent (ws_quantum s) < sq_bytes (ws_quantum s) \<longrightarrow> sq_sent (ws_quantum s') < sq_bytes (ws_quantum s') + m) \<and>
     length (us_queue (ws_socket s')) \<le> length (us_queue (ws_socket s)) + 1 \<and>
     (length (us_queue (ws_socket s')) > length (us_queue (ws_socket s)) \<longrightarrow> ws_exhausted s')"

definition advance :: "nat \<Rightarrow> nat \<Rightarrow> write_state \<Rightarrow> write_state \<Rightarrow> bool" where
  "advance lost m s s' \<longleftrightarrow> progress lost s s' \<and> limits m s s'"

lemma advance_refl: "socket_ok (ws_socket s) \<Longrightarrow> advance lost m s s"
  unfolding advance_def limits_def using progress_weaken [OF progress_refl] by auto

lemma advance_trans:
  assumes "advance a m s t" "advance b m t u" "\<not> ws_exhausted t" "a + b \<le> c"
  shows "advance c m s u"
proof -
  have "us_queue (ws_socket t) = []" using assms(3) by (simp add: ws_exhausted_def send_quantum_exhausted_def)
  then show ?thesis
    using assms progress_weaken [OF progress_trans [of a s t b u] assms(4)]
    by (fastforce simp: advance_def limits_def ws_exhausted_def send_quantum_exhausted_def)
qed

lemma advance_same:
  assumes "advance a m s t" "ws_produced u = ws_produced t" "ws_socket u = ws_socket t" "ws_wire u = ws_wire t"
    "ws_quantum u = ws_quantum t"
  shows "advance a m s u"
  using assms progress_same [of a s t u] by (simp add: advance_def limits_def ws_exhausted_def)

lemma advance_from:
  assumes "advance a m t u" "ws_produced s = ws_produced t" "ws_socket s = ws_socket t" "ws_wire s = ws_wire t"
    "ws_quantum s = ws_quantum t"
  shows "advance a m s u"
  using assms by (simp add: advance_def limits_def progress_def)

text \<open>A queue without room for a packet of \<open>m\<close> bytes.\<close>

definition no_room :: "nat \<Rightarrow> udp_socket \<Rightarrow> nat" where
  "no_room m sock =
     (if length (us_queue sock) \<ge> max_queued_packets \<or> us_queued_bytes sock + m > max_queued_bytes then 1 else 0)"

lemma room_when_not_exhausted:
  "\<not> ws_exhausted s \<Longrightarrow> socket_ok (ws_socket s) \<Longrightarrow> m \<le> max_queued_bytes \<Longrightarrow> no_room m (ws_socket s) = 0"
  by (simp add: ws_exhausted_def send_quantum_exhausted_def no_room_def socket_ok_def data_bytes_def max_queued_packets_def)

text \<open>A failure that is not the kernel asking to wait.\<close>

definition hard_failure :: "sys_result \<Rightarrow> datagram \<Rightarrow> bool" where
  "hard_failure r d = (case r of Failed e \<Rightarrow> \<not> would_block e | Sent n \<Rightarrow> n \<noteq> length (dg_data d))"

lemma hand_over_advance:
  assumes "hand_over r d s = (ok, s')" "socket_ok (ws_socket s)" "s = s0\<lparr>ws_produced := ws_produced s0 @ [d']\<rparr>"
    "dg_data d' = dg_data d" "dg_data d \<noteq> []" "length (dg_data d) \<le> m" "m \<le> max_queued_bytes"
  shows "advance (if ok then 0 else 1) m s0 s'" "\<not> ok \<Longrightarrow> \<not> hard_failure r d \<Longrightarrow> ws_exhausted s' \<and> no_room m (ws_socket s0) = 1"
proof -
  note p = hand_over_progress [OF assms(1-4)]
  show "advance (if ok then 0 else 1) m s0 s'"
    unfolding advance_def limits_def using p assms(1,3,6)
    by (auto simp: hand_over_def count_packet_def ws_exhausted_def send_quantum_exhausted_def split: sys_result.splits prod.splits)
  assume "\<not> ok" "\<not> hard_failure r d"
  then have "ws_socket s' = ws_socket s" "no_room m (ws_socket s) = 1"
    using assms(1,2,5-7)
    by (auto simp: hand_over_def hard_failure_def send_def syscall_def Let_def no_room_def
        would_block_def split: sys_result.splits if_splits)
  then show "ws_exhausted s' \<and> no_room m (ws_socket s0) = 1"
    using room_when_not_exhausted [of s' m] assms(2,3,7) by auto
qed

text \<open>The packets that are refused: by nghttp3, which does not accept the stream offset that goes with one, or by the kernel,
  with an error of its own.\<close>

definition refused_turns :: "h3_turn list \<Rightarrow> nat" where
  "refused_turns ts =
     length (filter (\<lambda>t. case ht_write t of
                           Packet n d \<Rightarrow> dg_data d \<noteq> [] \<and> (n \<noteq> None \<and> \<not> ht_offset_ok t \<or> hard_failure (ht_send t) d)
                         | _ \<Rightarrow> False) ts)"

definition refused_packets :: "conn_write list \<Rightarrow> nat" where
  "refused_packets ws = length (filter (\<lambda>w. case w of Conn_packet d r \<Rightarrow> hard_failure r d | _ \<Rightarrow> False) ws)"

lemma lost_packet:
  assumes "socket_ok (ws_socket s)" "length x \<le> 1"
  shows "advance (length x) m s (s\<lparr>ws_produced := ws_produced s @ x\<rparr>)"
  unfolding advance_def limits_def progress_def using assms
  by (intro conjI exI [of _ "[]"] exI [of _ x]) simp_all

lemma add_write_offset_keeps [simp]:
  "ws_produced (add_write_offset i n s) = ws_produced s" "ws_socket (add_write_offset i n s) = ws_socket s"
  "ws_wire (add_write_offset i n s) = ws_wire s" "ws_quantum (add_write_offset i n s) = ws_quantum s"
  by (simp_all add: add_write_offset_def split: option.split)

lemma stream_progress_keeps [simp]:
  "ws_produced (stream_progress now i n s) = ws_produced s" "ws_socket (stream_progress now i n s) = ws_socket s"
  "ws_wire (stream_progress now i n s) = ws_wire s" "ws_quantum (stream_progress now i n s) = ws_quantum s"
  "ws_blocked (stream_progress now i n s) = ws_blocked s"
  by (simp_all add: stream_progress_def split: option.split nat.split)

lemma read_bodies_keeps [simp]:
  "ws_produced (read_bodies is s) = ws_produced s" "ws_socket (read_bodies is s) = ws_socket s"
  "ws_wire (read_bodies is s) = ws_wire s" "ws_quantum (read_bodies is s) = ws_quantum s"
  "ws_blocked (read_bodies is s) = ws_blocked s"
  by (simp_all add: read_bodies_def)

text \<open>A packet of the loop that is handed to the socket.\<close>

lemma send_packet_advance:
  assumes "socket_ok (ws_socket s)" "ws_produced u = ws_produced s @ [d]" "ws_socket u = ws_socket s" "ws_wire u = ws_wire s"
    "ws_quantum u = ws_quantum s" "dg_data d \<noteq> []" "length (dg_data d) \<le> m" "m \<le> max_queued_bytes"
  obtains lost where "advance lost m s (send_packet r (dg_data d) u)" "lost \<le> 1"
    "lost = 0 \<or> hard_failure r d \<or> ws_exhausted (send_packet r (dg_data d) u) \<and> no_room m (ws_socket s) = 1"
proof -
  let ?d = "\<lparr>dg_data = dg_data d, dg_ecn = 0\<rparr>"
  obtain ok v where out: "hand_over r ?d u = (ok, v)" by fastforce
  have u: "u = (u\<lparr>ws_produced := ws_produced s\<rparr>)\<lparr>ws_produced := ws_produced (u\<lparr>ws_produced := ws_produced s\<rparr>) @ [d]\<rparr>"
    using assms(2) by simp
  have hard: "hard_failure r ?d = hard_failure r d" by (simp add: hard_failure_def split: sys_result.split)
  have "advance (if ok then 0 else 1) m (u\<lparr>ws_produced := ws_produced s\<rparr>) v"
    by (rule hand_over_advance(1) [OF out _ u]) (use assms in simp_all)
  then have "advance (if ok then 0 else 1) m s v"
    by (rule advance_from) (simp_all add: assms)
  moreover have "ok \<or> hard_failure r d \<or> ws_exhausted v \<and> no_room m (ws_socket s) = 1"
    using hand_over_advance(2) [OF out _ u, of m] assms hard by auto
  ultimately show ?thesis
    using that [of "if ok then 0 else 1"] out by (auto simp: send_packet_def split: if_splits)
qed

lemma pump_write_advance:
  assumes "socket_ok (ws_socket s)" "\<forall>t\<in>set ts. \<forall>n d. ht_write t = Packet n d \<longrightarrow> length (dg_data d) \<le> m" "m \<le> max_queued_bytes"
  shows "advance (refused_turns ts + no_room m (ws_socket s)) m s (pump_write now ts s)"
  using assms(1,2)
proof (induction ts arbitrary: s)
  case Nil
  then show ?case using advance_refl by simp
next
  case (Cons t ts s0)
  define s where "s = read_bodies (ht_reads t) s0"
  have s: "ws_produced s0 = ws_produced s" "ws_socket s0 = ws_socket s" "ws_wire s0 = ws_wire s" "ws_quantum s0 = ws_quantum s"
    by (simp_all add: s_def)
  have ok: "socket_ok (ws_socket s)" using Cons.prems(1) by (simp add: s_def)
  have stop: "advance (refused_turns (t # ts) + no_room m (ws_socket s)) m s s" by (rule advance_refl [OF ok])
  have same: "advance (refused_turns ts + no_room m (ws_socket s)) m s (pump_write now ts u)"
    if "ws_produced u = ws_produced s" "ws_socket u = ws_socket s" "ws_wire u = ws_wire s" "ws_quantum u = ws_quantum s" for u
  proof (rule advance_from)
    show "advance (refused_turns ts + no_room m (ws_socket s)) m u (pump_write now ts u)"
      using Cons.IH [of u] ok Cons.prems(2) that(2) by simp
  qed (simp_all add: that)
  have "advance (refused_turns (t # ts) + no_room m (ws_socket s)) m s (pump_write now (t # ts) s0)"
  proof (cases "ht_write t")
    case (Packet n d)
    define w0 where "w0 = s\<lparr>ws_produced := ws_produced s @ (if dg_data d = [] then [] else [d])\<rparr>"
    define s2 where "s2 = stream_progress now (ht_stream t) n (add_write_offset (ht_stream t) n w0)"
    define s3 where "s3 = send_packet (ht_send t) (dg_data d) s2"
    have pump: "pump_write now (t # ts) s0 =
        (if ht_vectors t < 0 then s else if ht_vectors t = 0 \<and> ht_stream t = -1 then s
         else if n \<noteq> None \<and> \<not> ht_offset_ok t then w0 else if dg_data d = [] then s2
         else if ws_exhausted s3 then s3 else pump_write now ts s3)"
      using Packet by (simp only: pump_write.simps stream_write.case Let_def s_def w0_def s2_def s3_def)
    have lost: "advance (refused_turns (t # ts) + no_room m (ws_socket s)) m s w0" if "n \<noteq> None" "\<not> ht_offset_ok t"
      using lost_packet [OF ok, of "if dg_data d = [] then [] else [d]" m] that Packet
      by (auto simp: w0_def advance_def refused_turns_def intro: progress_weaken split: if_splits)
    have keep: "ws_produced s2 = ws_produced w0" "ws_socket s2 = ws_socket s" "ws_wire s2 = ws_wire s" "ws_quantum s2 = ws_quantum s"
      by (simp_all add: s2_def w0_def)
    have "advance (refused_turns (t # ts) + no_room m (ws_socket s)) m s s2" if "dg_data d = []"
      by (rule advance_same [OF stop]) (use keep that in \<open>simp_all add: w0_def\<close>)
    moreover have "advance (refused_turns (t # ts) + no_room m (ws_socket s)) m s (if ws_exhausted s3 then s3 else pump_write now ts s3)" if ne: "dg_data d \<noteq> []"
    proof -
      have small: "length (dg_data d) \<le> m" using Cons.prems(2) Packet by simp
      have "ws_produced s2 = ws_produced s @ [d]" using keep(1) ne by (simp add: w0_def)
      then obtain l where l: "advance l m s s3" "l \<le> 1" 
        "l = 0 \<or> hard_failure (ht_send t) d \<or> ws_exhausted s3 \<and> no_room m (ws_socket s) = 1"
        using send_packet_advance [OF ok _ keep(2-4) ne small assms(3)] unfolding s3_def by blast
      have "advance (refused_turns (t # ts) + no_room m (ws_socket s)) m s (pump_write now ts s3)" if "\<not> ws_exhausted s3"
      proof (rule advance_trans [OF l(1) _ that])
        have ok3: "socket_ok (ws_socket s3)" using l(1) by (simp add: advance_def progress_def)
        then show "advance (refused_turns ts + 0) m s3 (pump_write now ts s3)"
          using Cons.IH [of s3] Cons.prems(2) room_when_not_exhausted [OF that ok3 assms(3)] by simp
        show "l + (refused_turns ts + 0) \<le> refused_turns (t # ts) + no_room m (ws_socket s)"
          using l(2,3) that Packet ne by (auto simp: refused_turns_def)
      qed
      moreover have "l \<le> refused_turns (t # ts) + no_room m (ws_socket s)"
        using l(2,3) Packet ne by (auto simp: refused_turns_def)
      ultimately show ?thesis using l(1) by (auto simp: advance_def intro: progress_weaken)
    qed
    ultimately show ?thesis unfolding pump using stop lost by simp
  qed (use same [of s] same [of "add_write_offset (ht_stream t) _ s"] same [of "s\<lparr>ws_blocked := ht_stream t # ws_blocked s\<rparr>"]
      same [of "s\<lparr>ws_shut := ht_stream t # ws_shut s\<rparr>"] stop in \<open>auto simp: refused_turns_def s_def [symmetric] Let_def\<close>)
  then show ?case unfolding s(2) by (rule advance_from) (simp_all add: s)
qed

lemma write_packets_advance:
  assumes "socket_ok (ws_socket s)" "\<forall>w\<in>set ws. \<forall>d r. w = Conn_packet d r \<longrightarrow> dg_data d \<noteq> [] \<and> length (dg_data d) \<le> m"
    "m \<le> max_queued_bytes"
  shows "advance (refused_packets ws + no_room m (ws_socket s)) m s (snd (write_packets ws s))"
  using assms(1,2)
proof (induction ws s rule: write_packets.induct)
  case (5 d r ws s)
  let ?s = "s\<lparr>ws_produced := ws_produced s @ [d]\<rparr>"
  let ?lost = "refused_packets (Conn_packet d r # ws) + no_room m (ws_socket s)"
  obtain ok s1 where out: "hand_over r d ?s = (ok, s1)" by fastforce
  have adv: "advance (if ok then 0 else 1) m s s1" "\<not> ok \<Longrightarrow> \<not> hard_failure r d \<Longrightarrow> no_room m (ws_socket s) = 1"
    using hand_over_advance [OF out _ refl, of m] 5 assms(3) by simp_all
  show ?case
  proof (cases "ok \<and> \<not> ws_exhausted s1")
    case True
    have ok1: "socket_ok (ws_socket s1)" using adv(1) by (simp add: advance_def progress_def)
    then have "advance (refused_packets ws) m s1 (snd (write_packets ws s1))"
      using 5(1) [OF out [symmetric]] "5.prems"(2) True room_when_not_exhausted [OF _ ok1 assms(3)] by simp
    then have "advance ?lost m s (snd (write_packets ws s1))"
      using advance_trans [of 0 m s s1 "refused_packets ws"] adv(1) True by (simp add: refused_packets_def)
    then show ?thesis using out True by simp
  next
    case False
    have "(if ok then 0 else 1) \<le> ?lost" using adv(2) by (auto simp: refused_packets_def)
    then have "advance ?lost m s s1" using adv(1) by (auto simp: advance_def intro: progress_weaken)
    then show ?thesis using out False by (cases ok) auto
  qed
qed (auto simp: refused_packets_def intro: advance_refl)

text \<open>The times of a write: the quantum starts empty.\<close>

lemma write_pending_advance:
  assumes "write_pending now quantum h3_ready turns packets s = (stamped, s')" "socket_ok (ws_socket s)"
    "\<forall>t\<in>set turns. \<forall>n d. ht_write t = Packet n d \<longrightarrow> length (dg_data d) \<le> m"
    "\<forall>w\<in>set packets. \<forall>d r. w = Conn_packet d r \<longrightarrow> dg_data d \<noteq> [] \<and> length (dg_data d) \<le> m" "m \<le> max_queued_bytes"
  shows "advance (refused_turns turns + refused_packets packets + no_room m (ws_socket s)) m
    (s\<lparr>ws_quantum := begin_send_quantum quantum\<rparr>) s'"
proof -
  let ?s1 = "s\<lparr>ws_quantum := begin_send_quantum quantum\<rparr>"
  let ?s2 = "pump_turn now quantum h3_ready turns s"
  let ?lost = "refused_turns turns + no_room m (ws_socket s)"
  have 1: "advance ?lost m ?s1 ?s2"
    using pump_write_advance [of ?s1 turns m now] advance_refl [of ?s1 ?lost m] assms(2,3,5)
    by (simp add: pump_turn_def Let_def)
  then have ok: "socket_ok (ws_socket ?s2)" by (simp add: advance_def progress_def)
  show ?thesis
  proof (cases "ws_exhausted ?s2")
    case True
    have "advance (?lost + refused_packets packets) m ?s1 ?s2"
      using 1 unfolding advance_def by (auto intro: progress_weaken)
    then show ?thesis using assms(1) True by (simp add: write_pending_def Let_def ac_simps)
  next
    case False
    have "s' = snd (write_packets packets ?s2)"
      using assms(1) False by (auto simp: write_pending_def Let_def split: prod.splits)
    then show ?thesis
      using advance_trans [OF 1 write_packets_advance [OF ok assms(4,5)] False] room_when_not_exhausted [OF False ok assms(5)]
      by (simp add: ac_simps)
  qed
qed

text \<open>Property C25 (bounds): One turn of writing, whatever nghttp3, ngtcp2 and the kernel answer.  The packets ngtcp2
  produces are handed to the socket in order and at most once: byte for byte, the ones accepted are the new ones on
  the wire followed by the at most one that is put at the end of the queue, in the order of their production.  Left out are
  only packets nghttp3 refuses the offset of or the kernel refuses with an error of its own, each counted, and one more where the
  queue had no room when the turn began; so where nothing is refused and there is room, every packet is accepted.  The bytes
  accepted stay below the quantum (2048 at least) plus one packet, so that a turn never builds a backlog.\<close>

theorem write_turn_is_paced:
  assumes "write_pending now quantum h3_ready turns packets s = (stamped, s')" "socket_ok (ws_socket s)"
    "\<forall>t\<in>set turns. \<forall>n d. ht_write t = Packet n d \<longrightarrow> length (dg_data d) \<le> m"
    "\<forall>w\<in>set packets. \<forall>d r. w = Conn_packet d r \<longrightarrow> dg_data d \<noteq> [] \<and> length (dg_data d) \<le> m" "m \<le> max_queued_bytes"
  shows "socket_ok (ws_socket s') \<and>
    (\<exists>accepted produced w q. ws_produced s' = ws_produced s @ produced \<and> subseq accepted produced \<and>
       ws_wire s' = ws_wire s @ w \<and> us_queue (ws_socket s') = us_queue (ws_socket s) @ q \<and>
       map dg_data (w @ q) = map dg_data accepted \<and> length q \<le> 1 \<and>
       length produced \<le> length accepted + refused_turns turns + refused_packets packets + no_room m (ws_socket s) \<and>
       (refused_turns turns = 0 \<and> refused_packets packets = 0 \<and> no_room m (ws_socket s) = 0 \<longrightarrow> accepted = produced) \<and>
       sizes accepted < max 2048 quantum + m)"
proof -
  have adv: "advance (refused_turns turns + refused_packets packets + no_room m (ws_socket s)) m
      (s\<lparr>ws_quantum := begin_send_quantum quantum\<rparr>) s'" (is "advance ?lost m ?s s'")
    by (rule write_pending_advance [OF assms])
  obtain taken ds w q where p: "ws_produced s' = ws_produced s @ ds" "subseq taken ds" "length ds \<le> length taken + ?lost"
    "ws_wire s' = ws_wire s @ w" "us_queue (ws_socket s') = us_queue (ws_socket s) @ q" "map dg_data (w @ q) = map dg_data taken"
    "sq_bytes (ws_quantum s') = max 2048 quantum" "sq_sent (ws_quantum s') = sizes taken" "socket_ok (ws_socket s')"
    using adv by (auto simp: advance_def progress_def begin_send_quantum_def minimum_send_quantum_def)
  have lim: "limits m ?s s'" using adv by (simp add: advance_def)
  have "length q \<le> 1" using lim p(5) by (simp add: limits_def)
  moreover have "sizes taken < max 2048 quantum + m"
    using lim p(7,8) by (simp add: limits_def begin_send_quantum_def minimum_send_quantum_def)
  moreover have "taken = ds" if "?lost = 0"
    using p(2,3) that list_emb_length [OF p(2)] by (auto intro: subseq_same_length)
  ultimately show ?thesis
    using p by (intro conjI exI [of _ taken] exI [of _ ds] exI [of _ w] exI [of _ q]) simp_all
qed

text \<open>A stream ngtcp2 could not send for lack of flow control is reported to nghttp3 as blocked.  Opening its window again
  does nothing, and no other operation reports it as unblocked.\<close>

definition on_extend_max_stream_data :: "int \<Rightarrow> write_state \<Rightarrow> write_state" where
  "on_extend_max_stream_data stream s = s"

lemma hand_over_blocked: "ws_blocked (snd (hand_over r d s)) = ws_blocked s"
  by (simp add: hand_over_def split: prod.split sys_result.split)

lemma pump_write_blocked: "set (ws_blocked s) \<subseteq> set (ws_blocked (pump_write now ts s))"
proof (induction ts arbitrary: s)
  case (Cons t ts)
  have *: "set (ws_blocked s) \<subseteq> set (ws_blocked (pump_write now ts u))" if "set (ws_blocked s) \<subseteq> set (ws_blocked u)" for u
    using Cons that by blast
  show ?case
    by (auto simp: Let_def add_write_offset_def send_packet_def hand_over_blocked split: stream_write.split option.split
        intro!: * [THEN subsetD])
qed simp

lemma write_packets_blocked: "ws_blocked (snd (write_packets ws s)) = ws_blocked s"
proof (induction ws s rule: write_packets.induct)
  case (5 d r ws s)
  obtain ok s1 where out: "hand_over r d (s\<lparr>ws_produced := ws_produced s @ [d]\<rparr>) = (ok, s1)" by fastforce
  then have "ws_blocked s1 = ws_blocked s" using hand_over_blocked [of r d "s\<lparr>ws_produced := ws_produced s @ [d]\<rparr>"] by simp
  then show ?case using out 5 [OF out [symmetric]] by (cases ok) auto
qed simp_all

lemma blocked_streams_stay_blocked:
  assumes "stream \<in> set (ws_blocked s)"
  shows "stream \<in> set (ws_blocked (snd (write_pending now quantum h3_ready turns packets (on_extend_max_stream_data stream s))))"
proof -
  let ?s2 = "pump_turn now quantum h3_ready turns s"
  have "stream \<in> set (ws_blocked ?s2)"
    using assms pump_write_blocked [of "s\<lparr>ws_quantum := begin_send_quantum quantum\<rparr>" now turns]
    by (auto simp: pump_turn_def Let_def)
  moreover obtain ok s3 where "write_packets packets ?s2 = (ok, s3)" by fastforce
  ultimately show ?thesis
    using write_packets_blocked [of packets ?s2]
    by (simp add: write_pending_def on_extend_max_stream_data_def Let_def)
qed

text \<open>A packet of stream data that ngtcp2 marks as ECN-capable goes out unmarked.\<close>

lemma stream_packets_lose_mark:
  assumes "send r \<lparr>dg_data = data, dg_ecn = 0\<rparr> (ws_socket s) = (Sent n, sock, w)"
  shows "ws_wire (send_packet r data s) = ws_wire s @ w \<and> (\<forall>d\<in>set w. dg_ecn d = 0)"
  using assms by (auto simp: send_packet_def hand_over_def send_def Let_def split: if_splits sys_result.splits)

definition demo_turn :: write_state where
  "demo_turn = \<lparr>ws_socket = ss_socket (opened af_inet), ws_quantum = begin_send_quantum 0,
     ws_net = \<lparr>ns_terminal_error = KAT_OK, ns_socket_failed = False, ns_migrating = False, ns_applied_generation = 0, ns_network = 0\<rparr>,
     ws_jobs = new_quic_jobs, ws_written = (\<lambda>_. 0), ws_blocked = [], ws_shut = [], ws_produced = [], ws_wire = []\<rparr>"

theorem write_turn_is_paced_witness:
  "ws_wire (snd (write_pending 7 0 True
     [\<lparr>ht_reads = [], ht_vectors = 1, ht_stream = 0, ht_write = Packet (Some 2) (demo_datagram 1), ht_offset_ok = True, ht_send = Sent 2\<rparr>]
     [Conn_nothing] demo_turn)) = [demo_datagram 1] \<and>
   length (us_queue (ws_socket (snd (write_pending 7 0 True
     [\<lparr>ht_reads = [], ht_vectors = 1, ht_stream = 0, ht_write = Packet (Some 2) (demo_datagram 1), ht_offset_ok = True, ht_send = Sent 2\<rparr>]
     [Conn_nothing] demo_turn)))) \<le> 1"
proof -
  let ?turns = "[\<lparr>ht_reads = [], ht_vectors = 1, ht_stream = 0, ht_write = Packet (Some 2) (demo_datagram 1), ht_offset_ok = True, ht_send = Sent 2\<rparr>]"
  obtain b s' where out: "write_pending 7 0 True ?turns [Conn_nothing] demo_turn = (b, s')" by fastforce
  have ok: "socket_ok (ws_socket demo_turn)" using opened_ok by (simp add: demo_turn_def socket_system_ok_def)
  have wire: "ws_wire (snd (write_pending 7 0 True ?turns [Conn_nothing] demo_turn)) = [demo_datagram 1]" by code_simp
  have "length (us_queue (ws_socket s')) \<le> length (us_queue (ws_socket demo_turn)) + 1"
    using write_turn_is_paced [OF out ok, of 2] by (auto simp: demo_datagram_def max_queued_bytes_def)
  moreover have "us_queue (ws_socket demo_turn) = []"
    by (simp add: demo_turn_def opened_def open_socket_def new_socket_def Let_def)
  ultimately show ?thesis using wire out by simp
qed

end
