(* ===== verification/Quic_Loop.thy ===== *)
theory Quic_Loop
  imports Quic_Write Quic_System Receive_Credit
begin

text \<open>
  \<^verbatim>\<open>QuicClient::event_loop\<close> (\<^verbatim>\<open>src/core/quic_client.cc\<close>) with the callbacks ngtcp2 and nghttp3 make in it
  (\<^verbatim>\<open>http3_session.cc\<close>): one turn is what the kernel, the clocks, ngtcp2 and nghttp3 answer and what other threads do
  before it and between its pieces.  The turns compose the operations of \<open>Quic_Jobs\<close>, \<open>Quic_Timeouts\<close>, \<open>Quic_Run\<close>, \<open>Receive_Credit\<close>, \<open>Udp_Socket\<close>
  and \<open>Quic_Write\<close>.
\<close>

subsection \<open>State\<close>

text \<open>\<open>lp_extended\<close>: the windows extended at once, per stream; resets and resumes are those asked of nghttp3.\<close>

record loop_state =
  lp_write :: write_state
  lp_credit :: credit_channel
  lp_extended :: "(int \<times> nat) list"
  lp_keep_alive :: nat
  lp_reset :: "int list"
  lp_resumed :: "int list"

definition lp_jobs :: "loop_state \<Rightarrow> quic_jobs" where
  "lp_jobs s = ws_jobs (lp_write s)"

definition lp_net :: "loop_state \<Rightarrow> net_state" where
  "lp_net s = ws_net (lp_write s)"

definition put_jobs :: "quic_jobs \<Rightarrow> loop_state \<Rightarrow> loop_state" where
  "put_jobs q s = s\<lparr>lp_write := (lp_write s)\<lparr>ws_jobs := q\<rparr>\<rparr>"

definition put_net :: "net_state \<Rightarrow> loop_state \<Rightarrow> loop_state" where
  "put_net n s = s\<lparr>lp_write := (lp_write s)\<lparr>ws_net := n\<rparr>\<rparr>"

definition put_socket :: "udp_socket \<Rightarrow> datagram list \<Rightarrow> loop_state \<Rightarrow> loop_state" where
  "put_socket sock wire s =
     s\<lparr>lp_write := (lp_write s)\<lparr>ws_socket := sock, ws_wire := ws_wire (lp_write s) @ wire\<rparr>\<rparr>"

definition extend_windows :: "int \<Rightarrow> nat \<Rightarrow> loop_state \<Rightarrow> loop_state" where
  "extend_windows stream n s = (if n = 0 then s else s\<lparr>lp_extended := lp_extended s @ [(stream, n)]\<rparr>)"

text \<open>A piece of a turn: whether the loop goes on, what the engine is told, the state.\<close>

type_synonym piece = "loop_state \<Rightarrow> bool \<times> job_note list \<times> loop_state"

definition andthen :: "piece \<Rightarrow> piece \<Rightarrow> piece" where
  "andthen f g s =
     (case f s of
        (False, notes, s1) \<Rightarrow> (False, notes, s1)
      | (True, notes, s1) \<Rightarrow> (case g s1 of (ok, told, s2) \<Rightarrow> (ok, notes @ told, s2)))"

definition quiet :: "(loop_state \<Rightarrow> loop_state) \<Rightarrow> piece" where
  "quiet f s = (True, [], f s)"

definition on_jobs :: "(quic_jobs \<Rightarrow> job_note list \<times> quic_jobs) \<Rightarrow> piece" where
  "on_jobs f s = (case f (lp_jobs s) of (notes, q) \<Rightarrow> (True, notes, put_jobs q s))"

definition try_jobs :: "(quic_jobs \<Rightarrow> (job_note list \<times> quic_jobs) option) \<Rightarrow> piece" where
  "try_jobs f s = (case f (lp_jobs s) of None \<Rightarrow> (False, [], s) | Some (notes, q) \<Rightarrow> (True, notes, put_jobs q s))"

fun in_order :: "('a \<Rightarrow> piece) \<Rightarrow> 'a list \<Rightarrow> piece" where
  "in_order f [] = quiet (\<lambda>s. s)"
| "in_order f (x # xs) = andthen (f x) (in_order f xs)"

definition update_keep_alive :: "nat option \<Rightarrow> loop_state \<Rightarrow> loop_state" where
  "update_keep_alive peer s = s\<lparr>lp_keep_alive := keep_alive_timeout peer (lp_jobs s)\<rparr>"

subsection \<open>Other threads\<close>

datatype thread_op =
    Th_submit nat job
  | Th_cancel int
  | Th_append int bytes bool
  | Th_consume int nat
  | Th_write
  | Th_engine nat job
  | Th_stop

definition wake :: "loop_state \<Rightarrow> loop_state" where
  "wake s = s\<lparr>lp_credit := (lp_credit s)\<lparr>cc_eventfd := True\<rparr>\<rparr>"

text \<open>\<open>Th_write\<close> is the \<^verbatim>\<open>eventfd\<close> write of a consumer that has queued credit; \<open>Th_engine\<close> the engine writing its own fields of
  a job.\<close>

fun do_thread :: "thread_op \<Rightarrow> loop_state \<Rightarrow> loop_state" where
  "do_thread (Th_submit now j) s = wake (put_jobs (snd (submit_job now j (lp_jobs s))) s)"
| "do_thread (Th_cancel i) s =
     (case cancel_job i (lp_jobs s) of (found, q) \<Rightarrow> if found then wake (put_jobs q s) else put_jobs q s)"
| "do_thread (Th_append i data fin) s =
     (case append_request_body i data fin (lp_jobs s) of
        (e, q) \<Rightarrow> if e = KAT_OK then wake (put_jobs q s) else put_jobs q s)"
| "do_thread (Th_consume i n) s =
     (case consume i n (lp_jobs s) of
        (e, credit, q) \<Rightarrow>
          let s1 = put_jobs q s
          in (case credit of None \<Rightarrow> s1 | Some (sid, k) \<Rightarrow> s1\<lparr>lp_credit := push_credit sid k (lp_credit s1)\<rparr>))"
| "do_thread Th_write s =
     (if cc_writers (lp_credit s) > 0
      then s\<lparr>lp_credit := (lp_credit s)\<lparr>cc_writers := cc_writers (lp_credit s) - 1, cc_eventfd := True\<rparr>\<rparr> else s)"
| "do_thread (Th_engine p j') s =
     (let q = lp_jobs s
      in case deref p q of
           None \<Rightarrow> s
         | Some j \<Rightarrow>
             if same_core j j'
             then put_jobs (q\<lparr>qj_pending := update_at p (\<lambda>_. j') (qj_pending q), qj_active := update_at p (\<lambda>_. j') (qj_active q)\<rparr>) s
             else s)"
| "do_thread Th_stop s = wake s"

definition other_threads :: "thread_op list \<Rightarrow> piece" where
  "other_threads ops = quiet (fold do_thread ops)"

subsection \<open>Callbacks\<close>

text \<open>Those of nghttp3 while it reads stream data, and what other threads do between two of them (\<open>H3_others\<close>); the flag of \<open>H3_deferred\<close> is the answer of
\<^verbatim>\<open>ngtcp2_conn_extend_max_stream_offset\<close>.\<close>

datatype h3_event =
    H3_begin int
  | H3_field int string string
  | H3_head int nat
  | H3_data int nat bytes
  | H3_end int
  | H3_goaway int int
  | H3_deferred int nat bool
  | H3_others "thread_op list"

definition data_credit :: "int \<Rightarrow> bytes \<Rightarrow> quic_jobs \<Rightarrow> nat" where
  "data_credit stream data q =
     (case find_job stream q of
        None \<Rightarrow> 0
      | Some p \<Rightarrow> (case deref p q of None \<Rightarrow> 0 | Some j \<Rightarrow> fst (recv_data 0 data j)))"

fun h3_callback :: "h3_event \<Rightarrow> piece" where
  "h3_callback (H3_begin sid) = try_jobs (begin_headers_cb sid)"
| "h3_callback (H3_field sid n v) = try_jobs (recv_header_cb sid n v)"
| "h3_callback (H3_head sid now) = try_jobs (end_headers_cb sid now)"
| "h3_callback (H3_data sid now data) =
     (\<lambda>s. andthen (try_jobs (recv_data_cb sid now data)) (quiet (extend_windows sid (data_credit sid data (lp_jobs s)))) s)"
| "h3_callback (H3_end sid) = try_jobs (end_stream_cb sid)"
| "h3_callback (H3_goaway notice sid) = on_jobs (on_goaway notice sid)"
| "h3_callback (H3_deferred sid n extended) =
     (if n = 0 \<or> extended then quiet (extend_windows sid n) else (\<lambda>s. (False, [], s)))"
| "h3_callback (H3_others ops) = other_threads ops"

text \<open>\<^verbatim>\<open>recv_stream_data\<close>: \<open>consumed\<close> is what \<^verbatim>\<open>nghttp3_conn_read_stream\<close> returns, or \<open>None\<close> for an error.\<close>

definition recv_stream_data :: "int \<Rightarrow> h3_event list \<Rightarrow> nat option \<Rightarrow> piece" where
  "recv_stream_data stream events consumed s =
     (if \<not> qj_session (lp_jobs s) \<or> \<not> qj_codec (lp_jobs s) then (False, [], s)
      else
        andthen (in_order h3_callback events)
          (\<lambda>s1. case consumed of
             None \<Rightarrow> (False, [], s1)
           | Some n \<Rightarrow> (True, [], extend_windows stream (recv_stream_credit stream n (lp_jobs s1)) s1)) s)"

text \<open>Those of ngtcp2; \<open>Ev_other\<close> are the callbacks that change nothing here, with their answer, and \<open>Ev_others\<close> is what other threads
  do between two callbacks.\<close>

datatype conn_event =
    Ev_handshake bool "nat \<Rightarrow> open_result" "nat option"
  | Ev_confirmed "nat \<Rightarrow> open_result"
  | Ev_stream int "h3_event list" "nat option"
  | Ev_closed int
  | Ev_more_streams "nat \<Rightarrow> open_result"
  | Ev_path bool
  | Ev_early_rejected
  | Ev_other bool
  | Ev_others "thread_op list"

definition handshake_event :: "bool \<Rightarrow> (nat \<Rightarrow> open_result) \<Rightarrow> nat option \<Rightarrow> piece" where
  "handshake_event codec_ok opens peer s =
     (case on_handshake_completed codec_ok opens (lp_jobs s) of
        (ok, notes, q) \<Rightarrow>
          let s1 = put_jobs q s
          in (ok, notes, if ok \<and> \<not> qj_ready (lp_jobs s) \<and> qj_session (lp_jobs s) then update_keep_alive peer s1 else s1))"

fun conn_callback :: "conn_event \<Rightarrow> piece" where
  "conn_callback (Ev_handshake codec_ok opens peer) = handshake_event codec_ok opens peer"
| "conn_callback (Ev_confirmed opens) = on_jobs (on_handshake_confirmed opens)"
| "conn_callback (Ev_stream sid events consumed) = recv_stream_data sid events consumed"
| "conn_callback (Ev_closed sid) =
     (\<lambda>s. try_jobs (on_stream_close (find_job sid (lp_jobs s) \<noteq> None) sid) s)"
| "conn_callback (Ev_more_streams opens) = on_jobs (try_submit_pending opens)"
| "conn_callback (Ev_path success) = quiet (\<lambda>s. put_net (on_path_validation success (lp_net s)) s)"
| "conn_callback Ev_early_rejected = on_jobs (\<lambda>q. ([], on_early_data_rejected q))"
| "conn_callback (Ev_other ok) = (\<lambda>s. (ok, [], s))"
| "conn_callback (Ev_others ops) = other_threads ops"

text \<open>A call of ngtcp2: the callbacks it makes, the first failing one being the last, and its own success.\<close>

type_synonym quic_call = "conn_event list \<times> bool"

definition run_call :: "quic_call \<Rightarrow> piece" where
  "run_call call = andthen (in_order conn_callback (fst call)) (\<lambda>s. (snd call, [], s))"

subsection \<open>The pieces of a turn\<close>

record loop_config =
  lc_timeouts :: quic_timeouts
  lc_attempt_migration :: bool
  lc_has_peer :: bool
  lc_handshake_started :: nat

definition replacement_socket :: "int \<Rightarrow> udp_socket" where
  "replacement_socket family =
     snd (connect_socket family True (snd (open_socket family True True new_socket)))"

definition network_piece :: "loop_config \<Rightarrow> network_change_request \<Rightarrow> migration \<Rightarrow> piece" where
  "network_piece cfg request m s =
     (let confirmed = qj_confirmed (lp_jobs s);
          action = network_change_action request (ns_applied_generation (lp_net s)) confirmed (lc_attempt_migration cfg);
          (ok, net) = process_network_change request confirmed (lc_attempt_migration cfg) (lc_has_peer cfg) m (lp_net s);
          s1 = put_net net s
      in (ok, [], if ok \<and> action \<noteq> NC_None
                  then put_socket (fst (move_assign False (ws_socket (lp_write s)) (replacement_socket (us_family (ws_socket (lp_write s)))))) [] s1
                  else s1))"

definition record_error :: "kat_error \<Rightarrow> loop_state \<Rightarrow> loop_state" where
  "record_error e s = put_net ((lp_net s)\<lparr>ns_terminal_error := e\<rparr>) s"

definition socket_error :: "errno \<Rightarrow> loop_state \<Rightarrow> loop_state" where
  "socket_error e s = put_net (snd (record_socket_error e (lp_net s))) s"

definition handshake_piece :: "loop_config \<Rightarrow> nat \<Rightarrow> piece" where
  "handshake_piece cfg now s =
     (if \<not> qj_confirmed (lp_jobs s) \<and> tm_handshake (lc_timeouts cfg) \<noteq> 0 \<and>
         elapsed_ms now (lc_handshake_started cfg) (tm_handshake (lc_timeouts cfg))
      then (False, [], record_error ERR_HANDSHAKE_TIMEOUT s) else (True, [], s))"

datatype received = Recv_failed errno | Recv_batch "(datagram \<times> quic_call) list"

text \<open>A batch; a datagram of size 0 is skipped.\<close>

definition read_packet :: "datagram \<times> quic_call \<Rightarrow> piece" where
  "read_packet r = (if dg_data (fst r) = [] then quiet (\<lambda>s. s) else run_call (snd r))"

definition receive_piece :: "received \<Rightarrow> piece" where
  "receive_piece r =
     (case r of
        Recv_failed e \<Rightarrow>
          (\<lambda>s. if e \<noteq> EINTR \<and> e \<noteq> EAGAIN \<and> e \<noteq> EWOULDBLOCK then (False, [], socket_error e s) else (True, [], s))
      | Recv_batch packets \<Rightarrow> in_order read_packet packets)"

text \<open>The errno a failed flush leaves.\<close>

definition left_errno :: "sys_result \<Rightarrow> errno" where
  "left_errno r = (case r of Failed e \<Rightarrow> e | Sent n \<Rightarrow> eio)"

definition flush_piece :: "(nat \<Rightarrow> sys_result) \<Rightarrow> piece" where
  "flush_piece answers s =
     (case flush_send_queue answers 0 (ws_socket (lp_write s)) [] of
        (ok, calls, sock, wire) \<Rightarrow>
          let s1 = put_socket sock wire s
          in if ok then (True, [], s1) else (False, [], socket_error (left_errno (answers (calls - 1))) s1))"

definition process_wakeup :: "loop_state \<Rightarrow> loop_state" where
  "process_wakeup s =
     (case process_wakeup_streams (lp_jobs s) of
        (resets, resumes, q) \<Rightarrow>
          (put_jobs q s)\<lparr>lp_credit := apply_credit ((lp_credit s)\<lparr>cc_eventfd := False, cc_drained := True\<rparr>),
                         lp_reset := lp_reset s @ resets, lp_resumed := lp_resumed s @ resumes\<rparr>)"

text \<open>\<^verbatim>\<open>poll\<close>, level-triggered, reports the \<^verbatim>\<open>eventfd\<close> whenever it is readable.\<close>

datatype poll_result = Poll_failed errno | Poll_events bool bool bool

text \<open>\<open>lt_threads\<close>: what other threads do before the turn; \<open>lt_among\<close>: what they do between its pieces, which are numbered.\<close>

record loop_turn =
  lt_threads :: "thread_op list"
  lt_among :: "nat \<Rightarrow> thread_op list"
  lt_stop :: bool
  lt_request :: network_change_request
  lt_migration :: migration
  lt_now :: nat
  lt_poll :: poll_result
  lt_received :: received
  lt_flush :: "nat \<Rightarrow> sys_result"
  lt_request2 :: network_change_request
  lt_migration2 :: migration
  lt_expiry :: quic_call
  lt_now2 :: nat
  lt_opens :: "nat \<Rightarrow> open_result"
  lt_peer_idle :: "nat option"
  lt_write_now :: nat
  lt_quantum :: nat
  lt_h3 :: "h3_turn list"
  lt_packets :: "conn_write list"
  lt_closing :: bool

definition if_ready :: "bool \<Rightarrow> piece \<Rightarrow> piece" where
  "if_ready b f = (if b then f else quiet (\<lambda>s. s))"

definition then_others :: "loop_turn \<Rightarrow> nat \<Rightarrow> piece \<Rightarrow> piece \<Rightarrow> piece" where
  "then_others t k f g = andthen f (andthen (other_threads (lt_among t k)) g)"

definition wakeup_piece :: "loop_config \<Rightarrow> loop_turn \<Rightarrow> piece" where
  "wakeup_piece cfg t =
     then_others t 5 (quiet process_wakeup) (network_piece cfg (lt_request2 t) (lt_migration2 t))"

definition write_piece :: "loop_turn \<Rightarrow> piece" where
  "write_piece t s =
     (let w = snd (write_pending (lt_write_now t) (lt_quantum t) (qj_session (lp_jobs s) \<and> qj_codec (lp_jobs s)) (lt_h3 t) (lt_packets t) (lp_write s))
      in (\<not> ns_socket_failed (ws_net w), [], s\<lparr>lp_write := w\<rparr>))"

text \<open>The end of \<^verbatim>\<open>expire_requests\<close> wakes the worker for what it has expired.\<close>

definition expire_piece :: "loop_config \<Rightarrow> nat \<Rightarrow> piece" where
  "expire_piece cfg now s =
     (case expire_requests (lc_timeouts cfg) now (lp_jobs s) of
        (notes, q) \<Rightarrow> (True, notes, (if notes \<noteq> [] then wake else id) (put_jobs q s)))"

definition io_piece :: "loop_config \<Rightarrow> loop_turn \<Rightarrow> bool \<Rightarrow> bool \<Rightarrow> bool \<Rightarrow> piece" where
  "io_piece cfg t readable writable woken =
     then_others t 3 (if_ready readable (receive_piece (lt_received t)))
       (then_others t 4 (if_ready writable (flush_piece (lt_flush t)))
         (then_others t 6 (if_ready woken (wakeup_piece cfg t))
           (then_others t 7 (run_call (lt_expiry t))
             (then_others t 8 (expire_piece cfg (lt_now2 t))
               (then_others t 9 (on_jobs (try_submit_pending (lt_opens t)))
                 (then_others t 10 (quiet (update_keep_alive (lt_peer_idle t))) (write_piece t)))))))"

text \<open>What follows \<^verbatim>\<open>poll\<close>.\<close>

definition poll_piece :: "loop_config \<Rightarrow> loop_turn \<Rightarrow> piece" where
  "poll_piece cfg t s =
     (case lt_poll t of
        Poll_failed e \<Rightarrow> if e = EINTR then (True, [], s) else (False, [], socket_error e s)
      | Poll_events broken readable writable \<Rightarrow>
          if broken then (False, [], record_error ERR_NETWORK_LOST s)
          else io_piece cfg t readable writable (cc_eventfd (lp_credit s)) s)"

definition turn_piece :: "loop_config \<Rightarrow> loop_turn \<Rightarrow> piece" where
  "turn_piece cfg t =
     then_others t 1 (network_piece cfg (lt_request t) (lt_migration t))
       (then_others t 2 (handshake_piece cfg (lt_now t)) (poll_piece cfg t))"

subsection \<open>The loop\<close>

text \<open>The result is 0 or -1; \<open>None\<close> where the loop has not ended after the turns.\<close>

fun event_loop :: "loop_config \<Rightarrow> loop_turn list \<Rightarrow> loop_state \<Rightarrow> int option \<times> job_note list \<times> loop_state" where
  "event_loop cfg [] s = (None, [], s)"
| "event_loop cfg (t # ts) s =
     (let s0 = fold do_thread (lt_threads t) s
      in if lt_stop t \<or> qj_stop (lp_jobs s0) then (Some 0, [], s0)
         else case turn_piece cfg t s0 of
             (False, notes, s1) \<Rightarrow> (Some (-1), notes, s1)
           | (True, notes, s1) \<Rightarrow>
               if lt_poll t \<noteq> Poll_failed EINTR \<and> lt_closing t then (Some 0, notes, s1)
               else (case event_loop cfg ts s1 of (code, told, s2) \<Rightarrow> (code, notes @ told, s2)))"

subsection \<open>The loop runs the connection\<close>

text \<open>A run of the transition system with everything the engine is told in it.\<close>

inductive quic_run :: "quic_state \<Rightarrow> job_note list \<Rightarrow> quic_state \<Rightarrow> bool" where
  run_refl: "quic_run s [] s"
| run_step: "quic_run s notes s' \<Longrightarrow> quic_trans s' told s'' \<Longrightarrow> quic_run s (notes @ told) s''"

lemma run_one: "quic_trans s notes s' \<Longrightarrow> quic_run s notes s'"
  using run_step [OF run_refl] by fastforce

lemma run_trans: "quic_run s' told s'' \<Longrightarrow> quic_run s notes s' \<Longrightarrow> quic_run s (notes @ told) s''"
proof (induction rule: quic_run.induct)
  case (run_refl s)
  then show ?case by simp
next
  case (run_step s0 n s1 told s2)
  then show ?case using quic_run.run_step [of s "notes @ n" s1 told s2] by simp
qed

lemma run_reachable: "quic_run s notes s' \<Longrightarrow> reachable quic_start quic_trans s \<Longrightarrow> reachable quic_start quic_trans s'"
  by (induction rule: quic_run.induct) (auto intro: reachable_step)

lemma run_keeps_inv: "quic_run s notes s' \<Longrightarrow> quic_state_inv s \<Longrightarrow> quic_state_inv s'"
  by (induction rule: quic_run.induct) (auto dest: quic_trans_inv)

definition jobs_run :: "quic_jobs \<Rightarrow> job_note list \<Rightarrow> quic_jobs \<Rightarrow> bool" where
  "jobs_run q notes q' \<longleftrightarrow> (quic_inv q \<longrightarrow> quic_run (q, True) notes (q', True) \<and> quic_inv q')"

lemma jobs_run_refl [simp]: "jobs_run q [] q"
  by (simp add: jobs_run_def run_refl)

lemma jobs_run_trans: "jobs_run q n q1 \<Longrightarrow> jobs_run q1 m q2 \<Longrightarrow> jobs_run q (n @ m) q2"
  by (auto simp: jobs_run_def intro: run_trans)

lemma jobs_run_one: "(quic_inv q \<Longrightarrow> quic_trans (q, True) notes (q', True)) \<Longrightarrow> jobs_run q notes q'"
  using run_keeps_inv [OF run_one] by (fastforce simp: jobs_run_def quic_state_inv_def intro: run_one)

definition credit_run :: "credit_channel \<Rightarrow> credit_channel \<Rightarrow> bool" where
  "credit_run c c' \<longleftrightarrow>
     \<not> cc_drained c \<longrightarrow> \<not> cc_drained c' \<and> (reachable credit_start credit_trans c \<longrightarrow> reachable credit_start credit_trans c')"

lemma credit_run_refl [simp]: "credit_run c c"
  by (simp add: credit_run_def)

lemma credit_run_trans: "credit_run a b \<Longrightarrow> credit_run b c \<Longrightarrow> credit_run a c"
  by (simp add: credit_run_def)

lemma credit_run_one: "credit_trans c e c' \<Longrightarrow> cc_drained c' = cc_drained c \<Longrightarrow> credit_run c c'"
  by (auto simp: credit_run_def intro: reachable_step)

lemma credit_wake: "credit_run c (c\<lparr>cc_eventfd := True\<rparr>)"
  by (rule credit_run_one [OF C_other]) simp

lemma credit_push: "credit_run c (push_credit sid n c)"
  by (rule credit_run_one [OF C_push]) (simp add: push_credit_def Let_def split: prod.split)

lemma credit_served: "credit_run c (apply_credit (c\<lparr>cc_eventfd := False, cc_drained := True\<rparr>))"
proof -
  let ?r = "c\<lparr>cc_eventfd := True\<rparr>"
  let ?d = "c\<lparr>cc_eventfd := False, cc_drained := True\<rparr>"
  have "credit_trans ?d Cr_apply (apply_credit ?d)" by (rule C_apply) simp
  moreover have "credit_trans ?r Cr_drain ?d" if "\<not> cc_drained c" using C_drain [of ?r] that by simp
  moreover have "credit_trans c Cr_other_wakeup ?r" by (rule C_other)
  moreover have "\<not> cc_drained (apply_credit ?d)" by (simp add: apply_credit_def Let_def split: prod.split)
  ultimately show ?thesis unfolding credit_run_def by (blast intro: reachable_step)
qed

definition runs :: "loop_state \<Rightarrow> job_note list \<Rightarrow> loop_state \<Rightarrow> bool" where
  "runs s notes s' \<longleftrightarrow> jobs_run (lp_jobs s) notes (lp_jobs s') \<and> credit_run (lp_credit s) (lp_credit s')"

lemma runs_trans: "runs s n s1 \<Longrightarrow> runs s1 m s2 \<Longrightarrow> runs s (n @ m) s2"
  by (auto simp: runs_def intro: jobs_run_trans credit_run_trans)

definition running :: "piece \<Rightarrow> bool" where
  "running f \<longleftrightarrow> (\<forall>s ok notes s'. f s = (ok, notes, s') \<longrightarrow> runs s notes s')"

lemma runningI: "(\<And>s ok notes s'. f s = (ok, notes, s') \<Longrightarrow> runs s notes s') \<Longrightarrow> running f"
  by (simp add: running_def)

lemma runningD: "running f \<Longrightarrow> f s = (ok, notes, s') \<Longrightarrow> runs s notes s'"
  by (simp add: running_def)

lemma put_simps [simp]:
  "lp_jobs (put_jobs q s) = q" "lp_credit (put_jobs q s) = lp_credit s"
  "lp_jobs (put_net n s) = lp_jobs s" "lp_credit (put_net n s) = lp_credit s"
  "lp_jobs (put_socket k w s) = lp_jobs s" "lp_credit (put_socket k w s) = lp_credit s"
  "lp_jobs (extend_windows i m s) = lp_jobs s" "lp_credit (extend_windows i m s) = lp_credit s"
  "lp_jobs (update_keep_alive p s) = lp_jobs s" "lp_credit (update_keep_alive p s) = lp_credit s"
  "lp_jobs (record_error e s) = lp_jobs s" "lp_credit (record_error e s) = lp_credit s"
  "lp_jobs (socket_error x s) = lp_jobs s" "lp_credit (socket_error x s) = lp_credit s"
  "lp_jobs (wake s) = lp_jobs s" "lp_credit (wake s) = (lp_credit s)\<lparr>cc_eventfd := True\<rparr>"
  "lp_jobs (s\<lparr>lp_credit := c\<rparr>) = lp_jobs s"
  by (simp_all add: lp_jobs_def put_jobs_def put_net_def put_socket_def extend_windows_def update_keep_alive_def
      record_error_def socket_error_def wake_def)

lemma runs_same: "lp_jobs s' = lp_jobs s \<Longrightarrow> lp_credit s' = lp_credit s \<Longrightarrow> runs s [] s'"
  by (simp add: runs_def)

lemma andthen_running:
  assumes "running f" "running g"
  shows "running (andthen f g)"
proof (rule runningI)
  fix s ok ns s'
  assume out: "andthen f g s = (ok, ns, s')"
  obtain ok1 n1 s1 where f: "f s = (ok1, n1, s1)" by (metis prod_cases3)
  show "runs s ns s'"
    using out f runningD [OF assms(1) f] runningD [OF assms(2), of s1] runs_trans [of s n1 s1]
    by (cases ok1) (auto simp: andthen_def split: prod.splits)
qed

lemma quiet_running: "(\<And>s. runs s [] (f s)) \<Longrightarrow> running (quiet f)"
  by (simp add: running_def quiet_def)

lemma on_jobs_running:
  assumes "\<And>q notes q'. f q = (notes, q') \<Longrightarrow> jobs_run q notes q'"
  shows "running (on_jobs f)"
  using assms by (auto simp: running_def on_jobs_def runs_def split: prod.splits)

lemma try_jobs_running:
  assumes "\<And>q notes q'. f q = Some (notes, q') \<Longrightarrow> quic_trans (q, True) notes (q', True)"
  shows "running (try_jobs f)"
  using assms by (auto simp: running_def try_jobs_def runs_def intro!: jobs_run_one split: option.splits)

lemma in_order_running: "(\<And>x. running (f x)) \<Longrightarrow> running (in_order f xs)"
  by (induction xs) (auto intro: andthen_running quiet_running runs_same)

lemma if_ready_running: "running f \<Longrightarrow> running (if_ready b f)"
  by (simp add: if_ready_def quiet_running runs_same)

lemma failing_running: "running (\<lambda>s. (False, [], s))"
  by (simp add: running_def runs_same)

lemmas running_intros = failing_running andthen_running quiet_running on_jobs_running try_jobs_running in_order_running if_ready_running

text \<open>Other threads.\<close>

lemma consume_run:
  assumes "consume i n q = (e, credit, q')"
  shows "jobs_run q [] q'"
proof (cases "q' = q")
  case False
  then obtain p j j' k where f: "find (\<lambda>(p, j). jb_id j = i) (qj_active q) = Some (p, j)" "consume_job n j = Some (k, j')"
    and q': "q' = q\<lparr>qj_active := update_at p (\<lambda>_. j') (qj_active q)\<rparr>"
    using assms by (auto simp: consume_def Let_def split: if_splits option.splits prod.splits)
  have core: "same_core j j'" using f(2) by (auto simp: consume_job_def Let_def same_core_def split: if_splits)
  have mem: "(p, j) \<in> set (qj_active q)" using f(1) by (auto simp: find_Some_iff in_set_conv_nth)
  show ?thesis
  proof (rule jobs_run_one)
    assume inv: "quic_inv q"
    have d: "deref p q = Some j" by (rule deref_unique [OF quic_inv_distinct [OF inv]]) (simp add: mem)
    have "p \<notin> fst ` set (qj_pending q)"
      using quic_inv_distinct [OF inv] mem unfolding addresses_def by force
    then have "update_at p (\<lambda>_. j') (qj_pending q) = qj_pending q"
      by (force simp: update_at_def intro: map_idI)
    then show "quic_trans (q, True) [] (q', True)" using Q_engine [OF core d] q' by simp
  qed
qed simp

lemma thread_runs: "runs s [] (do_thread op s)"
proof (cases op)
  case (Th_submit now j)
  then show ?thesis using credit_wake by (auto simp: runs_def intro: jobs_run_one Q_submit)
next
  case (Th_cancel i)
  obtain found q where c: "cancel_job i (lp_jobs s) = (found, q)" by fastforce
  have "jobs_run (lp_jobs s) [] q" using Q_cancel [of "lp_jobs s" True i] c by (intro jobs_run_one) simp
  then show ?thesis using Th_cancel c credit_wake by (auto simp: runs_def)
next
  case (Th_append i data fin)
  obtain e q where c: "append_request_body i data fin (lp_jobs s) = (e, q)" by fastforce
  have "jobs_run (lp_jobs s) [] q" using Q_append [of "lp_jobs s" True i data fin] c by (intro jobs_run_one) simp
  then show ?thesis using Th_append c credit_wake by (auto simp: runs_def)
next
  case (Th_consume i n)
  obtain e credit q where c: "consume i n (lp_jobs s) = (e, credit, q)" by (metis prod_cases3)
  then show ?thesis using Th_consume consume_run [OF c] credit_push by (auto simp: runs_def Let_def split: option.split)
next
  case Th_write
  have "credit_run c (c\<lparr>cc_writers := cc_writers c - 1, cc_eventfd := True\<rparr>)" if "cc_writers c > 0" for c
    by (rule credit_run_one [OF C_write [OF that]]) simp
  then show ?thesis using Th_write by (simp add: runs_def)
next
  case (Th_engine p j')
  then show ?thesis
    by (auto simp: runs_def Let_def intro: jobs_run_one Q_engine split: option.split)
next
  case Th_stop
  then show ?thesis using credit_wake by (simp add: runs_def)
qed

lemma threads_run: "runs s [] (fold do_thread ops s)"
proof (induction ops arbitrary: s)
  case (Cons op ops)
  show ?case using runs_trans [OF thread_runs [of s op] Cons] by simp
qed (simp add: runs_same)

lemma others_running: "running (other_threads ops)"
  unfolding other_threads_def by (rule quiet_running) (rule threads_run)

lemma then_others_running: "running f \<Longrightarrow> running g \<Longrightarrow> running (then_others t k f g)"
  unfolding then_others_def by (intro andthen_running others_running)

lemma h3_callback_running: "running (h3_callback e)"
proof (cases e)
  case (H3_data sid now data)
  have 1: "running (try_jobs (recv_data_cb sid now data))"
    by (rule try_jobs_running) (rule Q_data)
  have "running (andthen (try_jobs (recv_data_cb sid now data)) (quiet (extend_windows sid n)))" for n
    by (rule andthen_running [OF 1 quiet_running]) (simp add: runs_same)
  then show ?thesis by (simp add: H3_data running_def)
qed (auto intro!: running_intros others_running jobs_run_one runs_same intro: quic_trans.intros)

lemma recv_stream_data_running: "running (recv_stream_data sid events consumed)"
proof -
  have "running (andthen (in_order h3_callback events)
          (\<lambda>s1. case consumed of
             None \<Rightarrow> (False, [], s1)
           | Some n \<Rightarrow> (True, [], extend_windows sid (recv_stream_credit sid n (lp_jobs s1)) s1)))"
    by (rule andthen_running [OF in_order_running [OF h3_callback_running]])
       (auto simp: running_def intro: runs_same split: option.splits)
  then show ?thesis by (auto simp: running_def recv_stream_data_def intro: runs_same)
qed

lemma handshake_event_running: "running (handshake_event codec_ok opens peer)"
proof (rule runningI)
  fix s ok ns s'
  assume "handshake_event codec_ok opens peer s = (ok, ns, s')"
  moreover obtain ok1 n1 q1 where q: "on_handshake_completed codec_ok opens (lp_jobs s) = (ok1, n1, q1)" by (metis prod_cases3)
  moreover have "jobs_run (lp_jobs s) n1 q1" by (rule jobs_run_one) (rule Q_completed [OF q])
  ultimately show "runs s ns s'" by (auto simp: handshake_event_def runs_def Let_def split: if_splits)
qed

lemma close_running: "running (\<lambda>s. try_jobs (on_stream_close (find_job sid (lp_jobs s) \<noteq> None) sid) s)"
  by (auto simp: running_def try_jobs_def runs_def intro!: jobs_run_one Q_close [OF refl] split: option.splits)

lemma conn_callback_running: "running (conn_callback e)"
proof (cases e)
  case (Ev_closed sid)
  then show ?thesis using close_running by simp
next
  case (Ev_other ok)
  then show ?thesis by (simp add: running_def runs_same)
qed (auto intro!: running_intros others_running jobs_run_one runs_same recv_stream_data_running handshake_event_running
      intro: quic_trans.intros)

lemma run_call_running: "running (run_call c)"
  unfolding run_call_def
  by (rule andthen_running [OF in_order_running [OF conn_callback_running]]) (simp add: running_def runs_same)

text \<open>What a turn of writing does to the jobs: request bodies are read and progress is noted.\<close>

lemma data_read_core: "same_core j (snd (data_read j))"
  by (simp add: data_read_def same_core_def split: prod.split)

lemma read_body_run: "jobs_run q [] (read_body_cb sid q)"
proof (cases "find_job sid q")
  case (Some p)
  then show ?thesis
    using Q_engine [OF data_read_core]
    by (auto simp: read_body_cb_def on_stream_def intro: jobs_run_one split: option.split)
qed (simp add: read_body_cb_def on_stream_def)

lemma read_bodies_run: "jobs_run (ws_jobs w) [] (ws_jobs (read_bodies streams w))"
proof (induction streams arbitrary: w)
  case (Cons i streams)
  have "jobs_run (ws_jobs w) ([] @ []) (ws_jobs (read_bodies streams (w\<lparr>ws_jobs := read_body_cb i (ws_jobs w)\<rparr>)))"
    by (rule jobs_run_trans [OF read_body_run]) (use Cons [of "w\<lparr>ws_jobs := read_body_cb i (ws_jobs w)\<rparr>"] in simp)
  then show ?case by (simp add: read_bodies_def)
qed (simp add: read_bodies_def)

lemma stream_progress_run: "jobs_run (ws_jobs w) [] (ws_jobs (stream_progress now i n w))"
  by (auto simp: stream_progress_def intro!: jobs_run_one Q_progress split: option.split nat.split)

lemma hand_over_jobs: "hand_over r d w = (ok, w') \<Longrightarrow> ws_jobs w' = ws_jobs w"
  by (auto simp: hand_over_def split: prod.splits sys_result.splits)

lemma send_packet_jobs [simp]: "ws_jobs (send_packet r data w) = ws_jobs w"
  using hand_over_jobs [of r "\<lparr>dg_data = data, dg_ecn = 0\<rparr>" w] by (simp add: send_packet_def prod_eq_iff)

lemma add_write_offset_jobs [simp]: "ws_jobs (add_write_offset i n w) = ws_jobs w"
  by (simp add: add_write_offset_def split: option.split)

lemma pump_write_run: "jobs_run (ws_jobs w) [] (ws_jobs (pump_write now ts w))"
proof (induction ts arbitrary: w)
  case (Cons t ts)
  let ?w = "read_bodies (ht_reads t) w"
  have read: "jobs_run (ws_jobs w) [] (ws_jobs ?w)" by (rule read_bodies_run)
  have told: "jobs_run (ws_jobs ?w) [] (ws_jobs (pump_write now ts u))" if "jobs_run (ws_jobs ?w) [] (ws_jobs u)" for u
    using jobs_run_trans [OF that Cons] by simp
  have prog: "jobs_run (ws_jobs ?w) [] (ws_jobs (stream_progress now i n u))" if "ws_jobs u = ws_jobs ?w" for i n u
    using stream_progress_run [of u now i n] that by simp
  have "jobs_run (ws_jobs ?w) [] (ws_jobs (pump_write now (t # ts) w))"
    by (cases "ht_write t") (auto simp: Let_def intro!: told prog)
  then show ?case using jobs_run_trans [OF read] by simp
qed simp

lemma write_packets_jobs: "ws_jobs (snd (write_packets ps w)) = ws_jobs w"
proof (induction ps w rule: write_packets.induct)
  case (5 d r ps w)
  obtain ok w1 where out: "hand_over r d (w\<lparr>ws_produced := ws_produced w @ [d]\<rparr>) = (ok, w1)" by fastforce
  then show ?case using hand_over_jobs [OF out] 5 [OF out [symmetric]] by (cases ok) auto
qed simp_all

lemma write_pending_run: "jobs_run (ws_jobs w) [] (ws_jobs (snd (write_pending now quantum ready turns packets w)))"
proof -
  let ?w = "pump_turn now quantum ready turns w"
  have "jobs_run (ws_jobs w) [] (ws_jobs ?w)"
    using pump_write_run [of "w\<lparr>ws_quantum := begin_send_quantum quantum\<rparr>" now turns] by (simp add: pump_turn_def Let_def)
  then show ?thesis
    using write_packets_jobs [of packets ?w] by (auto simp: write_pending_def Let_def split: prod.split)
qed

lemma write_piece_running: "running (write_piece t)"
  using write_pending_run by (auto simp: running_def write_piece_def runs_def lp_jobs_def Let_def)

lemma network_piece_running: "running (network_piece cfg request m)"
  by (auto simp: running_def network_piece_def Let_def intro!: runs_same split: prod.splits)

lemma handshake_piece_running: "running (handshake_piece cfg now)"
  by (auto simp: running_def handshake_piece_def intro: runs_same)

lemma receive_piece_running: "running (receive_piece r)"
proof (cases r)
  case (Recv_failed e)
  then show ?thesis by (auto simp: running_def receive_piece_def intro: runs_same)
next
  case (Recv_batch packets)
  have "running (read_packet x)" for x
    by (simp add: read_packet_def run_call_running quiet_running runs_same)
  then show ?thesis by (simp add: receive_piece_def Recv_batch in_order_running)
qed

lemma flush_piece_running: "running (flush_piece answers)"
  by (auto simp: running_def flush_piece_def Let_def intro!: runs_same split: prod.splits)

lemma process_wakeup_runs: "runs s [] (process_wakeup s)"
proof -
  obtain resets resumes q where q: "process_wakeup_streams (lp_jobs s) = (resets, resumes, q)" by (metis prod_cases3)
  have "jobs_run (lp_jobs s) [] q" by (rule jobs_run_one) (rule Q_wakeup [OF q])
  then show ?thesis using q credit_served [of "lp_credit s"] by (simp add: process_wakeup_def runs_def lp_jobs_def put_jobs_def)
qed

lemma expire_piece_running: "running (expire_piece cfg now)"
proof (rule runningI)
  fix s ok ns s'
  assume out: "expire_piece cfg now s = (ok, ns, s')"
  obtain n1 q1 where q: "expire_requests (lc_timeouts cfg) now (lp_jobs s) = (n1, q1)" by fastforce
  have "jobs_run (lp_jobs s) n1 q1" by (rule jobs_run_one) (rule Q_expire [OF q])
  then show "runs s ns s'" using out q credit_wake by (auto simp: expire_piece_def runs_def split: if_splits)
qed

lemma wakeup_piece_running: "running (wakeup_piece cfg t)"
  unfolding wakeup_piece_def by (intro then_others_running quiet_running process_wakeup_runs network_piece_running)

lemma keep_alive_running: "running (quiet (update_keep_alive peer))"
  by (rule quiet_running) (simp add: runs_same)

lemma submit_running: "running (on_jobs (try_submit_pending opens))"
  by (rule on_jobs_running) (auto intro: jobs_run_one Q_try)

lemma io_piece_running: "running (io_piece cfg t readable writable woken)"
  unfolding io_piece_def
  by (intro then_others_running if_ready_running receive_piece_running flush_piece_running wakeup_piece_running run_call_running
      expire_piece_running submit_running keep_alive_running write_piece_running)

lemma poll_piece_running: "running (poll_piece cfg t)"
  using io_piece_running
  by (auto simp: running_def poll_piece_def intro: runs_same split: poll_result.splits if_splits)

lemma turn_piece_running: "running (turn_piece cfg t)"
  unfolding turn_piece_def by (intro then_others_running network_piece_running handshake_piece_running poll_piece_running)

lemma event_loop_runs: "event_loop cfg ts s = (code, ns, s') \<Longrightarrow> runs s ns s'"
proof (induction ts arbitrary: s code ns s')
  case (Cons t ts)
  let ?s0 = "fold do_thread (lt_threads t) s"
  have 0: "runs s [] ?s0" by (rule threads_run)
  show ?case
  proof (cases "lt_stop t \<or> qj_stop (lp_jobs ?s0)")
    case True
    then show ?thesis using Cons.prems 0 by simp
  next
    case False
    obtain ok n1 s1 where out: "turn_piece cfg t ?s0 = (ok, n1, s1)" by (metis prod_cases3)
    have 1: "runs s n1 s1" using runs_trans [OF 0 runningD [OF turn_piece_running out]] by simp
    obtain c2 n2 s2 where loop: "event_loop cfg ts s1 = (c2, n2, s2)" by (metis prod_cases3)
    show ?thesis
      using Cons.prems False out 1 loop runs_trans [OF 1 Cons.IH [OF loop]]
      by (cases ok) (auto simp: Let_def split: if_splits)
  qed
qed (simp add: runs_same)

text \<open>Property C5: the event loop runs the connection.  Whatever ngtcp2, nghttp3, the kernel and the clocks answer and
  whatever other threads do between its pieces and between the callbacks, from a state the connection can reach every turn is a run of its
  transition system, with exactly what the engine is told, and of the credit channel: so all that holds of the reachable
  states of \<open>Quic_System\<close> and \<open>Receive_Credit\<close> holds of the jobs and the credit of the loop after any number of turns.\<close>

theorem event_loop_refines_connection:
  assumes "event_loop cfg turns s = (code, ns, s')"
    "reachable quic_start quic_trans (lp_jobs s, True)"
    "reachable credit_start credit_trans (lp_credit s)" "\<not> cc_drained (lp_credit s)"
  shows "quic_run (lp_jobs s, True) ns (lp_jobs s', True) \<and>
    reachable quic_start quic_trans (lp_jobs s', True) \<and>
    reachable credit_start credit_trans (lp_credit s') \<and> \<not> cc_drained (lp_credit s')"
proof -
  have inv: "quic_inv (lp_jobs s)" using connection.reachable_inv [OF assms(2)] by (simp add: quic_state_inv_def)
  have run: "runs s ns s'" by (rule event_loop_runs [OF assms(1)])
  then have "quic_run (lp_jobs s, True) ns (lp_jobs s', True)" using inv by (simp add: runs_def jobs_run_def)
  with run_reachable [OF this assms(2)] run assms(3,4) show ?thesis by (simp add: runs_def credit_run_def)
qed

subsection \<open>Why the loop ends\<close>

text \<open>The errors a turn can record: each for a cause among what the turn met.\<close>

definition errno_errors :: "errno \<Rightarrow> kat_error set" where
  "errno_errors e =
     (if udp_error_is_temporary e then {} else if udp_error_is_network_lost e then {ERR_NETWORK_LOST} else {ERR_QUIC})"

definition send_errors :: "sys_result \<Rightarrow> datagram \<Rightarrow> kat_error set" where
  "send_errors r d =
     (if dg_data d = [] then errno_errors einval
      else case r of Failed e \<Rightarrow> errno_errors e | Sent n \<Rightarrow> if n = length (dg_data d) then {} else errno_errors eio)"

definition network_errors :: "nat \<Rightarrow> network_change_request \<Rightarrow> kat_error set" where
  "network_errors g request = (if nc_generation request \<le> g then {} else {ERR_NETWORK_LOST})"

definition event_errors :: "conn_event \<Rightarrow> kat_error set" where
  "event_errors e = (case e of Ev_path success \<Rightarrow> if success then {} else {ERR_NETWORK_LOST} | _ \<Rightarrow> {})"

definition call_errors :: "quic_call \<Rightarrow> kat_error set" where
  "call_errors c = (\<Union>e\<in>set (fst c). event_errors e)"

definition receive_errors :: "received \<Rightarrow> kat_error set" where
  "receive_errors r =
     (case r of Recv_failed e \<Rightarrow> errno_errors e | Recv_batch packets \<Rightarrow> \<Union>x\<in>set packets. call_errors (snd x))"

definition flush_errors :: "(nat \<Rightarrow> sys_result) \<Rightarrow> kat_error set" where
  "flush_errors answers = (\<Union>i. errno_errors (left_errno (answers i)))"

definition h3_errors :: "h3_turn list \<Rightarrow> kat_error set" where
  "h3_errors ts = (\<Union>t\<in>set ts. case ht_write t of Packet n d \<Rightarrow> send_errors (ht_send t) d | _ \<Rightarrow> {})"

definition packet_errors :: "conn_write list \<Rightarrow> kat_error set" where
  "packet_errors ps = (\<Union>p\<in>set ps. case p of Conn_packet d r \<Rightarrow> send_errors r d | _ \<Rightarrow> {})"

definition poll_errors :: "loop_turn \<Rightarrow> kat_error set" where
  "poll_errors t =
     (case lt_poll t of
        Poll_failed e \<Rightarrow> errno_errors e
      | Poll_events broken readable writable \<Rightarrow>
          (if broken then {ERR_NETWORK_LOST} else {}) \<union> (if readable then receive_errors (lt_received t) else {}) \<union>
          (if writable then flush_errors (lt_flush t) else {}))"

definition turn_errors :: "loop_config \<Rightarrow> nat \<Rightarrow> loop_turn \<Rightarrow> kat_error set" where
  "turn_errors cfg g t =
     network_errors g (lt_request t) \<union>
     (if tm_handshake (lc_timeouts cfg) \<noteq> 0 \<and> elapsed_ms (lt_now t) (lc_handshake_started cfg) (tm_handshake (lc_timeouts cfg))
      then {ERR_HANDSHAKE_TIMEOUT} else {}) \<union>
     poll_errors t \<union> network_errors g (lt_request2 t) \<union> call_errors (lt_expiry t) \<union>
     h3_errors (lt_h3 t) \<union> packet_errors (lt_packets t)"

definition net_from :: "nat \<Rightarrow> kat_error set \<Rightarrow> net_state \<Rightarrow> net_state \<Rightarrow> bool" where
  "net_from g E n n' \<longleftrightarrow>
     (g \<le> ns_applied_generation n \<longrightarrow>
        g \<le> ns_applied_generation n' \<and> ns_terminal_error n' \<in> insert (ns_terminal_error n) E)"

lemma net_from_refl [simp]: "net_from g E n n"
  by (simp add: net_from_def)

lemma net_from_trans: "net_from g E a b \<Longrightarrow> net_from g F b c \<Longrightarrow> net_from g (E \<union> F) a c"
  by (auto simp: net_from_def)

lemma net_from_mono: "net_from g E a b \<Longrightarrow> E \<subseteq> F \<Longrightarrow> net_from g F a b"
  by (auto simp: net_from_def)

definition errs :: "nat \<Rightarrow> kat_error set \<Rightarrow> piece \<Rightarrow> bool" where
  "errs g E f \<longleftrightarrow> (\<forall>s ok notes s'. f s = (ok, notes, s') \<longrightarrow> net_from g E (lp_net s) (lp_net s'))"

lemma errsD: "errs g E f \<Longrightarrow> f s = (ok, ns, s') \<Longrightarrow> net_from g E (lp_net s) (lp_net s')"
  by (simp add: errs_def)

lemma errsI: "(\<And>s ok notes s'. f s = (ok, notes, s') \<Longrightarrow> net_from g E (lp_net s) (lp_net s')) \<Longrightarrow> errs g E f"
  by (simp add: errs_def)

lemma errs_mono: "errs g E f \<Longrightarrow> E \<subseteq> F \<Longrightarrow> errs g F f"
  by (rule errsI) (rule net_from_mono [OF errsD])

lemma net_simps [simp]:
  "lp_net (put_jobs q s) = lp_net s" "lp_net (put_net n s) = n" "lp_net (put_socket k w s) = lp_net s"
  "lp_net (extend_windows i m s) = lp_net s" "lp_net (update_keep_alive p s) = lp_net s" "lp_net (wake s) = lp_net s"
  "lp_net (record_error e s) = (lp_net s)\<lparr>ns_terminal_error := e\<rparr>"
  "lp_net (socket_error x s) = snd (record_socket_error x (lp_net s))"
  "lp_net (s\<lparr>lp_credit := c\<rparr>) = lp_net s"
  by (simp_all add: lp_net_def put_jobs_def put_net_def put_socket_def extend_windows_def update_keep_alive_def
      record_error_def socket_error_def wake_def)

lemma record_error_net [simp]: "net_from g (insert e E) n (n\<lparr>ns_terminal_error := e\<rparr>)"
  by (simp add: net_from_def)

lemma socket_error_net: "errno_errors x \<subseteq> E \<Longrightarrow> net_from g E n (snd (record_socket_error x n))"
  by (auto simp: net_from_def record_socket_error_def errno_errors_def split: if_splits)

lemma andthen_errs: "errs g E f \<Longrightarrow> errs g F h \<Longrightarrow> errs g (E \<union> F) (andthen f h)"
proof (rule errsI)
  fix s ok ns s'
  assume f: "errs g E f" and h: "errs g F h" and out: "andthen f h s = (ok, ns, s')"
  obtain ok1 n1 s1 where 1: "f s = (ok1, n1, s1)" by (metis prod_cases3)
  obtain ok2 n2 s2 where 2: "h s1 = (ok2, n2, s2)" by (metis prod_cases3)
  show "net_from g (E \<union> F) (lp_net s) (lp_net s')"
    using out 1 2 errsD [OF f 1] net_from_trans [OF errsD [OF f 1] errsD [OF h 2]]
    by (cases ok1) (auto simp: andthen_def intro: net_from_mono)
qed

lemma silent_errs: "(\<And>s ok ns s'. f s = (ok, ns, s') \<Longrightarrow> lp_net s' = lp_net s) \<Longrightarrow> errs g E f"
  by (simp add: errs_def)

lemma in_order_errs: "(\<And>x. x \<in> set xs \<Longrightarrow> errs g (E x) (f x)) \<Longrightarrow> errs g (\<Union>x\<in>set xs. E x) (in_order f xs)"
proof (induction xs)
  case (Cons x xs)
  have "errs g (E x) (f x)" "errs g (\<Union>x\<in>set xs. E x) (in_order f xs)" using Cons by simp_all
  from andthen_errs [OF this] show ?case by simp
qed (simp add: errs_def quiet_def)

lemma if_ready_errs: "errs g E f \<Longrightarrow> errs g (if b then E else {}) (if_ready b f)"
  by (simp add: if_ready_def) (simp add: errs_def quiet_def)

lemma on_jobs_errs [simp]: "errs g E (on_jobs f)"
  by (rule silent_errs) (auto simp: on_jobs_def split: prod.splits)

lemma try_jobs_errs [simp]: "errs g E (try_jobs f)"
  by (rule silent_errs) (auto simp: try_jobs_def split: option.splits)

lemma failing_errs [simp]: "errs g E (\<lambda>s. (False, [], s))"
  by (rule silent_errs) simp

lemma quiet_errs: "(\<And>s. net_from g E (lp_net s) (lp_net (f s))) \<Longrightarrow> errs g E (quiet f)"
  by (simp add: errs_def quiet_def)

lemma threads_net [simp]: "lp_net (fold do_thread ops s) = lp_net s"
proof (induction ops arbitrary: s)
  case (Cons op ops)
  have "lp_net (do_thread op s) = lp_net s"
    by (cases op) (auto simp: Let_def split: prod.split option.split)
  then show ?case using Cons by simp
qed simp

lemma others_errs: "errs g E (other_threads ops)"
  unfolding other_threads_def by (rule quiet_errs) simp

lemma then_others_errs: "errs g E f \<Longrightarrow> errs g F h \<Longrightarrow> errs g (E \<union> F) (then_others t k f h)"
  using andthen_errs [of g E f "{} \<union> F"] andthen_errs [OF others_errs [of g "{}" "lt_among t k"], of F h]
  by (simp add: then_others_def)

lemma h3_callback_errs: "errs g {} (h3_callback e)"
proof (cases e)
  case (H3_data sid now data)
  have "errs g {} (andthen (try_jobs (recv_data_cb sid now data)) (quiet (extend_windows sid n)))" for n
    using andthen_errs [of g "{}" "try_jobs (recv_data_cb sid now data)" "{}"] quiet_errs by simp
  then show ?thesis by (simp add: H3_data errs_def)
qed (auto intro: quiet_errs others_errs)

lemma recv_stream_data_errs: "errs g {} (recv_stream_data sid events consumed)"
proof -
  have "errs g {} (in_order h3_callback events)"
    using in_order_errs [of events g "\<lambda>_. {}" h3_callback] h3_callback_errs by simp
  moreover have "errs g {} (\<lambda>s1. case consumed of
             None \<Rightarrow> (False, [], s1)
           | Some n \<Rightarrow> (True, [], extend_windows sid (recv_stream_credit sid n (lp_jobs s1)) s1))"
    by (rule silent_errs) (auto split: option.splits)
  ultimately have "errs g ({} \<union> {}) (andthen (in_order h3_callback events)
          (\<lambda>s1. case consumed of
             None \<Rightarrow> (False, [], s1)
           | Some n \<Rightarrow> (True, [], extend_windows sid (recv_stream_credit sid n (lp_jobs s1)) s1)))"
    by (rule andthen_errs)
  then show ?thesis by (auto simp: errs_def recv_stream_data_def)
qed

lemma conn_callback_errs: "errs g (event_errors e) (conn_callback e)"
proof (cases e)
  case (Ev_handshake codec_ok opens peer)
  have "errs g {} (handshake_event codec_ok opens peer)"
    by (rule silent_errs) (auto simp: handshake_event_def Let_def split: prod.splits)
  then show ?thesis by (simp add: Ev_handshake event_errors_def)
next
  case (Ev_stream sid events consumed)
  then show ?thesis using recv_stream_data_errs by (simp add: event_errors_def)
next
  case (Ev_closed sid)
  have "errs g {} (\<lambda>s. try_jobs (on_stream_close (find_job sid (lp_jobs s) \<noteq> None) sid) s)"
    by (rule silent_errs) (auto simp: try_jobs_def split: option.splits)
  then show ?thesis by (simp add: Ev_closed event_errors_def)
next
  case (Ev_path success)
  then show ?thesis
    by (auto simp: event_errors_def on_path_validation_def net_from_def intro!: quiet_errs)
qed (auto simp: event_errors_def intro: silent_errs others_errs)

lemma run_call_errs: "errs g (call_errors c) (run_call c)"
proof -
  have "errs g (\<Union>e\<in>set (fst c). event_errors e) (in_order conn_callback (fst c))"
    by (rule in_order_errs) (rule conn_callback_errs)
  moreover have "errs g {} (\<lambda>s. (snd c, [], s))" by (rule silent_errs) simp
  ultimately show ?thesis using andthen_errs by (fastforce simp: run_call_def call_errors_def)
qed

lemma receive_piece_errs: "errs g (receive_errors r) (receive_piece r)"
proof (cases r)
  case (Recv_failed e)
  then show ?thesis by (auto simp: errs_def receive_piece_def receive_errors_def intro: socket_error_net)
next
  case (Recv_batch packets)
  have "errs g (call_errors (snd x)) (read_packet x)" for x
    using run_call_errs by (simp add: read_packet_def quiet_errs)
  then show ?thesis by (simp add: Recv_batch receive_piece_def receive_errors_def in_order_errs)
qed

lemma flush_piece_errs: "errs g (flush_errors answers) (flush_piece answers)"
proof -
  have "errno_errors (left_errno (answers i)) \<subseteq> flush_errors answers" for i by (auto simp: flush_errors_def)
  then show ?thesis
    by (auto simp: errs_def flush_piece_def Let_def intro!: socket_error_net split: prod.splits)
qed

lemma network_piece_errs: "errs g (network_errors g request) (network_piece cfg request m)"
  by (auto simp: errs_def network_piece_def network_errors_def net_from_def process_network_change_def
      network_change_action_def Let_def split: if_splits)

lemma handshake_piece_errs:
  "errs g (if tm_handshake (lc_timeouts cfg) \<noteq> 0 \<and> elapsed_ms now (lc_handshake_started cfg) (tm_handshake (lc_timeouts cfg))
           then {ERR_HANDSHAKE_TIMEOUT} else {}) (handshake_piece cfg now)"
  by (auto simp: errs_def handshake_piece_def)

lemma send_failed:
  assumes "send r d s = (Failed e, s', w)"
  shows "dg_data d = [] \<and> e = einval \<or> e = ENOBUFS \<or>
    dg_data d \<noteq> [] \<and> (r = Failed e \<or> (\<exists>n. r = Sent n \<and> n \<noteq> length (dg_data d) \<and> e = eio))"
proof (cases r)
  case (Sent n)
  then show ?thesis
    using assms by (cases "us_open s") (auto simp: send_def syscall_def would_block_def Let_def split: if_splits)
next
  case (Failed x)
  then show ?thesis using assms by (auto simp: send_def syscall_def Let_def split: if_splits)
qed

lemma hand_over_net:
  assumes "hand_over r d w = (ok, w')"
  shows "net_from g (send_errors r d) (ws_net w) (ws_net w')"
proof -
  obtain res sock wire where out: "send r d (ws_socket w) = (res, sock, wire)" by (metis prod_cases3)
  have "errno_errors e \<subseteq> send_errors r d" if "res = Failed e" for e
    using send_failed [of r d "ws_socket w" e sock wire, OF out [unfolded that]]
    by (elim disjE conjE exE) (simp_all add: send_errors_def errno_errors_def udp_error_is_temporary_def)
  then show ?thesis
    using assms out by (auto simp: hand_over_def intro!: socket_error_net split: sys_result.splits)
qed

lemma send_errors_data: "send_errors r \<lparr>dg_data = dg_data d, dg_ecn = k\<rparr> = send_errors r d"
  by (simp add: send_errors_def split: sys_result.split)

lemma send_packet_net: "net_from g (send_errors r d) (ws_net w) (ws_net (send_packet r (dg_data d) w))"
proof -
  obtain ok w' where "hand_over r \<lparr>dg_data = dg_data d, dg_ecn = 0\<rparr> w = (ok, w')" by fastforce
  from hand_over_net [OF this, of g] this show ?thesis by (simp add: send_packet_def send_errors_data)
qed

lemma silent_net [simp]:
  "ws_net (read_bodies is w) = ws_net w" "ws_net (stream_progress now i n w) = ws_net w" "ws_net (add_write_offset i n w) = ws_net w"
  by (simp_all add: read_bodies_def stream_progress_def add_write_offset_def split: option.split nat.split)

lemma pump_write_net: "net_from g (h3_errors ts) (ws_net w) (ws_net (pump_write now ts w))"
proof (induction ts arbitrary: w)
  case (Cons t ts)
  have told: "net_from g (h3_errors (t # ts)) (ws_net w) (ws_net (pump_write now ts u))" if "ws_net u = ws_net w" for u
    using Cons [of u] that by (auto simp: h3_errors_def intro: net_from_mono)
  show ?case
  proof (cases "ht_write t")
    case (Packet n d)
    define x where "x = (read_bodies (ht_reads t) w)\<lparr>ws_produced := ws_produced (read_bodies (ht_reads t) w) @ (if dg_data d = [] then [] else [d])\<rparr>"
    define u where "u = stream_progress now (ht_stream t) n (add_write_offset (ht_stream t) n x)"
    define v where "v = send_packet (ht_send t) (dg_data d) u"
    have pump: "pump_write now (t # ts) w =
        (if ht_vectors t < 0 then read_bodies (ht_reads t) w else if ht_vectors t = 0 \<and> ht_stream t = -1 then read_bodies (ht_reads t) w
         else if n \<noteq> None \<and> \<not> ht_offset_ok t then x else if dg_data d = [] then u
         else if ws_exhausted v then v else pump_write now ts v)"
      using Packet by (simp only: pump_write.simps stream_write.case Let_def x_def u_def v_def)
    have x: "ws_net x = ws_net w" and u: "ws_net u = ws_net w" by (simp_all add: x_def u_def)
    have 1: "net_from g (send_errors (ht_send t) d) (ws_net w) (ws_net v)" using send_packet_net [of g "ht_send t" d u] u by (simp add: v_def)
    have "net_from g (h3_errors (t # ts)) (ws_net w) (ws_net (pump_write now ts v))"
      using net_from_trans [OF 1 Cons [of v]] Packet by (simp add: h3_errors_def)
    moreover have "net_from g (h3_errors (t # ts)) (ws_net w) (ws_net v)"
      using 1 Packet by (auto simp: h3_errors_def intro: net_from_mono)
    ultimately show ?thesis unfolding pump using x u by simp
  next
    case (Write_more n)
    then show ?thesis using told [of "add_write_offset (ht_stream t) n (read_bodies (ht_reads t) w)"] by (simp add: Let_def)
  next
    case Stream_blocked
    then show ?thesis
      using told [of "(read_bodies (ht_reads t) w)\<lparr>ws_blocked := ht_stream t # ws_blocked (read_bodies (ht_reads t) w)\<rparr>"]
      by (simp add: Let_def)
  next
    case Stream_shut
    then show ?thesis
      using told [of "(read_bodies (ht_reads t) w)\<lparr>ws_shut := ht_stream t # ws_shut (read_bodies (ht_reads t) w)\<rparr>"]
      by (simp add: Let_def)
  qed (simp add: Let_def)
qed simp

lemma write_packets_net: "net_from g (packet_errors ps) (ws_net w) (ws_net (snd (write_packets ps w)))"
proof (induction ps w rule: write_packets.induct)
  case (5 d r ps w)
  obtain ok w1 where out: "hand_over r d (w\<lparr>ws_produced := ws_produced w @ [d]\<rparr>) = (ok, w1)" by fastforce
  have 1: "net_from g (send_errors r d) (ws_net w) (ws_net w1)" using hand_over_net [OF out, of g] by simp
  then have stop: "net_from g (packet_errors (Conn_packet d r # ps)) (ws_net w) (ws_net w1)"
    by (auto simp: packet_errors_def intro: net_from_mono)
  show ?case
  proof (cases "ok \<and> \<not> ws_exhausted w1")
    case True
    then have "net_from g (packet_errors ps) (ws_net w1) (ws_net (snd (write_packets ps w1)))" using 5 [OF out [symmetric]] by simp
    from net_from_trans [OF 1 this] show ?thesis using out True by (simp add: packet_errors_def)
  next
    case False
    then show ?thesis using out stop by (cases ok) auto
  qed
qed (simp_all add: packet_errors_def)

lemma write_pending_state:
  "snd (write_pending now quantum ready turns packets w) =
     (let p = pump_turn now quantum ready turns w in if ws_exhausted p then p else snd (write_packets packets p))"
  by (simp add: write_pending_def Let_def split: prod.split)

lemma write_piece_errs: "errs g (h3_errors (lt_h3 t) \<union> packet_errors (lt_packets t)) (write_piece t)"
proof (rule errsI)
  fix s ok ns s'
  assume out: "write_piece t s = (ok, ns, s')"
  let ?w = "lp_write s"
  let ?p = "pump_turn (lt_write_now t) (lt_quantum t) (qj_session (lp_jobs s) \<and> qj_codec (lp_jobs s)) (lt_h3 t) ?w"
  have 1: "net_from g (h3_errors (lt_h3 t)) (ws_net ?w) (ws_net ?p)"
    using pump_write_net [of g "lt_h3 t" "?w\<lparr>ws_quantum := begin_send_quantum (lt_quantum t)\<rparr>" "lt_write_now t"]
    by (auto simp: pump_turn_def Let_def intro: net_from_mono)
  have 2: "net_from g (packet_errors (lt_packets t)) (ws_net ?p) (ws_net (snd (write_packets (lt_packets t) ?p)))"
    by (rule write_packets_net)
  show "net_from g (h3_errors (lt_h3 t) \<union> packet_errors (lt_packets t)) (lp_net s) (lp_net s')"
    using out net_from_trans [OF 1 2] net_from_mono [OF 1, of "h3_errors (lt_h3 t) \<union> packet_errors (lt_packets t)"]
    by (simp add: write_piece_def lp_net_def write_pending_state Let_def split: if_splits) auto
qed

lemma wakeup_piece_errs: "errs g (network_errors g (lt_request2 t)) (wakeup_piece cfg t)"
proof -
  have "errs g {} (quiet process_wakeup)"
    by (rule quiet_errs) (simp add: process_wakeup_def lp_net_def put_jobs_def split: prod.split)
  from then_others_errs [OF this network_piece_errs] show ?thesis by (simp add: wakeup_piece_def)
qed

lemma expire_piece_errs: "errs g {} (expire_piece cfg now)"
  by (rule silent_errs) (auto simp: expire_piece_def split: prod.splits)

lemma silent_then_errs: "errs g {} f \<Longrightarrow> errs g E h \<Longrightarrow> errs g E (then_others t k f h)"
  using then_others_errs [of g "{}" f E h] by simp

lemma keep_alive_errs: "errs g {} (quiet (update_keep_alive peer))"
  by (rule quiet_errs) simp

lemma io_piece_errs:
  "errs g ((if readable then receive_errors (lt_received t) else {}) \<union> ((if writable then flush_errors (lt_flush t) else {}) \<union>
     ((if woken then network_errors g (lt_request2 t) else {}) \<union> (call_errors (lt_expiry t) \<union>
     (h3_errors (lt_h3 t) \<union> packet_errors (lt_packets t)))))) (io_piece cfg t readable writable woken)"
  unfolding io_piece_def
  by (intro then_others_errs if_ready_errs receive_piece_errs flush_piece_errs wakeup_piece_errs run_call_errs
      silent_then_errs [OF expire_piece_errs] silent_then_errs [OF on_jobs_errs] silent_then_errs [OF keep_alive_errs]
      write_piece_errs)

lemma poll_piece_errs:
  "errs g (poll_errors t \<union> network_errors g (lt_request2 t) \<union> call_errors (lt_expiry t) \<union>
     h3_errors (lt_h3 t) \<union> packet_errors (lt_packets t)) (poll_piece cfg t)"
proof (cases "lt_poll t")
  case (Poll_failed e)
  then show ?thesis
    by (auto simp: errs_def poll_piece_def poll_errors_def intro: socket_error_net)
next
  case (Poll_events broken readable writable)
  have "errs g (poll_errors t \<union> network_errors g (lt_request2 t) \<union> call_errors (lt_expiry t) \<union>
     h3_errors (lt_h3 t) \<union> packet_errors (lt_packets t)) (io_piece cfg t readable writable woken)" if "\<not> broken" for woken
    by (rule errs_mono [OF io_piece_errs]) (use Poll_events in \<open>auto simp: poll_errors_def\<close>)
  then show ?thesis using Poll_events by (auto simp: errs_def poll_piece_def poll_errors_def)
qed

lemma turn_piece_errs: "errs g (turn_errors cfg g t) (turn_piece cfg t)"
  unfolding turn_piece_def
  by (rule errs_mono [OF then_others_errs [OF network_piece_errs then_others_errs [OF handshake_piece_errs poll_piece_errs]]])
     (auto simp: turn_errors_def)

lemma event_loop_errors:
  "event_loop cfg ts s = (code, ns, s') \<Longrightarrow> net_from g (\<Union>t\<in>set ts. turn_errors cfg g t) (lp_net s) (lp_net s')"
proof (induction ts arbitrary: s code ns s')
  case (Cons t ts)
  let ?s0 = "fold do_thread (lt_threads t) s"
  obtain ok n1 s1 where out: "turn_piece cfg t ?s0 = (ok, n1, s1)" by (metis prod_cases3)
  obtain c2 n2 s2 where loop: "event_loop cfg ts s1 = (c2, n2, s2)" by (metis prod_cases3)
  have 1: "net_from g (turn_errors cfg g t) (lp_net s) (lp_net s1)" using errsD [OF turn_piece_errs out] by simp
  then have "net_from g (\<Union>t\<in>set (t # ts). turn_errors cfg g t) (lp_net s) (lp_net s1)" by (auto intro: net_from_mono)
  moreover have "net_from g (\<Union>t\<in>set (t # ts). turn_errors cfg g t) (lp_net s) (lp_net s2)"
    using net_from_trans [OF 1 Cons.IH [OF loop]] by simp
  ultimately show ?case using Cons.prems out loop by (auto simp: Let_def split: if_splits bool.splits)
qed simp

lemma known_errors:
  "errno_errors e \<subseteq> {ERR_NETWORK_LOST, ERR_QUIC}" "send_errors r d \<subseteq> {ERR_NETWORK_LOST, ERR_QUIC}"
  "network_errors g request \<subseteq> {ERR_NETWORK_LOST}" "call_errors c \<subseteq> {ERR_NETWORK_LOST}"
proof -
  show e: "errno_errors e \<subseteq> {ERR_NETWORK_LOST, ERR_QUIC}" for e by (simp add: errno_errors_def)
  then show "send_errors r d \<subseteq> {ERR_NETWORK_LOST, ERR_QUIC}" by (simp add: send_errors_def split: sys_result.split)
  show "network_errors g request \<subseteq> {ERR_NETWORK_LOST}" by (simp add: network_errors_def)
  have "event_errors x \<subseteq> {ERR_NETWORK_LOST}" for x by (simp add: event_errors_def split: conn_event.split)
  then show "call_errors c \<subseteq> {ERR_NETWORK_LOST}" unfolding call_errors_def by blast
qed

lemma turn_errors_known: "turn_errors cfg g t \<subseteq> {ERR_NETWORK_LOST, ERR_HANDSHAKE_TIMEOUT, ERR_QUIC}"
proof -
  let ?E = "{ERR_NETWORK_LOST, ERR_HANDSHAKE_TIMEOUT, ERR_QUIC}"
  have s: "send_errors r d \<subseteq> ?E" and n: "network_errors g q \<subseteq> ?E" and c: "call_errors k \<subseteq> ?E" and e: "errno_errors x \<subseteq> ?E" for r d q k x
    using known_errors by blast+
  have "receive_errors r \<subseteq> ?E" for r
    unfolding receive_errors_def using c e by (simp add: UN_least split: received.split)
  moreover have "flush_errors k \<subseteq> ?E" for k using e by (auto simp: flush_errors_def)
  ultimately have "poll_errors t \<subseteq> ?E" using e by (cases "lt_poll t") (simp_all add: poll_errors_def)
  moreover have "h3_errors ts \<subseteq> ?E" for ts
    unfolding h3_errors_def using s by (intro UN_least) (simp split: stream_write.split)
  moreover have "packet_errors ps \<subseteq> ?E" for ps
    unfolding packet_errors_def using s by (intro UN_least) (simp split: conn_write.split)
  ultimately show ?thesis unfolding turn_errors_def using n c by simp
qed

text \<open>The last turn: the loop leaves with 0 only when it is stopped or the connection is closing.\<close>

lemma event_loop_code:
  "event_loop cfg ts s = (code, ns, s') \<Longrightarrow>
     code \<in> {None, Some 0, Some (-1)} \<and>
     (code = Some 0 \<longrightarrow> (\<exists>t\<in>set ts. lt_stop t \<or> lt_closing t) \<or> qj_stop (lp_jobs s'))"
proof (induction ts arbitrary: s code ns s')
  case (Cons t ts)
  let ?s0 = "fold do_thread (lt_threads t) s"
  obtain ok n1 s1 where out: "turn_piece cfg t ?s0 = (ok, n1, s1)" by (metis prod_cases3)
  obtain c2 n2 s2 where loop: "event_loop cfg ts s1 = (c2, n2, s2)" by (metis prod_cases3)
  show ?case
    using Cons.prems Cons.IH [OF loop] out loop by (auto simp: Let_def split: if_splits bool.splits)
qed simp

text \<open>Property C21 (error): How the event loop ends.  It returns 0 only if it was stopped or the connection is closing.  The
  error the jobs are failed with afterwards is the one recorded before or has its cause in a turn of the loop: the lost
  network in a request for another network, a failed path validation, a broken descriptor or an errno that says so; the
  handshake timeout in a turn past the deadline; a QUIC error in a socket call the kernel refused for good.  Temporary
  socket errors record nothing, and the error never becomes success.\<close>

theorem event_loop_error_has_cause:
  assumes "event_loop cfg turns s = (code, ns, s')"
  shows "code \<in> {None, Some 0, Some (-1)} \<and>
    (code = Some 0 \<longrightarrow> (\<exists>t\<in>set turns. lt_stop t \<or> lt_closing t) \<or> qj_stop (lp_jobs s')) \<and>
    (let error = ns_terminal_error (lp_net s') in
       error = ns_terminal_error (lp_net s) \<or>
       error \<noteq> KAT_OK \<and> (\<exists>t\<in>set turns. error \<in> turn_errors cfg (ns_applied_generation (lp_net s)) t))"
proof -
  have "ns_terminal_error (lp_net s') \<in> insert (ns_terminal_error (lp_net s))
      (\<Union>t\<in>set turns. turn_errors cfg (ns_applied_generation (lp_net s)) t)"
    using event_loop_errors [OF assms, of "ns_applied_generation (lp_net s)"] by (simp add: net_from_def)
  moreover have "KAT_OK \<notin> turn_errors cfg g t" for g t using turn_errors_known [of cfg g t] by auto
  ultimately show ?thesis using event_loop_code [OF assms] by (auto simp: Let_def)
qed

subsection \<open>A run of the loop\<close>

definition quiet_loop_turn :: loop_turn where
  "quiet_loop_turn = \<lparr>lt_threads = [], lt_among = (\<lambda>_. []), lt_stop = False, lt_request = \<lparr>nc_generation = 0, nc_network = 0\<rparr>,
     lt_migration = \<lparr>mg_opened = True, mg_connected = True, mg_addresses = True, mg_local_changed = False, mg_accepted = True\<rparr>,
     lt_now = 10, lt_poll = Poll_events False False False, lt_received = Recv_batch [], lt_flush = (\<lambda>_. Failed EAGAIN),
     lt_request2 = \<lparr>nc_generation = 0, nc_network = 0\<rparr>,
     lt_migration2 = \<lparr>mg_opened = True, mg_connected = True, mg_addresses = True, mg_local_changed = False, mg_accepted = True\<rparr>,
     lt_expiry = ([], True), lt_now2 = 11, lt_opens = (\<lambda>n. Open_ok (4 * int n) True), lt_peer_idle = None, lt_write_now = 12,
     lt_quantum = 0, lt_h3 = [], lt_packets = [], lt_closing = False\<rparr>"

definition demo_loop :: loop_state where
  "demo_loop = \<lparr>lp_write = demo_turn, lp_credit = new_credit_channel, lp_extended = [], lp_keep_alive = 0, lp_reset = [], lp_resumed = []\<rparr>"

definition demo_config :: loop_config where
  "demo_config = \<lparr>lc_timeouts = \<lparr>tm_connect = 0, tm_request = 0, tm_idle = 0, tm_dns = 0, tm_handshake = 0,
     tm_response_headers = 0, tm_read = 0, tm_write = 0, tm_call = 1000, tm_consumer_stall = 1000\<rparr>,
     lc_attempt_migration = True, lc_has_peer = True, lc_handshake_started = 0\<rparr>"

text \<open>A job is submitted, then the descriptor breaks.\<close>

definition demo_loop_turns :: "loop_turn list" where
  "demo_loop_turns = [quiet_loop_turn\<lparr>lt_threads := [Th_submit 5 (new_job 7 (new_request ''GET'' ''u'') empty_url)]\<rparr>,
     quiet_loop_turn\<lparr>lt_poll := Poll_events True False False\<rparr>]"

lemma demo_loop_run:
  "case event_loop demo_config demo_loop_turns demo_loop of
     (code, notes, s') \<Rightarrow> code = Some (-1) \<and> ns_terminal_error (lp_net s') = ERR_NETWORK_LOST"
  by code_simp

theorem event_loop_error_has_cause_witness:
  "\<exists>t\<in>set demo_loop_turns. ERR_NETWORK_LOST \<in> turn_errors demo_config 0 t"
proof -
  obtain code ns s' where out: "event_loop demo_config demo_loop_turns demo_loop = (code, ns, s')" by (metis prod_cases3)
  have "ns_terminal_error (lp_net s') = ERR_NETWORK_LOST" using demo_loop_run out by simp
  moreover have "ns_terminal_error (lp_net demo_loop) = KAT_OK" "ns_applied_generation (lp_net demo_loop) = 0"
    by (simp_all add: lp_net_def demo_loop_def demo_turn_def)
  ultimately show ?thesis using event_loop_error_has_cause [OF out] by (simp add: Let_def)
qed

theorem event_loop_refines_connection_witness:
  "\<exists>code ns s'. event_loop demo_config demo_loop_turns demo_loop = (code, ns, s') \<and>
     reachable quic_start quic_trans (lp_jobs s', True) \<and> code = Some (-1)"
proof -
  obtain code ns s' where out: "event_loop demo_config demo_loop_turns demo_loop = (code, ns, s')" by (metis prod_cases3)
  have "reachable quic_start quic_trans (lp_jobs demo_loop, True)"
    by (rule reachable_start) (simp add: quic_start_def lp_jobs_def demo_loop_def demo_turn_def)
  moreover have "reachable credit_start credit_trans (lp_credit demo_loop)" "\<not> cc_drained (lp_credit demo_loop)"
    by (rule reachable_start) (simp_all add: credit_start_def demo_loop_def new_credit_channel_def)
  ultimately show ?thesis using event_loop_refines_connection [OF out] demo_loop_run out by simp
qed

text \<open>The bytes of HTTP/3 framing (frame and field section bytes, which nghttp3 consumes itself) are credited at once for a
  buffered response only: for a streaming one they are credited neither here nor by \<^verbatim>\<open>consume\<close>, which knows the
  delivered body bytes only, so every streaming response shrinks the connection's window for good.\<close>

lemma streaming_framing_is_not_credited:
  assumes "find_job sid (lp_jobs s) = Some p" "deref p (lp_jobs s) = Some j" "jb_streaming j"
    "qj_session (lp_jobs s)" "qj_codec (lp_jobs s)"
  shows "recv_stream_data sid [] (Some n) s = (True, [], s)"
  using assms by (simp add: recv_stream_data_def andthen_def quiet_def recv_stream_credit_def extend_windows_def)

end
