(* ===== verification/Quic_Callbacks.thy ===== *)
theory Quic_Callbacks
  imports Quic_Loop
begin

text \<open>
  The tables of callbacks a connection gives ngtcp2 (\<^verbatim>\<open>kCallbacks\<close> and \<^verbatim>\<open>kCandidateCallbacks\<close> of
  \<^verbatim>\<open>src/core/quic_client.cc\<close>).  A connection that was set up alone uses the first table, whose functions call
  the client; one that won the handshake race keeps the second for its life, whose functions work on the
  candidate first.  Here the two are compared on an adopted candidate.
\<close>

subsection \<open>The callbacks\<close>

text \<open>\<open>Cb_acked\<close> carries the session's answer, \<open>Cb_new_id\<close> whether the id and its token could be made.
  \<open>Cb_note\<close> are the callbacks that return 0 in both tables: opened streams, stateless resets, datagrams, retired ids,
  version negotiation and the begin of a path validation.\<close>

datatype quic_callback =
    Cb_crypto bool
  | Cb_completed bool "nat \<Rightarrow> open_result" "nat option"
  | Cb_rx_key bool nat bool "nat \<Rightarrow> open_result" "nat option"
  | Cb_confirmed "nat \<Rightarrow> open_result"
  | Cb_stream nat int nat "bytes option" nat "h3_event list" "nat option"
  | Cb_acked int nat bool
  | Cb_closed int
  | Cb_reset int
  | Cb_stop_sending int
  | Cb_more_data int
  | Cb_more_streams "nat \<Rightarrow> open_result"
  | Cb_path bool
  | Cb_early_rejected
  | Cb_new_id bool
  | Cb_new_token bytes
  | Cb_note

text \<open>What the client does with each, as the event of its loop.\<close>

fun client_event :: "quic_callback \<Rightarrow> conn_event" where
  "client_event (Cb_crypto ok) = Ev_other ok"
| "client_event (Cb_completed codec opens peer) = Ev_handshake codec opens peer"
| "client_event (Cb_rx_key one_rtt now codec opens peer) =
     (if one_rtt then Ev_handshake codec opens peer else Ev_other True)"
| "client_event (Cb_confirmed opens) = Ev_confirmed opens"
| "client_event (Cb_stream flags sid off data len events consumed) = Ev_stream sid events consumed"
| "client_event (Cb_acked sid n ok) = Ev_other ok"
| "client_event (Cb_closed sid) = Ev_closed sid"
| "client_event (Cb_reset sid) = Ev_other True"
| "client_event (Cb_stop_sending sid) = Ev_other True"
| "client_event (Cb_more_data sid) = Ev_other True"
| "client_event (Cb_more_streams opens) = Ev_more_streams opens"
| "client_event (Cb_path success) = Ev_path success"
| "client_event Cb_early_rejected = Ev_early_rejected"
| "client_event (Cb_new_id ok) = Ev_other ok"
| "client_event (Cb_new_token token) = Ev_other True"
| "client_event Cb_note = Ev_other True"

definition own_callback :: "quic_callback \<Rightarrow> piece" where
  "own_callback cb = conn_callback (client_event cb)"

text \<open>The candidate's table: what ngtcp2 is told, the notes, the candidate and the client.\<close>

definition on_candidate :: "(candidate \<Rightarrow> candidate) \<Rightarrow> candidate \<times> loop_state \<Rightarrow> bool \<times> job_note list \<times> candidate \<times> loop_state" where
  "on_candidate f cs = (True, [], f (fst cs), snd cs)"

definition to_owner :: "quic_callback \<Rightarrow> candidate \<times> loop_state \<Rightarrow> bool \<times> job_note list \<times> candidate \<times> loop_state" where
  "to_owner cb cs = (case own_callback cb (snd cs) of (ok, notes, s) \<Rightarrow> (ok, notes, fst cs, s))"

fun candidate_callback :: "quic_callback \<Rightarrow> candidate \<times> loop_state \<Rightarrow> bool \<times> job_note list \<times> candidate \<times> loop_state" where
  "candidate_callback (Cb_crypto ok) cs = (ok, [], if ok then fst cs else candidate_fail (fst cs), snd cs)"
| "candidate_callback (Cb_completed codec opens peer) cs = on_candidate candidate_handshake_completed cs"
| "candidate_callback (Cb_rx_key one_rtt now codec opens peer) cs = on_candidate (candidate_recv_rx_key one_rtt now) cs"
| "candidate_callback (Cb_confirmed opens) cs = on_candidate candidate_handshake_confirmed cs"
| "candidate_callback (Cb_stream flags sid off data len events consumed) cs =
     (if cd_abandoned (fst cs) then (True, [], cs)
      else if cd_adopted (fst cs) then to_owner (Cb_stream flags sid off data len events consumed) cs
      else case candidate_recv_stream_data True flags sid off data len (fst cs) of
             (ok, c) \<Rightarrow> (ok, [], c, snd cs))"
| "candidate_callback (Cb_path success) cs = (True, [], cs)"
| "candidate_callback cb cs = to_owner cb cs"

text \<open>The family under which a token for new connections is cached.\<close>

definition own_token_family :: "int \<Rightarrow> int" where
  "own_token_family peer_family = peer_family"

definition candidate_token_family :: "candidate \<Rightarrow> int" where
  "candidate_token_family c = ep_family (cd_endpoint c)"

subsection \<open>After adoption\<close>

text \<open>What the loop of a connection that won the race sees of its callbacks: the handshake's progress and the outcome of
  path validations are answered by the candidate and never reach it.\<close>

fun swallow :: "conn_event \<Rightarrow> conn_event" where
  "swallow (Ev_handshake codec opens peer) = Ev_other True"
| "swallow (Ev_confirmed opens) = Ev_other True"
| "swallow (Ev_path success) = Ev_other True"
| "swallow e = e"

lemma adopted_callback:
  assumes "cd_adopted c" "\<not> cd_abandoned c" "candidate_callback cb (c, s) = (ok, ns, c', s')"
  shows "conn_callback (swallow (client_event cb)) s = (ok, ns, s') \<and>
    cd_adopted c' \<and> \<not> cd_abandoned c' \<and> cd_endpoint c' = cd_endpoint c"
  using assms
  by (cases cb)
     (auto simp: on_candidate_def to_owner_def own_callback_def candidate_fail_def candidate_handshake_completed_def
       candidate_handshake_confirmed_def candidate_recv_rx_key_def split: prod.splits if_splits)

text \<open>A sequence of callbacks, the first failing one being the last.\<close>

fun candidate_callbacks :: "quic_callback list \<Rightarrow> candidate \<times> loop_state \<Rightarrow> bool \<times> job_note list \<times> candidate \<times> loop_state" where
  "candidate_callbacks [] cs = (True, [], cs)"
| "candidate_callbacks (cb # cbs) cs =
     (case candidate_callback cb cs of
        (False, notes, cs1) \<Rightarrow> (False, notes, cs1)
      | (True, notes, cs1) \<Rightarrow> (case candidate_callbacks cbs cs1 of (ok, told, cs2) \<Rightarrow> (ok, notes @ told, cs2)))"

text \<open>On a winner they are the client's own callbacks, with those swallowed: the same answers, notes and client.\<close>

lemma adopted_callbacks:
  assumes "cd_adopted c" "\<not> cd_abandoned c" "candidate_callbacks cbs (c, s) = (ok, ns, c', s')"
  shows "in_order conn_callback (map (swallow \<circ> client_event) cbs) s = (ok, ns, s')"
  using assms
proof (induction cbs arbitrary: c s ok ns c' s')
  case (Cons cb cbs)
  obtain ok1 n1 c1 s1 where one: "candidate_callback cb (c, s) = (ok1, n1, c1, s1)" by (metis prod_cases4)
  note step = adopted_callback [OF Cons.prems(1,2) one]
  obtain ok2 n2 c2 s2 where rest: "candidate_callbacks cbs (c1, s1) = (ok2, n2, c2, s2)" by (metis prod_cases4)
  have "in_order conn_callback (map (swallow \<circ> client_event) cbs) s1 = (ok2, n2, s2)"
    using Cons.IH [OF _ _ rest] step by (simp add: comp_def)
  then show ?case
    using Cons.prems(3) one rest step by (cases ok1) (auto simp: andthen_def comp_def)
qed (simp add: quiet_def)

text \<open>Its tokens are cached under the family of its own endpoint, which is the peer's once adopted.\<close>

lemma adopted_token_family:
  "peer = cd_endpoint c \<Longrightarrow> candidate_token_family c = own_token_family (ep_family peer)"
  by (simp add: candidate_token_family_def own_token_family_def)

subsection \<open>A late confirmation\<close>

text \<open>The turns of a raced connection.\<close>

definition raced_call :: "quic_call \<Rightarrow> quic_call" where
  "raced_call call = (map swallow (fst call), snd call)"

definition raced_turn :: "loop_turn \<Rightarrow> loop_turn" where
  "raced_turn t =
     t\<lparr>lt_received := (case lt_received t of
          Recv_failed e \<Rightarrow> Recv_failed e
        | Recv_batch packets \<Rightarrow> Recv_batch (map (\<lambda>(d, call). (d, raced_call call)) packets)),
       lt_expiry := raced_call (lt_expiry t)\<rparr>"

text \<open>A piece that leaves the confirmation of the handshake as it is.\<close>

definition keeps :: "piece \<Rightarrow> bool" where
  "keeps f \<longleftrightarrow> (\<forall>s ok ns s'. f s = (ok, ns, s') \<longrightarrow> qj_confirmed (lp_jobs s') = qj_confirmed (lp_jobs s))"

lemma keepsI: "(\<And>s ok ns s'. f s = (ok, ns, s') \<Longrightarrow> qj_confirmed (lp_jobs s') = qj_confirmed (lp_jobs s)) \<Longrightarrow> keeps f"
  by (simp add: keeps_def)

lemma keepsD: "keeps f \<Longrightarrow> f s = (ok, ns, s') \<Longrightarrow> qj_confirmed (lp_jobs s') = qj_confirmed (lp_jobs s)"
  by (simp add: keeps_def)

named_theorems keeping

lemma andthen_keeps [keeping]:
  assumes "keeps f" "keeps g"
  shows "keeps (andthen f g)"
proof (rule keepsI)
  fix s ok ns s'
  assume out: "andthen f g s = (ok, ns, s')"
  obtain ok1 n1 s1 where f: "f s = (ok1, n1, s1)" by (metis prod_cases3)
  obtain ok2 n2 s2 where g: "g s1 = (ok2, n2, s2)" by (metis prod_cases3)
  show "qj_confirmed (lp_jobs s') = qj_confirmed (lp_jobs s)"
    using out f g keepsD [OF assms(1) f] keepsD [OF assms(2) g] by (cases ok1) (simp_all add: andthen_def)
qed

lemma quiet_keeps [keeping]: "(\<And>s. qj_confirmed (lp_jobs (f s)) = qj_confirmed (lp_jobs s)) \<Longrightarrow> keeps (quiet f)"
  by (rule keepsI) (auto simp: quiet_def)

lemma in_order_keeps [keeping]: "(\<And>x. x \<in> set xs \<Longrightarrow> keeps (f x)) \<Longrightarrow> keeps (in_order f xs)"
  by (induction xs) (auto intro: andthen_keeps quiet_keeps)

lemma if_ready_keeps [keeping]: "keeps f \<Longrightarrow> keeps (if_ready b f)"
  by (simp add: if_ready_def quiet_keeps)

lemma on_jobs_keeps [keeping]:
  "(\<And>q ns q'. f q = (ns, q') \<Longrightarrow> qj_confirmed q' = qj_confirmed q) \<Longrightarrow> keeps (on_jobs f)"
  by (rule keepsI) (auto simp: on_jobs_def split: prod.splits)

lemma try_jobs_keeps [keeping]:
  "(\<And>q ns q'. f q = Some (ns, q') \<Longrightarrow> qj_confirmed q' = qj_confirmed q) \<Longrightarrow> keeps (try_jobs f)"
  by (rule keepsI) (auto simp: try_jobs_def split: option.splits)

lemma told_keeps: "keeps (\<lambda>s. (ok, ns, s))"
  by (rule keepsI) simp

lemma try_submit_confirmed: "try_submit_pending env q = (ns, q') \<Longrightarrow> qj_confirmed q' = qj_confirmed q"
  by (auto simp: try_submit_pending_def Let_def split: prod.splits if_splits dest: submit_loop_keeps)

lemma on_stream_confirmed: "on_stream sid f q = Some (ns, q') \<Longrightarrow> qj_confirmed q' = qj_confirmed q"
  by (auto simp: on_stream_def split: option.splits)

lemma stream_cb_keeps: "keeps (try_jobs (on_stream sid f))"
  by (rule try_jobs_keeps) (rule on_stream_confirmed)

lemmas stream_cb_defs = begin_headers_cb_def recv_header_cb_def end_headers_cb_def end_stream_cb_def recv_data_cb_def

lemma thread_confirmed: "qj_confirmed (lp_jobs (do_thread op s)) = qj_confirmed (lp_jobs s)"
  by (cases op)
     (auto simp: submit_job_def cancel_job_def append_request_body_def consume_def Let_def
       split: option.splits prod.splits list.splits if_splits)

lemma threads_confirmed: "qj_confirmed (lp_jobs (fold do_thread ops s)) = qj_confirmed (lp_jobs s)"
  by (induction ops arbitrary: s) (simp_all add: thread_confirmed)

lemma others_keeps: "keeps (other_threads ops)"
  unfolding other_threads_def by (rule quiet_keeps) (rule threads_confirmed)

lemma then_others_keeps [keeping]: "keeps f \<Longrightarrow> keeps g \<Longrightarrow> keeps (then_others t k f g)"
  unfolding then_others_def by (intro andthen_keeps others_keeps)

lemma h3_callback_keeps: "keeps (h3_callback e)"
proof (cases e)
  case (H3_data sid now data)
  have data: "keeps (andthen (try_jobs (recv_data_cb sid now data)) (quiet (extend_windows sid n)))" for n
    unfolding stream_cb_defs by (rule andthen_keeps [OF stream_cb_keeps quiet_keeps]) simp
  show ?thesis by (rule keepsI) (auto simp: H3_data dest: keepsD [OF data])
next
  case (H3_goaway notice sid)
  have "keeps (on_jobs (on_goaway notice sid))" by (rule on_jobs_keeps) (auto simp: on_goaway_def Let_def)
  then show ?thesis by (simp add: H3_goaway)
next
  case (H3_deferred sid n extended)
  have sent: "keeps (quiet (extend_windows sid m))" for m by (rule quiet_keeps) simp
  show ?thesis by (rule keepsI) (auto simp: H3_deferred dest: keepsD [OF sent] split: if_splits)
qed (simp_all only: h3_callback.simps stream_cb_defs stream_cb_keeps others_keeps)

lemma recv_stream_data_keeps: "keeps (recv_stream_data sid events consumed)"
proof -
  have tail: "keeps (\<lambda>s1. case consumed of
             None \<Rightarrow> (False, [], s1)
           | Some n \<Rightarrow> (True, [], extend_windows sid (recv_stream_credit sid n (lp_jobs s1)) s1))"
    by (rule keepsI) (auto split: option.splits)
  note all = andthen_keeps [OF in_order_keeps [OF h3_callback_keeps] tail]
  show ?thesis by (rule keepsI) (auto simp: recv_stream_data_def dest: keepsD [OF all] split: if_splits)
qed

lemma on_stream_close_confirmed: "on_stream_close known sid q = Some (ns, q') \<Longrightarrow> qj_confirmed q' = qj_confirmed q"
  by (auto simp: on_stream_close_def stream_close_cb_def unmap_stream_def Let_def
      dest: on_stream_confirmed split: if_splits option.splits)

lemma swallowed_keeps: "keeps (conn_callback (swallow e))"
proof (cases e)
  case (Ev_closed sid)
  have closed: "keeps (try_jobs (on_stream_close known sid))" for known
    by (intro keeping) (rule on_stream_close_confirmed)
  show ?thesis by (rule keepsI) (auto simp: Ev_closed dest: keepsD [OF closed])
next
  case Ev_early_rejected
  then show ?thesis by (auto intro!: keeping simp: on_early_data_rejected_def split: if_splits)
qed (auto intro!: keeping told_keeps recv_stream_data_keeps others_keeps dest: try_submit_confirmed)

lemma raced_call_keeps: "keeps (run_call (raced_call call))"
  unfolding run_call_def raced_call_def
  by (intro keeping told_keeps) (auto intro: swallowed_keeps)

text \<open>The rest of a turn never touches the confirmation.\<close>

lemma note_write_progress_confirmed [simp]: "qj_confirmed (note_write_progress now sid q) = qj_confirmed q"
  by (auto simp: note_write_progress_def split: option.split)

lemma stream_progress_confirmed [simp]: "qj_confirmed (ws_jobs (stream_progress now i n w)) = qj_confirmed (ws_jobs w)"
  by (auto simp: stream_progress_def split: option.split nat.split)

lemma read_body_confirmed [simp]: "qj_confirmed (read_body_cb sid q) = qj_confirmed q"
  using on_stream_confirmed by (auto simp: read_body_cb_def split: option.split)

lemma read_bodies_confirmed [simp]: "qj_confirmed (ws_jobs (read_bodies streams w)) = qj_confirmed (ws_jobs w)"
proof (induction streams arbitrary: w)
  case (Cons i streams)
  then show ?case using Cons [of "w\<lparr>ws_jobs := read_body_cb i (ws_jobs w)\<rparr>"] by (simp add: read_bodies_def)
qed (simp add: read_bodies_def)

lemma pump_write_confirmed: "qj_confirmed (ws_jobs (pump_write now ts w)) = qj_confirmed (ws_jobs w)"
proof (induction ts arbitrary: w)
  case (Cons t ts)
  then show ?case by (cases "ht_write t") (auto simp: Let_def)
qed simp

lemma write_piece_keeps: "keeps (write_piece t)"
proof -
  have "qj_confirmed (ws_jobs (snd (write_pending now quantum ready turns packets w))) = qj_confirmed (ws_jobs w)"
    for now quantum ready turns packets w
    using write_packets_jobs [of packets "pump_turn now quantum ready turns w"] pump_write_confirmed
    by (auto simp: write_pending_def pump_turn_def Let_def split: prod.split)
  then show ?thesis by (intro keepsI) (auto simp: write_piece_def lp_jobs_def Let_def)
qed

lemma network_piece_keeps: "keeps (network_piece cfg request m)"
  by (rule keepsI) (auto simp: network_piece_def Let_def split: prod.splits)

lemma handshake_piece_keeps: "keeps (handshake_piece cfg now)"
  by (rule keepsI) (auto simp: handshake_piece_def split: if_splits)

lemma flush_piece_keeps: "keeps (flush_piece answers)"
  by (rule keepsI) (auto simp: flush_piece_def Let_def split: prod.splits if_splits)

lemma process_wakeup_confirmed: "qj_confirmed (lp_jobs (process_wakeup s)) = qj_confirmed (lp_jobs s)"
  by (auto simp: process_wakeup_def process_wakeup_streams_def lp_jobs_def put_jobs_def Let_def split: prod.splits)

lemma expire_piece_keeps: "keeps (expire_piece cfg now)"
  by (rule keepsI) (auto simp: expire_piece_def dest!: expire_entries(3) split: prod.splits)

lemma raced_receive_keeps: "keeps (receive_piece (lt_received (raced_turn t)))"
proof (cases "lt_received t")
  case (Recv_failed e)
  then show ?thesis by (intro keepsI) (auto simp: receive_piece_def raced_turn_def split: if_splits)
next
  case (Recv_batch packets)
  have "keeps (read_packet (d, raced_call call))" for d call
    by (simp add: read_packet_def raced_call_keeps quiet_keeps)
  then show ?thesis by (auto simp: receive_piece_def raced_turn_def Recv_batch intro!: in_order_keeps)
qed

lemma raced_io_keeps: "keeps (io_piece cfg (raced_turn t) readable writable woken)"
proof -
  have "keeps (run_call (lt_expiry (raced_turn t)))" by (simp add: raced_turn_def raced_call_keeps)
  then show ?thesis
    unfolding io_piece_def wakeup_piece_def
    by (intro keeping raced_receive_keeps flush_piece_keeps network_piece_keeps expire_piece_keeps write_piece_keeps)
       (auto simp: process_wakeup_confirmed dest: try_submit_confirmed)
qed

lemma raced_turn_keeps: "keeps (turn_piece cfg (raced_turn t))"
proof -
  have "keeps (poll_piece cfg (raced_turn t))"
    by (rule keepsI) (auto simp: poll_piece_def dest: keepsD [OF raced_io_keeps] split: poll_result.splits if_splits)
  then show ?thesis
    unfolding turn_piece_def by (intro keeping network_piece_keeps handshake_piece_keeps)
qed

text \<open>A winner is adopted as soon as it can read 1-RTT packets, as a rule before the server's confirmation of the handshake
  arrives.  The confirmation is then swallowed by the candidate, so the loop keeps counting the handshake timeout: it does
  not outlive a turn past the deadline, however well the connection works.\<close>

lemma raced_connection_times_out:
  assumes "\<not> qj_confirmed (lp_jobs s)" "tm_handshake (lc_timeouts cfg) \<noteq> 0"
    "t \<in> set ts" "elapsed_ms (lt_now t) (lc_handshake_started cfg) (tm_handshake (lc_timeouts cfg))"
    "event_loop cfg (map raced_turn ts) s = (code, ns, s')"
  shows "code \<noteq> None"
  using assms(1,3,5)
proof (induction ts arbitrary: s code ns s')
  case (Cons u ts)
  let ?s0 = "fold do_thread (lt_threads (raced_turn u)) s"
  obtain ok n1 s1 where turn: "turn_piece cfg (raced_turn u) ?s0 = (ok, n1, s1)" by (metis prod_cases3)
  have open0: "\<not> qj_confirmed (lp_jobs ?s0)" using Cons.prems(1) by (simp add: threads_confirmed)
  have open1: "\<not> qj_confirmed (lp_jobs s1)" using keepsD [OF raced_turn_keeps turn] open0 by simp
  show ?case
  proof (cases "u = t")
    case True
    obtain ok2 n2 s2 where net: "network_piece cfg (lt_request (raced_turn u)) (lt_migration (raced_turn u)) ?s0 = (ok2, n2, s2)"
      by (metis prod_cases3)
    have "\<not> qj_confirmed (lp_jobs s2)" using keepsD [OF network_piece_keeps net] open0 by simp
    moreover have "lt_now (raced_turn u) = lt_now t" using True by (simp add: raced_turn_def)
    ultimately have "\<not> ok"
      using turn net assms(2,4) by (cases ok2) (auto simp: turn_piece_def then_others_def andthen_def
          other_threads_def quiet_def threads_confirmed handshake_piece_def)
    then show ?thesis using Cons.prems(3) turn by (auto simp: Let_def split: if_splits)
  next
    case False
    obtain c2 n2 s2 where loop: "event_loop cfg (map raced_turn ts) s1 = (c2, n2, s2)" by (metis prod_cases3)
    have "c2 \<noteq> None" using Cons.IH [OF open1 _ loop] Cons.prems(2) False by simp
    then show ?thesis using Cons.prems(3) turn loop by (cases ok) (auto simp: Let_def split: if_splits)
  qed
qed simp

text \<open>A failed path validation after a migration does not end such a connection either: nothing records it.\<close>

lemma raced_path_failure_is_lost:
  "conn_callback (swallow (Ev_path False)) s = (True, [], s)"
  by simp

end
