(* ===== verification/Cert_Verifier.thy ===== *)
theory Cert_Verifier
  imports Kat_Api
begin

text \<open>
  Certificate verification (\<^verbatim>\<open>src/core/cert_verifier.cc\<close>, \<^verbatim>\<open>src/jni/android_cert_verifier.cc\<close> and the
  verifier part of \<^verbatim>\<open>src/core/tls.cc\<close>).  The X.509 library is a record of what its calls answer;
  the Java VM is a predicate telling which JNI calls succeed.  Certificates of the library are the type
  \<open>'c\<close>; the chain the peer sends is a list of DER blobs, leaf first.
\<close>

subsection \<open>The libraries\<close>

record 'c x509_library =
  xl_parse :: "bytes \<Rightarrow> 'c option"
  xl_pem :: "bytes \<Rightarrow> 'c list"
  xl_file :: "string \<Rightarrow> bytes option"
  xl_add :: "'c list \<Rightarrow> 'c \<Rightarrow> bool"
  xl_verify :: "'c list \<Rightarrow> 'c \<Rightarrow> 'c list \<Rightarrow> string option \<Rightarrow> int option"
  xl_reason :: "int \<Rightarrow> string option"
  xl_public_key :: "'c \<Rightarrow> int option"
  xl_bio_ok :: bool
  xl_store_ok :: bool
  xl_stack_ok :: bool
  xl_push_ok :: "'c \<Rightarrow> bool"
  xl_context_ok :: bool

definition long_max :: nat where "long_max = 9223372036854775807"
definition int_max :: nat where "int_max = 2147483647"
definition hostname_mismatch :: int where "hostname_mismatch = 62"
definition key_rsa :: int where "key_rsa = 6"
definition key_ec :: int where "key_ec = 408"

subsection \<open>Verification against a store\<close>

record verify_result =
  vr_ok :: bool
  vr_code :: kat_error
  vr_message :: string

definition verified :: verify_result where
  "verified = \<lparr>vr_ok = True, vr_code = KAT_OK, vr_message = ''''\<rparr>"

definition refused :: "kat_error \<Rightarrow> string \<Rightarrow> verify_result" where
  "refused e m = \<lparr>vr_ok = False, vr_code = e, vr_message = m\<rparr>"

definition der_to_x509 :: "'c x509_library \<Rightarrow> bytes \<Rightarrow> 'c option" where
  "der_to_x509 lib d = (if d = [] \<or> length d > long_max then None else xl_parse lib d)"

text \<open>Adding the certificates of a PEM text to a store stops at the first one the store refuses.\<close>

fun store_loop :: "'c x509_library \<Rightarrow> 'c list \<Rightarrow> 'c list \<Rightarrow> 'c list" where
  "store_loop lib store [] = store"
| "store_loop lib store (x # xs) = (if xl_add lib store x then store_loop lib (store @ [x]) xs else store)"

definition store_from_pem :: "'c x509_library \<Rightarrow> bytes \<Rightarrow> 'c list option" where
  "store_from_pem lib pem =
     (if pem = [] \<or> length pem > int_max then None
      else if \<not> xl_bio_ok lib then None
      else if \<not> xl_store_ok lib then None
      else Some (store_loop lib [] (xl_pem lib pem)))"

definition store_from_file :: "'c x509_library \<Rightarrow> string \<Rightarrow> 'c list option" where
  "store_from_file lib path =
     (case xl_file lib path of
        None \<Rightarrow> None
      | Some content \<Rightarrow> if \<not> xl_store_ok lib then None else Some (store_loop lib [] (xl_pem lib content)))"

fun parse_chain :: "'c x509_library \<Rightarrow> bytes list \<Rightarrow> 'c list option" where
  "parse_chain lib [] = Some []"
| "parse_chain lib (d # ds) =
     (case der_to_x509 lib d of
        None \<Rightarrow> None
      | Some x \<Rightarrow> (case parse_chain lib ds of None \<Rightarrow> None | Some xs \<Rightarrow> Some (x # xs)))"

definition verify_with_store :: "'c x509_library \<Rightarrow> bytes list \<Rightarrow> 'c list option \<Rightarrow> string \<Rightarrow> verify_result" where
  "verify_with_store lib chain store hostname =
     (case store of
        None \<Rightarrow> refused ERR_NO_TRUST_PROVIDER ''no trust store available''
      | Some roots \<Rightarrow>
          if chain = [] then refused ERR_CERTIFICATE_VERIFY ''empty peer certificate chain''
          else case parse_chain lib chain of
                 None \<Rightarrow> refused ERR_CERTIFICATE_VERIFY ''failed to parse peer certificate chain''
               | Some certs \<Rightarrow>
                   if \<not> xl_stack_ok lib then refused ERR_NOMEM ''failed to allocate certificate chain''
                   else if \<not> list_all (xl_push_ok lib) (tl certs)
                   then refused ERR_NOMEM ''failed to allocate certificate chain''
                   else if \<not> xl_context_ok lib
                   then refused ERR_CERTIFICATE_VERIFY ''certificate verification failed''
                   else case xl_verify lib roots (hd certs) (tl certs)
                               (if hostname = '''' then None else Some hostname) of
                          None \<Rightarrow> verified
                        | Some e \<Rightarrow>
                            if e = hostname_mismatch
                            then refused ERR_HOSTNAME_MISMATCH ''certificate hostname mismatch''
                            else refused ERR_CERTIFICATE_VERIFY
                                   (''certificate verification failed: '' @
                                    (case xl_reason lib e of Some r \<Rightarrow> r | None \<Rightarrow> ''unknown reason'')))"

definition auth_type_from_der :: "'c x509_library \<Rightarrow> bytes \<Rightarrow> string" where
  "auth_type_from_der lib der =
     (if der = [] \<or> length der > long_max then ''UNKNOWN''
      else case xl_parse lib der of
             None \<Rightarrow> ''UNKNOWN''
           | Some leaf \<Rightarrow>
               (case xl_public_key lib leaf of
                  None \<Rightarrow> ''UNKNOWN''
                | Some k \<Rightarrow> if k = key_rsa then ''RSA'' else if k = key_ec then ''EC'' else ''UNKNOWN''))"

subsection \<open>Verifiers\<close>

text \<open>A verifier of the core, or one the host has injected.\<close>

datatype 'c verifier =
    Store_verifier "'c list option"
  | Insecure_verifier
  | Host_verifier "string \<Rightarrow> bytes list \<Rightarrow> string \<Rightarrow> verify_result"

fun verify :: "'c x509_library \<Rightarrow> 'c verifier \<Rightarrow> string \<Rightarrow> bytes list \<Rightarrow> string \<Rightarrow> verify_result" where
  "verify lib (Store_verifier store) hostname chain auth = verify_with_store lib chain store hostname"
| "verify lib Insecure_verifier hostname chain auth = verified"
| "verify lib (Host_verifier f) hostname chain auth = f hostname chain auth"

definition trust_platform :: nat where "trust_platform = 0"
definition trust_embedded :: nat where "trust_embedded = 1"
definition trust_custom :: nat where "trust_custom = 2"

text \<open>The embedded bundle is the parameter \<open>bundle\<close>.\<close>

definition make_verifier :: "'c x509_library \<Rightarrow> bytes \<Rightarrow> nat \<Rightarrow> bool \<Rightarrow> string \<Rightarrow> 'c verifier option" where
  "make_verifier lib bundle mode insecure ca_file =
     (if insecure then Some Insecure_verifier
      else if mode = trust_embedded then Some (Store_verifier (store_from_pem lib bundle))
      else if mode = trust_custom
      then (if ca_file = '''' then None else Some (Store_verifier (store_from_file lib ca_file)))
      else None)"

subsection \<open>The TLS callback\<close>

text \<open>The chain as the TLS library holds it: missing and empty entries are skipped.\<close>

definition peer_chain_der :: "bytes option list option \<Rightarrow> bytes list" where
  "peer_chain_der chain =
     (case chain of
        None \<Rightarrow> []
      | Some entries \<Rightarrow> filter (\<lambda>d. d \<noteq> []) (map the (filter (\<lambda>d. d \<noteq> None) entries)))"

definition servername :: "string option \<Rightarrow> string" where
  "servername sni = (case sni of Some n \<Rightarrow> n | None \<Rightarrow> '''')"

text \<open>Whether the certificate is accepted, and the result recorded in the session, if any.\<close>

definition cert_verify_cb ::
  "'c x509_library \<Rightarrow> 'c verifier option \<Rightarrow> bytes option list option \<Rightarrow> string option \<Rightarrow> bool \<times> verify_result option" where
  "cert_verify_cb lib v peer sni =
     (case v of
        None \<Rightarrow> (True, None)
      | Some verifier \<Rightarrow>
          let chain = peer_chain_der peer
          in if chain = [] then (False, None)
             else
               let host = servername sni;
                   auth = auth_type_from_der lib (hd chain);
                   r = verify lib verifier host chain auth
               in (vr_ok r, Some r))"

subsection \<open>The Android verifier\<close>

text \<open>The JNI calls of the verifier with what they are given.  \<open>jvm call\<close> tells that a call returned
  something and left no exception; after each of them the code gives up otherwise.\<close>

datatype jni_call =
    Get_env | Attach_thread | Find_class string | Get_method string | New_string string
  | Get_factory string | New_object_array nat | New_byte_array nat | Set_byte_region bytes | New_stream bytes
  | Generate_certificate bytes | Set_array_element nat bytes | Check_server_trusted "bytes list" string string
  | Default_algorithm | Trust_factory | Init_factory | Get_managers | Get_array_length
  | Get_manager nat | Is_instance nat | New_extensions nat | New_global_ref | New_verifier

definition c_str :: "string \<Rightarrow> string" where
  "c_str s = takeWhile (\<lambda>c. c \<noteq> CHR 0x00) s"

fun convert_chain :: "(jni_call \<Rightarrow> bool) \<Rightarrow> nat \<Rightarrow> bytes list \<Rightarrow> bool" where
  "convert_chain jvm i [] = True"
| "convert_chain jvm i (d # ds) =
     (if d = [] \<or> length d > int_max then False
      else if \<not> list_all jvm [New_byte_array (length d), Set_byte_region d, New_stream d, Generate_certificate d,
                             Set_array_element i d] then False
      else convert_chain jvm (i + 1) ds)"

definition android_verify :: "(jni_call \<Rightarrow> bool) \<Rightarrow> bool \<Rightarrow> string \<Rightarrow> bytes list \<Rightarrow> string \<Rightarrow> verify_result" where
  "android_verify jvm has_extensions hostname chain auth =
     (let result = refused ERR_CERTIFICATE_VERIFY ''certificate verification failed''
      in if \<not> has_extensions then refused ERR_NO_TRUST_PROVIDER ''no Android trust manager available''
         else if chain = [] \<or> length chain > int_max then result
         else if \<not> jvm Get_env \<and> \<not> jvm Attach_thread then refused ERR_NO_TRUST_PROVIDER ''JNI attach failed''
         else if \<not> list_all jvm [Find_class ''java/security/cert/X509Certificate'',
                   Find_class ''java/security/cert/CertificateFactory'', Find_class ''java/io/ByteArrayInputStream'']
         then result
         else if \<not> list_all jvm [Get_method ''getInstance'', Get_method ''<init>'', Get_method ''generateCertificate'']
         then result
         else if \<not> list_all jvm [New_string ''X.509'', Get_factory ''X.509''] then result
         else if \<not> jvm (New_object_array (length chain)) then result
         else if \<not> convert_chain jvm 0 chain then result
         else if \<not> list_all jvm [Find_class ''android/net/http/X509TrustManagerExtensions'',
                   Get_method ''checkServerTrusted''] then result
         else if \<not> list_all jvm [New_string (c_str auth), New_string (c_str hostname)] then result
         else if \<not> jvm (Check_server_trusted chain (c_str auth) (c_str hostname)) then result
         else verified)"

text \<open>Choosing the trust manager: for each manager, whether it is there and whether it is an
  \<^verbatim>\<open>X509TrustManager\<close>.  The outer \<open>None\<close> is a JNI failure.\<close>

fun pick_manager :: "(jni_call \<Rightarrow> bool) \<Rightarrow> nat \<Rightarrow> (bool \<times> bool) list \<Rightarrow> nat option option" where
  "pick_manager jvm i [] = Some None"
| "pick_manager jvm i ((present, is_x509) # ms) =
     (if \<not> jvm (Get_manager i) then None
      else if \<not> present then pick_manager jvm (i + 1) ms
      else if \<not> jvm (Is_instance i) then None
      else if is_x509 then Some (Some i)
      else pick_manager jvm (i + 1) ms)"

text \<open>\<^verbatim>\<open>create_android_platform_verifier\<close>: the manager the new verifier asks, if one is made.\<close>

definition create_android_platform_verifier :: "(jni_call \<Rightarrow> bool) \<Rightarrow> bool \<Rightarrow> (bool \<times> bool) list \<Rightarrow> nat option" where
  "create_android_platform_verifier jvm has_vm managers =
     (if \<not> has_vm then None
      else if \<not> list_all jvm [Get_env, Find_class ''javax/net/ssl/TrustManagerFactory'', Get_method ''getDefaultAlgorithm'',
                Get_method ''getInstance'', Get_method ''init'', Get_method ''getTrustManagers'', Default_algorithm,
                Trust_factory, Init_factory, Get_managers, Find_class ''javax/net/ssl/X509TrustManager'',
                Get_array_length] then None
      else case pick_manager jvm 0 managers of
             None \<Rightarrow> None
           | Some None \<Rightarrow> None
           | Some (Some m) \<Rightarrow>
               if list_all jvm [Find_class ''android/net/http/X509TrustManagerExtensions'', Get_method ''<init>'',
                     New_extensions m, New_global_ref, New_verifier] then Some m
               else None)"

text \<open>The Android verifier accepts a chain only after the trust manager has been asked about exactly that chain.\<close>

lemma android_verify_accepts:
  assumes "vr_ok (android_verify jvm has_extensions hostname chain auth)"
  shows "has_extensions" "chain \<noteq> []" "jvm (Check_server_trusted chain (c_str auth) (c_str hostname))" "convert_chain jvm 0 chain"
  using assms by (auto simp: android_verify_def Let_def refused_def split: if_splits)

lemma pick_manager_first:
  assumes "pick_manager jvm i ms = Some (Some m)"
  shows "i \<le> m \<and> m < i + length ms \<and> ms ! (m - i) = (True, True) \<and> (\<forall>k < m - i. ms ! k \<noteq> (True, True))"
  using assms
proof (induction jvm i ms rule: pick_manager.induct)
  case (2 jvm i present is_x509 ms)
  show ?case
  proof (cases "present \<and> is_x509")
    case True
    then show ?thesis using "2.prems" by (auto split: if_splits)
  next
    case False
    then have "Suc i \<le> m \<and> m < Suc i + length ms \<and> ms ! (m - Suc i) = (True, True) \<and> (\<forall>k < m - Suc i. ms ! k \<noteq> (True, True))"
      using 2 by (auto split: if_splits)
    moreover from this have "m - i = Suc (m - Suc i)" by linarith
    ultimately show ?thesis using False by (auto simp: nth_Cons split: nat.split)
  qed
qed simp

subsection \<open>Verification fails closed\<close>

lemma parse_chain_length: "parse_chain lib ds = Some xs \<Longrightarrow> length xs = length ds"
  by (induction ds arbitrary: xs) (auto split: option.splits)

lemma verify_with_store_accepts:
  assumes "vr_ok (verify_with_store lib chain store host)"
  obtains roots certs where "store = Some roots" "parse_chain lib chain = Some certs" "certs \<noteq> []"
    "xl_verify lib roots (hd certs) (tl certs) (if host = '''' then None else Some host) = None"
proof (cases "parse_chain lib chain")
  case None
  with assms show ?thesis
    by (cases store; cases "chain = []") (simp_all add: verify_with_store_def refused_def)
next
  case (Some certs)
  with assms show ?thesis
    using that [OF _ Some] parse_chain_length [OF Some]
    by (cases store; cases certs; cases chain) (auto simp: verify_with_store_def refused_def split: if_splits option.splits)
qed

lemma refusal_has_code: "\<not> vr_ok (verify_with_store lib chain store host) \<Longrightarrow> vr_code (verify_with_store lib chain store host) \<noteq> KAT_OK"
  by (auto simp: verify_with_store_def refused_def verified_def Let_def split: option.splits if_splits)

end
