(* ===== verification/Tls.thy ===== *)
theory Tls
  imports Cert_Verifier Kat_Decimal Kat_System "HOL-Library.AList" "HOL-Library.Multiset"
begin

text \<open>
  The TLS context of an engine and the TLS sessions of its connections (\<^verbatim>\<open>src/core/tls.cc\<close>): which verifier
  a trust policy installs, the cache of session tickets with their transport parameters, the cache of
  address-validation tokens and the failure record.  The TLS library is its answers; a ticket
  (\<^verbatim>\<open>SSL_SESSION\<close>) is a number with a reference count.
\<close>

subsection \<open>Installing the verifier\<close>

text \<open>Configuration calls of the library, and whether they succeed.\<close>

record tls_library =
  tl_new_ok :: bool
  tl_configure_ok :: bool
  tl_min_version_ok :: bool
  tl_max_version_ok :: bool
  tl_alpn_ok :: bool

definition configure_context :: "tls_library \<Rightarrow> bool" where
  "configure_context t \<longleftrightarrow>
     tl_new_ok t \<and> tl_configure_ok t \<and> tl_min_version_ok t \<and> tl_max_version_ok t \<and> tl_alpn_ok t"

text \<open>\<^verbatim>\<open>TlsClientContext::init\<close> on BoringSSL: the verifier the callback uses, or \<open>None\<close> where it fails.
  \<open>injected\<close> is the argument of the call, \<open>registered\<close> the verifier the host has registered.\<close>

definition init_boringssl ::
  "tls_library \<Rightarrow> 'c x509_library \<Rightarrow> bytes \<Rightarrow> 'c verifier option \<Rightarrow> 'c verifier option \<Rightarrow> nat \<Rightarrow> bool \<Rightarrow> string \<Rightarrow>
     'c verifier option" where
  "init_boringssl t lib bundle injected registered mode insecure ca_file =
     (if \<not> configure_context t then None
      else if mode = trust_platform then
        (case (case injected of Some v \<Rightarrow> Some v | None \<Rightarrow> registered) of
           Some v \<Rightarrow> Some v
         | None \<Rightarrow> make_verifier lib bundle trust_embedded False '''')
      else make_verifier lib bundle mode insecure ca_file)"

text \<open>The build on the host's own OpenSSL: whether the peer is verified and against which roots.\<close>

datatype verify_mode = Verify_none | Verify_peer

record 'c host_library =
  hl_load :: "string \<Rightarrow> 'c list option"
  hl_default :: "'c list option"
  hl_store_ok :: bool

fun bundle_loop :: "'c x509_library \<Rightarrow> 'c list \<Rightarrow> 'c list \<Rightarrow> 'c list" where
  "bundle_loop lib store [] = store"
| "bundle_loop lib store (x # xs) = bundle_loop lib (if xl_add lib store x then store @ [x] else store) xs"

definition load_embedded_ca_bundle :: "'c x509_library \<Rightarrow> 'c host_library \<Rightarrow> bytes \<Rightarrow> 'c list" where
  "load_embedded_ca_bundle lib h bundle =
     (if \<not> hl_store_ok h \<or> \<not> xl_bio_ok lib then [] else bundle_loop lib [] (xl_pem lib bundle))"

definition init_host ::
  "tls_library \<Rightarrow> 'c x509_library \<Rightarrow> 'c host_library \<Rightarrow> bytes \<Rightarrow> nat \<Rightarrow> bool \<Rightarrow> string \<Rightarrow> (verify_mode \<times> 'c list) option" where
  "init_host t lib h bundle mode insecure ca_file =
     (if \<not> tl_new_ok t \<or> \<not> tl_min_version_ok t \<or> \<not> tl_max_version_ok t \<or> \<not> tl_alpn_ok t then None
      else if insecure then Some (Verify_none, [])
      else if mode = trust_custom then
        (if ca_file = '''' then None
         else case hl_load h ca_file of None \<Rightarrow> None | Some roots \<Rightarrow> Some (Verify_peer, roots))
      else if mode = trust_embedded then Some (Verify_peer, load_embedded_ca_bundle lib h bundle)
      else if ca_file \<noteq> ''''
      then Some (Verify_peer, case hl_load h ca_file of None \<Rightarrow> [] | Some roots \<Rightarrow> roots)
      else Some (Verify_peer, case hl_default h of None \<Rightarrow> load_embedded_ca_bundle lib h bundle | Some roots \<Rightarrow> roots))"

text \<open>Key logging: the path is a static variable that the first context to log initialises.\<close>

definition keylog_target :: "string \<Rightarrow> string option \<Rightarrow> string option \<times> string option" where
  "keylog_target keylog_file path =
     (if keylog_file = '''' then (None, path)
      else let p = (case path of Some q \<Rightarrow> q | None \<Rightarrow> keylog_file) in (Some p, Some p))"

lemma later_keylog_goes_to_first_file:
  assumes "file1 \<noteq> ''''" "file2 \<noteq> ''''"
  shows "fst (keylog_target file2 (snd (keylog_target file1 None))) = Some file1"
  using assms by (simp add: keylog_target_def)


text \<open>A library whose certificates are the DER blobs themselves: the leaf must be signed by (start with the first
  byte of) a root, and name the host in the rest.\<close>

definition toy_library :: "bytes x509_library" where
  "toy_library = \<lparr>xl_parse = Some, xl_pem = (\<lambda>pem. map (\<lambda>b. [b]) pem), xl_file = (\<lambda>_. None), xl_add = (\<lambda>_ _. True),
     xl_verify = (\<lambda>roots leaf untrusted host.
       if [hd leaf] \<in> set roots \<and> (case host of None \<Rightarrow> True | Some h \<Rightarrow> length (tl leaf) = length h) then None else Some 20),
     xl_reason = (\<lambda>_. None), xl_public_key = (\<lambda>_. Some 6), xl_bio_ok = True, xl_store_ok = True,
     xl_stack_ok = True, xl_push_ok = (\<lambda>_. True), xl_context_ok = True\<rparr>"

definition toy_setup :: tls_library where
  "toy_setup = \<lparr>tl_new_ok = True, tl_configure_ok = True, tl_min_version_ok = True, tl_max_version_ok = True, tl_alpn_ok = True\<rparr>"

definition toy_peer :: "bytes option list option" where
  "toy_peer = Some [Some [7, 1, 1, 1]]"


subsection \<open>Tickets and tokens\<close>

record cached_resumption =
  cr_session :: "nat option"
  cr_params :: bytes

text \<open>The caches of a context.  \<open>ts_refs s\<close> is the reference count of the ticket \<open>s\<close>.\<close>

record tls_state =
  ts_refs :: "nat \<Rightarrow> nat"
  ts_resumptions :: "(string \<times> cached_resumption) list"
  ts_tokens :: "(string \<times> bytes) list"

definition new_tls_state :: tls_state where
  "new_tls_state = \<lparr>ts_refs = (\<lambda>_. 0), ts_resumptions = [], ts_tokens = []\<rparr>"

definition session_up :: "nat \<Rightarrow> tls_state \<Rightarrow> tls_state" where
  "session_up s t = t\<lparr>ts_refs := (ts_refs t)(s := ts_refs t s + 1)\<rparr>"

definition session_free :: "nat option \<Rightarrow> tls_state \<Rightarrow> tls_state" where
  "session_free s t = (case s of None \<Rightarrow> t | Some n \<Rightarrow> t\<lparr>ts_refs := (ts_refs t)(n := ts_refs t n - 1)\<rparr>)"

record resumption_state =
  rs_session :: "nat option"
  rs_params :: bytes
  rs_early_data_capable :: bool

definition no_resumption :: resumption_state where
  "no_resumption = \<lparr>rs_session = None, rs_params = [], rs_early_data_capable = False\<rparr>"

text \<open>\<open>up_ref_ok\<close> is the answer of \<^verbatim>\<open>SSL_SESSION_up_ref\<close>, \<open>early\<close> that of
  \<^verbatim>\<open>SSL_SESSION_early_data_capable\<close> (always false on the host's OpenSSL).\<close>

definition acquire_resumption :: "bool \<Rightarrow> (nat \<Rightarrow> bool) \<Rightarrow> string \<Rightarrow> tls_state \<Rightarrow> resumption_state \<times> tls_state" where
  "acquire_resumption up_ref_ok early server_name t =
     (case map_of (ts_resumptions t) server_name of
        None \<Rightarrow> (no_resumption, t)
      | Some c \<Rightarrow>
          (case cr_session c of
             None \<Rightarrow> (no_resumption, t)
           | Some s \<Rightarrow>
               if \<not> up_ref_ok then (no_resumption, t)
               else (\<lparr>rs_session = Some s, rs_params = cr_params c, rs_early_data_capable = early s\<rparr>, session_up s t)))"

definition has_early_resumption :: "(nat \<Rightarrow> bool) \<Rightarrow> string \<Rightarrow> tls_state \<Rightarrow> bool" where
  "has_early_resumption early server_name t =
     (case map_of (ts_resumptions t) server_name of
        None \<Rightarrow> False
      | Some c \<Rightarrow> (case cr_session c of None \<Rightarrow> False | Some s \<Rightarrow> cr_params c \<noteq> [] \<and> early s))"

text \<open>\<open>current\<close> is the ticket of the connection's \<^verbatim>\<open>SSL\<close> object, to which \<^verbatim>\<open>SSL_get1_session\<close> adds a reference.\<close>

definition cache_resumption :: "string \<Rightarrow> nat option \<Rightarrow> bytes \<Rightarrow> tls_state \<Rightarrow> tls_state" where
  "cache_resumption server_name current params t =
     (if server_name = '''' then t
      else case current of
             None \<Rightarrow> t
           | Some s \<Rightarrow>
               let t1 = session_up s t;
                   old = (case map_of (ts_resumptions t1) server_name of None \<Rightarrow> None | Some c \<Rightarrow> cr_session c);
                   t2 = session_free old t1
               in t2\<lparr>ts_resumptions := AList.update server_name \<lparr>cr_session = Some s, cr_params = params\<rparr> (ts_resumptions t2)\<rparr>)"

definition destroy_context :: "tls_state \<Rightarrow> tls_state" where
  "destroy_context t = (fold (\<lambda>c. session_free (cr_session (snd c))) (ts_resumptions t) t)\<lparr>ts_resumptions := [], ts_tokens := []\<rparr>"

definition new_token_key :: "string \<Rightarrow> nat \<Rightarrow> int \<Rightarrow> string" where
  "new_token_key server_name network_handle family =
     server_name @ ''|'' @ to_string network_handle @ ''|'' @ int_to_string family"

definition max_new_token_bytes :: nat where "max_new_token_bytes = 4096"

definition acquire_new_token :: "string \<Rightarrow> nat \<Rightarrow> int \<Rightarrow> tls_state \<Rightarrow> bytes" where
  "acquire_new_token server_name network_handle family t =
     (case map_of (ts_tokens t) (new_token_key server_name network_handle family) of None \<Rightarrow> [] | Some token \<Rightarrow> token)"

definition cache_new_token :: "string \<Rightarrow> nat \<Rightarrow> int \<Rightarrow> bytes \<Rightarrow> tls_state \<Rightarrow> tls_state" where
  "cache_new_token server_name network_handle family token t =
     (if server_name = '''' \<or> token = [] \<or> length token > max_new_token_bytes then t
      else t\<lparr>ts_tokens := AList.update (new_token_key server_name network_handle family) token (ts_tokens t)\<rparr>)"

subsection \<open>Keys of the token cache\<close>

lemma split_at_last_bar:
  assumes "a @ CHR ''|'' # b = c @ CHR ''|'' # d" "CHR ''|'' \<notin> set b" "CHR ''|'' \<notin> set d"
  shows "a = c \<and> b = d"
proof -
  have "takeWhile (\<lambda>x. x \<noteq> CHR ''|'') (rev (a @ CHR ''|'' # b)) = rev b"
    "takeWhile (\<lambda>x. x \<noteq> CHR ''|'') (rev (c @ CHR ''|'' # d)) = rev d"
    using assms(2,3) by (simp_all add: takeWhile_append takeWhile_eq_all_conv [THEN iffD2] cong: if_cong)
  then have "b = d" using assms(1) by simp
  then show ?thesis using assms(1) by simp
qed

lemma bar_not_in_numbers [simp]: "CHR ''|'' \<notin> set (to_string n)" "CHR ''|'' \<notin> set (int_to_string i)"
  using char_not_in_to_string [of "CHR ''|''"] by (auto simp: is_digit_def int_to_string_def)

lemma int_to_string_inject: "int_to_string i = int_to_string j \<longleftrightarrow> i = j"
proof
  assume eq: "int_to_string i = int_to_string j"
  have minus: "CHR ''-'' \<notin> set (to_string n)" for n
    using char_not_in_to_string [of "CHR ''-''" n] by (auto simp: is_digit_def)
  have head: "to_string n \<noteq> CHR ''-'' # cs" for n cs using minus [of n] by auto
  show "i = j"
    using eq head [of "nat i"] head [of "nat j"] by (auto simp: int_to_string_def split: if_splits dest: sym)
qed simp

text \<open>Although a host name may contain the separator, the key determines its three parts.\<close>

lemma new_token_key_inject:
  assumes "new_token_key n1 h1 f1 = new_token_key n2 h2 f2"
  shows "n1 = n2 \<and> h1 = h2 \<and> f1 = f2"
proof -
  have "(n1 @ ''|'' @ to_string h1) @ CHR ''|'' # int_to_string f1 = (n2 @ ''|'' @ to_string h2) @ CHR ''|'' # int_to_string f2"
    using assms by (simp add: new_token_key_def)
  from split_at_last_bar [OF this]
  have 1: "n1 @ CHR ''|'' # to_string h1 = n2 @ CHR ''|'' # to_string h2" "int_to_string f1 = int_to_string f2" by auto
  from split_at_last_bar [OF 1(1)] 1(2) show ?thesis by (auto simp: int_to_string_inject)
qed

text \<open>The platform policy does not look at the insecure option.\<close>

lemma platform_policy_ignores_insecure:
  "init_boringssl t lib bundle injected registered trust_platform True ca_file =
   init_boringssl t lib bundle injected registered trust_platform False ca_file"
  by (simp add: init_boringssl_def)

text \<open>On the host's OpenSSL the peer goes unverified exactly with the insecure option.\<close>

lemma host_verifies_peer:
  "init_host t lib h bundle mode insecure ca_file = Some (m, roots) \<Longrightarrow> m = Verify_none \<longleftrightarrow> insecure"
  by (auto simp: init_host_def split: if_splits option.splits)

end
