(* ===== verification/Tls_Sessions.thy ===== *)
theory Tls_Sessions
  imports Tls
begin

text \<open>
  The TLS sessions of connections (\<^verbatim>\<open>TlsClientSession\<close> of \<^verbatim>\<open>src/core/tls.cc\<close>) over the context of \<open>Tls\<close>: a
  session owns an \<^verbatim>\<open>SSL\<close> object, which holds a reference to its current ticket, and gives that ticket to the
  context's cache when it is destroyed.
\<close>

subsection \<open>Failures\<close>

record tls_failure =
  tf_ssl_error :: int
  tf_library_error :: nat
  tf_alert :: int
  tf_code :: kat_error
  tf_message :: string

definition no_failure :: tls_failure where
  "no_failure = \<lparr>tf_ssl_error = 0, tf_library_error = 0, tf_alert = 0, tf_code = KAT_OK, tf_message = ''''\<rparr>"

fun contains :: "string \<Rightarrow> string \<Rightarrow> bool" where
  "contains pattern [] = (pattern = [])"
| "contains pattern (c # cs) = (starts_with (c # cs) pattern \<or> contains pattern cs)"

record tls_session =
  tn_ssl :: bool
  tn_current :: "nat option"
  tn_context :: bool
  tn_server_name :: string
  tn_params :: bytes
  tn_failure :: tls_failure

definition new_tls_session :: tls_session where
  "new_tls_session = \<lparr>tn_ssl = False, tn_current = None, tn_context = False, tn_server_name = '''', tn_params = [],
                      tn_failure = no_failure\<rparr>"

definition recordVerifierResult :: "verify_result \<Rightarrow> tls_session \<Rightarrow> tls_session" where
  "recordVerifierResult r n =
     n\<lparr>tn_failure := no_failure
         \<lparr>tf_code := (if vr_ok r then KAT_OK else if vr_code r \<noteq> KAT_OK then vr_code r else ERR_CERTIFICATE_VERIFY),
          tf_message := (if vr_ok r then '''' else vr_message r)\<rparr>\<rparr>"

text \<open>\<open>e\<close> is the last error of the library's queue and \<open>msg\<close> its text.\<close>

definition captureLastError :: "int \<Rightarrow> nat \<Rightarrow> string \<Rightarrow> tls_session \<Rightarrow> tls_session" where
  "captureLastError ssl_error e msg n =
     (let code = (if contains ''CERTIFICATE_VERIFY'' msg then ERR_CERTIFICATE_VERIFY
                  else if contains ''HOST'' msg then ERR_HOSTNAME_MISMATCH else ERR_TLS)
      in n\<lparr>tn_failure := \<lparr>tf_ssl_error = ssl_error, tf_library_error = e, tf_alert = 0, tf_code = code, tf_message = msg\<rparr>\<rparr>)"

definition set_resumption_transport_params :: "bytes \<Rightarrow> tls_session \<Rightarrow> tls_session" where
  "set_resumption_transport_params params n = n\<lparr>tn_params := params\<rparr>"

text \<open>After a refused certificate the crypto callback fails and captures the library's error, which replaces
  what the verifier has recorded: a host name mismatch and a missing trust manager are reported as a plain
  verification failure, or as a TLS error where the text is not BoringSSL's.\<close>

lemma capture_forgets_verifier_result:
  "tn_failure (captureLastError x e msg (recordVerifierResult r n)) = tn_failure (captureLastError x e msg n)"
  "tf_code (tn_failure (captureLastError x e ''error:1000007d:SSL routines:OPENSSL_internal:CERTIFICATE_VERIFY_FAILED''
       (recordVerifierResult (refused ERR_NO_TRUST_PROVIDER m) n))) = ERR_CERTIFICATE_VERIFY"
  "tf_code (tn_failure (captureLastError x e ''error:0A000086:SSL routines::certificate verify failed'' n)) = ERR_TLS"
  by (simp_all add: captureLastError_def starts_with_def)

subsection \<open>Life of a session\<close>

text \<open>What destroys the \<^verbatim>\<open>SSL\<close> object: its ticket goes to the cache, then its own reference is dropped.\<close>

definition release_ssl :: "tls_session \<Rightarrow> tls_state \<Rightarrow> tls_state" where
  "release_ssl n t =
     (if \<not> tn_ssl n then t
      else session_free (tn_current n)
             (if tn_context n then cache_resumption (tn_server_name n) (tn_current n) (tn_params n) t else t))"

text \<open>\<^verbatim>\<open>init\<close>: the outcome, whether early data stays enabled, the session and the context.  The reference
  \<open>resume\<close> belongs to the call.\<close>

definition tls_session_init ::
  "bool \<Rightarrow> bool \<Rightarrow> bool \<Rightarrow> bool \<Rightarrow> string \<Rightarrow> nat option \<Rightarrow> bool \<Rightarrow> tls_session \<Rightarrow> tls_state \<Rightarrow>
     bool \<times> bool \<times> tls_session \<times> tls_state" where
  "tls_session_init new_ok set_ok host_ok configure_ok server_name resume early n t =
     (if \<not> new_ok then (False, early, n\<lparr>tn_ssl := False, tn_current := None\<rparr>, session_free resume t)
      else
        let n1 = n\<lparr>tn_ssl := True, tn_current := None, tn_context := True, tn_server_name := server_name\<rparr>;
            (early1, n2, t2) =
              (case resume of
                 None \<Rightarrow> (False, n1, t)
               | Some s \<Rightarrow>
                   if set_ok then (early, n1\<lparr>tn_current := Some s\<rparr>, session_free resume (session_up s t))
                   else (False, n1, session_free resume t))
        in if server_name \<noteq> '''' \<and> \<not> host_ok then (False, early1, n2, t2)
           else if \<not> configure_ok then (False, early1, n2, t2)
           else (True, early1, n2, t2))"

definition tls_session_destroy :: "tls_session \<Rightarrow> tls_state \<Rightarrow> tls_state" where
  "tls_session_destroy n t = release_ssl n t"

text \<open>Move construction: the new session and what is left of the old one.\<close>

definition tls_session_move :: "tls_session \<Rightarrow> tls_session \<times> tls_session" where
  "tls_session_move other =
     (other, other\<lparr>tn_ssl := False, tn_current := None, tn_context := False, tn_server_name := '''', tn_params := [],
                   tn_failure := (tn_failure other)\<lparr>tf_message := ''''\<rparr>\<rparr>)"

text \<open>Move assignment; assigning a session to itself does nothing.\<close>

definition tls_session_assign :: "bool \<Rightarrow> tls_session \<Rightarrow> tls_session \<Rightarrow> tls_state \<Rightarrow> tls_session \<times> tls_session \<times> tls_state" where
  "tls_session_assign same target other t =
     (if same then (target, target, t)
      else case tls_session_move other of (moved, rest) \<Rightarrow> (moved, rest, release_ssl target t))"

subsection \<open>References\<close>

definition ref_of :: "nat option \<Rightarrow> nat multiset" where
  "ref_of s = (case s of None \<Rightarrow> {#} | Some n \<Rightarrow> {#n#})"

definition held :: "tls_session list \<Rightarrow> nat multiset" where
  "held ns = sum_list (map (ref_of \<circ> tn_current) ns)"

definition cached :: "(string \<times> cached_resumption) list \<Rightarrow> nat multiset" where
  "cached cs = sum_list (map (ref_of \<circ> cr_session \<circ> snd) cs)"

definition balanced :: "tls_state \<Rightarrow> nat multiset \<Rightarrow> bool" where
  "balanced t owners \<longleftrightarrow> (\<forall>s. ts_refs t s = count owners s)"

lemma ref_of_simps [simp]: "ref_of None = {#}" "ref_of (Some s) = {#s#}"
  by (simp_all add: ref_of_def)

lemma held_append [simp]: "held (a @ b) = held a + held b" "held [] = {#}" "held (n # ns) = ref_of (tn_current n) + held ns"
  by (simp_all add: held_def)

lemma held_update: "i < length ns \<Longrightarrow> held (ns[i := n]) + ref_of (tn_current (ns ! i)) = held ns + ref_of (tn_current n)"
  by (induction ns arbitrary: i) (auto simp: held_def ac_simps split: nat.splits)

lemma cached_update:
  "cached (AList.update k c cs) + (case map_of cs k of None \<Rightarrow> {#} | Some d \<Rightarrow> ref_of (cr_session d)) = cached cs + ref_of (cr_session c)"
  by (induction cs) (auto simp: cached_def ac_simps)

lemma session_up_keeps [simp]: "ts_resumptions (session_up s t) = ts_resumptions t" "ts_tokens (session_up s t) = ts_tokens t"
  by (simp_all add: session_up_def)

lemma session_free_keeps [simp]: "ts_resumptions (session_free s t) = ts_resumptions t" "ts_tokens (session_free s t) = ts_tokens t"
  by (simp_all add: session_free_def split: option.split)

lemma session_up_balanced: "balanced t m \<Longrightarrow> balanced (session_up s t) (add_mset s m)"
  by (simp add: balanced_def session_up_def)

lemma session_free_balanced: "balanced t (ref_of s + m) \<Longrightarrow> balanced (session_free s t) m"
  by (auto simp: balanced_def session_free_def split: option.split)

text \<open>What \<^verbatim>\<open>cache_resumption\<close> puts into the cache, if anything.\<close>

definition caches :: "string \<Rightarrow> nat option \<Rightarrow> bytes \<Rightarrow> (string \<times> cached_resumption) list" where
  "caches server_name current params =
     (case current of
        None \<Rightarrow> []
      | Some s \<Rightarrow> if server_name = '''' then [] else [(server_name, \<lparr>cr_session = Some s, cr_params = params\<rparr>)])"

lemma cache_resumption_maps:
  "map_of (ts_resumptions (cache_resumption name current params t)) = map_of (caches name current params @ ts_resumptions t)"
  "ts_tokens (cache_resumption name current params t) = ts_tokens t"
  by (auto simp: cache_resumption_def caches_def Let_def update_conv fun_eq_iff split: option.split)

lemma cache_resumption_balanced:
  assumes "balanced t (m + cached (ts_resumptions t))"
  shows "balanced (cache_resumption name current params t) (m + cached (ts_resumptions (cache_resumption name current params t)))"
proof (cases "name = '''' \<or> current = None")
  case True
  then show ?thesis using assms by (auto simp: cache_resumption_def)
next
  case False
  then obtain s where s: "current = Some s" by auto
  let ?old = "case map_of (ts_resumptions t) name of None \<Rightarrow> None | Some c \<Rightarrow> cr_session c"
  let ?new = "AList.update name \<lparr>cr_session = Some s, cr_params = params\<rparr> (ts_resumptions t)"
  have cnt: "cached ?new + ref_of ?old = add_mset s (cached (ts_resumptions t))"
    using cached_update [of name "\<lparr>cr_session = Some s, cr_params = params\<rparr>" "ts_resumptions t"]
    by (cases "map_of (ts_resumptions t) name") simp_all
  have "balanced (session_up s t) (add_mset s (m + cached (ts_resumptions t)))"
    by (rule session_up_balanced [OF assms])
  also have "add_mset s (m + cached (ts_resumptions t)) = ref_of ?old + (m + cached ?new)"
    using cnt by (simp add: ac_simps)
  finally have "balanced (session_free ?old (session_up s t)) (m + cached ?new)"
    by (rule session_free_balanced)
  then show ?thesis
    using False s by (simp add: cache_resumption_def Let_def balanced_def)
qed

definition released :: "tls_session \<Rightarrow> (string \<times> cached_resumption) list" where
  "released n = (if tn_ssl n \<and> tn_context n then caches (tn_server_name n) (tn_current n) (tn_params n) else [])"

lemma release_ssl_maps:
  "map_of (ts_resumptions (release_ssl n t)) = map_of (released n @ ts_resumptions t)"
  "ts_tokens (release_ssl n t) = ts_tokens t"
  by (auto simp: release_ssl_def released_def cache_resumption_maps)

lemma release_ssl_balanced:
  assumes "balanced t (ref_of (tn_current n) + m + cached (ts_resumptions t))" "tn_current n \<noteq> None \<longrightarrow> tn_ssl n"
  shows "balanced (release_ssl n t) (m + cached (ts_resumptions (release_ssl n t)))"
proof (cases "tn_ssl n")
  case False
  then show ?thesis using assms by (simp add: release_ssl_def)
next
  case True
  have "balanced (cache_resumption a (tn_current n) p t)
      (ref_of (tn_current n) + (m + cached (ts_resumptions (cache_resumption a (tn_current n) p t))))" for a p
    using cache_resumption_balanced [OF assms(1)] by (simp add: add.assoc)
  from session_free_balanced [OF this] session_free_balanced [of t "tn_current n" "m + cached (ts_resumptions t)"] assms(1)
  show ?thesis using True by (simp add: release_ssl_def add.assoc)
qed

lemma tls_session_init_balanced:
  assumes "tls_session_init new_ok set_ok host_ok configure_ok name resume early n t = (ok, early', n', t')"
    "balanced t (ref_of resume + m)"
  shows "balanced t' (ref_of (tn_current n') + m)" "ts_resumptions t' = ts_resumptions t" "ts_tokens t' = ts_tokens t"
    "tn_current n' \<noteq> None \<longrightarrow> tn_ssl n'"
proof -
  have up: "balanced (session_free resume (session_up s t)) (add_mset s m)" if "resume = Some s" for s
    using session_free_balanced [of "session_up s t" resume "add_mset s m"] session_up_balanced [OF assms(2), of s] that
    by (simp add: ac_simps)
  have free: "balanced (session_free resume t) m" by (rule session_free_balanced [OF assms(2)])
  show "balanced t' (ref_of (tn_current n') + m)"
    using assms up free by (auto simp: tls_session_init_def Let_def split: if_splits option.splits)
  show "ts_resumptions t' = ts_resumptions t" "ts_tokens t' = ts_tokens t" "tn_current n' \<noteq> None \<longrightarrow> tn_ssl n'"
    using assms(1) by (auto simp: tls_session_init_def Let_def split: if_splits option.splits)
qed

subsection \<open>Connections sharing a context\<close>

text \<open>The connections of an engine call the context under its mutex, one call a step.  Beside the context and the
  sessions the system keeps the references \<^verbatim>\<open>acquire_resumption\<close> has handed out, those of \<^verbatim>\<open>SSL\<close> objects that
  were overwritten, and what the caches were given, the latest first.\<close>

record tls_run =
  tr_tls :: tls_state
  tr_sessions :: "tls_session list"
  tr_acquired :: "nat list"
  tr_lost :: "nat list"
  tr_cached :: "(string \<times> cached_resumption) list"
  tr_tokens :: "((string \<times> nat \<times> int) \<times> bytes) list"

definition tls_start :: "tls_run \<Rightarrow> bool" where
  "tls_start r \<longleftrightarrow> r = \<lparr>tr_tls = new_tls_state, tr_sessions = [], tr_acquired = [], tr_lost = [], tr_cached = [], tr_tokens = []\<rparr>"

datatype tls_action =
    A_acquire string
  | A_create
  | A_init nat "nat option"
  | A_ticket nat nat
  | A_params nat bytes
  | A_assign nat nat
  | A_destroy nat
  | A_token string nat int bytes

definition optional :: "'a option \<Rightarrow> 'a list" where
  "optional x = (case x of None \<Rightarrow> [] | Some a \<Rightarrow> [a])"

inductive tls_trans :: "tls_run \<Rightarrow> tls_action \<Rightarrow> tls_run \<Rightarrow> bool" where
  acquire: "acquire_resumption up_ref_ok early name (tr_tls r) = (res, t) \<Longrightarrow>
     tls_trans r (A_acquire name) (r\<lparr>tr_tls := t, tr_acquired := optional (rs_session res) @ tr_acquired r\<rparr>)"
| create: "tls_trans r A_create (r\<lparr>tr_sessions := tr_sessions r @ [new_tls_session]\<rparr>)"
| init: "i < length (tr_sessions r) \<Longrightarrow> set (optional resume) \<subseteq> set (tr_acquired r) \<Longrightarrow>
     tls_session_init new_ok set_ok host_ok configure_ok name resume early (tr_sessions r ! i) (tr_tls r) = (ok, early', n, t) \<Longrightarrow>
     tls_trans r (A_init i resume)
       (r\<lparr>tr_tls := t, tr_sessions := (tr_sessions r)[i := n],
          tr_acquired := (case resume of None \<Rightarrow> tr_acquired r | Some s \<Rightarrow> remove1 s (tr_acquired r)),
          tr_lost := optional (tn_current (tr_sessions r ! i)) @ tr_lost r\<rparr>)"
| ticket: "i < length (tr_sessions r) \<Longrightarrow> tn_ssl (tr_sessions r ! i) \<Longrightarrow> ts_refs (tr_tls r) s = 0 \<Longrightarrow>
     tls_trans r (A_ticket i s)
       (r\<lparr>tr_tls := session_free (tn_current (tr_sessions r ! i)) (session_up s (tr_tls r)),
          tr_sessions := (tr_sessions r)[i := (tr_sessions r ! i)\<lparr>tn_current := Some s\<rparr>]\<rparr>)"
| params: "i < length (tr_sessions r) \<Longrightarrow>
     tls_trans r (A_params i p)
       (r\<lparr>tr_sessions := (tr_sessions r)[i := set_resumption_transport_params p (tr_sessions r ! i)]\<rparr>)"
| assign: "i < length (tr_sessions r) \<Longrightarrow> j < length (tr_sessions r) \<Longrightarrow> i \<noteq> j \<Longrightarrow>
     tls_session_assign False (tr_sessions r ! i) (tr_sessions r ! j) (tr_tls r) = (moved, rest, t) \<Longrightarrow>
     tls_trans r (A_assign i j)
       (r\<lparr>tr_tls := t, tr_cached := released (tr_sessions r ! i) @ tr_cached r,
          tr_sessions := (tr_sessions r)[i := moved, j := rest]\<rparr>)"
| destroy: "i < length (tr_sessions r) \<Longrightarrow>
     tls_trans r (A_destroy i)
       (r\<lparr>tr_tls := tls_session_destroy (tr_sessions r ! i) (tr_tls r),
          tr_cached := released (tr_sessions r ! i) @ tr_cached r, tr_sessions := (tr_sessions r)[i := new_tls_session]\<rparr>)"
| token: "tls_trans r (A_token name network family token)
       (r\<lparr>tr_tls := cache_new_token name network family token (tr_tls r),
          tr_tokens := (if name = '''' \<or> token = [] \<or> length token > max_new_token_bytes then []
                        else [((name, network, family), token)]) @ tr_tokens r\<rparr>)"

inductive_cases tls_trans_cases: "tls_trans r a r'"

definition owners :: "tls_run \<Rightarrow> nat multiset" where
  "owners r = mset (tr_acquired r) + held (tr_sessions r) + mset (tr_lost r)"

definition token_map :: "tls_run \<Rightarrow> bool" where
  "token_map r \<longleftrightarrow>
     (\<forall>n h f. map_of (ts_tokens (tr_tls r)) (new_token_key n h f) = map_of (tr_tokens r) (n, h, f)) \<and>
     (\<forall>x\<in>set (tr_tokens r). snd x \<noteq> [] \<and> length (snd x) \<le> max_new_token_bytes)"

definition tls_ok :: "tls_run \<Rightarrow> bool" where
  "tls_ok r \<longleftrightarrow>
     balanced (tr_tls r) (owners r + cached (ts_resumptions (tr_tls r))) \<and>
     (\<forall>n\<in>set (tr_sessions r). tn_current n \<noteq> None \<longrightarrow> tn_ssl n) \<and>
     map_of (ts_resumptions (tr_tls r)) = map_of (tr_cached r) \<and> token_map r"

lemma held_update':
  assumes "i < length ns"
  obtains rest where "held ns = ref_of (tn_current (ns ! i)) + rest" "\<And>n. held (ns[i := n]) = ref_of (tn_current n) + rest"
proof -
  have ns: "ns = take i ns @ ns ! i # drop (Suc i) ns" by (rule id_take_nth_drop [OF assms])
  have "held ns = ref_of (tn_current (ns ! i)) + (held (take i ns) + held (drop (Suc i) ns))"
    by (subst ns) (simp only: held_append ac_simps)
  moreover have "held (ns[i := n]) = ref_of (tn_current n) + (held (take i ns) + held (drop (Suc i) ns))" for n
    by (simp add: upd_conv_take_nth_drop [OF assms] ac_simps)
  ultimately show ?thesis using that by blast
qed

lemma mset_optional [simp]: "mset (optional x) = ref_of x"
  by (cases x) (simp_all add: optional_def)

lemma acquire_resumption_facts:
  assumes "acquire_resumption up_ref_ok early name t = (res, t')"
  shows "balanced t m \<Longrightarrow> balanced t' (ref_of (rs_session res) + m)" "ts_resumptions t' = ts_resumptions t" "ts_tokens t' = ts_tokens t"
  using assms session_up_balanced
  by (auto simp: acquire_resumption_def no_resumption_def split: option.splits if_splits)

lemma set_update_current:
  assumes "\<forall>n\<in>set ns. P n" "P n"
  shows "\<forall>n\<in>set (ns[i := n]). P n"
  using assms set_update_subset_insert [of ns i n] by auto

lemma ticket_ok:
  assumes "tls_ok r" "i < length (tr_sessions r)" "tn_ssl (tr_sessions r ! i)"
  shows "tls_ok (r\<lparr>tr_tls := session_free (tn_current (tr_sessions r ! i)) (session_up s (tr_tls r)),
          tr_sessions := (tr_sessions r)[i := (tr_sessions r ! i)\<lparr>tn_current := Some s\<rparr>]\<rparr>)"
proof -
  obtain rest where h: "held (tr_sessions r) = ref_of (tn_current (tr_sessions r ! i)) + rest"
    "\<And>n. held ((tr_sessions r)[i := n]) = ref_of (tn_current n) + rest"
    using held_update' [OF assms(2)] by blast
  have "balanced (session_up s (tr_tls r)) (add_mset s (owners r + cached (ts_resumptions (tr_tls r))))"
    using assms(1) by (intro session_up_balanced) (simp add: tls_ok_def)
  then have "balanced (session_free (tn_current (tr_sessions r ! i)) (session_up s (tr_tls r)))
      (add_mset s (mset (tr_acquired r) + rest + mset (tr_lost r) + cached (ts_resumptions (tr_tls r))))"
    by (intro session_free_balanced) (simp add: owners_def h(1) ac_simps)
  moreover have "\<forall>n\<in>set ((tr_sessions r)[i := (tr_sessions r ! i)\<lparr>tn_current := Some s\<rparr>]). tn_current n \<noteq> None \<longrightarrow> tn_ssl n"
    using assms(1,3) by (intro set_update_current) (auto simp: tls_ok_def)
  ultimately show ?thesis
    using assms(1) by (simp add: tls_ok_def owners_def h(2) token_map_def ac_simps)
qed

lemma init_ok:
  assumes "tls_ok r" "i < length (tr_sessions r)" "set (optional resume) \<subseteq> set (tr_acquired r)"
    "tls_session_init new_ok set_ok host_ok configure_ok name resume early (tr_sessions r ! i) (tr_tls r) = (ok, early', n, t)"
  shows "tls_ok (r\<lparr>tr_tls := t, tr_sessions := (tr_sessions r)[i := n],
          tr_acquired := (case resume of None \<Rightarrow> tr_acquired r | Some s \<Rightarrow> remove1 s (tr_acquired r)),
          tr_lost := optional (tn_current (tr_sessions r ! i)) @ tr_lost r\<rparr>)"
proof -
  let ?rest = "case resume of None \<Rightarrow> tr_acquired r | Some s \<Rightarrow> remove1 s (tr_acquired r)"
  obtain rest where h: "held (tr_sessions r) = ref_of (tn_current (tr_sessions r ! i)) + rest"
    "\<And>n. held ((tr_sessions r)[i := n]) = ref_of (tn_current n) + rest"
    using held_update' [OF assms(2)] by blast
  have acq: "mset (tr_acquired r) = ref_of resume + mset ?rest"
    using assms(3) by (cases resume) (auto simp: optional_def)
  have "balanced (tr_tls r) (ref_of resume + (mset ?rest + held (tr_sessions r) + mset (tr_lost r) + cached (ts_resumptions (tr_tls r))))"
    using assms(1) by (simp add: tls_ok_def owners_def acq ac_simps)
  from tls_session_init_balanced [OF assms(4) this] show ?thesis
    using assms(1) set_update_current [of "tr_sessions r" "\<lambda>n. tn_current n \<noteq> None \<longrightarrow> tn_ssl n" n]
    by (simp add: tls_ok_def owners_def h token_map_def ac_simps)
qed

text \<open>Releasing the session \<open>i\<close> and putting another without a ticket of its own into its place.\<close>

lemma release_step:
  assumes "tls_ok r" "i < length (tr_sessions r)" "n = tr_sessions r ! i" "\<not> tn_ssl n'" "tn_current n' = None"
  shows "tls_ok (r\<lparr>tr_tls := release_ssl n (tr_tls r), tr_cached := released n @ tr_cached r,
          tr_sessions := (tr_sessions r)[i := n']\<rparr>)"
proof -
  obtain rest where h: "held (tr_sessions r) = ref_of (tn_current n) + rest"
    "\<And>x. held ((tr_sessions r)[i := x]) = ref_of (tn_current x) + rest"
    using held_update' [OF assms(2)] assms(3) by blast
  have ssl: "tn_current n \<noteq> None \<longrightarrow> tn_ssl n" using assms(1-3) nth_mem by (auto simp: tls_ok_def)
  have "balanced (tr_tls r) (ref_of (tn_current n) + (mset (tr_acquired r) + rest + mset (tr_lost r)) + cached (ts_resumptions (tr_tls r)))"
    using assms(1) by (simp add: tls_ok_def owners_def h(1) ac_simps)
  note released = release_ssl_balanced [OF this ssl]
  have "tn_current m \<noteq> None \<longrightarrow> tn_ssl m" if "m \<in> set ((tr_sessions r)[i := n'])" for m
    using that assms(1,5) set_update_subset_insert [of "tr_sessions r" i n'] by (auto simp: tls_ok_def)
  then show ?thesis
    using assms(1,5) released by (simp add: tls_ok_def owners_def h(2) token_map_def release_ssl_maps ac_simps)
qed

text \<open>Moving a session to a slot that holds none.\<close>

lemma move_step:
  assumes "tls_ok r" "i < length (tr_sessions r)" "j < length (tr_sessions r)" "i \<noteq> j" "tn_current (tr_sessions r ! i) = None"
    "tls_session_move (tr_sessions r ! j) = (moved, rest)"
  shows "tls_ok (r\<lparr>tr_sessions := (tr_sessions r)[i := moved, j := rest]\<rparr>)"
proof -
  have m: "moved = tr_sessions r ! j" "tn_current rest = None" using assms(6) by (auto simp: tls_session_move_def)
  obtain x where x: "held (tr_sessions r) = x" "\<And>n. held ((tr_sessions r)[i := n]) = ref_of (tn_current n) + x"
    using held_update' [OF assms(2)] assms(5) by (metis add.left_neutral ref_of_simps(1))
  have j: "j < length ((tr_sessions r)[i := moved])" "(tr_sessions r)[i := moved] ! j = moved"
    using assms(3,4) m by simp_all
  obtain y where y: "held ((tr_sessions r)[i := moved]) = ref_of (tn_current moved) + y"
    "\<And>n. held ((tr_sessions r)[i := moved, j := n]) = ref_of (tn_current n) + y"
    using held_update' [OF j(1)] j(2) by metis
  have "held ((tr_sessions r)[i := moved, j := rest]) = held (tr_sessions r)"
    using x y m(2) by simp
  moreover have "\<forall>n\<in>set ((tr_sessions r)[i := moved, j := rest]). tn_current n \<noteq> None \<longrightarrow> tn_ssl n"
    using assms(1,3) m by (intro set_update_current) (auto simp: tls_ok_def)
  ultimately show ?thesis using assms(1) by (simp add: tls_ok_def owners_def token_map_def)
qed

lemma token_ok:
  assumes "tls_ok r"
  shows "tls_ok (r\<lparr>tr_tls := cache_new_token name network family token (tr_tls r),
          tr_tokens := (if name = '''' \<or> token = [] \<or> length token > max_new_token_bytes then []
                        else [((name, network, family), token)]) @ tr_tokens r\<rparr>)"
proof (cases "name = '''' \<or> token = [] \<or> length token > max_new_token_bytes")
  case True
  then have "cache_new_token name network family token (tr_tls r) = tr_tls r" by (auto simp: cache_new_token_def)
  then show ?thesis using assms True by (auto simp: tls_ok_def owners_def token_map_def)
next
  case False
  have "map_of (AList.update (new_token_key name network family) token (ts_tokens (tr_tls r))) (new_token_key n h f) =
      (if n = name \<and> h = network \<and> f = family then Some token else map_of (ts_tokens (tr_tls r)) (new_token_key n h f))" for n h f
    using new_token_key_inject [of n h f name network family] by (auto simp: update_conv)
  then show ?thesis
    using assms False by (auto simp: tls_ok_def owners_def token_map_def cache_new_token_def balanced_def)
qed

lemma tls_start_ok: "tls_start r \<Longrightarrow> tls_ok r"
  by (simp add: tls_start_def tls_ok_def new_tls_state_def owners_def held_def cached_def balanced_def token_map_def)

lemma tls_trans_ok:
  assumes "tls_ok r" "tls_trans r a r'"
  shows "tls_ok r'"
  using assms(2)
proof (cases rule: tls_trans.cases)
  case (acquire up_ref_ok early name res t)
  have "balanced (tr_tls r) (owners r + cached (ts_resumptions (tr_tls r)))" using assms(1) by (simp add: tls_ok_def)
  from acquire_resumption_facts [OF acquire(3)] acquire_resumption_facts(1) [OF acquire(3) this] show ?thesis
    using assms(1) by (simp add: acquire(2) tls_ok_def owners_def token_map_def ac_simps)
next
  case create
  then show ?thesis using assms(1) by (auto simp: tls_ok_def owners_def token_map_def new_tls_session_def)
next
  case init
  show ?thesis unfolding init(2) by (rule init_ok [OF assms(1) init(3-5)])
next
  case ticket
  show ?thesis unfolding ticket(2) by (rule ticket_ok [OF assms(1) ticket(3,4)])
next
  case (params i p)
  have "held ((tr_sessions r)[i := set_resumption_transport_params p (tr_sessions r ! i)]) = held (tr_sessions r)"
    using held_update [OF params(3), of "set_resumption_transport_params p (tr_sessions r ! i)"]
    by (simp add: set_resumption_transport_params_def)
  moreover have "\<forall>n\<in>set ((tr_sessions r)[i := set_resumption_transport_params p (tr_sessions r ! i)]). tn_current n \<noteq> None \<longrightarrow> tn_ssl n"
    using assms(1) nth_mem [OF params(3)]
    by (intro set_update_current) (auto simp: tls_ok_def set_resumption_transport_params_def)
  ultimately show ?thesis using assms(1) by (simp add: params(2) tls_ok_def owners_def token_map_def)
next
  case (assign i j moved rest t)
  let ?n = "(tr_sessions r ! i)\<lparr>tn_ssl := False, tn_current := None\<rparr>"
  let ?r1 = "r\<lparr>tr_tls := release_ssl (tr_sessions r ! i) (tr_tls r),
          tr_cached := released (tr_sessions r ! i) @ tr_cached r, tr_sessions := (tr_sessions r)[i := ?n]\<rparr>"
  have "tls_ok ?r1" by (rule release_step [OF assms(1) assign(3) refl]) simp_all
  from move_step [OF this, of i j moved rest] show ?thesis
    using assign by (simp add: tls_session_assign_def split: prod.splits)
next
  case (destroy i)
  then show ?thesis
    using release_step [OF assms(1) destroy(3) refl, of new_tls_session]
    by (simp add: tls_session_destroy_def new_tls_session_def)
next
  case token
  show ?thesis unfolding token(2) by (rule token_ok [OF assms(1)])
qed

interpretation tls_context: transition_system tls_start tls_trans tls_ok
  by unfold_locales (auto intro: tls_start_ok tls_trans_ok)

subsection \<open>What the caches hand out\<close>

text \<open>Property C26: however the connections of an engine share its TLS context, a ticket is never used after it
  was freed and never leaked by the caches: its reference count is exactly the number of references held by callers, by
  sessions, by the cache and by \<^verbatim>\<open>SSL\<close> objects that a second \<^verbatim>\<open>init\<close> has overwritten.  A connection is handed a
  ticket only together with the transport parameters it was cached with, by the latest session of that server
  that was destroyed.  And an address-validation token is handed out only for the server, network and address
  family it was cached for, is the latest one, and has at most 4096 bytes.\<close>

theorem cached_credentials_are_sound:
  assumes "reachable tls_start tls_trans r"
  shows "ts_refs (tr_tls r) s =
      count_list (tr_acquired r) s + count (held (tr_sessions r)) s + count (cached (ts_resumptions (tr_tls r))) s +
      count_list (tr_lost r) s \<and>
    (let (res, t) = acquire_resumption up_ref_ok early name (tr_tls r)
     in (case rs_session res of
           None \<Rightarrow> res = no_resumption \<and> t = tr_tls r
         | Some x \<Rightarrow> map_of (tr_cached r) name = Some \<lparr>cr_session = Some x, cr_params = rs_params res\<rparr> \<and>
             0 < ts_refs (tr_tls r) x \<and> ts_refs t x = ts_refs (tr_tls r) x + 1)) \<and>
    acquire_new_token name network family (tr_tls r) =
      (case map_of (tr_tokens r) (name, network, family) of None \<Rightarrow> [] | Some token \<Rightarrow> token) \<and>
    length (acquire_new_token name network family (tr_tls r)) \<le> 4096"
proof -
  have ok: "tls_ok r" by (rule tls_context.reachable_inv [OF assms])
  then have refs: "ts_refs (tr_tls r) x = count (owners r + cached (ts_resumptions (tr_tls r))) x" for x
    by (simp add: tls_ok_def balanced_def)
  have in_cache: "x \<in># cached cs" if "map_of cs n = Some c" "cr_session c = Some x" for cs n c and x :: nat
    using that by (induction cs) (auto simp: cached_def split: if_splits)
  have "case rs_session res of
           None \<Rightarrow> res = no_resumption \<and> t = tr_tls r
         | Some x \<Rightarrow> map_of (tr_cached r) name = Some \<lparr>cr_session = Some x, cr_params = rs_params res\<rparr> \<and>
             0 < ts_refs (tr_tls r) x \<and> ts_refs t x = ts_refs (tr_tls r) x + 1"
    if "acquire_resumption up_ref_ok early name (tr_tls r) = (res, t)" for res t
    using that ok refs in_cache
    by (auto simp: acquire_resumption_def no_resumption_def session_up_def tls_ok_def split: option.splits if_splits)
  moreover have "length (case map_of (tr_tokens r) (name, network, family) of None \<Rightarrow> [] | Some token \<Rightarrow> token) \<le> 4096"
    using ok map_of_SomeD [of "tr_tokens r" "(name, network, family)"]
    by (fastforce simp: tls_ok_def token_map_def max_new_token_bytes_def split: option.split)
  ultimately show ?thesis
    using ok refs by (simp add: owners_def acquire_new_token_def tls_ok_def token_map_def count_mset split: prod.split)
qed

text \<open>Where every connection calls \<^verbatim>\<open>init\<close> once, no reference is lost; a second call on the same session, which
  the sequential retry of another endpoint makes, leaks the first \<^verbatim>\<open>SSL\<close> object with its ticket.\<close>

lemma second_init_leaks:
  assumes "tls_trans r (A_init i resume) r'"
  shows "tr_lost r' = tr_lost r \<longleftrightarrow> tn_current (tr_sessions r ! i) = None"
  using assms by (auto simp: optional_def elim!: tls_trans_cases split: option.splits)

lemma only_init_leaks: "tls_trans r a r' \<Longrightarrow> \<forall>i resume. a \<noteq> A_init i resume \<Longrightarrow> tr_lost r' = tr_lost r"
  by (auto elim!: tls_trans_cases)

definition demo_fresh :: tls_run where
  "demo_fresh = \<lparr>tr_tls = new_tls_state, tr_sessions = [], tr_acquired = [], tr_lost = [], tr_cached = [], tr_tokens = []\<rparr>"

definition demo_open :: tls_run where
  "demo_open = demo_fresh\<lparr>tr_sessions := [new_tls_session\<lparr>tn_ssl := True, tn_context := True, tn_server_name := ''h''\<rparr>]\<rparr>"

definition demo_ticket :: tls_run where
  "demo_ticket = demo_open\<lparr>tr_tls := session_up 5 new_tls_state,
     tr_sessions := [new_tls_session\<lparr>tn_ssl := True, tn_context := True, tn_server_name := ''h'', tn_current := Some 5\<rparr>]\<rparr>"

definition demo_closed :: tls_run where
  "demo_closed = demo_ticket
     \<lparr>tr_tls := release_ssl (hd (tr_sessions demo_ticket)) (tr_tls demo_ticket),
      tr_cached := [(''h'', \<lparr>cr_session = Some 5, cr_params = []\<rparr>)], tr_sessions := [new_tls_session]\<rparr>"

lemma demo_closed_reachable: "reachable tls_start tls_trans demo_closed"
proof -
  have "reachable tls_start tls_trans demo_fresh"
    by (rule reachable_start) (simp add: tls_start_def demo_fresh_def)
  from reachable_step [OF this tls_trans.create]
  have 1: "reachable tls_start tls_trans (demo_fresh\<lparr>tr_sessions := [new_tls_session]\<rparr>)"
    by (simp add: demo_fresh_def)
  have 2: "tls_trans (demo_fresh\<lparr>tr_sessions := [new_tls_session]\<rparr>) (A_init 0 None) demo_open"
    using tls_trans.init [of 0 "demo_fresh\<lparr>tr_sessions := [new_tls_session]\<rparr>" None True True True True "''h''" False]
    by (auto simp: demo_fresh_def demo_open_def tls_session_init_def new_tls_session_def optional_def Let_def)
  have 3: "tls_trans demo_open (A_ticket 0 5) demo_ticket"
    using tls_trans.ticket [of 0 demo_open 5]
    by (auto simp: demo_fresh_def demo_open_def demo_ticket_def new_tls_session_def new_tls_state_def session_free_def session_up_def)
  have 4: "tls_trans demo_ticket (A_destroy 0) demo_closed"
    using tls_trans.destroy [of 0 demo_ticket]
    by (auto simp: demo_closed_def demo_ticket_def demo_open_def demo_fresh_def tls_session_destroy_def released_def caches_def new_tls_session_def)
  show ?thesis by (rule reachable_step [OF reachable_step [OF reachable_step [OF 1 2] 3] 4])
qed

theorem cached_credentials_are_sound_witness:
  "ts_refs (tr_tls demo_closed) 5 = 1 \<and> acquire_new_token ''h'' 0 2 (tr_tls demo_closed) = []"
proof -
  have "count (cached (ts_resumptions (tr_tls demo_closed))) 5 = 1" "held (tr_sessions demo_closed) = {#}"
    "tr_acquired demo_closed = []" "tr_lost demo_closed = []" "tr_tokens demo_closed = []"
    by (simp_all add: demo_closed_def demo_ticket_def demo_open_def demo_fresh_def release_ssl_def cache_resumption_def
        new_tls_session_def new_tls_state_def session_up_def session_free_def cached_def Let_def)
  then show ?thesis
    using cached_credentials_are_sound [OF demo_closed_reachable, of 5 True "\<lambda>_. False" "''h''" 0 2] by simp
qed

end
