(* ===== verification/Quic_Setup.thy ===== *)
theory Quic_Setup
  imports Tls_Sessions Quic_System Udp_Socket
begin

text \<open>
  Setting up a connection (\<^verbatim>\<open>src/core/quic_client.cc\<close>): the socket, the parameters ngtcp2 is given, the
  address-validation token, the ticket with its 0-RTT parameters and the TLS session, for the sequential path
  (\<^verbatim>\<open>setup_connection\<close>) and for an attempt of the race (\<^verbatim>\<open>start_handshake_candidate\<close>).  What the libraries answer is a
  record of observations.
\<close>

subsection \<open>Randomness\<close>

text \<open>\<^verbatim>\<open>rand_cb\<close>: the bytes written and whether the failure flag is raised; \<open>rnd\<close> is the answer of \<^verbatim>\<open>RAND_bytes\<close>.\<close>

definition rand_cb :: "bytes option \<Rightarrow> nat \<Rightarrow> bytes \<times> bool" where
  "rand_cb rnd len =
     (if len > 2147483647 then (replicate len 0, True)
      else case rnd of None \<Rightarrow> (replicate len 0, True) | Some bs \<Rightarrow> (bs, False))"

text \<open>The stateless reset token of a connection id: a keyed hash (of ngtcp2) under a secret drawn once.  An empty secret is
  one not drawn yet.\<close>

definition generate_reset_token ::
  "(bytes \<Rightarrow> bytes \<Rightarrow> bytes) \<Rightarrow> bytes option \<Rightarrow> bytes \<Rightarrow> bytes \<Rightarrow> bytes option \<times> bytes" where
  "generate_reset_token hash rnd cid secret =
     (if secret \<noteq> [] then (Some (hash secret cid), secret)
      else case rnd of None \<Rightarrow> (None, []) | Some fresh \<Rightarrow> (Some (hash fresh cid), fresh))"

text \<open>A new connection id with its token; \<open>None\<close> is the callback's failure.\<close>

definition get_new_connection_id ::
  "(bytes \<Rightarrow> bytes \<Rightarrow> bytes) \<Rightarrow> bytes option \<Rightarrow> bytes option \<Rightarrow> bytes \<Rightarrow> (bytes \<times> bytes) option \<times> bytes" where
  "get_new_connection_id hash cid_rnd rnd secret =
     (case cid_rnd of
        None \<Rightarrow> (None, secret)
      | Some cid \<Rightarrow>
          (case generate_reset_token hash rnd cid secret of
             (token, secret') \<Rightarrow> (map_option (\<lambda>t. (cid, t)) token, secret')))"

subsection \<open>Parameters\<close>

record conn_params =
  cp_initial_ts :: nat
  cp_handshake_timeout :: nat
  cp_qlog :: bool
  cp_stream_window :: nat
  cp_uni_window :: nat
  cp_connection_window :: nat
  cp_streams_bidi :: nat
  cp_streams_uni :: nat
  cp_idle_timeout :: nat
  cp_active_cids :: nat
  cp_token :: "bytes option"
  cp_version :: nat

record client_config =
  ccf_host :: string
  ccf_network :: nat
  ccf_0rtt :: bool
  ccf_version :: nat
  ccf_timeouts :: quic_timeouts

definition configure_receive_windows :: "conn_params \<Rightarrow> conn_params" where
  "configure_receive_windows p =
     p\<lparr>cp_stream_window := receive_stream_limit, cp_uni_window := receive_stream_limit,
       cp_connection_window := receive_connection_limit\<rparr>"

text \<open>\<open>qlog\<close>: a file could be opened or there is a sink; version 1 is \<^verbatim>\<open>NGTCP2_PROTO_VER_V1\<close>.\<close>

definition connection_params :: "client_config \<Rightarrow> nat \<Rightarrow> bool \<Rightarrow> bytes \<Rightarrow> conn_params" where
  "connection_params cfg now qlog token =
     configure_receive_windows
       \<lparr>cp_initial_ts = now,
        cp_handshake_timeout = milliseconds_to_ns_saturated (tm_handshake (ccf_timeouts cfg)),
        cp_qlog = qlog, cp_stream_window = 0, cp_uni_window = 0, cp_connection_window = 0, cp_streams_bidi = 16,
        cp_streams_uni = 3, cp_idle_timeout = milliseconds_to_ns_saturated (tm_idle (ccf_timeouts cfg)), cp_active_cids = 4,
        cp_token = (if token = [] then None else Some token),
        cp_version = (if ccf_version cfg \<noteq> 0 then ccf_version cfg else 1)\<rparr>"

subsection \<open>Early data\<close>

definition configure_early_data :: "client_config \<Rightarrow> (bytes \<Rightarrow> bool) \<Rightarrow> resumption_state \<Rightarrow> bool" where
  "configure_early_data cfg params_ok res \<longleftrightarrow>
     ccf_0rtt cfg \<and> rs_session res \<noteq> None \<and> rs_params res \<noteq> [] \<and> rs_early_data_capable res \<and> params_ok (rs_params res)"

text \<open>\<open>encoded\<close> is what \<^verbatim>\<open>ngtcp2_conn_encode_0rtt_transport_params2\<close> gives.\<close>

definition cache_0rtt_transport_params :: "bool \<Rightarrow> bytes option \<Rightarrow> tls_session \<Rightarrow> tls_session" where
  "cache_0rtt_transport_params has_conn encoded n =
     (if \<not> has_conn then n
      else case encoded of None \<Rightarrow> n | Some ps \<Rightarrow> set_resumption_transport_params ps n)"

subsection \<open>The sequential path\<close>

record setup_env =
  se_random :: bool
  se_now :: nat
  se_qlog :: bool
  se_new_ok :: bool
  se_random_failed :: bool
  se_up_ref :: bool
  se_early_capable :: "nat \<Rightarrow> bool"
  se_params_ok :: "bytes \<Rightarrow> bool"
  se_ssl_new :: bool
  se_ssl_set :: bool
  se_ssl_host :: bool
  se_ssl_configure :: bool
  se_codec_ok :: bool
  se_opens :: "nat \<Rightarrow> open_result"

text \<open>The connection with the 0-RTT parameters installed in it and whether it was told that early data is rejected.\<close>

record live_conn =
  lv_params :: conn_params
  lv_0rtt :: "bytes option"
  lv_rejected :: bool

record setup_state =
  su_socket :: udp_socket
  su_peer :: "endpoint option"
  su_conn :: "live_conn option"
  su_lost_conns :: "live_conn list"
  su_tls :: tls_state
  su_session :: tls_session
  su_jobs :: quic_jobs
  su_error :: kat_error

text \<open>\<^verbatim>\<open>connect_to_endpoint\<close>\<close>

definition connect_to_endpoint :: "bool \<Rightarrow> bool \<Rightarrow> bool \<Rightarrow> endpoint \<Rightarrow> setup_state \<Rightarrow> bool \<times> setup_state" where
  "connect_to_endpoint open_ok bound_ok connect_ok e s =
     (case open_socket (ep_family e) open_ok bound_ok (su_socket s) of
        (False, sock) \<Rightarrow> (False, s\<lparr>su_socket := sock\<rparr>)
      | (True, sock) \<Rightarrow>
          (case connect_socket (ep_family e) connect_ok sock of
             (False, sock1) \<Rightarrow> (False, s\<lparr>su_socket := close_socket sock1\<rparr>)
           | (True, sock1) \<Rightarrow> (True, s\<lparr>su_socket := sock1, su_peer := Some e\<rparr>)))"

text \<open>A connection of ngtcp2 whose pointer is overwritten is lost.\<close>

definition new_conn :: "conn_params \<Rightarrow> setup_state \<Rightarrow> setup_state" where
  "new_conn p s =
     s\<lparr>su_conn := Some \<lparr>lv_params = p, lv_0rtt = None, lv_rejected = False\<rparr>,
       su_lost_conns := optional (su_conn s) @ su_lost_conns s\<rparr>"

definition install_0rtt :: "bytes \<Rightarrow> bool \<Rightarrow> setup_state \<Rightarrow> setup_state" where
  "install_0rtt params rejected s = s\<lparr>su_conn := map_option (\<lambda>c. c\<lparr>lv_0rtt := Some params, lv_rejected := rejected\<rparr>) (su_conn s)\<rparr>"

definition setup_connection :: "client_config \<Rightarrow> int \<Rightarrow> setup_env \<Rightarrow> setup_state \<Rightarrow> bool \<times> job_note list \<times> setup_state" where
  "setup_connection cfg family env s =
     (if \<not> se_random env then (False, [], s\<lparr>su_error := ERR_QUIC\<rparr>)
      else
        let token = acquire_new_token (ccf_host cfg) (ccf_network cfg) family (su_tls s);
            p = connection_params cfg (se_now env) (se_qlog env) token
        in if \<not> se_new_ok env then (False, [], s)
           else
             let s1 = new_conn p s
             in if se_random_failed env then (False, [], s1)
                else
                  let (res, t1) = acquire_resumption (se_up_ref env) (se_early_capable env) (ccf_host cfg) (su_tls s1);
                      installed = configure_early_data cfg (se_params_ok env) res;
                      (ok, early, n, t2) =
                        tls_session_init (se_ssl_new env) (se_ssl_set env) (se_ssl_host env) (se_ssl_configure env)
                          (ccf_host cfg) (rs_session res) installed (su_session s1) t1;
                      s2 = s1\<lparr>su_tls := t2, su_session := n, su_jobs := (su_jobs s1)\<lparr>qj_early := early\<rparr>\<rparr>
                  in if \<not> ok then (False, [], if installed then install_0rtt (rs_params res) False s2 else s2)
                     else
                       let s3 = (if installed then install_0rtt (rs_params res) (\<not> early) s2 else s2);
                           (notes, q) = start_session early (se_codec_ok env) (se_opens env) (su_jobs s3)
                       in (True, notes, s3\<lparr>su_jobs := q\<rparr>))"

subsection \<open>An attempt of the race\<close>

text \<open>\<^verbatim>\<open>start_handshake_candidate\<close>: the candidate's connection and TLS session.  Where it fails the candidate is destroyed, and
  its TLS session with it.\<close>

definition start_handshake_candidate ::
  "client_config \<Rightarrow> bool \<Rightarrow> bool \<Rightarrow> bool \<Rightarrow> endpoint \<Rightarrow> setup_env \<Rightarrow> tls_state \<Rightarrow> (live_conn \<times> tls_session) option \<times> tls_state" where
  "start_handshake_candidate cfg open_ok bound_ok connect_ok e env t =
     (if \<not> fst (open_socket (ep_family e) open_ok bound_ok new_socket) then (None, t)
      else if \<not> fst (connect_socket (ep_family e) connect_ok (snd (open_socket (ep_family e) open_ok bound_ok new_socket))) then (None, t)
      else if \<not> se_random env then (None, t)
      else
        let p = connection_params cfg (se_now env) (se_qlog env)
                  (acquire_new_token (ccf_host cfg) (ccf_network cfg) (ep_family e) t)
        in if \<not> se_new_ok env \<or> se_random_failed env then (None, t)
           else
             let (res, t1) = acquire_resumption (se_up_ref env) (se_early_capable env) (ccf_host cfg) t;
                 installed = configure_early_data cfg (se_params_ok env) res;
                 (ok, early, n, t2) =
                   tls_session_init (se_ssl_new env) (se_ssl_set env) (se_ssl_host env) (se_ssl_configure env)
                     (ccf_host cfg) (rs_session res) installed new_tls_session t1
             in if \<not> ok then (None, tls_session_destroy n t2)
                else (Some (\<lparr>lv_params = p, lv_0rtt = (if installed then Some (rs_params res) else None),
                             lv_rejected = installed \<and> \<not> early\<rparr>, n), t2))"

subsection \<open>Tokens\<close>

text \<open>Every reset token of a connection is made with the same secret: once drawn it never changes, and without one no token is
  given out.\<close>

lemma reset_secret_is_kept:
  assumes "generate_reset_token hash rnd cid secret = (token, secret')"
  shows "(secret \<noteq> [] \<longrightarrow> secret' = secret) \<and> (token \<noteq> None \<longrightarrow> token = Some (hash secret' cid)) \<and>
    (token = None \<longrightarrow> secret' = [])"
  using assms by (auto simp: generate_reset_token_def split: if_splits option.splits)

lemma connection_ids_match_tokens:
  assumes "get_new_connection_id hash cid_rnd rnd secret = (Some (cid, token), secret')"
  shows "cid_rnd = Some cid \<and> token = hash secret' cid \<and> (secret \<noteq> [] \<longrightarrow> secret' = secret)"
  using assms reset_secret_is_kept [of hash rnd _ secret]
  by (auto simp: get_new_connection_id_def split: option.splits prod.splits) blast+

subsection \<open>Tickets and early data\<close>

text \<open>What both paths share: taking the ticket, deciding on early data, making the TLS session.\<close>

lemma resumption_parts:
  assumes "acquire_resumption up early_capable host t = (res, t1)"
    "tls_session_init new_ok set_ok host_ok configure_ok host (rs_session res) (configure_early_data cfg params_ok res) n t1 = (ok, early, n', t2)"
  shows "balanced t (m + cached (ts_resumptions t)) \<Longrightarrow> balanced t2 (ref_of (tn_current n') + m + cached (ts_resumptions t2))"
    "ts_tokens t2 = ts_tokens t" "ts_resumptions t2 = ts_resumptions t" "tn_current n' \<noteq> None \<longrightarrow> tn_ssl n'"
    "ok \<Longrightarrow> early \<Longrightarrow> configure_early_data cfg params_ok res \<and> tn_current n' = rs_session res"
    "configure_early_data cfg params_ok res \<Longrightarrow>
       \<exists>x. map_of (ts_resumptions t) host = Some \<lparr>cr_session = Some x, cr_params = rs_params res\<rparr> \<and> rs_session res = Some x \<and>
           early_capable x \<and> rs_params res \<noteq> [] \<and> params_ok (rs_params res) \<and> ccf_0rtt cfg"
proof -
  note a = acquire_resumption_facts [OF assms(1)]
  show "balanced t2 (ref_of (tn_current n') + m + cached (ts_resumptions t2))" if "balanced t (m + cached (ts_resumptions t))"
    using tls_session_init_balanced [OF assms(2) a(1) [OF that]] a(2) by (simp add: ac_simps)
  show "ts_tokens t2 = ts_tokens t" "ts_resumptions t2 = ts_resumptions t" "tn_current n' \<noteq> None \<longrightarrow> tn_ssl n'"
    using assms(2) a(2,3) by (auto simp: tls_session_init_def Let_def split: if_splits option.splits)
  show "configure_early_data cfg params_ok res \<and> tn_current n' = rs_session res" if "ok" "early"
    using assms(2) that by (auto simp: tls_session_init_def Let_def split: if_splits option.splits)
  show "\<exists>x. map_of (ts_resumptions t) host = Some \<lparr>cr_session = Some x, cr_params = rs_params res\<rparr> \<and> rs_session res = Some x \<and>
           early_capable x \<and> rs_params res \<noteq> [] \<and> params_ok (rs_params res) \<and> ccf_0rtt cfg"
    if "configure_early_data cfg params_ok res"
    using assms(1) that by (auto simp: configure_early_data_def acquire_resumption_def no_resumption_def split: option.splits if_splits)
qed

text \<open>A connection as the two paths leave it: the token is the one cached for this host, network and address family, and
  early data goes with the ticket that TLS resumes, its own parameters, and the user's consent.\<close>

definition conn_sound :: "client_config \<Rightarrow> int \<Rightarrow> setup_env \<Rightarrow> tls_state \<Rightarrow> bool \<Rightarrow> nat option \<Rightarrow> live_conn \<Rightarrow> bool" where
  "conn_sound cfg family env t early resumed c \<longleftrightarrow>
     cp_token (lv_params c) = map_of (ts_tokens t) (new_token_key (ccf_host cfg) (ccf_network cfg) family) \<and>
     cp_stream_window (lv_params c) = 1048576 \<and> cp_uni_window (lv_params c) = 1048576 \<and>
     cp_connection_window (lv_params c) = 8388608 \<and>
     (case lv_0rtt c of
        None \<Rightarrow> \<not> early
      | Some ps \<Rightarrow> lv_rejected c = (\<not> early) \<and> ccf_0rtt cfg \<and> ps \<noteq> [] \<and> se_params_ok env ps \<and>
          (\<exists>x. map_of (ts_resumptions t) (ccf_host cfg) = Some \<lparr>cr_session = Some x, cr_params = ps\<rparr> \<and>
               se_early_capable env x \<and> (early \<longrightarrow> resumed = Some x)))"

definition tokens_nonempty :: "tls_state \<Rightarrow> bool" where
  "tokens_nonempty t \<longleftrightarrow> (\<forall>k token. map_of (ts_tokens t) k = Some token \<longrightarrow> token \<noteq> [])"

lemma connection_params_token:
  "tokens_nonempty t \<Longrightarrow>
   cp_token (connection_params cfg now qlog (acquire_new_token host network family t)) = map_of (ts_tokens t) (new_token_key host network family)"
  by (auto simp: connection_params_def configure_receive_windows_def acquire_new_token_def tokens_nonempty_def split: option.split)

lemma connection_params_windows [simp]:
  "cp_stream_window (connection_params cfg now qlog token) = 1048576" "cp_uni_window (connection_params cfg now qlog token) = 1048576"
  "cp_connection_window (connection_params cfg now qlog token) = 8388608"
  by (simp_all add: connection_params_def configure_receive_windows_def receive_stream_limit_def receive_connection_limit_def)

text \<open>Every reference to a ticket belongs to somebody: the client's TLS session, the cache, or one of the others (the sessions
  of other clients).\<close>

definition tickets_balanced :: "nat multiset \<Rightarrow> setup_state \<Rightarrow> bool" where
  "tickets_balanced others s \<longleftrightarrow>
     balanced (su_tls s) (ref_of (tn_current (su_session s)) + others + cached (ts_resumptions (su_tls s)))"

text \<open>The ticket an earlier set-up of the same client left in its TLS session, where this one gets as far as making another \<^verbatim>\<open>SSL\<close>
  object: the pointer is overwritten.\<close>

definition overwritten_ticket :: "setup_env \<Rightarrow> setup_state \<Rightarrow> nat multiset" where
  "overwritten_ticket env s =
     (if se_random env \<and> se_new_ok env \<and> \<not> se_random_failed env then ref_of (tn_current (su_session s)) else {#})"

lemma setup_balanced:
  assumes "setup_connection cfg family env s = (ok, ns, s')" "tickets_balanced others s"
  shows "tickets_balanced (others + overwritten_ticket env s) s'"
proof (cases "se_random env \<and> se_new_ok env \<and> \<not> se_random_failed env")
  case False
  then show ?thesis
    using assms by (auto simp: setup_connection_def tickets_balanced_def new_conn_def overwritten_ticket_def Let_def split: if_splits)
next
  case True
  obtain res t1 where a: "acquire_resumption (se_up_ref env) (se_early_capable env) (ccf_host cfg) (su_tls s) = (res, t1)" by fastforce
  obtain ok1 early n t2 where i: "tls_session_init (se_ssl_new env) (se_ssl_set env) (se_ssl_host env) (se_ssl_configure env)
      (ccf_host cfg) (rs_session res) (configure_early_data cfg (se_params_ok env) res) (su_session s) t1 = (ok1, early, n, t2)"
    by (metis prod_cases4)
  have s': "su_tls s' = t2" "su_session s' = n"
    using assms(1) True a i by (auto simp: setup_connection_def new_conn_def install_0rtt_def Let_def split: if_splits prod.splits)
  show ?thesis
    using resumption_parts(1) [OF a i, of "ref_of (tn_current (su_session s)) + others"] assms(2) s' True
    by (simp add: tickets_balanced_def overwritten_ticket_def ac_simps)
qed

lemma try_submit_early: "try_submit_pending opens q = (ns, q') \<Longrightarrow> qj_early q' = qj_early q"
  by (auto simp: try_submit_pending_def dest: submit_loop_keeps split: if_splits prod.splits)

lemma start_session_early: "start_session early codec_ok opens q = (ns, q') \<Longrightarrow> qj_early q' = early"
  by (auto simp: start_session_def Let_def dest: try_submit_early split: if_splits prod.splits)

text \<open>Property C24: Setting up a connection, whatever the libraries answer.  The first set-up of a client, whose TLS session holds no
  ticket, neither leaks a reference to a ticket nor drops one twice, whether it succeeds or fails at any step: every reference belongs to
  the session, the cache or somebody else, as before.  A set-up after one that left a ticket in the
  session leaks exactly that reference, where it gets as far as overwriting the \<^verbatim>\<open>SSL\<close> pointer, and nothing
  otherwise (\<open>second_init_leaks\<close>).  A
  connection that was set up presents the address-validation token cached for this host, network and address family, if
  there is one, and advertises the bounded windows.  Early data is attempted only with the user's consent and a
  ticket that is capable of it, with the transport parameters cached together with exactly that ticket, which TLS resumes;
  where the parameters were installed but TLS does not use the ticket, ngtcp2 is told that early data is rejected.  And
  what the set-up does to the jobs is a step of the connection's transition system.\<close>

theorem setup_is_sound:
  assumes "setup_connection cfg family env s = (ok, ns, s')" "tickets_balanced others s" "tokens_nonempty (su_tls s)"
    "\<not> qj_confirmed (su_jobs s)" "reachable quic_start quic_trans (su_jobs s, True)"
  shows "(tn_current (su_session s) = None \<longrightarrow> tickets_balanced others s') \<and>
    tickets_balanced (others +
      (if se_random env \<and> se_new_ok env \<and> \<not> se_random_failed env then ref_of (tn_current (su_session s)) else {#})) s' \<and>
    (ok \<longrightarrow>
       (\<exists>c. su_conn s' = Some c \<and> conn_sound cfg family env (su_tls s) (qj_early (su_jobs s')) (tn_current (su_session s')) c) \<and>
       reachable quic_start quic_trans (su_jobs s', True))"
proof (intro conjI impI)
  note B = setup_balanced [OF assms(1,2), unfolded overwritten_ticket_def]
  show "tickets_balanced (others +
      (if se_random env \<and> se_new_ok env \<and> \<not> se_random_failed env then ref_of (tn_current (su_session s)) else {#})) s'"
    by (rule B)
  show "tickets_balanced others s'" if "tn_current (su_session s) = None"
    using B that by (simp add: ref_of_def split: if_splits)
  assume ok
  obtain res t1 where a: "acquire_resumption (se_up_ref env) (se_early_capable env) (ccf_host cfg) (su_tls s) = (res, t1)" by fastforce
  obtain ok1 early n t2 where i: "tls_session_init (se_ssl_new env) (se_ssl_set env) (se_ssl_host env) (se_ssl_configure env)
      (ccf_host cfg) (rs_session res) (configure_early_data cfg (se_params_ok env) res) (su_session s) t1 = (ok1, early, n, t2)"
    by (metis prod_cases4)
  obtain n1 q1 where q: "start_session early (se_codec_ok env) (se_opens env) ((su_jobs s)\<lparr>qj_early := early\<rparr>) = (n1, q1)" by fastforce
  let ?token = "acquire_new_token (ccf_host cfg) (ccf_network cfg) family (su_tls s)"
  let ?c = "\<lparr>lv_params = connection_params cfg (se_now env) (se_qlog env) ?token,
     lv_0rtt = (if configure_early_data cfg (se_params_ok env) res then Some (rs_params res) else None),
     lv_rejected = configure_early_data cfg (se_params_ok env) res \<and> \<not> early\<rparr>"
  have s': "su_conn s' = Some ?c" "su_session s' = n" "su_jobs s' = q1" ok1
    using assms(1) \<open>ok\<close> a i q by (auto simp: setup_connection_def new_conn_def install_0rtt_def Let_def split: if_splits)
  have e: "qj_early (su_jobs s') = early" using start_session_early [OF q] s'(3) by simp
  have "conn_sound cfg family env (su_tls s) early (tn_current (su_session s')) ?c"
    using resumption_parts(5,6) [OF a i] s'(2,4) connection_params_token [OF assms(3)]
    by (auto simp: conn_sound_def)
  then show "\<exists>c. su_conn s' = Some c \<and> conn_sound cfg family env (su_tls s) (qj_early (su_jobs s')) (tn_current (su_session s')) c"
    using s'(1) e by simp
  have "start_session early (se_codec_ok env) (se_opens env) (su_jobs s) = (n1, q1)"
    using q by (simp add: start_session_def Let_def cong: if_cong)
  from reachable_step [OF assms(5) Q_session [OF assms(4) this]] show "reachable quic_start quic_trans (su_jobs s', True)"
    using s'(3) by simp
qed

text \<open>The same of an attempt of the race; one that fails gives back what it took.\<close>

lemma candidate_is_sound:
  assumes "start_handshake_candidate cfg open_ok bound_ok connect_ok e env t = (r, t')"
    "balanced t (others + cached (ts_resumptions t))" "tokens_nonempty t"
  shows "(case r of
       None \<Rightarrow> balanced t' (others + cached (ts_resumptions t'))
     | Some (c, n) \<Rightarrow> balanced t' (ref_of (tn_current n) + others + cached (ts_resumptions t')) \<and>
         conn_sound cfg (ep_family e) env t (lv_0rtt c \<noteq> None \<and> \<not> lv_rejected c) (tn_current n) c)"
proof -
  obtain res t1 where a: "acquire_resumption (se_up_ref env) (se_early_capable env) (ccf_host cfg) t = (res, t1)" by fastforce
  obtain ok early n t2 where i: "tls_session_init (se_ssl_new env) (se_ssl_set env) (se_ssl_host env) (se_ssl_configure env)
      (ccf_host cfg) (rs_session res) (configure_early_data cfg (se_params_ok env) res) new_tls_session t1 = (ok, early, n, t2)"
    by (metis prod_cases4)
  note parts = resumption_parts [OF a i]
  have bal: "balanced t2 (ref_of (tn_current n) + others + cached (ts_resumptions t2))" by (rule parts(1) [OF assms(2)])
  then have freed: "balanced (tls_session_destroy n t2) (others + cached (ts_resumptions (tls_session_destroy n t2)))"
    unfolding tls_session_destroy_def using parts(4) by (intro release_ssl_balanced) (simp_all add: ac_simps)
  show ?thesis
  proof (cases r)
    case None
    then show ?thesis
      using assms(1,2) freed a i by (auto simp: start_handshake_candidate_def Let_def split: if_splits)
  next
    case (Some cn)
    then have "t' = t2" "snd cn = n" ok "fst cn = \<lparr>lv_params = connection_params cfg (se_now env) (se_qlog env)
          (acquire_new_token (ccf_host cfg) (ccf_network cfg) (ep_family e) t),
        lv_0rtt = (if configure_early_data cfg (se_params_ok env) res then Some (rs_params res) else None),
        lv_rejected = configure_early_data cfg (se_params_ok env) res \<and> \<not> early\<rparr>"
      using assms(1) a i by (auto simp: start_handshake_candidate_def Let_def split: if_splits)
    then show ?thesis
      using Some bal parts(5,6) connection_params_token [OF assms(3)] by (cases cn) (auto simp: conn_sound_def)
  qed
qed

text \<open>An attempt that loses the race, or fails, hands its ticket back to the cache with no transport parameters, in place of
  those the entry had: the next connection cannot use early data.\<close>

lemma lost_attempt_forgets_parameters:
  assumes "start_handshake_candidate cfg open_ok bound_ok connect_ok e env t = (Some (c, n), t')"
    "map_of (ts_resumptions t) (ccf_host cfg) = Some \<lparr>cr_session = Some x, cr_params = ps\<rparr>"
    "se_up_ref env" "se_ssl_set env" "ccf_host cfg \<noteq> ''''"
  shows "map_of (ts_resumptions (tls_session_destroy n t')) (ccf_host cfg) = Some \<lparr>cr_session = Some x, cr_params = []\<rparr>"
    "\<not> has_early_resumption early_capable (ccf_host cfg) (tls_session_destroy n t')"
proof -
  have n: "tn_ssl n" "tn_context n" "tn_current n = Some x" "tn_server_name n = ccf_host cfg" "tn_params n = []"
    using assms
    by (auto simp: start_handshake_candidate_def tls_session_init_def acquire_resumption_def new_tls_session_def Let_def
        split: if_splits)
  then show 1: "map_of (ts_resumptions (tls_session_destroy n t')) (ccf_host cfg) = Some \<lparr>cr_session = Some x, cr_params = []\<rparr>"
    using assms(5) by (simp add: tls_session_destroy_def release_ssl_maps released_def caches_def)
  then show "\<not> has_early_resumption early_capable (ccf_host cfg) (tls_session_destroy n t')"
    by (simp add: has_early_resumption_def)
qed

text \<open>A set-up that fails after ngtcp2 made the connection leaves it behind, and the next endpoint's set-up overwrites the pointer:
  the connection is never deleted.\<close>

lemma retried_setup_leaks_connection:
  assumes "setup_connection cfg family env s = (False, ns, s1)" "se_random env" "se_new_ok env"
    "setup_connection cfg' family' env' s1 = (ok, ns', s2)" "se_random env'" "se_new_ok env'"
  shows "\<exists>c. su_conn s1 = Some c \<and> c \<in> set (su_lost_conns s2)"
proof -
  have conn: "su_conn s' \<noteq> None" "su_lost_conns s' = optional (su_conn s0) @ su_lost_conns s0"
    if "setup_connection cf f en s0 = (k, nt, s')" "se_random en" "se_new_ok en" for cf f en s0 k nt s'
    using that by (auto simp: setup_connection_def new_conn_def install_0rtt_def Let_def split: if_splits prod.splits)
  obtain c where "su_conn s1 = Some c" using conn(1) [OF assms(1-3)] by blast
  then show ?thesis using conn(2) [OF assms(4-6)] by (simp add: optional_def)
qed

subsection \<open>A set-up with early data\<close>

definition demo_setup_env :: setup_env where
  "demo_setup_env = \<lparr>se_random = True, se_now = 5, se_qlog = False, se_new_ok = True, se_random_failed = False, se_up_ref = True,
     se_early_capable = (\<lambda>_. True), se_params_ok = (\<lambda>_. True), se_ssl_new = True, se_ssl_set = True, se_ssl_host = True,
     se_ssl_configure = True, se_codec_ok = True, se_opens = (\<lambda>n. Open_ok (4 * int n) True)\<rparr>"

definition demo_client :: client_config where
  "demo_client = \<lparr>ccf_host = ''h'', ccf_network = 3, ccf_0rtt = True, ccf_version = 0,
     ccf_timeouts = \<lparr>tm_connect = 0, tm_request = 0, tm_idle = 0, tm_dns = 0, tm_handshake = 0,
       tm_response_headers = 0, tm_read = 0, tm_write = 0, tm_call = 0, tm_consumer_stall = 0\<rparr>\<rparr>"

definition demo_setup :: setup_state where
  "demo_setup = \<lparr>su_socket = new_socket, su_peer = None, su_conn = None, su_lost_conns = [],
     su_tls = \<lparr>ts_refs = (\<lambda>s. if s = 9 then 1 else 0), ts_resumptions = [(''h'', \<lparr>cr_session = Some 9, cr_params = [1, 2]\<rparr>)], ts_tokens = []\<rparr>,
     su_session = new_tls_session, su_jobs = new_quic_jobs, su_error = ERR_QUIC\<rparr>"

theorem setup_is_sound_witness:
  "\<exists>notes s' c. setup_connection demo_client 2 demo_setup_env demo_setup = (True, notes, s') \<and> su_conn s' = Some c \<and>
     qj_early (su_jobs s') \<and> lv_0rtt c = Some [1, 2] \<and> tn_current (su_session s') = Some 9 \<and> tickets_balanced {#} s'"
proof -
  obtain ok ns s' where out: "setup_connection demo_client 2 demo_setup_env demo_setup = (ok, ns, s')" by (metis prod_cases3)
  have "case setup_connection demo_client 2 demo_setup_env demo_setup of (ok, ns, s') \<Rightarrow> ok \<and> qj_early (su_jobs s')" by code_simp
  then have ok: "ok = True" and early: "qj_early (su_jobs s')" using out by auto
  have "tickets_balanced {#} demo_setup"
    by (simp add: tickets_balanced_def balanced_def demo_setup_def new_tls_session_def cached_def)
  moreover have "tokens_nonempty (su_tls demo_setup)" by (simp add: tokens_nonempty_def demo_setup_def)
  moreover have "\<not> qj_confirmed (su_jobs demo_setup)" by (simp add: demo_setup_def new_quic_jobs_def)
  moreover have "reachable quic_start quic_trans (su_jobs demo_setup, True)"
    by (rule reachable_start) (simp add: quic_start_def demo_setup_def)
  moreover have "tn_current (su_session demo_setup) = None" by (simp add: demo_setup_def new_tls_session_def)
  ultimately obtain c where c: "su_conn s' = Some c" "tickets_balanced {#} s'"
    "conn_sound demo_client 2 demo_setup_env (su_tls demo_setup) (qj_early (su_jobs s')) (tn_current (su_session s')) c"
    using setup_is_sound [OF out, of "{#}"] ok by blast
  then have "lv_0rtt c = Some [1, 2]" "tn_current (su_session s') = Some 9"
    using early by (auto simp: conn_sound_def demo_setup_def demo_client_def split: option.splits)
  then show ?thesis using out ok early c(1,2) by blast
qed

end
