(* ===== verification/Http3_Codec.thy ===== *)
theory Http3_Codec
  imports Kat_Prelude
begin

text \<open>
  The calls an HTTP/3 session makes on its codec and its transport (\<^verbatim>\<open>src/core/http3_session.cc\<close>): setting the codec
  up with its three critical streams, the forwarding callbacks, resets and consumption.  nghttp3 and ngtcp2 are the
  answers to the calls, which are recorded in order; a session is whether its codec exists.
\<close>

datatype codec_call =
    New_codec nat nat
  | Delete_codec
  | Open_uni
  | Bind_control int
  | Bind_qpack int int
  | Codec_close int nat
  | Codec_shut_read int
  | Codec_shut_write int
  | Quic_shut_read int nat
  | Quic_shut_write int nat
  | Extend_stream int nat
  | Extend_connection nat

definition max_header_section :: nat where "max_header_section = 256 * 1024"

definition h3_request_cancelled :: nat where "h3_request_cancelled = 0x10c"

text \<open>The answers to \<^verbatim>\<open>setup_codec\<close>: the codec, the streams that can be opened, in order, and the two bindings.\<close>

record codec_answers =
  ca_new :: bool
  ca_streams :: "int list"
  ca_control :: bool
  ca_qpack :: bool

text \<open>\<^verbatim>\<open>||\<close> stops at the first failure; (result, codec exists, calls).\<close>

definition setup_codec :: "codec_answers \<Rightarrow> bool \<times> bool \<times> codec_call list" where
  "setup_codec a =
     (let new = New_codec 0 max_header_section
      in if \<not> ca_new a then (False, False, [new])
         else case ca_streams a of
           control # encoder # decoder # more' \<Rightarrow>
             let opened = [new, Open_uni, Open_uni, Open_uni, Bind_control control]
             in if \<not> ca_control a then (False, False, opened @ [Delete_codec])
                else if \<not> ca_qpack a then (False, False, opened @ [Bind_qpack encoder decoder, Delete_codec])
                else (True, True, opened @ [Bind_qpack encoder decoder])
         | some \<Rightarrow> (False, False, [new] @ replicate (length some + 1) Open_uni @ [Delete_codec]))"

text \<open>The callbacks of nghttp3 that pass a stream's end on to ngtcp2.\<close>

definition reset_stream_cb :: "int \<Rightarrow> nat \<Rightarrow> codec_call list" where
  "reset_stream_cb stream_id app_error_code = [Quic_shut_write stream_id app_error_code]"

definition stop_sending_cb :: "int \<Rightarrow> nat \<Rightarrow> codec_call list" where
  "stop_sending_cb stream_id app_error_code = [Quic_shut_read stream_id app_error_code]"

text \<open>What ngtcp2 tells the session of a stream.\<close>

definition codec_stream_close :: "bool \<Rightarrow> int \<Rightarrow> nat \<Rightarrow> codec_call list" where
  "codec_stream_close codec stream_id app_error_code = (if codec then [Codec_close stream_id app_error_code] else [])"

definition codec_stream_reset :: "bool \<Rightarrow> int \<Rightarrow> codec_call list" where
  "codec_stream_reset codec stream_id = (if codec then [Codec_shut_read stream_id] else [])"

definition codec_stop_sending :: "bool \<Rightarrow> int \<Rightarrow> codec_call list" where
  "codec_stop_sending codec stream_id = (if codec then [Codec_shut_write stream_id] else [])"

text \<open>A cancelled request: both directions are shut in both layers.\<close>

definition reset_stream :: "bool \<Rightarrow> int \<Rightarrow> codec_call list" where
  "reset_stream codec stream_id =
     (if codec then [Codec_shut_read stream_id, Codec_shut_write stream_id] else []) @
     [Quic_shut_read stream_id h3_request_cancelled, Quic_shut_write stream_id h3_request_cancelled]"

text \<open>\<open>extended\<close> is the answer of \<^verbatim>\<open>ngtcp2_conn_extend_max_stream_offset\<close>.\<close>

definition deferred_consume :: "bool \<Rightarrow> bool \<Rightarrow> int \<Rightarrow> nat \<Rightarrow> bool \<times> codec_call list" where
  "deferred_consume has_conn extended stream_id consumed =
     (if \<not> has_conn \<or> consumed = 0 then (True, [])
      else if \<not> extended then (False, [Extend_stream stream_id consumed])
      else (True, [Extend_stream stream_id consumed, Extend_connection consumed]))"

text \<open>A codec exists exactly when the setup succeeded: a failed setup deletes what it made.  The peer is offered no dynamic table
  and the header limit, and a codec that is used has three different critical streams bound.\<close>

lemma setup_codec_balanced:
  assumes "setup_codec a = (ready, codec, calls)"
  shows "ready = codec \<and>
    (ca_new a \<longrightarrow> count_list calls Delete_codec = (if codec then 0 else 1)) \<and>
    count_list calls (New_codec 0 (256 * 1024)) = 1 \<and> count_list calls Open_uni \<le> 3 \<and>
    (codec \<longrightarrow> (\<exists>control encoder decoder.
       take 3 (ca_streams a) = [control, encoder, decoder] \<and> Bind_control control \<in> set calls \<and>
       Bind_qpack encoder decoder \<in> set calls))"
  using assms
  by (auto simp: setup_codec_def Let_def max_header_section_def split: if_splits list.splits)

text \<open>The connection's window is never extended by more than the stream's.\<close>

lemma deferred_consume_windows:
  assumes "deferred_consume has_conn extended sid n = (ok, calls)"
  shows "Extend_connection k \<in> set calls \<Longrightarrow> Extend_stream sid k \<in> set calls \<and> k = n"
    and "\<not> ok \<Longrightarrow> Extend_connection k \<notin> set calls"
  using assms by (auto simp: deferred_consume_def split: if_splits)

end
