(* ===== verification/Engine_Jobs.thy ===== *)
theory Engine_Jobs
  imports Job Cookie_Jar Kat_Api
begin

text \<open>
  What \<^verbatim>\<open>Engine\<close> (\<^verbatim>\<open>src/core/engine.cc\<close>) does with the notes a connection gives it about a job: redirects,
  the response cache, cookies, body lengths and the events for the application.  A handler works on the
  job and on the two stores and returns the events it dispatches, in order; \<open>Engine_Registry\<close> decides which
  of them the application sees.
\<close>

subsection \<open>The engine's surroundings\<close>

record engine_env =
  en_pton4 :: "string \<Rightarrow> bool"
  en_pton6 :: "string \<Rightarrow> bool"
  en_clock :: cache_clock
  en_cookies :: bool
  en_cache :: "cache_params option"
  en_max_entry_bytes :: nat

record engine_store =
  es_jar :: jar
  es_cache :: cache_state

definition default_max_redirects :: nat where "default_max_redirects = 10"

subsection \<open>Small helpers\<close>

definition size_option :: "nat \<Rightarrow> nat \<Rightarrow> nat" where
  "size_option value fallback = (if value = 0 then fallback else if value > u64_max then u64_max else value)"

definition case_eq :: "string \<Rightarrow> string \<Rightarrow> bool" where
  "case_eq a b = ascii_iequals (c_str a) (c_str b)"

definition is_stale_if_error_status :: "int \<Rightarrow> bool" where
  "is_stale_if_error_status status \<longleftrightarrow> status = 500 \<or> status = 502 \<or> status = 503 \<or> status = 504"

fun is_stale_if_error_transport_error :: "kat_error \<Rightarrow> bool" where
  "is_stale_if_error_transport_error ERR_DNS = True"
| "is_stale_if_error_transport_error ERR_TIMEOUT = True"
| "is_stale_if_error_transport_error ERR_DNS_TIMEOUT = True"
| "is_stale_if_error_transport_error ERR_CONNECT_TIMEOUT = True"
| "is_stale_if_error_transport_error ERR_HANDSHAKE_TIMEOUT = True"
| "is_stale_if_error_transport_error ERR_RESPONSE_HEADERS_TIMEOUT = True"
| "is_stale_if_error_transport_error ERR_READ_TIMEOUT = True"
| "is_stale_if_error_transport_error ERR_WRITE_TIMEOUT = True"
| "is_stale_if_error_transport_error ERR_CALL_TIMEOUT = True"
| "is_stale_if_error_transport_error ERR_NETWORK_LOST = True"
| "is_stale_if_error_transport_error _ = False"

definition request_has_body :: "request \<Rightarrow> bool" where
  "request_has_body r \<longleftrightarrow> rq_body_present r \<or> rq_body r \<noteq> [] \<or> rq_streaming_body r"

definition original_cache_request_headers :: "job \<Rightarrow> header_list" where
  "original_cache_request_headers j =
     (case jk_request_headers (jb_cache j) of Some hs \<Rightarrow> hs | None \<Rightarrow> rq_headers (jb_request j))"

definition parse_content_length :: "string \<Rightarrow> nat option" where
  "parse_content_length s = (if s = [] then None else parse_all u64_max s)"

definition cache_request_of :: "job \<Rightarrow> header_list \<Rightarrow> bool \<Rightarrow> cache_request" where
  "cache_request_of j headers streaming =
     \<lparr>cq_method = rq_method (jb_request j), cq_url = url_to_string (jb_url j), cq_headers = headers,
      cq_streaming = streaming, cq_has_body = request_has_body (jb_request j)\<rparr>"

definition set_capture :: "cache_capture option \<Rightarrow> job \<Rightarrow> job" where
  "set_capture c j = j\<lparr>jb_cache := (jb_cache j)\<lparr>jk_capture := c\<rparr>\<rparr>"

definition set_validation :: "cache_validation option \<Rightarrow> job \<Rightarrow> job" where
  "set_validation v j = j\<lparr>jb_cache := (jb_cache j)\<lparr>jk_validation := v\<rparr>\<rparr>"

definition drop_capture :: "job \<Rightarrow> job" where
  "drop_capture j =
     (case jk_capture (jb_cache j) of
        None \<Rightarrow> j
      | Some c \<Rightarrow> set_capture (Some (c\<lparr>cpt_enabled := False, cpt_body := []\<rparr>)) j)"

subsection \<open>Events\<close>

definition dispatch_headers :: "job \<Rightarrow> int \<Rightarrow> header_list \<Rightarrow> event" where
  "dispatch_headers j status headers =
     \<lparr>ev_request_id = jb_id j, ev_kind = Ev_headers status (name_pointers headers) (value_pointers headers)\<rparr>"

definition dispatch_body :: "job \<Rightarrow> bytes \<Rightarrow> event" where
  "dispatch_body j data = \<lparr>ev_request_id = jb_id j, ev_kind = Ev_body data\<rparr>"

definition dispatch_complete :: "job \<Rightarrow> event" where
  "dispatch_complete j = \<lparr>ev_request_id = jb_id j, ev_kind = Ev_complete\<rparr>"

definition dispatch_error :: "job \<Rightarrow> kat_error \<Rightarrow> event" where
  "dispatch_error j err = \<lparr>ev_request_id = jb_id j, ev_kind = Ev_error err\<rparr>"

definition deliver_cached :: "engine_env \<Rightarrow> job \<Rightarrow> cached_response \<Rightarrow> event list" where
  "deliver_cached env j response =
     (let delivery = (if en_cache env \<noteq> None then response_with_current_age (en_clock env) response else response);
          headers = foldl (\<lambda>hs h. if case_eq (h_name h) ''set-cookie'' then hs
                                  else hl_add hs (h_name h) (h_value h)) [] (cr_headers delivery)
      in dispatch_headers j (cr_status_code delivery) headers #
         (if cr_body delivery \<noteq> [] then [dispatch_body j (cr_body delivery)] else []) @
         [dispatch_complete j])"

definition on_job_cached :: "engine_env \<Rightarrow> job \<Rightarrow> event list" where
  "on_job_cached env j =
     (case jk_cached_response (jb_cache j) of None \<Rightarrow> [] | Some r \<Rightarrow> deliver_cached env j r)"

subsection \<open>Cookies and validators on requests\<close>

definition add_cookie_header :: "engine_env \<Rightarrow> url \<Rightarrow> request \<Rightarrow> engine_store \<Rightarrow> request \<times> engine_store" where
  "add_cookie_header env u r s =
     (let (cookie, jar) = cookie_header (ck_wall (en_clock env)) u (es_jar s);
          s' = s\<lparr>es_jar := jar\<rparr>
      in if cookie = [] then (r, s')
         else if list_ex (\<lambda>h. case_eq (h_name h) ''cookie'') (rq_headers r) then (r, s')
         else (r\<lparr>rq_headers := hl_add (rq_headers r) ''cookie'' cookie\<rparr>, s'))"

definition store_cookies :: "engine_env \<Rightarrow> url \<Rightarrow> header_list \<Rightarrow> engine_store \<Rightarrow> engine_store" where
  "store_cookies env u headers s =
     s\<lparr>es_jar := jar_store (en_pton4 env) (en_pton6 env) (ck_wall (en_clock env)) u headers (es_jar s)\<rparr>"

text \<open>(was If-Modified-Since added, job)\<close>

definition add_cache_validator :: "job \<Rightarrow> cached_response \<Rightarrow> bool \<times> job" where
  "add_cache_validator j response =
     (let r = jb_request j;
          with_field = (\<lambda>n v. j\<lparr>jb_request := r\<lparr>rq_headers := hl_add (rq_headers r) n v\<rparr>\<rparr>)
      in if cr_etag response \<noteq> None \<and> \<not> has_header (rq_headers r) ''if-none-match''
         then (False, with_field ''if-none-match'' (the (cr_etag response)))
         else if cr_last_modified response \<noteq> None \<and> \<not> has_header (rq_headers r) ''if-modified-since''
         then (True, with_field ''if-modified-since'' (the (cr_last_modified response)))
         else (False, j))"

definition prepare_cache :: "engine_env \<Rightarrow> job \<Rightarrow> engine_store \<Rightarrow> job \<times> engine_store" where
  "prepare_cache env j s =
     (case en_cache env of
        None \<Rightarrow> (j, s)
      | Some _ \<Rightarrow>
          let headers = rq_headers (jb_request j);
              j1 = j\<lparr>jb_cache := (jb_cache j)\<lparr>jk_request_headers := Some headers\<rparr>\<rparr>;
              rq = cache_request_of j1 headers (jb_streaming j \<or> rq_streaming_body (jb_request j));
              (found, cache) = cache_lookup (en_clock env) rq (es_cache s);
              s' = s\<lparr>es_cache := cache\<rparr>
          in (case found of
                Cache_fresh r \<Rightarrow> (j1\<lparr>jb_cache := (jb_cache j1)\<lparr>jk_cached_response := Some r\<rparr>\<rparr>, s')
              | Cache_needs_validation r ids \<Rightarrow>
                  let (ims, j2) = add_cache_validator j1 r
                  in (set_validation (Some \<lparr>cv_stored = r, cv_candidate_ids = ids, cv_response_headers = [],
                                            cv_serve_stale_on_error = False,
                                            cv_sent_if_modified_since = ims\<rparr>) j2, s')
              | Cache_miss \<Rightarrow> (j1, s')))"

subsection \<open>Invalidation and storing\<close>

definition invalidate_cache_validation :: "engine_env \<Rightarrow> job \<Rightarrow> engine_store \<Rightarrow> engine_store" where
  "invalidate_cache_validation env j s =
     (case (en_cache env, jk_validation (jb_cache j)) of
        (Some _, Some v) \<Rightarrow>
          s\<lparr>es_cache :=
              foldl (\<lambda>c i. snd (invalidate_entry i c)) (es_cache s)
                (if cv_candidate_ids v = [] then [cr_entry_id (cv_stored v)] else cv_candidate_ids v)\<rparr>
      | _ \<Rightarrow> s)"

definition store_job_response :: "engine_env \<Rightarrow> job \<Rightarrow> engine_store \<Rightarrow> engine_store" where
  "store_job_response env j s =
     (case (en_cache env, jk_capture (jb_cache j)) of
        (Some p, Some c) \<Rightarrow>
          if \<not> cpt_enabled c \<or> jb_redirected j \<or> rs_status_code (jb_response j) \<noteq> 200 then s
          else
            let response = (jb_response j)\<lparr>rs_url := jb_url j, rs_body := cpt_body c\<rparr>;
                rq = cache_request_of j (original_cache_request_headers j)
                       (jb_streaming j \<or> rq_streaming_body (jb_request j))
            in s\<lparr>es_cache := snd (cache_store p (en_clock env) rq response
                                   (jk_request_wall (jb_cache j)) (es_cache s))\<rparr>
      | _ \<Rightarrow> s)"

definition same_origin :: "job \<Rightarrow> url \<Rightarrow> bool" where
  "same_origin j u \<longleftrightarrow>
     case_eq (u_scheme u) (u_scheme (jb_url j)) \<and> case_eq (u_host u) (u_host (jb_url j)) \<and>
     effective_port u = effective_port (jb_url j)"

text \<open>The URL a \<^verbatim>\<open>Location\<close> or \<^verbatim>\<open>Content-Location\<close> value names.\<close>

definition related_url :: "engine_env \<Rightarrow> job \<Rightarrow> string \<Rightarrow> url option" where
  "related_url env j value =
     (case parse_url (en_pton6 env) value of
        Some u \<Rightarrow> Some u
      | None \<Rightarrow>
          let reference = new_response\<lparr>rs_status_code := 302, rs_headers := hl_add [] ''location'' value\<rparr>;
              resolved = evaluate_redirect (en_pton6 env) ''GET'' (jb_url j) reference True 1
          in if \<not> rd_follow resolved then None else parse_url (en_pton6 env) (rd_new_url resolved))"

definition invalidate_after_unsafe_request ::
  "engine_env \<Rightarrow> job \<Rightarrow> header_list \<Rightarrow> engine_store \<Rightarrow> engine_store" where
  "invalidate_after_unsafe_request env j headers s =
     (if en_cache env = None then s
      else
        let m = rq_method (jb_request j);
            safe = (m = ''GET'' \<or> m = ''HEAD'' \<or> m = ''OPTIONS'' \<or> m = ''TRACE'')
        in if safe \<or> rs_status_code (jb_response j) < 200 \<or> rs_status_code (jb_response j) \<ge> 400 then s
           else
             let c0 = cache_invalidate (url_to_string (jb_url j)) (es_cache s);
                 values = hl_get_all headers ''location'' @ hl_get_all headers ''content-location'';
                 c1 = foldl (\<lambda>c v. case related_url env j v of
                                    None \<Rightarrow> c
                                  | Some u \<Rightarrow> if same_origin j u then cache_invalidate (url_to_string u) c else c)
                        c0 values
             in s\<lparr>es_cache := c1\<rparr>)"

subsection \<open>The request of a redirect\<close>

definition sensitive_header :: "string \<Rightarrow> bool" where
  "sensitive_header n \<longleftrightarrow>
     case_eq n ''authorization'' \<or> case_eq n ''proxy-authorization'' \<or> case_eq n ''cookie'' \<or> case_eq n ''host''"

definition body_header :: "string \<Rightarrow> bool" where
  "body_header n \<longleftrightarrow>
     case_eq n ''content-length'' \<or> case_eq n ''content-type'' \<or> case_eq n ''content-encoding''"

definition redirect_request :: "redirect_decision \<Rightarrow> url \<Rightarrow> job \<Rightarrow> request" where
  "redirect_request dec target j =
     (let r = jb_request j;
          nr = new_request (rd_new_method dec) (url_to_string target);
          headers = foldl (\<lambda>hs h.
              if (rd_cross_origin dec \<and> sensitive_header (h_name h)) \<or>
                 (rd_drop_body dec \<and> body_header (h_name h)) then hs
              else hl_add hs (h_name h) (h_value h)) [] (original_cache_request_headers j)
      in nr\<lparr>rq_headers := headers,
            rq_body := (if rd_drop_body dec then [] else rq_body r),
            rq_body_present := (if rd_drop_body dec then False else request_has_body r),
            rq_follow_redirects := True, rq_streaming := rq_streaming r,
            rq_streaming_body := (if rd_drop_body dec then False else rq_streaming_body r),
            rq_streaming_body_length := (if rd_drop_body dec then -1 else rq_streaming_body_length r)\<rparr>)"

text \<open>The decision to follow: the target, or \<open>None\<close> where the response is delivered as it is.\<close>

definition redirect_target :: "engine_env \<Rightarrow> int \<Rightarrow> header_list \<Rightarrow> job \<Rightarrow> (redirect_decision \<times> url) option" where
  "redirect_target env status headers j =
     (if status sdiv 100 = 3 \<and> status \<noteq> 304 \<and> rq_follow_redirects (jb_request j) then
        let tmp = new_response\<lparr>rs_status_code := status, rs_headers := headers\<rparr>;
            remaining = (if jb_redirect_count j \<ge> default_max_redirects then 0
                         else default_max_redirects - jb_redirect_count j);
            dec = evaluate_redirect (en_pton6 env) (rq_method (jb_request j)) (jb_url j) tmp True remaining;
            can_replay_body = (\<not> rq_streaming_body (jb_request j) \<or> rd_drop_body dec)
        in if rd_follow dec \<and> can_replay_body \<and> rd_new_url dec \<noteq> [] then
             (case parse_url (en_pton6 env) (rd_new_url dec) of
                None \<Rightarrow> None
              | Some u \<Rightarrow> if url_valid u then Some (dec, u) else None)
           else None
      else None)"

text \<open>The job of the next hop, its cache consulted.\<close>

definition redirect_job ::
  "engine_env \<Rightarrow> redirect_decision \<Rightarrow> url \<Rightarrow> job \<Rightarrow> engine_store \<Rightarrow> job \<times> engine_store" where
  "redirect_job env dec target j s =
     (let nr = redirect_request dec target j;
          (nr', s1) = (if en_cookies env then add_cookie_header env target nr s else (nr, s));
          nj = new_job (jb_id j) nr' target;
          nj' = nj\<lparr>jb_redirect_count := jb_redirect_count j + 1,
                   jb_cache := (jb_cache nj)\<lparr>jk_request_wall := ck_wall (en_clock env)\<rparr>\<rparr>
      in prepare_cache env nj' s1)"

subsection \<open>The handlers\<close>

definition on_job_error :: "engine_env \<Rightarrow> kat_error \<Rightarrow> job \<Rightarrow> job \<times> event list" where
  "on_job_error env err j =
     (if jb_redirected j then (j, [])
      else case (jk_validation (jb_cache j), en_cache env) of
          (Some v, Some _) \<Rightarrow>
            if is_stale_if_error_transport_error err \<and> can_serve_stale_if_error (en_clock env) (cv_stored v)
            then (j, deliver_cached env j (cv_stored v))
            else (drop_capture j, [dispatch_error j err])
        | _ \<Rightarrow> (drop_capture j, [dispatch_error j err]))"

text \<open>The loop over the response's \<^verbatim>\<open>content-length\<close> fields: \<open>Inl\<close> where it reports an error.\<close>

fun response_length :: "header_list \<Rightarrow> nat option \<Rightarrow> unit + nat option" where
  "response_length [] seen = Inr seen"
| "response_length (h # hs) seen =
     (if \<not> case_eq (h_name h) ''content-length'' then response_length hs seen
      else case parse_content_length (h_value h) of
          None \<Rightarrow> Inl ()
        | Some n \<Rightarrow>
            if (case seen of None \<Rightarrow> False | Some m \<Rightarrow> n \<noteq> m) \<or> int n > i64_max then Inl ()
            else response_length hs (Some n))"

datatype headers_outcome = Ho_events "event list" | Ho_redirect job

text \<open>The capture of a body that may be stored.\<close>

definition start_capture :: "engine_env \<Rightarrow> int \<Rightarrow> header_list \<Rightarrow> job \<Rightarrow> job" where
  "start_capture env status headers j =
     (if en_cache env \<noteq> None \<and> \<not> jb_streaming j \<and> \<not> rq_streaming_body (jb_request j) \<and>
         should_capture (cache_request_of j (original_cache_request_headers j) False) status headers
      then set_capture (Some \<lparr>cpt_enabled = \<not> (jb_declared_length j \<ge> 0 \<and>
                                  nat (jb_declared_length j) > en_max_entry_bytes env),
                              cpt_max_bytes = en_max_entry_bytes env, cpt_body = []\<rparr>) j
      else j)"

text \<open>The part of \<^verbatim>\<open>on_job_headers\<close> after the redirect decision.\<close>

definition accept_headers ::
  "engine_env \<Rightarrow> int \<Rightarrow> header_list \<Rightarrow> job \<Rightarrow> engine_store \<Rightarrow> job \<times> engine_store \<times> event list" where
  "accept_headers env status headers j s =
     (case response_length headers None of
        Inl _ \<Rightarrow> (case on_job_error env ERR_BODY j of (j', evs) \<Rightarrow> (j', s, evs))
      | Inr len \<Rightarrow>
          let j1 = (case len of None \<Rightarrow> j | Some n \<Rightarrow> j\<lparr>jb_declared_length := int n\<rparr>);
              s1 = (if en_cookies env then store_cookies env (jb_url j) headers s else s);
              validation = jk_validation (jb_cache j1)
          in if status = 304 \<and> validation \<noteq> None then
               (set_validation (Some ((the validation)\<lparr>cv_response_headers := headers\<rparr>)) j1, s1, [])
             else if validation \<noteq> None \<and> en_cache env \<noteq> None \<and> is_stale_if_error_status status \<and>
                     can_serve_stale_if_error (en_clock env) (cv_stored (the validation)) then
               (set_validation (Some ((the validation)\<lparr>cv_serve_stale_on_error := True\<rparr>)) j1, s1, [])
             else
               let s2 = invalidate_after_unsafe_request env j1 headers s1;
                   j2 = start_capture env status headers (set_validation None j1)
               in (j2, s2, [dispatch_headers j2 status headers]))"

definition on_job_headers ::
  "engine_env \<Rightarrow> int \<Rightarrow> header_list \<Rightarrow> job \<Rightarrow> engine_store \<Rightarrow> job \<times> engine_store \<times> headers_outcome" where
  "on_job_headers env status headers j s =
     (let j1 = j\<lparr>jb_response := (jb_response j)\<lparr>rs_status_code := status, rs_headers := headers, rs_url := jb_url j\<rparr>\<rparr>;
          full = (jk_validation (jb_cache j1) \<noteq> None \<and> 200 \<le> status \<and> status < 500 \<and> status \<noteq> 304);
          s1 = (if full then invalidate_cache_validation env j1 s else s);
          j2 = (if full then set_validation None j1 else j1)
      in case redirect_target env status headers j2 of
          Some (dec, target) \<Rightarrow>
            let s2 = (if en_cookies env then store_cookies env (jb_url j2) headers s1 else s1);
                s3 = invalidate_after_unsafe_request env j2 headers s2;
                (nj, s4) = redirect_job env dec target j2 s3
            in (j2\<lparr>jb_redirected := True\<rparr>, s4, Ho_redirect nj)
        | None \<Rightarrow> (case accept_headers env status headers j2 s1 of (j', s', evs) \<Rightarrow> (j', s', Ho_events evs)))"

definition capture_body :: "bytes \<Rightarrow> job \<Rightarrow> job" where
  "capture_body data j =
     (case jk_capture (jb_cache j) of
        None \<Rightarrow> j
      | Some c \<Rightarrow>
          if \<not> cpt_enabled c then j
          else if length data > u64_sub (cpt_max_bytes c) (length (cpt_body c)) then drop_capture j
          else set_capture (Some (c\<lparr>cpt_body := cpt_body c @ data\<rparr>)) j)"

definition on_job_body :: "bytes \<Rightarrow> job \<Rightarrow> job \<times> event list" where
  "on_job_body data j =
     (let j1 = j\<lparr>jb_received_bytes := jb_received_bytes j + length data\<rparr> in
      case jk_validation (jb_cache j1) of
        Some v \<Rightarrow>
          if cv_serve_stale_on_error v \<or> rs_status_code (jb_response j1) = 304 then (j1, [])
          else (capture_body data j1, [dispatch_body j1 data])
      | None \<Rightarrow> (capture_body data j1, [dispatch_body j1 data]))"

definition length_exempt :: "job \<Rightarrow> bool" where
  "length_exempt j \<longleftrightarrow>
     (let st = rs_status_code (jb_response j)
      in rq_method (jb_request j) = ''HEAD'' \<or> st = 204 \<or> st = 304 \<or> st sdiv 100 = 1)"

definition on_job_complete :: "engine_env \<Rightarrow> job \<Rightarrow> engine_store \<Rightarrow> job \<times> engine_store \<times> event list" where
  "on_job_complete env j s =
     (if jb_redirected j then (j, s, [])
      else
        let validation = jk_validation (jb_cache j) in
        if validation \<noteq> None \<and> cv_serve_stale_on_error (the validation)
        then (j, s, deliver_cached env j (cv_stored (the validation)))
        else if jb_declared_length j \<ge> 0 \<and> \<not> length_exempt j \<and>
                jb_received_bytes j \<noteq> nat (jb_declared_length j)
        then (drop_capture j, s, [dispatch_error j ERR_BODY])
        else if validation \<noteq> None \<and> rs_status_code (jb_response j) = 304 then
          (case en_cache env of
             None \<Rightarrow> (j, s, [])
           | Some p \<Rightarrow>
               let v = the validation;
                   rq = cache_request_of j (original_cache_request_headers j)
                          (jb_streaming j \<or> rq_streaming_body (jb_request j));
                   (merged, cache) = merge_304 p (en_clock env) (cv_stored v) rq (cv_response_headers v)
                     (jk_request_wall (jb_cache j)) (cv_candidate_ids v) (cv_sent_if_modified_since v) (es_cache s);
                   s' = s\<lparr>es_cache := cache\<rparr>
               in (case merged of
                     Some m \<Rightarrow> (j, s', deliver_cached env j (rv_delivery m))
                   | None \<Rightarrow> (j, invalidate_cache_validation env j s', [dispatch_error j ERR_HTTP3])))
        else (j, store_job_response env j s, [dispatch_complete j]))"

end
