(* ===== verification/Engine_Pool.thy ===== *)
theory Engine_Pool
  imports Engine_Jobs Quic_Timeouts Kat_System
begin

text \<open>
  What \<^verbatim>\<open>Engine\<close> (\<^verbatim>\<open>src/core/engine.cc\<close>) owns beside the stores: its configuration, the pool of
  connections, one worker per origin, and the queue of the dispatcher that delivers cached responses.
  A connection is the number of its creation; what the engine asks of it (\<^verbatim>\<open>accepts_new_jobs\<close>,
  \<^verbatim>\<open>is_closed\<close>) is an argument.
\<close>

subsection \<open>Configuration\<close>

record client_options =
  op_struct_size :: nat
  op_abi_version :: nat
  op_timeouts :: quic_timeouts
  op_max_redirects :: nat
  op_max_connections_per_origin :: nat
  op_enable_0rtt :: bool
  op_verify_cert :: bool
  op_insecure_cert :: bool
  op_trust_mode :: nat
  op_enable_cookies :: bool
  op_enable_qlog :: bool
  op_qlog_path_prefix :: "string option"
  op_qlog_sink :: bool
  op_max_connection_workers :: nat
  op_network_change_policy :: nat
  op_enable_http_cache :: bool
  op_cache_max_entries :: nat
  op_cache_max_bytes :: nat
  op_cache_max_entry_bytes :: nat

definition fill_default_options :: "nat \<Rightarrow> client_options" where
  "fill_default_options sz =
     \<lparr>op_struct_size = sz mod 4294967296, op_abi_version = 1,
      op_timeouts = \<lparr>tm_connect = 10000, tm_request = 30000, tm_idle = 30000, tm_dns = 10000,
                     tm_handshake = 10000, tm_response_headers = 30000, tm_read = 30000, tm_write = 30000,
                     tm_call = 30000, tm_consumer_stall = 30000\<rparr>,
      op_max_redirects = 10, op_max_connections_per_origin = 1, op_enable_0rtt = True,
      op_verify_cert = True, op_insecure_cert = False, op_trust_mode = 0, op_enable_cookies = False,
      op_enable_qlog = False, op_qlog_path_prefix = None, op_qlog_sink = False,
      op_max_connection_workers = 32, op_network_change_policy = 0, op_enable_http_cache = False,
      op_cache_max_entries = 128, op_cache_max_bytes = 32 * 1024 * 1024,
      op_cache_max_entry_bytes = 4 * 1024 * 1024\<rparr>"

record engine_config =
  ec_max_workers :: nat
  ec_dispatch_max_bytes :: nat
  ec_max_entry_bytes :: nat
  ec_cache :: "cache_params option"
  ec_cookies :: bool

text \<open>The constructor: \<open>None\<close> where it throws.  The size of a cache entry object is the platform's.\<close>

definition engine_config_of :: "nat \<Rightarrow> client_options \<Rightarrow> engine_config option" where
  "engine_config_of object_size opt =
     (let prefix_given = (op_enable_qlog opt \<and> (case op_qlog_path_prefix opt of None \<Rightarrow> False | Some p \<Rightarrow> p \<noteq> []));
          max_bytes = size_option (op_cache_max_bytes opt) (32 * 1024 * 1024);
          max_entry = size_option (op_cache_max_entry_bytes opt) (4 * 1024 * 1024)
      in if op_enable_qlog opt \<and> \<not> prefix_given \<and> \<not> op_qlog_sink opt then None
         else Some \<lparr>ec_max_workers = (if op_max_connection_workers opt \<noteq> 0 then op_max_connection_workers opt else 32),
                    ec_dispatch_max_bytes = max_bytes, ec_max_entry_bytes = max_entry,
                    ec_cache = (if op_enable_http_cache opt
                                then Some (make_cache_params (size_option (op_cache_max_entries opt) 128)
                                             max_bytes max_entry object_size)
                                else None),
                    ec_cookies = op_enable_cookies opt\<rparr>)"

lemma default_engine:
  "engine_config_of obj (fill_default_options sz) =
     Some \<lparr>ec_max_workers = 32, ec_dispatch_max_bytes = 33554432, ec_max_entry_bytes = 4194304,
           ec_cache = None, ec_cookies = False\<rparr>"
  "default_timeouts (op_timeouts (fill_default_options sz)) = op_timeouts (fill_default_options sz)"
  by (simp_all add: engine_config_of_def fill_default_options_def size_option_def u64_max_def
      default_timeouts_def)

subsection \<open>The connection pool\<close>

record client_pool =
  pl_clients :: "(string \<times> nat) list"
  pl_max :: nat
  pl_next :: nat
  pl_policy_tag :: string
  pl_generation :: nat
  pl_network :: nat

definition new_pool :: "engine_config \<Rightarrow> client_pool" where
  "new_pool c = \<lparr>pl_clients = [], pl_max = ec_max_workers c, pl_next = 0, pl_policy_tag = [],
                 pl_generation = 0, pl_network = 0\<rparr>"

definition set_origin_policy :: "string \<Rightarrow> client_pool \<Rightarrow> client_pool" where
  "set_origin_policy tag p = p\<lparr>pl_policy_tag := tag\<rparr>"

definition pool_key :: "string \<Rightarrow> url \<Rightarrow> string" where
  "pool_key tag origin =
     tag @ ''|'' @ u_scheme origin @ ''://'' @ u_host origin @ '':'' @ to_string (u_port origin)"

text \<open>The clients that get the request to change network, in pool order; a generation is announced once.\<close>

definition pool_network_changed :: "nat \<Rightarrow> nat \<Rightarrow> client_pool \<Rightarrow> (nat \<times> nat \<times> nat) list \<times> client_pool" where
  "pool_network_changed generation network p =
     (if generation \<le> pl_generation p then ([], p)
      else (map (\<lambda>(key, c). (c, generation, network)) (pl_clients p),
            p\<lparr>pl_generation := generation, pl_network := network\<rparr>))"

text \<open>\<^verbatim>\<open>get_or_create_client\<close>: the client, the pool, and the clients destroyed on the way.\<close>

definition get_or_create_client ::
  "(nat \<Rightarrow> bool) \<Rightarrow> (nat \<Rightarrow> bool) \<Rightarrow> url \<Rightarrow> client_pool \<Rightarrow> nat option \<times> client_pool \<times> nat list" where
  "get_or_create_client accepts closed origin p =
     (let key = pool_key (pl_policy_tag p) origin;
          found = map_of (pl_clients p) key
      in if found \<noteq> None \<and> accepts (the found) then (found, p, [])
         else
           let without = filter (\<lambda>(k, c). k \<noteq> key) (pl_clients p);
               kept = filter (\<lambda>(k, c). \<not> closed c) without;
               gone = (case found of None \<Rightarrow> [] | Some c \<Rightarrow> [c]) @ map snd (filter (\<lambda>(k, c). closed c) without)
           in if length kept \<ge> pl_max p then (None, p\<lparr>pl_clients := kept\<rparr>, gone)
              else (Some (pl_next p),
                    p\<lparr>pl_clients := kept @ [(key, pl_next p)], pl_next := pl_next p + 1\<rparr>, gone))"

datatype pool_op =
    Pool_get "nat list" "nat list" url
  | Pool_policy string
  | Pool_network nat nat

fun pool_step :: "client_pool \<Rightarrow> pool_op \<Rightarrow> client_pool" where
  "pool_step p (Pool_get acc cl origin) =
     fst (snd (get_or_create_client (\<lambda>c. c \<in> set acc) (\<lambda>c. c \<in> set cl) origin p))"
| "pool_step p (Pool_policy tag) = set_origin_policy tag p"
| "pool_step p (Pool_network g n) = snd (pool_network_changed g n p)"

definition pool_inv :: "nat \<Rightarrow> client_pool \<Rightarrow> bool" where
  "pool_inv n p \<longleftrightarrow>
     pl_max p = n \<and> length (pl_clients p) \<le> n \<and> distinct (map fst (pl_clients p)) \<and>
     distinct (map snd (pl_clients p)) \<and> (\<forall>c\<in>snd ` set (pl_clients p). c < pl_next p)"

lemma pool_inv_filter: "pool_inv n p \<Longrightarrow> pool_inv n (p\<lparr>pl_clients := filter P (pl_clients p)\<rparr>)"
  by (auto simp: pool_inv_def intro: distinct_map_filter le_trans [OF length_filter_le])

lemma pool_inv_add:
  assumes "pool_inv n p" "key \<notin> fst ` set (pl_clients p)" "length (pl_clients p) < n"
  shows "pool_inv n (p\<lparr>pl_clients := pl_clients p @ [(key, pl_next p)], pl_next := pl_next p + 1\<rparr>)"
proof -
  have "pl_next p \<notin> snd ` set (pl_clients p)" using assms(1) unfolding pool_inv_def by blast
  moreover have "c < pl_next p + 1" if "c \<in> snd ` set (pl_clients p)" for c
    using that assms(1) unfolding pool_inv_def by (meson less_add_one less_trans)
  ultimately show ?thesis using assms by (auto simp: pool_inv_def)
qed

lemma get_or_create_inv:
  assumes "pool_inv n p" "get_or_create_client accepts closed origin p = (r, p', gone)"
  shows "pool_inv n p'"
proof -
  let ?key = "pool_key (pl_policy_tag p) origin"
  let ?p1 = "p\<lparr>pl_clients := filter (\<lambda>(k, c). k \<noteq> ?key) (pl_clients p)\<rparr>"
  let ?p2 = "?p1\<lparr>pl_clients := filter (\<lambda>(k, c). \<not> closed c) (pl_clients ?p1)\<rparr>"
  have 2: "pool_inv n ?p2" by (intro pool_inv_filter assms(1))
  have key: "?key \<notin> fst ` set (pl_clients ?p2)" by auto
  have "p' = p \<or> p' = ?p2 \<or> length (pl_clients ?p2) < pl_max p \<and>
      p' = ?p2\<lparr>pl_clients := pl_clients ?p2 @ [(?key, pl_next ?p2)], pl_next := pl_next ?p2 + 1\<rparr>"
    using assms(2) unfolding get_or_create_client_def Let_def by (simp split: if_splits)
  moreover have "pl_max p = n" using assms(1) by (simp add: pool_inv_def)
  ultimately show ?thesis using assms(1) 2 pool_inv_add [OF 2 key] by metis
qed

lemma pool_step_inv: "pool_inv n p \<Longrightarrow> pool_inv n (pool_step p op)"
proof (cases op)
  case (Pool_get acc cl origin)
  assume "pool_inv n p"
  obtain r p' gone where "get_or_create_client (\<lambda>c. c \<in> set acc) (\<lambda>c. c \<in> set cl) origin p = (r, p', gone)"
    by (metis prod_cases3)
  then show ?thesis using get_or_create_inv [OF \<open>pool_inv n p\<close>] Pool_get by simp
qed (auto simp: pool_inv_def set_origin_policy_def pool_network_changed_def)

interpretation connection_pool: bounded_system pool_step "pool_inv n" "\<lambda>p. length (pl_clients p)" n
  by unfold_locales (auto simp: pool_step_inv, simp add: pool_inv_def)

text \<open>Property C19: the pool is bounded.  However requests, policy changes and network changes come and
  whatever the connections answer, the engine never owns more workers than the configured limit (32 when
  the option is 0), no two for one policy tag and origin, and never one worker under two keys.\<close>

theorem connection_pool_bounded:
  assumes "engine_config_of obj opt = Some c"
  shows "let p = foldl pool_step (new_pool c) ops in
    length (pl_clients p) \<le> (if op_max_connection_workers opt = 0 then 32 else op_max_connection_workers opt) \<and>
    distinct (map fst (pl_clients p)) \<and> distinct (map snd (pl_clients p))"
proof -
  let ?n = "if op_max_connection_workers opt = 0 then 32 else op_max_connection_workers opt"
  have "pool_inv ?n (new_pool c)"
    using assms by (auto simp: engine_config_of_def Let_def pool_inv_def new_pool_def split: if_splits)
  from connection_pool.run_inv [OF this, of ops] show ?thesis by (simp add: pool_inv_def Let_def)
qed

theorem connection_pool_bounded_witness:
  "let p = foldl pool_step (new_pool (the (engine_config_of 512 ((fill_default_options 256)\<lparr>op_max_connection_workers := 1\<rparr>))))
     [Pool_get [] [] (https_url ''a'' ''/''), Pool_get [] [] (https_url ''b'' ''/''), Pool_get [] [0] (https_url ''b'' ''/'')]
   in length (pl_clients p) \<le> 1 \<and> pl_clients p \<noteq> []"
proof -
  let ?o = "(fill_default_options 256)\<lparr>op_max_connection_workers := 1\<rparr>"
  let ?ops = "[Pool_get [] [] (https_url ''a'' ''/''), Pool_get [] [] (https_url ''b'' ''/''), Pool_get [] [0] (https_url ''b'' ''/'')]"
  have c: "engine_config_of 512 ?o = Some (the (engine_config_of 512 ?o))"
    by (simp add: engine_config_of_def fill_default_options_def)
  have "pl_clients (foldl pool_step (new_pool (the (engine_config_of 512 ?o))) ?ops) \<noteq> []" by code_simp
  then show ?thesis using connection_pool_bounded [OF c, of ?ops] by (simp add: Let_def fill_default_options_def)
qed

subsection \<open>The dispatcher of cached responses\<close>

record cached_queue =
  dq_jobs :: "job list"
  dq_bytes :: nat
  dq_stop :: bool
  dq_max_bytes :: nat
  dq_thread :: bool

definition max_queued_cached_jobs :: nat where "max_queued_cached_jobs = 128"

definition new_cached_queue :: "engine_config \<Rightarrow> cached_queue" where
  "new_cached_queue c = \<lparr>dq_jobs = [], dq_bytes = 0, dq_stop = False, dq_max_bytes = ec_dispatch_max_bytes c,
                         dq_thread = False\<rparr>"

definition queued_bytes :: "job \<Rightarrow> nat" where
  "queued_bytes j = (case jk_cached_response (jb_cache j) of None \<Rightarrow> 0 | Some r \<Rightarrow> cr_accounted r)"

text \<open>\<^verbatim>\<open>queue_cached_job\<close>, where the first job starts the thread (which the system may refuse).\<close>

definition queue_cached_job :: "bool \<Rightarrow> job \<Rightarrow> cached_queue \<Rightarrow> bool \<times> cached_queue" where
  "queue_cached_job thread_starts j q =
     (if jk_cached_response (jb_cache j) = None then (False, q)
      else if dq_stop q \<or> length (dq_jobs q) \<ge> max_queued_cached_jobs \<or>
              queued_bytes j > u64_sub (dq_max_bytes q) (dq_bytes q) then (False, q)
      else if \<not> dq_thread q \<and> \<not> thread_starts then (False, q)
      else (True, q\<lparr>dq_jobs := dq_jobs q @ [j], dq_bytes := dq_bytes q + queued_bytes j, dq_thread := True\<rparr>))"

definition remove_queued_cached_job :: "int \<Rightarrow> cached_queue \<Rightarrow> cached_queue" where
  "remove_queued_cached_job request_id q =
     (case find_if (\<lambda>j. jb_id j = request_id) (dq_jobs q) of
        None \<Rightarrow> q
      | Some i \<Rightarrow> q\<lparr>dq_bytes := u64_sub (dq_bytes q) (queued_bytes (dq_jobs q ! i)),
                    dq_jobs := take i (dq_jobs q) @ drop (i + 1) (dq_jobs q)\<rparr>)"

text \<open>One round of \<^verbatim>\<open>run_cached_dispatcher\<close>: the job taken, or \<open>None\<close> where it waits or ends.\<close>

definition take_cached_job :: "cached_queue \<Rightarrow> job option \<times> cached_queue" where
  "take_cached_job q =
     (if dq_stop q \<or> dq_jobs q = [] then (None, q)
      else (Some (hd (dq_jobs q)),
            q\<lparr>dq_bytes := u64_sub (dq_bytes q) (queued_bytes (hd (dq_jobs q))), dq_jobs := tl (dq_jobs q)\<rparr>))"

definition stop_cached_dispatcher :: "cached_queue \<Rightarrow> cached_queue" where
  "stop_cached_dispatcher q = q\<lparr>dq_stop := True, dq_jobs := [], dq_bytes := 0, dq_thread := False\<rparr>"

datatype queue_op = Queue_add bool job | Queue_remove int | Queue_take | Queue_stop

fun queue_step :: "cached_queue \<Rightarrow> queue_op \<Rightarrow> cached_queue" where
  "queue_step q (Queue_add t j) = snd (queue_cached_job t j q)"
| "queue_step q (Queue_remove i) = remove_queued_cached_job i q"
| "queue_step q Queue_take = snd (take_cached_job q)"
| "queue_step q Queue_stop = stop_cached_dispatcher q"

definition queue_inv :: "nat \<Rightarrow> cached_queue \<Rightarrow> bool" where
  "queue_inv m q \<longleftrightarrow>
     dq_max_bytes q = m \<and> length (dq_jobs q) \<le> max_queued_cached_jobs \<and>
     dq_bytes q = sum_list (map queued_bytes (dq_jobs q)) \<and> dq_bytes q \<le> m \<and>
     (\<forall>j\<in>set (dq_jobs q). jk_cached_response (jb_cache j) \<noteq> None) \<and> (dq_stop q \<longrightarrow> dq_jobs q = [])"

lemma queue_cached_job_inv: "queue_inv m q \<Longrightarrow> queue_inv m (snd (queue_cached_job t j q))"
  by (auto simp: queue_cached_job_def queue_inv_def)

lemma remove_queued_inv: "queue_inv m q \<Longrightarrow> queue_inv m (remove_queued_cached_job i q)"
proof (cases "find_if (\<lambda>j. jb_id j = i) (dq_jobs q)")
  case (Some k)
  assume inv: "queue_inv m q"
  from Some have k: "k < length (dq_jobs q)" by (simp add: find_if_Some)
  have split: "dq_jobs q = take k (dq_jobs q) @ dq_jobs q ! k # drop (k + 1) (dq_jobs q)"
    using k by (simp add: id_take_nth_drop)
  have "sum_list (map queued_bytes (dq_jobs q)) =
      sum_list (map queued_bytes (take k (dq_jobs q))) + queued_bytes (dq_jobs q ! k) +
      sum_list (map queued_bytes (drop (k + 1) (dq_jobs q)))"
    by (subst split) simp
  then show ?thesis
    using inv Some k by (auto simp: queue_inv_def remove_queued_cached_job_def dest!: in_set_takeD in_set_dropD)
qed (simp add: remove_queued_cached_job_def)

lemma take_cached_inv: "queue_inv m q \<Longrightarrow> queue_inv m (snd (take_cached_job q))"
  by (cases "dq_jobs q") (auto simp: queue_inv_def take_cached_job_def)

lemma queue_step_inv: "queue_inv m q \<Longrightarrow> queue_inv m (queue_step q op)"
  by (cases op)
     (simp_all add: queue_cached_job_inv remove_queued_inv take_cached_inv,
      simp add: queue_inv_def stop_cached_dispatcher_def)

interpretation cached_dispatcher: bounded_system queue_step "queue_inv m" "\<lambda>q. length (dq_jobs q)" 128
  by unfold_locales (auto simp: queue_step_inv, simp add: queue_inv_def max_queued_cached_jobs_def)

text \<open>The queue of cached responses is bounded and its byte count exact.  After any sequence of
  admissions, cancellations, deliveries and stops it holds at most 128 jobs, the accounted bytes are the
  sum over the jobs in it (so no subtraction wraps) and within the configured limit, each job has its
  response, and a stopped dispatcher holds none.\<close>

lemma cached_queue_bounded:
  "let q = foldl queue_step (new_cached_queue c) ops in
   length (dq_jobs q) \<le> 128 \<and> dq_bytes q = sum_list (map queued_bytes (dq_jobs q)) \<and>
   dq_bytes q \<le> ec_dispatch_max_bytes c \<and>
   list_all (\<lambda>j. jk_cached_response (jb_cache j) \<noteq> None) (dq_jobs q) \<and>
   (if dq_stop q then dq_jobs q = [] else True)"
proof -
  have "queue_inv (ec_dispatch_max_bytes c) (new_cached_queue c)"
    by (simp add: queue_inv_def new_cached_queue_def)
  from cached_dispatcher.run_inv [OF this, of ops] show ?thesis
    by (simp add: queue_inv_def max_queued_cached_jobs_def Let_def list_all_iff)
qed

end
