(* ===== verification/Engine_Exchange.thy ===== *)
theory Engine_Exchange
  imports Engine_Jobs Response_Cache_Props
begin

text \<open>
  The handlers of \<^theory_text>\<open>Engine_Jobs\<close> composed over one exchange, the way a connection calls them: the
  headers, the chunks of the body, the end of the stream.  Exact descriptions of what the application
  gets, of what a redirect carries to the next hop, and of what reaches the cache.
\<close>

subsection \<open>An exchange\<close>

fun on_job_bodies :: "bytes list \<Rightarrow> job \<Rightarrow> job \<times> event list" where
  "on_job_bodies [] j = (j, [])"
| "on_job_bodies (d # ds) j =
     (case on_job_body d j of (j1, e1) \<Rightarrow> case on_job_bodies ds j1 of (j2, e2) \<Rightarrow> (j2, e1 @ e2))"

definition exchange ::
  "engine_env \<Rightarrow> int \<Rightarrow> header_list \<Rightarrow> bytes list \<Rightarrow> job \<Rightarrow> engine_store \<Rightarrow>
   job + (job \<times> engine_store \<times> event list)" where
  "exchange env status headers bodies j s =
     (case on_job_headers env status headers j s of
        (j1, s1, Ho_redirect nj) \<Rightarrow> Inl nj
      | (j1, s1, Ho_events e1) \<Rightarrow>
          case on_job_bodies bodies j1 of (j2, e2) \<Rightarrow>
          case on_job_complete env j2 s1 of (j3, s3, e3) \<Rightarrow> Inr (j3, s3, e1 @ e2 @ e3))"

text \<open>\<^verbatim>\<open>deliver\<close> lets an event of a request through up to and including the first terminal one.\<close>

fun visible :: "event list \<Rightarrow> event list" where
  "visible [] = []"
| "visible (e # es) = (if ev_terminal e then [e] else e # visible es)"

lemma visible_append:
  "(\<And>e. e \<in> set xs \<Longrightarrow> \<not> ev_terminal e) \<Longrightarrow> visible (xs @ ys) = xs @ visible ys"
  by (induction xs) auto

named_theorems handler_defs

lemmas [handler_defs] = set_capture_def set_validation_def drop_capture_def

lemma dispatch_kinds [simp]:
  "\<not> ev_terminal (dispatch_headers j st hs)" "\<not> ev_terminal (dispatch_body j d)"
  "ev_terminal (dispatch_complete j)" "ev_terminal (dispatch_error j err)"
  by (simp_all add: dispatch_headers_def dispatch_body_def dispatch_complete_def dispatch_error_def ev_terminal_def)

lemma dispatch_id:
  "jb_id j = jb_id j' \<Longrightarrow> dispatch_headers j = dispatch_headers j'"
  "jb_id j = jb_id j' \<Longrightarrow> dispatch_body j = dispatch_body j'"
  "jb_id j = jb_id j' \<Longrightarrow> dispatch_complete j = dispatch_complete j'"
  "jb_id j = jb_id j' \<Longrightarrow> dispatch_error j = dispatch_error j'"
  by (auto simp: dispatch_headers_def dispatch_body_def dispatch_complete_def dispatch_error_def fun_eq_iff)

subsection \<open>What the handlers leave alone\<close>

definition same_exchange :: "job \<Rightarrow> job \<Rightarrow> bool" where
  "same_exchange j j' \<longleftrightarrow>
     jb_id j' = jb_id j \<and> jb_request j' = jb_request j \<and> jb_url j' = jb_url j \<and>
     jb_redirected j' = jb_redirected j \<and> jb_redirect_count j' = jb_redirect_count j \<and>
     jb_response j' = jb_response j \<and> jk_validation (jb_cache j') = jk_validation (jb_cache j)"

lemma capture_body_keeps:
  "same_exchange j (capture_body d j)" "jb_declared_length (capture_body d j) = jb_declared_length j"
  "jb_received_bytes (capture_body d j) = jb_received_bytes j"
  by (simp_all add: capture_body_def same_exchange_def handler_defs split: option.split)

text \<open>The chunks of a body without a pending validation.\<close>

lemma on_job_bodies_plain:
  assumes "jk_validation (jb_cache j) = None"
  shows "\<exists>j'. on_job_bodies ds j = (j', map (dispatch_body j) ds) \<and> same_exchange j j' \<and>
              jb_declared_length j' = jb_declared_length j \<and>
              jb_received_bytes j' = jb_received_bytes j + length (concat ds)"
  using assms
proof (induction ds arbitrary: j)
  case Nil
  then show ?case by (simp add: same_exchange_def)
next
  case (Cons d ds)
  let ?j = "j\<lparr>jb_received_bytes := jb_received_bytes j + length d\<rparr>"
  let ?k = "capture_body d ?j"
  have b: "on_job_body d j = (?k, [dispatch_body j d])"
    using Cons.prems by (simp add: on_job_body_def Let_def dispatch_body_def)
  have k: "same_exchange j ?k" "jb_declared_length ?k = jb_declared_length j"
    "jb_received_bytes ?k = jb_received_bytes j + length d"
    using capture_body_keeps [where j = ?j and d = d] by (simp_all add: same_exchange_def)
  have "jk_validation (jb_cache ?k) = None" using k(1) Cons.prems by (simp add: same_exchange_def)
  then obtain j' where j': "on_job_bodies ds ?k = (j', map (dispatch_body ?k) ds)" "same_exchange ?k j'"
    "jb_declared_length j' = jb_declared_length ?k"
    "jb_received_bytes j' = jb_received_bytes ?k + length (concat ds)"
    using Cons.IH by blast
  have "dispatch_body ?k = dispatch_body j" using k(1) by (intro dispatch_id) (simp add: same_exchange_def)
  then show ?case using j' k b by (auto simp: same_exchange_def)
qed

text \<open>The captured body is what was received, within the entry limit, as long as the capture is on.\<close>

definition capture_is :: "nat \<Rightarrow> bytes \<Rightarrow> job \<Rightarrow> bool" where
  "capture_is limit body j \<longleftrightarrow>
     (case jk_capture (jb_cache j) of
        None \<Rightarrow> True
      | Some c \<Rightarrow> cpt_enabled c \<longrightarrow> cpt_body c = body \<and> length body \<le> limit \<and> cpt_max_bytes c = limit)"

lemma capture_body_is: "capture_is limit body j \<Longrightarrow> capture_is limit (body @ d) (capture_body d j)"
  by (auto simp: capture_is_def capture_body_def handler_defs split: option.splits)

lemma on_job_bodies_capture:
  "\<lbrakk>jk_validation (jb_cache j) = None; capture_is limit body j\<rbrakk> \<Longrightarrow>
   capture_is limit (body @ concat ds) (fst (on_job_bodies ds j))"
proof (induction ds arbitrary: j body)
  case (Cons d ds)
  let ?j = "j\<lparr>jb_received_bytes := jb_received_bytes j + length d\<rparr>"
  let ?k = "capture_body d ?j"
  have b: "on_job_body d j = (?k, [dispatch_body ?j d])"
    using Cons.prems by (simp add: on_job_body_def Let_def)
  have "capture_is limit body ?j" using Cons.prems(2) by (simp add: capture_is_def)
  then have "capture_is limit (body @ d) ?k" by (rule capture_body_is)
  moreover have "jk_validation (jb_cache ?k) = None"
    using capture_body_keeps(1) [where j = ?j and d = d] Cons.prems(1) by (simp add: same_exchange_def)
  ultimately have "capture_is limit ((body @ d) @ concat ds) (fst (on_job_bodies ds ?k))" using Cons.IH by blast
  then show ?case using b by (simp add: case_prod_beta)
qed simp

subsection \<open>The declared length\<close>

definition length_values :: "header_list \<Rightarrow> nat option list" where
  "length_values headers =
     map (\<lambda>h. parse_content_length (h_value h)) (filter (\<lambda>h. case_eq (h_name h) ''content-length'') headers)"

definition lengths_agree :: "header_list \<Rightarrow> nat \<Rightarrow> bool" where
  "lengths_agree headers n \<longleftrightarrow> list_all (\<lambda>v. v = Some n) (length_values headers) \<and> int n \<le> i64_max"

lemma response_length_from:
  "int m \<le> i64_max \<Longrightarrow>
   response_length hs (Some m) = (if list_all (\<lambda>v. v = Some m) (length_values hs) then Inr (Some m) else Inl ())"
  by (induction hs) (auto simp: length_values_def split: option.splits)

lemma response_length_spec:
  "response_length hs None =
     (if length_values hs = [] then Inr None
      else case hd (length_values hs) of
             None \<Rightarrow> Inl ()
           | Some n \<Rightarrow> if lengths_agree hs n then Inr (Some n) else Inl ())"
proof (induction hs)
  case (Cons h hs)
  show ?case
  proof (cases "case_eq (h_name h) ''content-length''")
    case False
    then have "length_values (h # hs) = length_values hs" by (simp add: length_values_def)
    moreover from this have "lengths_agree (h # hs) = lengths_agree hs" by (simp add: lengths_agree_def fun_eq_iff)
    ultimately show ?thesis using Cons.IH False by (simp split: option.split)
  next
    case True
    then show ?thesis
      using response_length_from [of _ hs]
      by (auto simp: length_values_def lengths_agree_def not_less split: option.split)
  qed
qed (simp add: length_values_def)

text \<open>The specification of the end of a plain response with body \<open>b\<close>.\<close>

definition exempt_status :: "string \<Rightarrow> int \<Rightarrow> bool" where
  "exempt_status meth st \<longleftrightarrow> meth = ''HEAD'' \<or> st = 204 \<or> st = 304 \<or> st sdiv 100 = 1"

definition plain_events :: "job \<Rightarrow> int \<Rightarrow> header_list \<Rightarrow> bytes list \<Rightarrow> event list" where
  "plain_events j status headers bodies =
     (let vs = length_values headers;
          n = length (concat bodies)
      in if vs \<noteq> [] \<and> (hd vs = None \<or> \<not> lengths_agree headers (the (hd vs)))
         then [dispatch_error j ERR_BODY]
         else dispatch_headers j status headers # map (dispatch_body j) bodies @
              [if vs = [] \<or> hd vs = Some n \<or> exempt_status (rq_method (jb_request j)) status
               then dispatch_complete j else dispatch_error j ERR_BODY])"

definition fresh_exchange :: "job \<Rightarrow> bool" where
  "fresh_exchange j \<longleftrightarrow>
     \<not> jb_redirected j \<and> jb_declared_length j = -1 \<and> jb_received_bytes j = 0 \<and>
     jk_validation (jb_cache j) = None \<and> jk_capture (jb_cache j) = None"

lemma redirect_target_cong:
  "\<lbrakk>jb_request j' = jb_request j; jb_url j' = jb_url j; jb_redirect_count j' = jb_redirect_count j\<rbrakk> \<Longrightarrow>
   redirect_target env st hs j' = redirect_target env st hs j"
  by (simp add: redirect_target_def)

lemma start_capture_keeps:
  "same_exchange j (start_capture env st hs j)"
  "jb_declared_length (start_capture env st hs j) = jb_declared_length j"
  "jb_received_bytes (start_capture env st hs j) = jb_received_bytes j"
  "jk_capture (jb_cache j) = None \<Longrightarrow> capture_is (en_max_entry_bytes env) [] (start_capture env st hs j)"
  by (auto simp: start_capture_def same_exchange_def set_capture_def capture_is_def)

text \<open>The headers of a plain response.\<close>

definition answered :: "int \<Rightarrow> header_list \<Rightarrow> job \<Rightarrow> job" where
  "answered status headers j =
     j\<lparr>jb_response := (jb_response j)\<lparr>rs_status_code := status, rs_headers := headers, rs_url := jb_url j\<rparr>\<rparr>"

lemma on_job_headers_plain:
  assumes "jk_validation (jb_cache j) = None" "redirect_target env status headers j = None"
  shows "on_job_headers env status headers j s =
    (case accept_headers env status headers (answered status headers j) s of (j', s', evs) \<Rightarrow> (j', s', Ho_events evs))"
proof -
  have "redirect_target env status headers (answered status headers j) = None"
    using assms(2) redirect_target_cong [of "answered status headers j" j] by (simp add: answered_def)
  then show ?thesis using assms(1) by (simp add: on_job_headers_def Let_def answered_def)
qed

lemma length_exempt_answered:
  "same_exchange (answered status headers j) j' \<Longrightarrow>
   length_exempt j' = exempt_status (rq_method (jb_request j)) status"
  by (simp add: length_exempt_def exempt_status_def Let_def same_exchange_def answered_def)

lemma invalidation_subset:
  "set (cs_entries (es_cache (invalidate_after_unsafe_request env j headers s))) \<subseteq> set (cs_entries (es_cache s))"
proof -
  have one: "set (cs_entries (cache_invalidate u c)) \<subseteq> set (cs_entries c)" for u c
    unfolding cache_invalidate_def by (rule erase_where_subset)
  define step where "step = (\<lambda>c v. case related_url env j v of None \<Rightarrow> c
     | Some u \<Rightarrow> if same_origin j u then cache_invalidate (url_to_string u) c else c)"
  have "set (cs_entries (step c v)) \<subseteq> set (cs_entries c)" for c v
    using one by (auto simp: step_def split: option.split)
  then have all: "set (cs_entries (foldl step c vs)) \<subseteq> set (cs_entries c)" for c vs
  proof (induction vs arbitrary: c)
    case (Cons v vs)
    show ?case using Cons.IH [OF Cons.prems, of "step c v"] Cons.prems [of c v] by simp
  qed simp
  show ?thesis
    using subset_trans [OF all one]
    by (simp add: invalidate_after_unsafe_request_def Let_def step_def [symmetric] del: foldl_append)
qed

lemma accept_headers_plain:
  assumes "jk_validation (jb_cache j) = None" "response_length headers None = Inr len"
  shows "\<exists>j' s'. accept_headers env status headers j s = (j', s', [dispatch_headers j status headers]) \<and>
    same_exchange j j' \<and> jb_received_bytes j' = jb_received_bytes j \<and>
    jb_declared_length j' = (case len of None \<Rightarrow> jb_declared_length j | Some n \<Rightarrow> int n) \<and>
    (jk_capture (jb_cache j) = None \<longrightarrow> capture_is (en_max_entry_bytes env) [] j') \<and>
    set (cs_entries (es_cache s')) \<subseteq> set (cs_entries (es_cache s))"
proof -
  let ?j1 = "case len of None \<Rightarrow> j | Some n \<Rightarrow> j\<lparr>jb_declared_length := int n\<rparr>"
  let ?j2 = "set_validation None ?j1"
  let ?j3 = "start_capture env status headers ?j2"
  have 2: "same_exchange j ?j2" "jb_received_bytes ?j2 = jb_received_bytes j"
    "jb_declared_length ?j2 = (case len of None \<Rightarrow> jb_declared_length j | Some n \<Rightarrow> int n)"
    "jk_capture (jb_cache ?j2) = jk_capture (jb_cache j)"
    using assms(1) by (auto simp: same_exchange_def set_validation_def split: option.split)
  have v: "jk_validation (jb_cache ?j1) = None" using assms(1) by (simp split: option.split)
  have 3: "same_exchange j ?j3" using 2(1) start_capture_keeps(1) [of ?j2 env status headers]
    by (simp add: same_exchange_def)
  have "dispatch_headers ?j3 = dispatch_headers j" using 3 by (intro dispatch_id) (simp add: same_exchange_def)
  moreover have "set (cs_entries (es_cache (invalidate_after_unsafe_request env k headers s1))) \<subseteq> set (cs_entries (es_cache s1))" for k s1
    by (rule invalidation_subset)
  ultimately have "\<exists>s'. accept_headers env status headers j s = (?j3, s', [dispatch_headers j status headers]) \<and>
      set (cs_entries (es_cache s')) \<subseteq> set (cs_entries (es_cache s))"
    using v by (fastforce simp: accept_headers_def assms(2) Let_def store_cookies_def)
  then show ?thesis
    using 3 2 start_capture_keeps(2,3) [of env status headers ?j2] start_capture_keeps(4) [of ?j2 env status headers]
    by fastforce
qed

lemma on_job_complete_plain:
  assumes "\<not> jb_redirected j" "jk_validation (jb_cache j) = None"
  shows "on_job_complete env j s =
    (if jb_declared_length j \<ge> 0 \<and> \<not> length_exempt j \<and> jb_received_bytes j \<noteq> nat (jb_declared_length j)
     then (drop_capture j, s, [dispatch_error j ERR_BODY])
     else (j, store_job_response env j s, [dispatch_complete j]))"
  using assms by (simp add: on_job_complete_def Let_def)

lemma store_job_response_entries:
  assumes "x \<in> set (cs_entries (es_cache (store_job_response env j s)))"
  shows "x \<in> set (cs_entries (es_cache s)) \<or>
    (\<exists>c. jk_capture (jb_cache j) = Some c \<and> cpt_enabled c \<and> rs_status_code (jb_response j) = 200 \<and> cr_body x = cpt_body c \<and>
       cr_headers x = rs_headers (jb_response j) \<and> cr_url x = url_to_string (jb_url j))"
  using assms
  by (auto simp: store_job_response_def cache_request_of_def Let_def split: option.splits if_splits dest!: cache_store_entries)

subsection \<open>A plain exchange\<close>

lemma visible_plain:
  "visible (dispatch_headers j st hs # map (dispatch_body j) ds @ e # es) =
   (if ev_terminal e then dispatch_headers j st hs # map (dispatch_body j) ds @ [e]
    else dispatch_headers j st hs # map (dispatch_body j) ds @ e # visible es)"
proof -
  have "visible (map (dispatch_body j) ds @ e # es) = map (dispatch_body j) ds @ visible (e # es)"
    by (rule visible_append) auto
  then show ?thesis by simp
qed

text \<open>A head whose length fields are malformed or disagree ends the exchange with an error.\<close>

lemma plain_exchange_bad_length:
  assumes "fresh_exchange j" "redirect_target env status headers j = None" "response_length headers None = Inl u"
  shows "\<exists>j' s' evs. exchange env status headers bodies j s = Inr (j', s', evs) \<and>
                    visible evs = plain_events j status headers bodies"
proof -
  let ?a = "answered status headers j"
  have nv: "jk_validation (jb_cache j) = None" using assms(1) by (simp add: fresh_exchange_def)
  have "on_job_error env ERR_BODY ?a = (drop_capture ?a, [dispatch_error j ERR_BODY])"
    using assms(1) by (simp add: on_job_error_def fresh_exchange_def answered_def dispatch_error_def)
  then obtain j1 where j1: "accept_headers env status headers ?a s = (j1, s, [dispatch_error j ERR_BODY])"
    using assms(3) by (simp add: accept_headers_def)
  have "length_values headers \<noteq> [] \<and>
     (hd (length_values headers) = None \<or> \<not> lengths_agree headers (the (hd (length_values headers))))"
    using assms(3) by (auto simp: response_length_spec split: if_splits option.splits)
  then show ?thesis
    by (auto simp: exchange_def on_job_headers_plain [OF nv assms(2)] j1 plain_events_def split: prod.splits)
qed

text \<open>Otherwise the job that has seen the head and the whole body is the fresh one with its counters moved on.\<close>

lemma plain_exchange_run:
  assumes "fresh_exchange j" "redirect_target env status headers j = None" "response_length headers None = Inr len"
  obtains j2 s1 where
    "exchange env status headers bodies j s = (case on_job_complete env j2 s1 of (j3, s3, evs) \<Rightarrow>
       Inr (j3, s3, [dispatch_headers j status headers] @ map (dispatch_body j) bodies @ evs))"
    "same_exchange (answered status headers j) j2" "jk_validation (jb_cache j2) = None" "\<not> jb_redirected j2"
    "jb_received_bytes j2 = length (concat bodies)" "jb_declared_length j2 = (case len of None \<Rightarrow> -1 | Some n \<Rightarrow> int n)"
    "dispatch_complete j2 = dispatch_complete j" "dispatch_error j2 = dispatch_error j"
proof -
  let ?a = "answered status headers j"
  have nv: "jk_validation (jb_cache ?a) = None" "jk_validation (jb_cache j) = None"
    using assms(1) by (simp_all add: fresh_exchange_def answered_def)
  have id: "jb_id ?a = jb_id j" by (simp add: answered_def)
  obtain j1 s1 where 1: "accept_headers env status headers ?a s = (j1, s1, [dispatch_headers ?a status headers])"
    "same_exchange ?a j1" "jb_received_bytes j1 = jb_received_bytes ?a"
    "jb_declared_length j1 = (case len of None \<Rightarrow> jb_declared_length ?a | Some n \<Rightarrow> int n)"
    using accept_headers_plain [OF nv(1) assms(3)] by blast
  have "jk_validation (jb_cache j1) = None" using 1(2) nv(1) by (simp add: same_exchange_def)
  then obtain j2 where 2: "on_job_bodies bodies j1 = (j2, map (dispatch_body j1) bodies)" "same_exchange j1 j2"
    "jb_declared_length j2 = jb_declared_length j1"
    "jb_received_bytes j2 = jb_received_bytes j1 + length (concat bodies)"
    using on_job_bodies_plain by blast
  have s2: "same_exchange ?a j2" using 1(2) 2(2) by (simp add: same_exchange_def)
  have d: "dispatch_headers ?a = dispatch_headers j" "dispatch_body j1 = dispatch_body j"
    "dispatch_complete j2 = dispatch_complete j" "dispatch_error j2 = dispatch_error j"
    using s2 1(2) id by (auto intro!: dispatch_id simp: same_exchange_def)
  show ?thesis
  proof (rule that [of j2 s1])
    show "exchange env status headers bodies j s = (case on_job_complete env j2 s1 of (j3, s3, evs) \<Rightarrow>
       Inr (j3, s3, [dispatch_headers j status headers] @ map (dispatch_body j) bodies @ evs))"
      by (simp add: exchange_def on_job_headers_plain [OF nv(2) assms(2)] 1(1) 2(1) d)
  qed (use s2 d 2 1 assms(1) in \<open>auto simp: same_exchange_def answered_def fresh_exchange_def split: option.split\<close>)
qed

text \<open>Property C11: what the application gets for a response that is neither a followed redirect nor the
  answer to a validation.  Content-Length fields that do not all name one 63-bit number end the exchange
  with a body error before anything else; otherwise come the headers and every chunk in order, and then
  the completion exactly when the declared length is the length of the body (or the method or status
  exempts it), a body error when it is not.\<close>

theorem plain_exchange_exact:
  assumes "fresh_exchange j" "redirect_target env status headers j = None"
  shows "\<exists>j' s' evs. exchange env status headers bodies j s = Inr (j', s', evs) \<and>
                    visible evs = plain_events j status headers bodies"
proof (cases "response_length headers None")
  case (Inr len)
  obtain j2 s1 where run: "exchange env status headers bodies j s = (case on_job_complete env j2 s1 of (j3, s3, evs) \<Rightarrow>
       Inr (j3, s3, [dispatch_headers j status headers] @ map (dispatch_body j) bodies @ evs))"
    and j2: "same_exchange (answered status headers j) j2" "jk_validation (jb_cache j2) = None" "\<not> jb_redirected j2"
    "jb_received_bytes j2 = length (concat bodies)" "jb_declared_length j2 = (case len of None \<Rightarrow> -1 | Some n \<Rightarrow> int n)"
    "dispatch_complete j2 = dispatch_complete j" "dispatch_error j2 = dispatch_error j"
    by (rule plain_exchange_run [OF assms Inr, where bodies = bodies and s = s])
  let ?ok = "len = None \<or> len = Some (length (concat bodies)) \<or> exempt_status (rq_method (jb_request j)) status"
  obtain j3 s3 where fin: "on_job_complete env j2 s1 =
      (j3, s3, [if ?ok then dispatch_complete j else dispatch_error j ERR_BODY])"
    using on_job_complete_plain [OF j2(3,2), of env s1] length_exempt_answered [OF j2(1)] j2(4-)
    by (cases len) (auto simp: answered_def split: if_splits)
  have "(len = None \<longleftrightarrow> length_values headers = []) \<and>
    (\<forall>n. len = Some n \<longrightarrow> hd (length_values headers) = Some n \<and> lengths_agree headers n)"
    using Inr by (cases "hd (length_values headers)") (auto simp: response_length_spec split: if_splits, metis+)
  then have "plain_events j status headers bodies = dispatch_headers j status headers # map (dispatch_body j) bodies @
      [if ?ok then dispatch_complete j else dispatch_error j ERR_BODY]"
    by (cases len) (auto simp: plain_events_def Let_def)
  then show ?thesis
    unfolding run fin prod.case by (simp add: visible_plain [of j status headers bodies _ "[]", simplified])
qed (rule plain_exchange_bad_length [OF assms])

subsection \<open>What a redirect carries on\<close>

lemma set_kept_headers:
  "set (foldl (\<lambda>hs h. if P h then hs else hl_add hs (h_name h) (h_value h)) acc flds) =
   set acc \<union> (\<lambda>h. mk_header (h_name h) (h_value h)) ` {h \<in> set flds. \<not> P h}"
  by (induction flds arbitrary: acc) (auto simp: hl_add_def)

lemma redirect_request_headers:
  "h \<in> set (rq_headers (redirect_request dec target j)) \<Longrightarrow>
   \<not> (rd_cross_origin dec \<and> sensitive_header (h_name h)) \<and> \<not> (rd_drop_body dec \<and> body_header (h_name h))"
  by (auto simp: redirect_request_def Let_def set_kept_headers)

lemma add_cookie_header_facts:
  "add_cookie_header env u r s = (r', s') \<Longrightarrow>
   rq_method r' = rq_method r \<and> rq_body r' = rq_body r \<and> request_has_body r' = request_has_body r \<and>
   (\<forall>h\<in>set (rq_headers r'). h \<in> set (rq_headers r) \<or>
      h = mk_header ''cookie'' (fst (cookie_header (ck_wall (en_clock env)) u (es_jar s))))"
  by (auto simp: add_cookie_header_def Let_def hl_add_def request_has_body_def split: prod.splits if_splits)

lemma add_cache_validator_facts:
  "add_cache_validator j r = (b, j') \<Longrightarrow>
   rq_method (jb_request j') = rq_method (jb_request j) \<and> rq_body (jb_request j') = rq_body (jb_request j) \<and>
   request_has_body (jb_request j') = request_has_body (jb_request j) \<and>
   jb_id j' = jb_id j \<and> jb_url j' = jb_url j \<and> jb_redirect_count j' = jb_redirect_count j \<and>
   (\<forall>h\<in>set (rq_headers (jb_request j')). h \<in> set (rq_headers (jb_request j)) \<or>
      h_name h = ''if-none-match'' \<or> h_name h = ''if-modified-since'')"
  by (auto simp: add_cache_validator_def Let_def hl_add_def request_has_body_def split: if_splits)

lemma prepare_cache_facts:
  assumes "prepare_cache env j s = (j', s')"
  shows "rq_method (jb_request j') = rq_method (jb_request j) \<and> rq_body (jb_request j') = rq_body (jb_request j) \<and>
   request_has_body (jb_request j') = request_has_body (jb_request j) \<and>
   jb_id j' = jb_id j \<and> jb_url j' = jb_url j \<and> jb_redirect_count j' = jb_redirect_count j \<and>
   (\<forall>h\<in>set (rq_headers (jb_request j')). h \<in> set (rq_headers (jb_request j)) \<or>
      h_name h = ''if-none-match'' \<or> h_name h = ''if-modified-since'')"
  using assms
  by (auto simp: prepare_cache_def Let_def set_validation_def split: option.splits prod.splits cache_lookup.splits
      dest!: add_cache_validator_facts)

lemma validator_names:
  "\<not> sensitive_header ''if-none-match''" "\<not> sensitive_header ''if-modified-since''"
  "\<not> body_header ''if-none-match''" "\<not> body_header ''if-modified-since''" "\<not> body_header ''cookie''"
  by code_simp+

lemma redirect_target_count:
  "redirect_target env status headers j = Some (dec, target) \<Longrightarrow> jb_redirect_count j < default_max_redirects"
  by (auto simp: redirect_target_def Let_def evaluate_redirect_follow split: if_splits)

text \<open>The run of \<^verbatim>\<open>on_job_headers\<close> on an answer that is followed.\<close>

lemma on_job_headers_redirects:
  assumes "redirect_target env status headers j = Some (dec, target)"
  obtains j2 nr s3 nr' s4 s5 nj where
    "on_job_headers env status headers j s = (j2\<lparr>jb_redirected := True\<rparr>, s5, Ho_redirect nj)"
    "jb_id j2 = jb_id j" "jb_redirect_count j2 = jb_redirect_count j" "nr = redirect_request dec target j2"
    "(if en_cookies env then add_cookie_header env target nr s3 else (nr, s3)) = (nr', s4)"
    "en_cookies env \<longrightarrow> es_jar s3 =
      jar_store (en_pton4 env) (en_pton6 env) (ck_wall (en_clock env)) (jb_url j) headers (es_jar s)"
    "prepare_cache env ((new_job (jb_id j2) nr' target)\<lparr>jb_redirect_count := jb_redirect_count j2 + 1,
      jb_cache := (jb_cache (new_job (jb_id j2) nr' target))\<lparr>jk_request_wall := ck_wall (en_clock env)\<rparr>\<rparr>) s4 = (nj, s5)"
proof -
  let ?j1 = "answered status headers j"
  let ?full = "jk_validation (jb_cache ?j1) \<noteq> None \<and> 200 \<le> status \<and> status < 500 \<and> status \<noteq> 304"
  let ?s1 = "if ?full then invalidate_cache_validation env ?j1 s else s"
  let ?j2 = "if ?full then set_validation None ?j1 else ?j1"
  let ?s2 = "if en_cookies env then store_cookies env (jb_url ?j2) headers ?s1 else ?s1"
  let ?s3 = "invalidate_after_unsafe_request env ?j2 headers ?s2"
  have t: "redirect_target env status headers ?j2 = Some (dec, target)"
    using assms redirect_target_cong [of ?j2 j env status headers] by (simp add: answered_def set_validation_def)
  have k: "jb_id ?j2 = jb_id j" "jb_url ?j2 = jb_url j" "jb_redirect_count ?j2 = jb_redirect_count j"
    by (simp_all add: answered_def set_validation_def)
  have jar: "es_jar ?s3 = es_jar ?s2" "es_jar ?s1 = es_jar s"
    by (simp_all add: invalidate_after_unsafe_request_def invalidate_cache_validation_def Let_def split: option.split)
  let ?nr = "redirect_request dec target ?j2"
  obtain nr' s4 where nr': "(if en_cookies env then add_cookie_header env target ?nr ?s3 else (?nr, ?s3)) = (nr', s4)"
    by (cases "if en_cookies env then add_cookie_header env target ?nr ?s3 else (?nr, ?s3)")
  let ?nj = "(new_job (jb_id ?j2) nr' target)\<lparr>jb_redirect_count := jb_redirect_count ?j2 + 1,
     jb_cache := (jb_cache (new_job (jb_id ?j2) nr' target))\<lparr>jk_request_wall := ck_wall (en_clock env)\<rparr>\<rparr>"
  obtain nj s5 where nj: "prepare_cache env ?nj s4 = (nj, s5)" by fastforce
  have run: "on_job_headers env status headers j s = (?j2\<lparr>jb_redirected := True\<rparr>, s5, Ho_redirect nj)"
    unfolding on_job_headers_def Let_def answered_def [symmetric] t option.case prod.case
      redirect_job_def nr' nj by simp
  have J: "en_cookies env \<longrightarrow> es_jar ?s3 =
      jar_store (en_pton4 env) (en_pton6 env) (ck_wall (en_clock env)) (jb_url j) headers (es_jar s)"
    unfolding jar(1) using jar(2) k(2) by (simp add: store_cookies_def)
  show ?thesis by (rule that [OF run k(1,3) refl nr' J nj])
qed

text \<open>What the decision means in terms of the answer: where the next hop goes, which method it has, and when the body goes.\<close>

lemma redirect_target_meaning:
  assumes "redirect_target env status headers j = Some (dec, target)" "url_wf (en_pton6 env) (jb_url j)"
    "\<And>x. en_pton6 env x \<Longrightarrow> CHR '':'' \<in> set x"
  shows "u_scheme target = ''https''"
    "rd_new_method dec = (if status = 303 \<and> rq_method (jb_request j) \<noteq> ''HEAD'' \<or>
       status \<in> {301, 302} \<and> rq_method (jb_request j) = ''POST'' then ''GET'' else rq_method (jb_request j))"
    "rd_drop_body dec \<longleftrightarrow> status = 303 \<or> status \<in> {301, 302} \<and> rq_method (jb_request j) = ''POST''"
    "u_path (jb_url j) \<noteq> [] \<or> \<not> path_relative (hl_get headers ''location'') \<Longrightarrow>
     \<not> rd_cross_origin dec \<Longrightarrow> u_host target = u_host (jb_url j) \<and> effective_port target = effective_port (jb_url j)"
proof -
  let ?resp = "new_response\<lparr>rs_status_code := status, rs_headers := headers\<rparr>"
  obtain n where dec: "dec = evaluate_redirect (en_pton6 env) (rq_method (jb_request j)) (jb_url j) ?resp True n"
    and follow: "rd_follow dec" and next_hop: "parse_url (en_pton6 env) (rd_new_url dec) = Some target"
    using assms(1) by (auto simp: redirect_target_def Let_def split: if_splits option.splits)
  note G = redirect_method_and_guards [of "en_pton6 env" "rq_method (jb_request j)" "jb_url j" ?resp True n, folded dec]
  show "u_scheme target = ''https''" using next_hop by (rule parse_url_SomeE)
  show "rd_new_method dec = (if status = 303 \<and> rq_method (jb_request j) \<noteq> ''HEAD'' \<or>
       status \<in> {301, 302} \<and> rq_method (jb_request j) = ''POST'' then ''GET'' else rq_method (jb_request j))"
    "rd_drop_body dec \<longleftrightarrow> status = 303 \<or> status \<in> {301, 302} \<and> rq_method (jb_request j) = ''POST''"
    using G follow by (auto simp: Let_def split: if_splits)
  assume "u_path (jb_url j) \<noteq> [] \<or> \<not> path_relative (hl_get headers ''location'')" "\<not> rd_cross_origin dec"
  then show "u_host target = u_host (jb_url j) \<and> effective_port target = effective_port (jb_url j)"
    using followed_origin [OF assms(2) _ assms(3), of ?resp "rq_method (jb_request j)" True n target, folded dec] follow next_hop
    by simp
qed


text \<open>A cross-origin 302 of a request with credentials.\<close>

definition example_env :: engine_env where
  "example_env = \<lparr>en_pton4 = no_ipv6, en_pton6 = no_ipv6, en_clock = \<lparr>ck_wall = Some 1000, ck_mono = 0\<rparr>,
                  en_cookies = True, en_cache = None, en_max_entry_bytes = 4096\<rparr>"

definition example_store :: engine_store where
  "example_store = \<lparr>es_jar = [], es_cache = empty_cache\<rparr>"

definition example_job :: job where
  "example_job = new_job 7
     ((new_request ''POST'' ''https://a.example/x'')\<lparr>
        rq_headers := [mk_header ''Authorization'' ''Basic Zg'', mk_header ''accept'' ''*/*'',
                       mk_header ''content-type'' ''text/plain''],
        rq_body := [1, 2], rq_body_present := True, rq_follow_redirects := True\<rparr>)
     (https_url ''a.example'' ''/x'')"


text \<open>The exception: a URL without a path, and a relative \<^verbatim>\<open>Location\<close> that begins with a dot.  The Authorization
  field the application set for one host is sent to another.\<close>

definition pathless_job :: job where
  "pathless_job = new_job 7
     ((new_request ''GET'' ''https://bank.example'')\<lparr>
        rq_headers := [mk_header ''Authorization'' ''Basic Zg''], rq_follow_redirects := True\<rparr>)
     (https_url ''bank.example'' [])"

lemma redirect_empty_path_leaks_credentials:
  "case on_job_headers example_env 302 [mk_header ''Location'' ''.evil.test/x''] pathless_job example_store of
     (j', s', Ho_redirect nj) \<Rightarrow> u_host (jb_url nj) = ''bank.example.evil.test'' \<and>
        map h_name (rq_headers (jb_request nj)) = [''Authorization'']
   | _ \<Rightarrow> False"
  by code_simp

subsection \<open>What reaches the cache\<close>

lemma accepted_capture:
  assumes "fresh_exchange j" "accept_headers env status headers (answered status headers j) s = (j1, s1, evs1)"
  shows "same_exchange (answered status headers j) j1" "set (cs_entries (es_cache s1)) \<subseteq> set (cs_entries (es_cache s))"
    "capture_is (en_max_entry_bytes env) [] j1" "jk_capture (jb_cache j1) \<noteq> None \<Longrightarrow> evs1 = [dispatch_headers j status headers]"
proof -
  let ?a = "answered status headers j"
  have a: "jk_validation (jb_cache ?a) = None" "jk_capture (jb_cache ?a) = None" "dispatch_headers ?a = dispatch_headers j"
    using assms(1) dispatch_id(1) [of ?a j] by (simp_all add: fresh_exchange_def answered_def)
  have "same_exchange ?a j1 \<and> set (cs_entries (es_cache s1)) \<subseteq> set (cs_entries (es_cache s)) \<and>
      capture_is (en_max_entry_bytes env) [] j1 \<and> (jk_capture (jb_cache j1) \<noteq> None \<longrightarrow> evs1 = [dispatch_headers j status headers])"
  proof (cases "response_length headers None")
    case (Inl u)
    then have "j1 = ?a" "s1 = s"
      using assms by (auto simp: accept_headers_def on_job_error_def drop_capture_def fresh_exchange_def answered_def)
    then show ?thesis using a(2) by (simp add: same_exchange_def capture_is_def)
  next
    case (Inr len)
    show ?thesis using accept_headers_plain [OF a(1) Inr, of env status s] assms(2) a(2,3) by auto
  qed
  then show "same_exchange ?a j1" "set (cs_entries (es_cache s1)) \<subseteq> set (cs_entries (es_cache s))"
    "capture_is (en_max_entry_bytes env) [] j1" "jk_capture (jb_cache j1) \<noteq> None \<Longrightarrow> evs1 = [dispatch_headers j status headers]"
    by auto
qed

lemma on_job_bodies_no_capture: "jk_capture (jb_cache j) = None \<Longrightarrow> jk_capture (jb_cache (fst (on_job_bodies ds j))) = None"
proof (induction ds arbitrary: j)
  case (Cons d ds)
  then have "jk_capture (jb_cache (fst (on_job_body d j))) = None"
    by (auto simp: on_job_body_def capture_body_def Let_def split: option.split)
  then show ?case using Cons.IH by (simp add: case_prod_beta)
qed simp

text \<open>Property C17: what a plain exchange (no redirect, no stored response being validated) puts into the cache.  Whatever
  entry is in the cache at its end was there before, or the exchange was reported complete and the entry is
  the 200 that was delivered: it has the URL of the job, the header fields the application was
  given, and as its body all the bytes dispatched to the application, in order and within the entry limit.  When the exchange ends
  in an error the capture is off and the cache is as the headers left it.\<close>

theorem captured_body_is_delivered_body:
  assumes "fresh_exchange j" "redirect_target env status headers j = None"
    "on_job_headers env status headers j s = (j1, s1, Ho_events evs1)"
    "on_job_bodies bodies j1 = (k, evs)" "on_job_complete env k s1 = (j2, s2, evs2)"
  shows "evs = map (dispatch_body j) bodies \<and>
    (\<forall>x\<in>set (cs_entries (es_cache s2)). x \<in> set (cs_entries (es_cache s)) \<or>
       evs1 = [dispatch_headers j status headers] \<and> evs2 = [dispatch_complete j] \<and> status = 200 \<and>
       cr_url x = url_to_string (jb_url j) \<and> cr_headers x = headers \<and>
       cr_body x = concat bodies \<and> length (concat bodies) \<le> en_max_entry_bytes env) \<and>
    (dispatch_complete j \<notin> set evs2 \<longrightarrow>
       s2 = s1 \<and> (\<forall>c. jk_capture (jb_cache j2) = Some c \<longrightarrow> \<not> cpt_enabled c \<and> cpt_body c = []))"
proof -
  let ?a = "answered status headers j"
  have nv: "jk_validation (jb_cache j) = None" using assms(1) by (simp add: fresh_exchange_def)
  have acc: "accept_headers env status headers ?a s = (j1, s1, evs1)"
    using on_job_headers_plain [OF nv assms(2), of s] assms(3) by (auto split: prod.splits)
  note C = accepted_capture [OF assms(1) acc]
  have j1: "jk_validation (jb_cache j1) = None" "jb_id j1 = jb_id j" "\<not> jb_redirected j1" "jb_url j1 = jb_url j"
    "jb_response j1 = jb_response ?a"
    using C(1) assms(1) by (auto simp: same_exchange_def answered_def fresh_exchange_def)
  have k: "evs = map (dispatch_body j1) bodies" "same_exchange j1 k"
    using on_job_bodies_plain [OF j1(1), of bodies] assms(4) by auto
  have k2: "jk_validation (jb_cache k) = None" "jb_id k = jb_id j" "\<not> jb_redirected k" "jb_url k = jb_url j" "jb_response k = jb_response ?a"
    using k(2) j1 by (simp_all add: same_exchange_def)
  have cap: "capture_is (en_max_entry_bytes env) (concat bodies) k"
    using on_job_bodies_capture [OF j1(1) C(3), of bodies] assms(4) by simp
  have first: "evs1 = [dispatch_headers j status headers]" if "jk_capture (jb_cache k) \<noteq> None"
    using C(4) on_job_bodies_no_capture [of j1 bodies] assms(4) that by fastforce
  note fin = on_job_complete_plain [OF k2(3,1), of env s1, unfolded assms(5)]
  have ids: "dispatch_body j1 = dispatch_body j" "dispatch_complete k = dispatch_complete j" 
    using dispatch_id [OF j1(2)] dispatch_id [OF k2(2)] by auto
  have ends: "j2 = drop_capture k \<and> s2 = s1 \<or> s2 = store_job_response env k s1 \<and> evs2 = [dispatch_complete j]"
    using fin ids(2) by (simp split: if_splits)
  have entry: "x \<in> set (cs_entries (es_cache s)) \<or>
       evs1 = [dispatch_headers j status headers] \<and> evs2 = [dispatch_complete j] \<and> status = 200 \<and>
       cr_url x = url_to_string (jb_url j) \<and> cr_headers x = headers \<and>
       cr_body x = concat bodies \<and> length (concat bodies) \<le> en_max_entry_bytes env"
    if x: "x \<in> set (cs_entries (es_cache s2))" for x
  proof (cases "x \<in> set (cs_entries (es_cache s1))")
    case True
    then show ?thesis using C(2) by blast
  next
    case False
    then have e: "s2 = store_job_response env k s1" "evs2 = [dispatch_complete j]" using ends x by auto
    obtain c where c: "jk_capture (jb_cache k) = Some c" "cpt_enabled c" "rs_status_code (jb_response k) = 200"
      "cr_body x = cpt_body c" "cr_headers x = rs_headers (jb_response k)" "cr_url x = url_to_string (jb_url k)"
      using store_job_response_entries [of x env k s1] x False e(1) by blast
    then show ?thesis using cap first e(2) k2(4,5) by (simp add: capture_is_def answered_def)
  qed
  have err: "s2 = s1 \<and> (\<forall>c. jk_capture (jb_cache j2) = Some c \<longrightarrow> \<not> cpt_enabled c \<and> cpt_body c = [])"
    if "dispatch_complete j \<notin> set evs2"
    using ends that by (auto simp: drop_capture_def set_capture_def split: option.splits)
  have data: "evs = map (dispatch_body j) bodies" using k(1) ids(1) by simp
  show ?thesis by (intro conjI ballI impI data entry err)
qed

definition example_get :: job where
  "example_get = new_job 3 (new_request ''GET'' ''https://a.example/x'') (https_url ''a.example'' ''/x'')"

definition caching_env :: engine_env where
  "caching_env = example_env\<lparr>en_cache := Some tiny_cache, en_clock := example_clock 3\<rparr>"

definition cacheable_head :: header_list where
  "cacheable_head = [mk_header ''cache-control'' ''max-age=60'', mk_header ''content-length'' ''2'']"

theorem captured_body_is_delivered_body_witness:
  "\<exists>j1 s1 evs1 k evs j2 s2 evs2.
     on_job_headers caching_env 200 cacheable_head example_get example_store = (j1, s1, Ho_events evs1) \<and>
     on_job_bodies [[8], [9]] j1 = (k, evs) \<and> on_job_complete caching_env k s1 = (j2, s2, evs2) \<and>
     length (cs_entries (es_cache s2)) = 1 \<and> (\<forall>x\<in>set (cs_entries (es_cache s2)). cr_body x = [8, 9])"
proof -
  have f: "fresh_exchange example_get" "redirect_target caching_env 200 cacheable_head example_get = None"
    by code_simp+
  let ?h = "on_job_headers caching_env 200 cacheable_head example_get example_store"
  have h: "case ?h of (_, _, Ho_events _) \<Rightarrow> True | _ \<Rightarrow> False" by code_simp
  obtain j1 s1 evs1 where 1: "?h = (j1, s1, Ho_events evs1)"
    using h by (cases ?h) (auto split: headers_outcome.splits)
  obtain k evs where 2: "on_job_bodies [[8], [9]] j1 = (k, evs)" by fastforce
  obtain j2 s2 evs2 where 3: "on_job_complete caching_env k s1 = (j2, s2, evs2)" by (metis prod_cases3)
  have "(case ?h of (j1, s1, _) \<Rightarrow> length (cs_entries (es_cache (fst (snd (on_job_complete caching_env
      (fst (on_job_bodies [[8], [9]] j1)) s1)))))) = 1" by code_simp
  then have "length (cs_entries (es_cache s2)) = 1" using 1 2 3 by simp
  moreover have "cs_entries (es_cache example_store) = []" by code_simp
  ultimately show ?thesis
    using captured_body_is_delivered_body [OF f 1 2 3] 1 2 3 by auto
qed

theorem plain_exchange_exact_witness:
  "\<exists>j' s' evs. exchange example_env 200 [mk_header ''content-length'' ''3''] [[8], [9]] example_get example_store =
     Inr (j', s', evs) \<and> last (visible evs) = dispatch_error example_get ERR_BODY"
proof -
  have f: "fresh_exchange example_get" "redirect_target example_env 200 [mk_header ''content-length'' ''3''] example_get = None"
    by code_simp+
  have "last (plain_events example_get 200 [mk_header ''content-length'' ''3''] [[8], [9]]) = dispatch_error example_get ERR_BODY"
    by code_simp
  with plain_exchange_exact [OF f, of "[[8], [9]]" example_store] show ?thesis by auto
qed

subsection \<open>The answer to a validation\<close>

text \<open>The response the application gets when a stored response is being validated and the server answers
  304, or fails with a status for which the stored one may still be served.\<close>

definition validation_answer ::
  "engine_env \<Rightarrow> cache_params \<Rightarrow> int \<Rightarrow> header_list \<Rightarrow> cache_validation \<Rightarrow> job \<Rightarrow> cache_state \<Rightarrow> cached_response option" where
  "validation_answer env p status headers v j cache =
     (if status = 304 then
        map_option rv_delivery (fst (merge_304 p (en_clock env) (cv_stored v)
          (cache_request_of j (original_cache_request_headers j) (jb_streaming j \<or> rq_streaming_body (jb_request j)))
          headers (jk_request_wall (jb_cache j)) (cv_candidate_ids v) (cv_sent_if_modified_since v) cache))
      else Some (cv_stored v))"

definition internal_answer :: "engine_env \<Rightarrow> int \<Rightarrow> cache_validation \<Rightarrow> bool" where
  "internal_answer env status v \<longleftrightarrow>
     status = 304 \<or> is_stale_if_error_status status \<and> can_serve_stale_if_error (en_clock env) (cv_stored v)"

lemma deliver_cached_id: "jb_id j = jb_id j' \<Longrightarrow> deliver_cached env j r = deliver_cached env j' r"
  using dispatch_id [of j j'] by (simp add: deliver_cached_def Let_def)

text \<open>Body chunks of an internal answer are counted and swallowed.\<close>

lemma on_job_bodies_internal:
  assumes "jk_validation (jb_cache j) = Some v" "cv_serve_stale_on_error v \<or> rs_status_code (jb_response j) = 304"
  shows "on_job_bodies ds j = (j\<lparr>jb_received_bytes := jb_received_bytes j + length (concat ds)\<rparr>, [])"
  using assms
proof (induction ds arbitrary: j)
  case (Cons d ds)
  have "on_job_body d j = (j\<lparr>jb_received_bytes := jb_received_bytes j + length d\<rparr>, [])"
    using Cons.prems by (auto simp: on_job_body_def Let_def)
  then show ?case using Cons.IH [of "j\<lparr>jb_received_bytes := jb_received_bytes j + length d\<rparr>"] Cons.prems
    by (simp add: add.assoc)
qed simp

lemma redirect_target_none: "status sdiv 100 \<noteq> 3 \<or> status = 304 \<Longrightarrow> redirect_target env status hs j = None"
  by (auto simp: redirect_target_def)

lemma stale_status_class: "is_stale_if_error_status status \<Longrightarrow> status sdiv 100 = 5 \<and> status \<ge> 500"
  by (auto simp: is_stale_if_error_status_def signed_divide_int_def)

lemma accept_headers_internal:
  assumes "jk_validation (jb_cache j) = Some v" "internal_answer env status v"
    and "en_cache env = Some p" "response_length headers None = Inr len"
  shows "accept_headers env status headers j s =
    (set_validation (Some (if status = 304 then v\<lparr>cv_response_headers := headers\<rparr>
                           else v\<lparr>cv_serve_stale_on_error := True\<rparr>))
       (case len of None \<Rightarrow> j | Some n \<Rightarrow> j\<lparr>jb_declared_length := int n\<rparr>),
     if en_cookies env then store_cookies env (jb_url j) headers s else s, [])"
proof -
  have "jk_validation (jb_cache (case len of None \<Rightarrow> j | Some n \<Rightarrow> j\<lparr>jb_declared_length := int n\<rparr>)) = Some v"
    using assms(1) by (simp split: option.split)
  then show ?thesis
    using assms(2,3) unfolding accept_headers_def assms(4) by (auto simp: Let_def internal_answer_def)
qed

text \<open>The job after the head and the body of an answer to its validation that the application does not see.\<close>

definition validated_job :: "int \<Rightarrow> header_list \<Rightarrow> nat option \<Rightarrow> bytes list \<Rightarrow> cache_validation \<Rightarrow> job \<Rightarrow> job" where
  "validated_job status headers len bodies v j =
     (let j1 = set_validation (Some (if status = 304 then v\<lparr>cv_response_headers := headers\<rparr> else v\<lparr>cv_serve_stale_on_error := True\<rparr>))
           (case len of None \<Rightarrow> answered status headers j | Some n \<Rightarrow> (answered status headers j)\<lparr>jb_declared_length := int n\<rparr>)
      in j1\<lparr>jb_received_bytes := jb_received_bytes j1 + length (concat bodies)\<rparr>)"

lemma validation_run:
  assumes "jk_validation (jb_cache j) = Some v" "en_cache env = Some p" "internal_answer env status v"
    "response_length headers None = Inr len"
  obtains s1 where "es_cache s1 = es_cache s"
    "exchange env status headers bodies j s = (case on_job_complete env (validated_job status headers len bodies v j) s1 of
       (j', s', evs) \<Rightarrow> Inr (j', s', evs))"
proof -
  let ?a = "answered status headers j"
  let ?v = "if status = 304 then v\<lparr>cv_response_headers := headers\<rparr> else v\<lparr>cv_serve_stale_on_error := True\<rparr>"
  let ?j1 = "set_validation (Some ?v) (case len of None \<Rightarrow> ?a | Some n \<Rightarrow> ?a\<lparr>jb_declared_length := int n\<rparr>)"
  let ?s1 = "if en_cookies env then store_cookies env (jb_url ?a) headers s else s"
  have cls: "status = 304 \<or> status sdiv 100 = 5 \<and> status \<ge> 500"
    using assms(3) stale_status_class by (auto simp: internal_answer_def)
  have t: "redirect_target env status headers ?a = None" using cls by (intro redirect_target_none) auto
  have va: "jk_validation (jb_cache ?a) = Some v" using assms(1) by (simp add: answered_def)
  have full: "\<not> (200 \<le> status \<and> status < 500 \<and> status \<noteq> 304)" using cls by auto
  have h: "on_job_headers env status headers j s = (?j1, ?s1, Ho_events [])"
    using full t accept_headers_internal [OF va assms(3,2,4), of s]
    unfolding on_job_headers_def Let_def answered_def [symmetric] by (auto simp del: split_paired_All)
  have f: "jk_validation (jb_cache ?j1) = Some ?v" "rs_status_code (jb_response ?j1) = status"
    by (auto simp: set_validation_def answered_def split: option.split)
  have b: "on_job_bodies bodies ?j1 = (validated_job status headers len bodies v j, [])"
    unfolding validated_job_def Let_def using f by (intro on_job_bodies_internal [where v = ?v]) auto
  show ?thesis
    by (rule that [of ?s1]) (simp_all add: store_cookies_def exchange_def h b)
qed

lemma validated_job_facts:
  assumes "\<not> jb_redirected j" "j2 = validated_job status headers len bodies v j"
  shows "jk_validation (jb_cache j2) =
      Some (if status = 304 then v\<lparr>cv_response_headers := headers\<rparr> else v\<lparr>cv_serve_stale_on_error := True\<rparr>)"
    "rs_status_code (jb_response j2) = status" "\<not> jb_redirected j2"
    "cache_request_of j2 (original_cache_request_headers j2) (jb_streaming j2 \<or> rq_streaming_body (jb_request j2)) =
      cache_request_of j (original_cache_request_headers j) (jb_streaming j \<or> rq_streaming_body (jb_request j))"
    "jk_request_wall (jb_cache j2) = jk_request_wall (jb_cache j)"
    "deliver_cached env j2 = deliver_cached env j" "dispatch_error j2 = dispatch_error j"
proof -
  have id: "jb_id j2 = jb_id j"
    by (auto simp: assms(2) validated_job_def Let_def set_validation_def answered_def split: option.split)
  show "deliver_cached env j2 = deliver_cached env j" "dispatch_error j2 = dispatch_error j"
    using id deliver_cached_id [of j2 j env] dispatch_id(4) [of j2 j] by (auto simp: fun_eq_iff)
qed (use assms(1) in \<open>auto simp: assms(2) validated_job_def Let_def cache_request_of_def original_cache_request_headers_def
       set_validation_def answered_def split: option.split\<close>)

text \<open>Property C15: the answer to a validation never shows.  A 304 reaches the application as the stored
  response with its merged metadata (or, when the metadata does not select it, as one protocol error),
  a 500, 502, 503 or 504 for which the stored response may be served stale as that response: status,
  headers and body of the error answer are swallowed, however many chunks it had.\<close>

theorem validation_answer_is_stored:
  assumes "jk_validation (jb_cache j) = Some v" "\<not> cv_serve_stale_on_error v" "\<not> jb_redirected j"
    and "en_cache env = Some p" "internal_answer env status v" "response_length headers None = Inr len"
  shows "\<exists>j' s'. exchange env status headers bodies j s = Inr (j', s',
    (case validation_answer env p status headers v j (es_cache s) of
       Some r \<Rightarrow> deliver_cached env j r | None \<Rightarrow> [dispatch_error j ERR_HTTP3]))"
proof -
  let ?j2 = "validated_job status headers len bodies v j"
  obtain s1 where s1: "es_cache s1 = es_cache s"
    "exchange env status headers bodies j s = (case on_job_complete env ?j2 s1 of (j', s', evs) \<Rightarrow> Inr (j', s', evs))"
    by (rule validation_run [OF assms(1,4-6)])
  note f = validated_job_facts [OF assms(3) refl, where status = status and headers = headers and len = len and bodies = bodies and v = v]
  have "\<exists>j' s'. on_job_complete env ?j2 s1 = (j', s',
    (case validation_answer env p status headers v j (es_cache s) of
       Some r \<Rightarrow> deliver_cached env j r | None \<Rightarrow> [dispatch_error j ERR_HTTP3]))"
  proof (cases "status = 304")
    case False
    then show ?thesis using f by (simp add: on_job_complete_def Let_def validation_answer_def)
  next
    case True
    then have e: "length_exempt ?j2" using f(2) by (simp add: length_exempt_def Let_def)
    obtain m c where m: "merge_304 p (en_clock env) (cv_stored v)
        (cache_request_of j (original_cache_request_headers j) (jb_streaming j \<or> rq_streaming_body (jb_request j)))
        headers (jk_request_wall (jb_cache j)) (cv_candidate_ids v) (cv_sent_if_modified_since v) (es_cache s) = (m, c)"
      by (metis prod.collapse)
    show ?thesis
      unfolding on_job_complete_def Let_def f(4)
      using f e assms(2,4) s1(1) True m by (cases m) (simp_all add: validation_answer_def)
  qed
  then show ?thesis unfolding s1(2) by auto
qed

definition stale_response :: cached_response where
  "stale_response =
     \<lparr>cr_url = ''https://a.example/x'', cr_status_code = 200, cr_headers = [mk_header ''etag'' ''e''],
      cr_body = [1, 2, 3], cr_vary = [], cr_entry_id = 1, cr_selection_date = 0, cr_stored_at = 1,
      cr_initial_age = 0, cr_freshness_lifetime = 10, cr_etag = Some ''e'', cr_last_modified = None,
      cr_requires_revalidation = False, cr_must_revalidate = False, cr_stale_if_error = Some 60,
      cr_accounted = 600\<rparr>"

definition stale_validation :: cache_validation where
  "stale_validation = \<lparr>cv_stored = stale_response, cv_candidate_ids = [1], cv_response_headers = [],
     cv_serve_stale_on_error = False, cv_sent_if_modified_since = False\<rparr>"

definition stale_env :: engine_env where
  "stale_env = example_env\<lparr>en_clock := \<lparr>ck_wall = Some 1000, ck_mono = 30000000001\<rparr>,
                           en_cache := Some \<lparr>cp_max_entries = 8, cp_max_bytes = 4096, cp_max_entry_bytes = 2048,
                                            cp_object_size = 512\<rparr>\<rparr>"

theorem validation_answer_is_stored_witness:
  "\<exists>j' s' evs. exchange stale_env 503 [] [[9]] (set_validation (Some stale_validation) example_get) example_store =
     Inr (j', s', evs) \<and> dispatch_body example_get [1, 2, 3] \<in> set evs"
proof -
  let ?j = "set_validation (Some stale_validation) example_get"
  have f: "jk_validation (jb_cache ?j) = Some stale_validation" "\<not> cv_serve_stale_on_error stale_validation"
    "\<not> jb_redirected ?j" "en_cache stale_env = Some (the (en_cache stale_env))"
    "internal_answer stale_env 503 stale_validation" "response_length [] None = Inr None"
    by (simp add: set_validation_def) code_simp+
  have "dispatch_body example_get [1, 2, 3] \<in> set (deliver_cached stale_env ?j stale_response)"
    by code_simp
  moreover have "validation_answer stale_env (the (en_cache stale_env)) 503 [] stale_validation ?j
      (es_cache example_store) = Some stale_response"
    by (simp add: validation_answer_def stale_validation_def)
  ultimately show ?thesis
    using validation_answer_is_stored [OF f, of "[[9]]" example_store] by auto
qed

subsection \<open>Two gaps\<close>

text \<open>Once a redirect is followed the completion and the errors of the old hop are ignored, but
  \<^verbatim>\<open>on_job_body\<close> has no such test: the body of the 3xx answer is dispatched under the request's id, ahead
  of the headers of the target.\<close>

lemma redirected_body_is_dispatched:
  "let (j', s', out) = on_job_headers example_env 302 [mk_header ''Location'' ''https://b.example/y''] example_job example_store
   in jb_redirected j' \<and> snd (on_job_body [60, 62] j') = [dispatch_body example_job [60, 62]] \<and>
      snd (snd (on_job_complete example_env j' s')) = []"
  by code_simp

text \<open>On a redirect within the origin the jar's Cookie field of the first hop is copied like a field of
  the application, so the field computed after the redirect stored its own Set-Cookie is not added.\<close>

lemma redirect_keeps_old_cookie:
  "let jar_of = (\<lambda>v. jar_store no_ipv6 no_ipv6 (Some 1000) (https_url ''a.example'' ''/x'')
                        [mk_header ''set-cookie'' v] []);
       s = example_store\<lparr>es_jar := jar_of ''sid=old''\<rparr>;
       (r, s1) = add_cookie_header example_env (jb_url example_get)
                   ((jb_request example_get)\<lparr>rq_follow_redirects := True\<rparr>) s;
       (j', s', out) = on_job_headers example_env 302
          [mk_header ''Location'' ''/home'', mk_header ''set-cookie'' ''sid=new'']
          (new_job 3 r (jb_url example_get)) s1
   in fst (cookie_header (Some 1000) (https_url ''a.example'' ''/home'') (es_jar s')) = ''sid=new'' \<and>
      (case out of Ho_redirect nj \<Rightarrow> hl_get_all (rq_headers (jb_request nj)) ''cookie'' = [''sid=old'']
                 | _ \<Rightarrow> False)"
  by code_simp

end
