(* ===== verification/Engine_Registry.thy ===== *)
theory Engine_Registry
  imports Engine_Pool Engine_Exchange
begin

text \<open>
  The registry of \<^verbatim>\<open>Engine\<close> (\<^verbatim>\<open>src/core/engine.cc\<close>): one entry per request that has not ended, through which
  every event goes, and the calls of the C ABI on it.  \<^verbatim>\<open>mtx_\<close> makes each locked region one step, so
  \<open>deliver\<close> is two steps around the callback, and the sweep of \<open>destroy\<close> one step before its callbacks.
  \<open>registry_trans\<close> interleaves them freely, which covers every schedule the three mutexes allow.
\<close>

subsection \<open>Entries and callbacks\<close>

record req_entry =
  re_client :: "nat option"
  re_cb :: bool
  re_cancelled :: bool
  re_terminal :: bool
  re_redirect_count :: nat

type_synonym registry = "int \<rightharpoonup> req_entry"

definition new_entry :: "bool \<Rightarrow> nat option \<Rightarrow> req_entry" where
  "new_entry cb client = \<lparr>re_client = client, re_cb = cb, re_cancelled = False, re_terminal = False,
                          re_redirect_count = 0\<rparr>"

definition invoke_callback :: "bool \<Rightarrow> event \<Rightarrow> event list" where
  "invoke_callback cb ev = (if cb then [ev] else [])"

definition error_event :: "int \<Rightarrow> kat_error \<Rightarrow> event" where
  "error_event i err = \<lparr>ev_request_id = i, ev_kind = Ev_error err\<rparr>"

subsection \<open>Delivery\<close>

text \<open>The locked lookup and the callback: the events seen, whether the entry is erased afterwards.\<close>

definition deliver_begin :: "event \<Rightarrow> registry \<Rightarrow> event list \<times> bool \<times> registry" where
  "deliver_begin ev reg =
     (case reg (ev_request_id ev) of
        None \<Rightarrow> ([], False, reg)
      | Some e \<Rightarrow>
          if re_terminal e then ([], False, reg)
          else if re_cancelled e then ([], False, reg(ev_request_id ev := None))
          else (invoke_callback (re_cb e) ev, ev_terminal ev,
                if ev_terminal ev then reg(ev_request_id ev \<mapsto> e\<lparr>re_terminal := True\<rparr>) else reg))"

definition deliver_end :: "int \<Rightarrow> registry \<Rightarrow> registry" where
  "deliver_end i reg = reg(i := None)"

definition deliver :: "event \<Rightarrow> registry \<Rightarrow> event list \<times> registry" where
  "deliver ev reg =
     (case deliver_begin ev reg of (evs, erase, reg') \<Rightarrow>
        (evs, if erase then deliver_end (ev_request_id ev) reg' else reg'))"

fun deliver_all :: "event list \<Rightarrow> registry \<Rightarrow> event list \<times> registry" where
  "deliver_all [] reg = ([], reg)"
| "deliver_all (ev # evs) reg =
     (case deliver ev reg of (out, reg1) \<Rightarrow> case deliver_all evs reg1 of (out', reg2) \<Rightarrow> (out @ out', reg2))"

subsection \<open>The engine\<close>

record engine =
  eg_destroyed :: bool
  eg_registry :: registry
  eg_pool :: client_pool
  eg_store :: engine_store
  eg_queue :: cached_queue

definition new_engine :: "engine_config \<Rightarrow> engine" where
  "new_engine c = \<lparr>eg_destroyed = False, eg_registry = Map.empty, eg_pool = new_pool c,
                   eg_store = \<lparr>es_jar = [], es_cache = empty_cache\<rparr>, eg_queue = new_cached_queue c\<rparr>"

text \<open>What a call does beside changing the engine: the events it makes itself, the job it hands to a
  connection, the connections it destroys, and how often the request object is deleted before it returns
  (a \<^verbatim>\<open>Job\<close> deletes its request when it goes out of scope).\<close>

record call_result =
  cl_events :: "event list"
  cl_submit :: "(nat \<times> job) option"
  cl_gone :: "nat list"
  cl_deletes :: nat

definition call_error :: "bool \<Rightarrow> int \<Rightarrow> kat_error \<Rightarrow> nat list \<Rightarrow> nat \<Rightarrow> call_result" where
  "call_error cb i err gone deletes =
     \<lparr>cl_events = invoke_callback cb (error_event i err), cl_submit = None, cl_gone = gone, cl_deletes = deletes\<rparr>"

definition execute ::
  "engine_env \<Rightarrow> (nat \<Rightarrow> bool) \<Rightarrow> (nat \<Rightarrow> bool) \<Rightarrow> bool \<Rightarrow> request \<Rightarrow> int \<Rightarrow> bool \<Rightarrow> engine \<Rightarrow> call_result \<times> engine" where
  "execute env accepts closed thread_starts req i cb g =
     (if eg_destroyed g then (call_error cb i ERR_CLOSED [] 1, g)
      else case validate_request_body_framing req of
        (False, _) \<Rightarrow> (call_error cb i ERR_INVALID_ARG [] 1, g)
      | (True, r1) \<Rightarrow>
          (case parse_url (en_pton6 env) (rq_url r1) of
             None \<Rightarrow> (call_error cb i ERR_INVALID_ARG [] 1, g)
           | Some u \<Rightarrow>
               let (r2, s1) = (if en_cookies env then add_cookie_header env u r1 (eg_store g) else (r1, eg_store g));
                   j0 = new_job i r2 u;
                   j1 = j0\<lparr>jb_cache := (jb_cache j0)\<lparr>jk_request_wall := ck_wall (en_clock env)\<rparr>\<rparr>;
                   (j, s2) = prepare_cache env j1 s1;
                   g1 = g\<lparr>eg_store := s2\<rparr>
               in if jk_cached_response (jb_cache j) \<noteq> None then
                    (case queue_cached_job thread_starts j (eg_queue g1) of
                       (True, q) \<Rightarrow>
                         (\<lparr>cl_events = [], cl_submit = None, cl_gone = [], cl_deletes = 0\<rparr>,
                          g1\<lparr>eg_registry := (eg_registry g1)(i \<mapsto> new_entry cb None), eg_queue := q\<rparr>)
                     | (False, q) \<Rightarrow>
                         (call_error cb i ERR_NOMEM [] 1,
                          g1\<lparr>eg_registry := (eg_registry g1)(i := None), eg_queue := q\<rparr>))
                  else
                    (case get_or_create_client accepts closed u (eg_pool g1) of
                       (None, p, gone) \<Rightarrow> (call_error cb i ERR_CONNECTION_LIMIT gone 2, g1\<lparr>eg_pool := p\<rparr>)
                     | (Some c, p, gone) \<Rightarrow>
                         (\<lparr>cl_events = [], cl_submit = Some (c, j), cl_gone = gone, cl_deletes = 0\<rparr>,
                          g1\<lparr>eg_registry := (eg_registry g1)(i \<mapsto> new_entry cb (Some c)), eg_pool := p\<rparr>))))"

text \<open>The entry of a request that moves to another connection, or to the dispatcher.\<close>

definition reroute :: "int \<Rightarrow> nat option \<Rightarrow> nat \<Rightarrow> registry \<Rightarrow> registry" where
  "reroute i client hops reg =
     (case reg i of None \<Rightarrow> reg
      | Some e \<Rightarrow> reg(i \<mapsto> e\<lparr>re_client := client, re_redirect_count := hops\<rparr>))"

definition follow_redirect ::
  "(nat \<Rightarrow> bool) \<Rightarrow> (nat \<Rightarrow> bool) \<Rightarrow> bool \<Rightarrow> job \<Rightarrow> job \<Rightarrow> engine \<Rightarrow> call_result \<times> engine" where
  "follow_redirect accepts closed thread_starts j nj g =
     (if jk_cached_response (jb_cache nj) \<noteq> None then
        let g1 = g\<lparr>eg_registry := reroute (jb_id j) None (jb_redirect_count nj) (eg_registry g)\<rparr>
        in (case queue_cached_job thread_starts nj (eg_queue g1) of
              (True, q) \<Rightarrow> (\<lparr>cl_events = [], cl_submit = None, cl_gone = [], cl_deletes = 0\<rparr>, g1\<lparr>eg_queue := q\<rparr>)
            | (False, q) \<Rightarrow>
                (case deliver (dispatch_error j ERR_NOMEM) (eg_registry g1) of
                   (evs, reg) \<Rightarrow> (\<lparr>cl_events = evs, cl_submit = None, cl_gone = [], cl_deletes = 1\<rparr>,
                                   g1\<lparr>eg_registry := reg, eg_queue := q\<rparr>)))
      else
        (case get_or_create_client accepts closed (jb_url nj) (eg_pool g) of
           (None, p, gone) \<Rightarrow>
             (case deliver (dispatch_error j ERR_CONNECTION_LIMIT) (eg_registry g) of
                (evs, reg) \<Rightarrow> (\<lparr>cl_events = evs, cl_submit = None, cl_gone = gone, cl_deletes = 1\<rparr>,
                                g\<lparr>eg_pool := p, eg_registry := reg\<rparr>))
         | (Some c, p, gone) \<Rightarrow>
             (\<lparr>cl_events = [], cl_submit = Some (c, nj), cl_gone = gone, cl_deletes = 0\<rparr>,
              g\<lparr>eg_pool := p, eg_registry := reroute (jb_id j) (Some c) (jb_redirect_count nj) (eg_registry g)\<rparr>)))"

text \<open>\<^verbatim>\<open>consume\<close> and \<^verbatim>\<open>append_request_body\<close>: the connection the call goes to.\<close>

definition call_route :: "int \<Rightarrow> registry \<Rightarrow> kat_error + nat" where
  "call_route i reg =
     (case reg i of
        None \<Rightarrow> Inl ERR_CLOSED
      | Some e \<Rightarrow> if re_terminal e then Inl ERR_CLOSED
                  else case re_client e of None \<Rightarrow> Inl ERR_CLOSED | Some c \<Rightarrow> Inr c)"

text \<open>The locked part of \<^verbatim>\<open>cancel\<close>: the entry it ends.\<close>

definition cancel_entry :: "int \<Rightarrow> registry \<Rightarrow> req_entry option \<times> registry" where
  "cancel_entry i reg =
     (case reg i of
        None \<Rightarrow> (None, reg)
      | Some e \<Rightarrow> if re_terminal e then (None, reg) else (Some e, reg(i := None)))"

text \<open>\<^verbatim>\<open>cancel\<close>: the connection told to cancel the job, the events, the engine.\<close>

definition cancel :: "int \<Rightarrow> engine \<Rightarrow> nat option \<times> event list \<times> engine" where
  "cancel i g =
     (case cancel_entry i (eg_registry g) of
        (None, reg) \<Rightarrow> (None, [], g)
      | (Some e, reg) \<Rightarrow>
          (re_client e, invoke_callback (re_cb e) (error_event i ERR_CANCELLED),
           g\<lparr>eg_registry := reg,
             eg_queue := (if re_client e = None then remove_queued_cached_job i (eg_queue g) else eg_queue g)\<rparr>))"

text \<open>The sweep of \<^verbatim>\<open>destroy\<close>, over the ids in the order the registry enumerates them.\<close>

definition sweep :: "int list \<Rightarrow> registry \<Rightarrow> (int \<times> bool) list" where
  "sweep ids reg =
     map (\<lambda>i. (i, re_cb (the (reg i))))
       (filter (\<lambda>i. case reg i of None \<Rightarrow> False | Some e \<Rightarrow> \<not> re_terminal e \<and> \<not> re_cancelled e) ids)"

text \<open>\<^verbatim>\<open>destroy\<close>: the connections destroyed, the callbacks it owes, the engine.\<close>

definition destroy :: "int list \<Rightarrow> engine \<Rightarrow> nat list \<times> event list \<times> engine" where
  "destroy ids g =
     (if eg_destroyed g then ([], [], g)
      else (map snd (pl_clients (eg_pool g)),
            concat (map (\<lambda>(i, cb). invoke_callback cb (error_event i ERR_CLOSED)) (sweep ids (eg_registry g))),
            g\<lparr>eg_destroyed := True, eg_queue := stop_cached_dispatcher (eg_queue g),
              eg_pool := (eg_pool g)\<lparr>pl_clients := []\<rparr>, eg_registry := Map.empty\<rparr>))"

definition network_changed :: "nat \<Rightarrow> nat \<Rightarrow> engine \<Rightarrow> (nat \<times> nat \<times> nat) list \<times> engine" where
  "network_changed generation network g =
     (if eg_destroyed g then ([], g)
      else case pool_network_changed generation network (eg_pool g) of (told, p) \<Rightarrow> (told, g\<lparr>eg_pool := p\<rparr>))"

subsection \<open>Interleaving\<close>

text \<open>The registry with what is under way: erases still due, callbacks \<^verbatim>\<open>destroy\<close> still owes, the requests
  executed so far (and whether they came with a callback), and the events that were seen.\<close>

record registry_state =
  rg_registry :: registry
  rg_finishing :: "int list"
  rg_owed :: "(int \<times> bool) list"
  rg_known :: "int \<rightharpoonup> bool"
  rg_destroyed :: bool
  rg_trace :: "event list"

definition registry_start :: "registry_state \<Rightarrow> bool" where
  "registry_start s \<longleftrightarrow>
     s = \<lparr>rg_registry = Map.empty, rg_finishing = [], rg_owed = [], rg_known = Map.empty,
          rg_destroyed = False, rg_trace = []\<rparr>"

datatype registry_action =
    Ra_execute int bool "nat option"
  | Ra_reject int bool kat_error
  | Ra_deliver event
  | Ra_finish int
  | Ra_reroute int "nat option" nat
  | Ra_cancel int
  | Ra_destroy "int list"
  | Ra_owed

text \<open>Request ids are not reused; the enumeration of the registry covers it and repeats nothing.\<close>

inductive registry_trans :: "registry_state \<Rightarrow> registry_action \<Rightarrow> registry_state \<Rightarrow> bool" where
  r_execute: "\<lbrakk>\<not> rg_destroyed s; rg_known s i = None\<rbrakk> \<Longrightarrow>
     registry_trans s (Ra_execute i cb c)
       (s\<lparr>rg_registry := (rg_registry s)(i \<mapsto> new_entry cb c), rg_known := (rg_known s)(i \<mapsto> cb)\<rparr>)"
| r_reject: "rg_known s i = None \<Longrightarrow>
     registry_trans s (Ra_reject i cb err)
       (s\<lparr>rg_known := (rg_known s)(i \<mapsto> cb), rg_trace := rg_trace s @ invoke_callback cb (error_event i err)\<rparr>)"
| r_deliver: "deliver_begin ev (rg_registry s) = (evs, erase, reg) \<Longrightarrow>
     registry_trans s (Ra_deliver ev)
       (s\<lparr>rg_registry := reg, rg_trace := rg_trace s @ evs,
          rg_finishing := (if erase then ev_request_id ev # rg_finishing s else rg_finishing s)\<rparr>)"
| r_finish: "i \<in> set (rg_finishing s) \<Longrightarrow>
     registry_trans s (Ra_finish i)
       (s\<lparr>rg_registry := deliver_end i (rg_registry s), rg_finishing := remove1 i (rg_finishing s)\<rparr>)"
| r_reroute: "registry_trans s (Ra_reroute i c n) (s\<lparr>rg_registry := reroute i c n (rg_registry s)\<rparr>)"
| r_cancel: "cancel_entry i (rg_registry s) = (Some e, reg) \<Longrightarrow>
     registry_trans s (Ra_cancel i)
       (s\<lparr>rg_registry := reg, rg_trace := rg_trace s @ invoke_callback (re_cb e) (error_event i ERR_CANCELLED)\<rparr>)"
| r_destroy: "\<lbrakk>\<not> rg_destroyed s; set ids = dom (rg_registry s); distinct ids\<rbrakk> \<Longrightarrow>
     registry_trans s (Ra_destroy ids)
       (s\<lparr>rg_destroyed := True, rg_owed := sweep ids (rg_registry s), rg_registry := Map.empty\<rparr>)"
| r_owed: "rg_owed s = (i, cb) # rest \<Longrightarrow>
     registry_trans s Ra_owed
       (s\<lparr>rg_owed := rest, rg_trace := rg_trace s @ invoke_callback cb (error_event i ERR_CLOSED)\<rparr>)"

inductive_cases registry_trans_cases: "registry_trans s a s'"

subsection \<open>The life of a request\<close>

definition events_of :: "int \<Rightarrow> event list \<Rightarrow> event list" where
  "events_of i evs = filter (\<lambda>ev. ev_request_id ev = i) evs"

definition ongoing :: "event list \<Rightarrow> bool" where
  "ongoing evs \<longleftrightarrow> (\<forall>ev\<in>set evs. \<not> ev_terminal ev)"

definition ended_once :: "event list \<Rightarrow> bool" where
  "ended_once evs \<longleftrightarrow> evs \<noteq> [] \<and> ongoing (butlast evs) \<and> ev_terminal (last evs)"

text \<open>Where a request is: registered, owed its end by \<^verbatim>\<open>destroy\<close>, or ended.\<close>

definition registered :: "registry_state \<Rightarrow> int \<Rightarrow> bool \<Rightarrow> bool" where
  "registered s i cb \<longleftrightarrow>
     (\<exists>e. rg_registry s i = Some e \<and> \<not> re_terminal e \<and> \<not> re_cancelled e \<and> re_cb e = cb) \<and>
     i \<notin> set (rg_finishing s) \<and> i \<notin> fst ` set (rg_owed s) \<and> ongoing (events_of i (rg_trace s)) \<and> \<not> rg_destroyed s"

definition owed :: "registry_state \<Rightarrow> int \<Rightarrow> bool \<Rightarrow> bool" where
  "owed s i cb \<longleftrightarrow>
     rg_registry s i = None \<and> (i, cb) \<in> set (rg_owed s) \<and> ongoing (events_of i (rg_trace s)) \<and> rg_destroyed s"

definition over :: "registry_state \<Rightarrow> int \<Rightarrow> bool \<Rightarrow> bool" where
  "over s i cb \<longleftrightarrow>
     (case rg_registry s i of None \<Rightarrow> True | Some e \<Rightarrow> re_terminal e) \<and> i \<notin> fst ` set (rg_owed s) \<and>
     (cb \<longrightarrow> ended_once (events_of i (rg_trace s)))"

definition request_ok :: "registry_state \<Rightarrow> int \<Rightarrow> bool" where
  "request_ok s i \<longleftrightarrow>
     (case rg_known s i of
        None \<Rightarrow> rg_registry s i = None \<and> i \<notin> set (rg_finishing s) \<and> i \<notin> fst ` set (rg_owed s) \<and>
                events_of i (rg_trace s) = []
      | Some cb \<Rightarrow> registered s i cb \<or> owed s i cb \<or> over s i cb)"

definition registry_ok :: "registry_state \<Rightarrow> bool" where
  "registry_ok s \<longleftrightarrow> distinct (map fst (rg_owed s)) \<and> (\<forall>i. request_ok s i)"

lemmas request_defs = request_ok_def registered_def owed_def over_def

lemma events_of_append [simp]: "events_of i (xs @ ys) = events_of i xs @ events_of i ys"
  by (simp add: events_of_def)

lemma events_of_callback [simp]:
  "events_of i (invoke_callback cb ev) = (if cb \<and> ev_request_id ev = i then [ev] else [])"
  by (simp add: events_of_def invoke_callback_def)

lemma ended_snoc: "\<lbrakk>ongoing evs; ev_terminal ev\<rbrakk> \<Longrightarrow> ended_once (evs @ [ev])"
  by (simp add: ended_once_def)

lemma ongoing_simps [simp]:
  "ongoing []" "ongoing (evs @ [ev]) \<longleftrightarrow> ongoing evs \<and> \<not> ev_terminal ev"
  by (auto simp: ongoing_def)

lemma error_event_simps [simp]: "ev_terminal (error_event i err)" "ev_request_id (error_event i err) = i"
  by (simp_all add: error_event_def ev_terminal_def)

lemma registry_start_ok: "registry_start s \<Longrightarrow> registry_ok s"
  by (simp add: registry_start_def registry_ok_def request_defs events_of_def)

lemma request_ok_frame:
  assumes "request_ok s i" "rg_registry s' i = rg_registry s i" "rg_known s' i = rg_known s i"
    and "i \<in> set (rg_finishing s') \<longleftrightarrow> i \<in> set (rg_finishing s)"
    and "\<And>cb. (i, cb) \<in> set (rg_owed s') \<longleftrightarrow> (i, cb) \<in> set (rg_owed s)"
    and "events_of i (rg_trace s') = events_of i (rg_trace s)" "rg_destroyed s' = rg_destroyed s"
  shows "request_ok s' i"
proof -
  have O: "i \<in> fst ` set (rg_owed s') \<longleftrightarrow> i \<in> fst ` set (rg_owed s)" using assms(5) by force
  then have "registered s' i cb = registered s i cb" "owed s' i cb = owed s i cb" "over s' i cb = over s i cb" for cb
    by (simp_all add: registered_def owed_def over_def assms(2-7))
  then show ?thesis using assms O by (cases "rg_known s i") (simp_all add: request_ok_def)
qed

lemma deliver_begin_cases:
  assumes "deliver_begin ev reg = (evs, erase, reg')"
  obtains "evs = []" "\<not> erase" "reg' = reg" "case reg (ev_request_id ev) of None \<Rightarrow> True | Some e \<Rightarrow> re_terminal e"
  | e where "reg (ev_request_id ev) = Some e" "\<not> re_terminal e" "re_cancelled e"
  | e where "reg (ev_request_id ev) = Some e" "\<not> re_terminal e" "\<not> re_cancelled e"
      "evs = invoke_callback (re_cb e) ev" "erase = ev_terminal ev"
      "reg' = (if ev_terminal ev then reg(ev_request_id ev \<mapsto> e\<lparr>re_terminal := True\<rparr>) else reg)"
  using assms by (auto simp: deliver_begin_def split: option.splits if_splits)

lemma deliver_request_ok:
  assumes ok: "registry_ok s" and d: "deliver_begin ev (rg_registry s) = (evs, erase, reg)"
  shows "request_ok (s\<lparr>rg_registry := reg, rg_trace := rg_trace s @ evs,
          rg_finishing := (if erase then ev_request_id ev # rg_finishing s else rg_finishing s)\<rparr>) i"
    (is "request_ok ?s i")
proof -
  have r: "request_ok s i" using ok by (simp add: registry_ok_def)
  show ?thesis
    using d
  proof (cases rule: deliver_begin_cases)
    case 1
    then show ?thesis by (intro request_ok_frame [OF r]) auto
  next
    case (2 e)
    have "request_ok s (ev_request_id ev)" using ok by (simp add: registry_ok_def)
    then show ?thesis using 2 by (auto simp: request_defs split: option.splits)
  next
    case (3 e)
    show ?thesis
    proof (cases "i = ev_request_id ev")
      case False
      then show ?thesis using 3 by (intro request_ok_frame [OF r]) auto
    next
      case True
      then obtain cb where cb: "rg_known s i = Some cb" "registered s i cb"
        using r 3 by (auto simp: request_defs split: option.splits)
      then have cbe: "re_cb e = cb" using 3 True by (simp add: registered_def)
      show ?thesis
      proof (cases "ev_terminal ev")
        case T: True
        have "over ?s i cb"
          using cb 3 True T cbe by (auto simp: over_def registered_def intro: ended_snoc)
        then show ?thesis using cb(1) by (simp add: request_ok_def)
      next
        case F: False
        have "registered ?s i cb" using cb 3 True F cbe by (auto simp: registered_def)
        then show ?thesis using cb(1) by (simp add: request_ok_def)
      qed
    qed
  qed
qed

lemma sweep_fst: "fst ` set (sweep ids reg) =
    {i \<in> set ids. \<exists>e. reg i = Some e \<and> \<not> re_terminal e \<and> \<not> re_cancelled e}"
  by (force simp: sweep_def image_iff split: option.splits)

lemma sweep_distinct: "distinct ids \<Longrightarrow> distinct (map fst (sweep ids reg))"
  by (simp add: sweep_def comp_def)

lemma destroy_request_ok:
  assumes ok: "registry_ok s" and d: "\<not> rg_destroyed s" "set ids = dom (rg_registry s)"
  shows "request_ok (s\<lparr>rg_destroyed := True, rg_owed := sweep ids (rg_registry s), rg_registry := Map.empty\<rparr>) i"
    (is "request_ok ?s i")
proof -
  have r: "request_ok s i" using ok by (simp add: registry_ok_def)
  show ?thesis
  proof (cases "rg_known s i")
    case None
    then show ?thesis using r by (auto simp: request_ok_def sweep_fst)
  next
    case (Some cb)
    then consider "registered s i cb" | "over s i cb" using r d(1) by (auto simp: request_ok_def owed_def)
    then show ?thesis
    proof cases
      case 1
      then obtain e where e: "rg_registry s i = Some e" "\<not> re_terminal e" "\<not> re_cancelled e" "re_cb e = cb"
        by (auto simp: registered_def)
      then have "(i, cb) \<in> set (sweep ids (rg_registry s))"
        using d(2) by (auto simp: sweep_def image_iff intro!: exI [of _ i])
      then have "owed ?s i cb" using 1 by (simp add: owed_def registered_def)
      then show ?thesis using Some by (simp add: request_ok_def)
    next
      case 2
      then have "i \<notin> fst ` set (sweep ids (rg_registry s))"
        by (auto simp: over_def sweep_fst split: option.splits)
      then have "over ?s i cb" using 2 by (simp add: over_def)
      then show ?thesis using Some by (simp add: request_ok_def)
    qed
  qed
qed

lemma owed_request_ok:
  assumes ok: "registry_ok s" and d: "rg_owed s = (k, cb) # rest"
  shows "request_ok (s\<lparr>rg_owed := rest, rg_trace := rg_trace s @ invoke_callback cb (error_event k ERR_CLOSED)\<rparr>) i"
    (is "request_ok ?s i")
proof -
  have r: "request_ok s i" and dis: "k \<notin> fst ` set rest"
    using ok d by (auto simp: registry_ok_def)
  show ?thesis
  proof (cases "i = k")
    case False
    then show ?thesis using d by (intro request_ok_frame [OF r]) auto
  next
    case True
    then have "k \<in> fst ` set (rg_owed s)" using d by simp
    then obtain cb' where o: "rg_known s i = Some cb'" "owed s i cb'"
      using r True unfolding request_ok_def registered_def over_def by (auto split: option.splits)
    then have "cb' = cb" using True d dis by (force simp: owed_def)
    then have "over ?s i cb'" using o True dis by (auto simp: over_def owed_def intro: ended_snoc)
    then show ?thesis using o(1) by (simp add: request_ok_def)
  qed
qed

lemma registry_trans_ok: "registry_ok s \<Longrightarrow> registry_trans s a s' \<Longrightarrow> registry_ok s'"
proof -
  assume ok: "registry_ok s" and t: "registry_trans s a s'"
  have r: "request_ok s i" for i using ok by (simp add: registry_ok_def)
  have dis: "distinct (map fst (rg_owed s))" using ok by (simp add: registry_ok_def)
  from t show ?thesis
  proof cases
    case (r_execute i cb c)
    have "request_ok s' k" for k
    proof (cases "k = i")
      case True
      then show ?thesis using r [of i] r_execute by (simp add: request_ok_def registered_def new_entry_def)
    qed (use r_execute in \<open>auto intro!: request_ok_frame [OF r]\<close>)
    then show ?thesis using dis r_execute by (simp add: registry_ok_def)
  next
    case (r_reject i cb err)
    have "request_ok s' k" for k
    proof (cases "k = i")
      case True
      then show ?thesis using r [of i] r_reject by (simp add: request_ok_def over_def ended_once_def)
    qed (use r_reject in \<open>auto intro!: request_ok_frame [OF r]\<close>)
    then show ?thesis using dis r_reject by (simp add: registry_ok_def)
  next
    case (r_deliver ev evs erase reg)
    then show ?thesis using deliver_request_ok [OF ok r_deliver(3)] dis by (simp add: registry_ok_def)
  next
    case (r_finish i)
    have "request_ok s' k" for k
    proof (cases "k = i")
      case True
      have "i \<in> set (rg_finishing s)" by (rule r_finish(3))
      then show ?thesis using r [of i] r_finish True
        by (auto simp: request_ok_def registered_def owed_def over_def deliver_end_def split: option.splits)
    qed (use r_finish in \<open>auto intro!: request_ok_frame [OF r] simp: deliver_end_def\<close>)
    then show ?thesis using dis r_finish by (simp add: registry_ok_def)
  next
    case (r_reroute i c n)
    have "request_ok s' k" for k
    proof (cases "k = i")
      case True
      then show ?thesis using r [of i] r_reroute
        by (auto simp: request_defs reroute_def split: option.splits)
    qed (use r_reroute in \<open>auto intro!: request_ok_frame [OF r] simp: reroute_def split: option.splits\<close>)
    then show ?thesis using dis r_reroute by (simp add: registry_ok_def)
  next
    case (r_cancel i e reg)
    then have e: "rg_registry s i = Some e" "\<not> re_terminal e" "reg = (rg_registry s)(i := None)"
      by (auto simp: cancel_entry_def split: option.splits if_splits)
    have "request_ok s' k" for k
    proof (cases "k = i")
      case True
      then obtain cb where cb: "rg_known s i = Some cb" "registered s i cb"
        using r [of i] e by (auto simp: request_defs split: option.splits)
      then have "over s' i cb" using r_cancel e by (auto simp: over_def registered_def intro: ended_snoc)
      then show ?thesis using True cb(1) r_cancel by (simp add: request_ok_def)
    qed (use r_cancel e in \<open>auto intro!: request_ok_frame [OF r]\<close>)
    then show ?thesis using dis r_cancel by (simp add: registry_ok_def)
  next
    case (r_destroy ids)
    then show ?thesis using destroy_request_ok [OF ok r_destroy(3,4)] sweep_distinct [OF r_destroy(5)] by (simp add: registry_ok_def)
  next
    case (r_owed i cb rest)
    then show ?thesis using owed_request_ok [OF ok r_owed(3)] dis by (simp add: registry_ok_def)
  qed
qed

interpretation registry_system: transition_system registry_start registry_trans registry_ok
  by unfold_locales (use registry_start_ok registry_trans_ok in blast)+

text \<open>Property C9: every request gets exactly one end.  In any interleaving of executions, deliveries from
  the connections and the dispatcher, redirects, cancellations and \<^verbatim>\<open>destroy\<close>, what a request's callback
  has seen either holds no terminal event, and then the request is still registered or \<^verbatim>\<open>destroy\<close> owes it
  its end, or it holds exactly one and as the last event; and once \<^verbatim>\<open>destroy\<close> has made the callbacks it
  owed, every request executed so far has ended.\<close>

theorem every_request_ends_once:
  assumes "reachable registry_start registry_trans s" "rg_known s i = Some True"
  shows "let evs = events_of i (rg_trace s) in
    (if ongoing evs then (\<exists>e. rg_registry s i = Some e \<and> \<not> re_terminal e) \<or> (i, True) \<in> set (rg_owed s)
     else ended_once evs) \<and>
    (rg_destroyed s \<and> rg_owed s = [] \<longrightarrow> ended_once evs)"
proof -
  have "registry_ok s" by (rule registry_system.reachable_inv [OF assms(1)])
  then have "request_ok s i" by (simp add: registry_ok_def)
  then have "registered s i True \<or> owed s i True \<or> over s i True"
    using assms(2) by (simp add: request_ok_def)
  then show ?thesis
  proof (elim disjE)
    assume "registered s i True"
    then show ?thesis by (auto simp: registered_def Let_def)
  next
    assume "owed s i True"
    then show ?thesis by (auto simp: owed_def Let_def)
  next
    assume "over s i True"
    then have e: "ended_once (events_of i (rg_trace s))" by (simp add: over_def)
    then have "\<not> ongoing (events_of i (rg_trace s))"
      unfolding ongoing_def ended_once_def using last_in_set by blast
    with e show ?thesis by (simp add: Let_def)
  qed
qed

text \<open>A request that is delivered its headers, cancelled, and written to once more by its connection.\<close>

lemma registry_run:
  assumes "reachable registry_start registry_trans s" "registry_trans s a s'"
  shows "reachable registry_start registry_trans s'"
  using assms by (rule reachable_step)

theorem every_request_ends_once_witness:
  "\<exists>s::registry_state. rg_known s 1 = Some True \<and> length (rg_trace s) = 2 \<and> ended_once (events_of 1 (rg_trace s))"
proof -
  let ?s0 = "\<lparr>rg_registry = Map.empty, rg_finishing = [], rg_owed = [], rg_known = Map.empty,
              rg_destroyed = False, rg_trace = []\<rparr>"
  let ?h = "\<lparr>ev_request_id = 1, ev_kind = Ev_headers 200 [] []\<rparr>"
  let ?e = "new_entry True (Some 4)"
  let ?s1 = "?s0\<lparr>rg_registry := [1 \<mapsto> ?e], rg_known := [1 \<mapsto> True]\<rparr>"
  let ?s2 = "?s1\<lparr>rg_trace := [?h]\<rparr>"
  let ?s3 = "?s2\<lparr>rg_registry := Map.empty, rg_trace := [?h, error_event 1 ERR_CANCELLED]\<rparr>"
  have 0: "reachable registry_start registry_trans ?s0" by (rule reachable_start) (simp add: registry_start_def)
  have 1: "reachable registry_start registry_trans ?s1"
    using registry_run [OF 0 r_execute [of ?s0 1 True "Some 4"]] by simp
  have 2: "reachable registry_start registry_trans ?s2"
    using registry_run [OF 1 r_deliver [of ?h ?s1 "[?h]" False "[1 \<mapsto> ?e]"]]
    by (simp add: deliver_begin_def new_entry_def invoke_callback_def ev_terminal_def)
  have 3: "reachable registry_start registry_trans ?s3"
    using registry_run [OF 2 r_cancel [of 1 ?s2 ?e Map.empty]]
    by (simp add: cancel_entry_def new_entry_def invoke_callback_def)
  have "\<not> ongoing (events_of 1 (rg_trace ?s3))" by (simp add: events_of_def ongoing_def)
  then have "ended_once (events_of 1 (rg_trace ?s3))"
    using every_request_ends_once [OF 3, of 1] by (simp add: Let_def)
  then show ?thesis by (intro exI [of _ ?s3]) simp
qed

subsection \<open>The calls are registry steps\<close>

definition implements :: "engine \<Rightarrow> registry_state \<Rightarrow> bool" where
  "implements g s \<longleftrightarrow> rg_registry s = eg_registry g \<and> rg_destroyed s = eg_destroyed g"

text \<open>\<open>s\<close> runs to a state that matches \<open>g\<close> and has seen \<open>evs\<close> more.\<close>

definition runs_to :: "registry_state \<Rightarrow> engine \<Rightarrow> event list \<Rightarrow> (int \<rightharpoonup> bool) \<Rightarrow> bool" where
  "runs_to s g evs known \<longleftrightarrow>
     (\<exists>s'. reachable (\<lambda>x. x = s) registry_trans s' \<and> implements g s' \<and> rg_trace s' = rg_trace s @ evs \<and>
           rg_known s' = known \<and> rg_owed s' = rg_owed s)"

lemma runs_toI:
  "\<lbrakk>reachable (\<lambda>x. x = s) registry_trans s'; implements g s'; rg_trace s' = rg_trace s @ evs; rg_known s' = known;
    rg_owed s' = rg_owed s\<rbrakk> \<Longrightarrow> runs_to s g evs known"
  by (auto simp: runs_to_def)

lemma one_step: "registry_trans s a s' \<Longrightarrow> reachable (\<lambda>x. x = s) registry_trans s'"
  by (rule reachable_step [OF reachable_start]) simp

lemma deliver_steps:
  assumes "deliver ev (rg_registry s) = (evs, reg)"
  shows "reachable (\<lambda>x. x = s) registry_trans (s\<lparr>rg_registry := reg, rg_trace := rg_trace s @ evs\<rparr>)"
proof -
  obtain erase reg1 where b: "deliver_begin ev (rg_registry s) = (evs, erase, reg1)"
    using assms by (auto simp: deliver_def split: prod.splits)
  let ?s1 = "s\<lparr>rg_registry := reg1, rg_trace := rg_trace s @ evs,
     rg_finishing := (if erase then ev_request_id ev # rg_finishing s else rg_finishing s)\<rparr>"
  have 1: "reachable (\<lambda>x. x = s) registry_trans ?s1" by (rule one_step [OF r_deliver [OF b]])
  show ?thesis
  proof (cases erase)
    case True
    have "registry_trans ?s1 (Ra_finish (ev_request_id ev))
       (?s1\<lparr>rg_registry := deliver_end (ev_request_id ev) (rg_registry ?s1),
            rg_finishing := remove1 (ev_request_id ev) (rg_finishing ?s1)\<rparr>)"
      by (rule r_finish) (simp add: True)
    moreover have "reg = deliver_end (ev_request_id ev) reg1" using assms b True by (simp add: deliver_def)
    then have "?s1\<lparr>rg_registry := deliver_end (ev_request_id ev) (rg_registry ?s1),
            rg_finishing := remove1 (ev_request_id ev) (rg_finishing ?s1)\<rparr> = s\<lparr>rg_registry := reg, rg_trace := rg_trace s @ evs\<rparr>"
      using True by (intro registry_state.equality) simp_all
    ultimately show ?thesis using reachable_step [OF 1] by metis
  next
    case False
    then have "?s1 = s\<lparr>rg_registry := reg, rg_trace := rg_trace s @ evs\<rparr>"
      using assms b by (intro registry_state.equality) (simp_all add: deliver_def)
    then show ?thesis using 1 by metis
  qed
qed

text \<open>The two ways \<^verbatim>\<open>execute\<close> ends.\<close>

definition rejected_call :: "bool \<Rightarrow> int \<Rightarrow> engine \<Rightarrow> call_result \<Rightarrow> engine \<Rightarrow> bool" where
  "rejected_call cb i g r g' \<longleftrightarrow>
     cl_submit r = None \<and> (eg_registry g')(i := None) = (eg_registry g)(i := None) \<and>
     (eg_registry g i = None \<longrightarrow> eg_registry g' = eg_registry g) \<and>
     (\<exists>err. cl_events r = invoke_callback cb (error_event i err) \<and>
        cl_deletes r = (if err = ERR_CONNECTION_LIMIT then 2 else 1))"

definition accepted_call :: "bool \<Rightarrow> int \<Rightarrow> engine \<Rightarrow> call_result \<Rightarrow> engine \<Rightarrow> bool" where
  "accepted_call cb i g r g' \<longleftrightarrow>
     \<not> eg_destroyed g \<and> cl_events r = [] \<and> cl_deletes r = 0 \<and>
     (\<exists>c. eg_registry g' = (eg_registry g)(i \<mapsto> new_entry cb c) \<and>
          (case cl_submit r of
             None \<Rightarrow> c = None \<and> (\<exists>j. dq_jobs (eg_queue g') = dq_jobs (eg_queue g) @ [j] \<and> jb_id j = i)
           | Some (n, j) \<Rightarrow> c = Some n \<and> jb_id j = i \<and> n \<in> snd ` set (pl_clients (eg_pool g'))))"

lemma rejected_callI:
  "\<lbrakk>r = call_error cb i err gone (if err = ERR_CONNECTION_LIMIT then 2 else 1);
    eg_registry g' = eg_registry g \<or> eg_registry g' = (eg_registry g)(i := None)\<rbrakk> \<Longrightarrow> rejected_call cb i g r g'"
  by (auto simp: rejected_call_def call_error_def fun_upd_idem)

lemma get_or_create_member:
  "get_or_create_client accepts closed u p = (Some c, p', gone) \<Longrightarrow> c \<in> snd ` set (pl_clients p')"
  by (force simp: get_or_create_client_def Let_def image_iff split: if_splits dest!: map_of_SomeD)

lemma execute_outcome:
  assumes "execute env accepts closed thread_starts req i cb g = (r, g')"
  shows "eg_destroyed g' = eg_destroyed g \<and> (rejected_call cb i g r g' \<or> accepted_call cb i g r g')"
proof (cases "eg_destroyed g")
  case True
  then have "r = call_error cb i ERR_CLOSED [] 1" "g' = g" using assms by (auto simp: execute_def)
  then show ?thesis by (auto intro: rejected_callI)
next
  case nd: False
  obtain ok r1 where v: "validate_request_body_framing req = (ok, r1)" by fastforce
  show ?thesis
  proof (cases "ok \<and> parse_url (en_pton6 env) (rq_url r1) \<noteq> None")
    case False
    then have "r = call_error cb i ERR_INVALID_ARG [] 1" "g' = g"
      using assms v nd by (cases ok; force simp: execute_def)+
    then show ?thesis by (auto intro: rejected_callI)
  next
    case True
    then obtain u where u: ok "parse_url (en_pton6 env) (rq_url r1) = Some u" by blast
    obtain r2 s1 where c: "(if en_cookies env then add_cookie_header env u r1 (eg_store g) else (r1, eg_store g)) = (r2, s1)"
      by fastforce
    let ?j0 = "new_job i r2 u"
    obtain j s2 where j: "prepare_cache env (?j0\<lparr>jb_cache := (jb_cache ?j0)\<lparr>jk_request_wall := ck_wall (en_clock env)\<rparr>\<rparr>) s1 = (j, s2)"
      by fastforce
    have id: "jb_id j = i" using prepare_cache_facts [OF j] by (simp add: new_job_def)
    have ok: "ok = True" using u(1) by simp
    note E = assms [unfolded execute_def v prod.case ok bool.case u(2) option.case c Let_def j]
    show ?thesis
    proof (cases "jk_cached_response (jb_cache j) \<noteq> None")
      case True
      obtain qok q where q: "queue_cached_job thread_starts j (eg_queue g) = (qok, q)" by fastforce
      show ?thesis
      proof (cases qok)
        case T: True
        then have "dq_jobs q = dq_jobs (eg_queue g) @ [j]"
          using q True by (auto simp: queue_cached_job_def split: if_splits)
        then have "accepted_call cb i g r g'" "eg_destroyed g' = eg_destroyed g"
          using E True q nd id T by (auto simp: accepted_call_def)
        then show ?thesis by blast
      next
        case False
        then have "r = call_error cb i ERR_NOMEM [] 1" "eg_registry g' = (eg_registry g)(i := None)"
          "eg_destroyed g' = eg_destroyed g"
          using E True q nd by auto
        then show ?thesis by (auto intro: rejected_callI)
      qed
    next
      case False
      obtain found p gone where f: "get_or_create_client accepts closed u (eg_pool g) = (found, p, gone)"
        by (metis prod_cases3)
      show ?thesis
      proof (cases found)
        case None
        then have "r = call_error cb i ERR_CONNECTION_LIMIT gone 2" "eg_registry g' = eg_registry g"
          "eg_destroyed g' = eg_destroyed g"
          using E False f nd by auto
        then show ?thesis by (auto intro: rejected_callI)
      next
        case (Some n)
        have "n \<in> snd ` set (pl_clients p)" using get_or_create_member f Some by metis
        moreover have "r = \<lparr>cl_events = [], cl_submit = Some (n, j), cl_gone = gone, cl_deletes = 0\<rparr>"
          "g' = g\<lparr>eg_store := s2, eg_registry := (eg_registry g)(i \<mapsto> new_entry cb (Some n)), eg_pool := p\<rparr>"
          using E False f nd Some by simp_all
        ultimately have "accepted_call cb i g r g' \<and> eg_destroyed g' = eg_destroyed g"
          using nd id by (simp add: accepted_call_def)
        then show ?thesis by blast
      qed
    qed
  qed
qed

lemma execute_runs:
  assumes "implements g s" "rg_known s i = None" "eg_registry g i = None"
    and "execute env accepts closed thread_starts req i cb g = (r, g')"
  shows "runs_to s g' (cl_events r) ((rg_known s)(i \<mapsto> cb))"
proof -
  have rej_step: "registry_trans s (Ra_reject i cb err) (s\<lparr>rg_known := (rg_known s)(i \<mapsto> cb),
      rg_trace := rg_trace s @ invoke_callback cb (error_event i err)\<rparr>)" for err
    by (rule r_reject [OF assms(2)])
  have acc_step: "\<not> eg_destroyed g \<Longrightarrow> registry_trans s (Ra_execute i cb c)
      (s\<lparr>rg_registry := (rg_registry s)(i \<mapsto> new_entry cb c), rg_known := (rg_known s)(i \<mapsto> cb)\<rparr>)" for c
    using assms(1) by (intro r_execute assms(2)) (simp add: implements_def)
  have d: "eg_destroyed g' = eg_destroyed g" using execute_outcome [OF assms(4)] by blast
  consider (rej) err where "cl_events r = invoke_callback cb (error_event i err)" "eg_registry g' = eg_registry g"
    | (acc) c where "cl_events r = []" "\<not> eg_destroyed g" "eg_registry g' = (eg_registry g)(i \<mapsto> new_entry cb c)"
    using execute_outcome [OF assms(4)] assms(3) unfolding rejected_call_def accepted_call_def by blast
  then show ?thesis
  proof cases
    case rej
    then show ?thesis
      by (intro runs_toI [OF one_step [OF rej_step [of err]]])
         (use assms(1) d in \<open>auto simp: implements_def\<close>)
  next
    case acc
    show ?thesis
      by (intro runs_toI [OF one_step [OF acc_step [OF acc(2), of c]]])
         (use assms(1) d acc in \<open>auto simp: implements_def\<close>)
  qed
qed

lemma reroute_runs: "reachable (\<lambda>x. x = s) registry_trans (s\<lparr>rg_registry := reroute i c n (rg_registry s)\<rparr>)"
  by (rule one_step [OF r_reroute])

text \<open>The two steps a redirect is made of: the entry is routed to its new connection, an error is delivered.\<close>

lemma redirect_steps_run:
  assumes "implements g s" "eg_destroyed h = eg_destroyed g"
  shows "eg_registry h = reroute i c n (eg_registry g) \<Longrightarrow> runs_to s h [] (rg_known s)"
    and "deliver ev (eg_registry g) = (evs, eg_registry h) \<Longrightarrow> runs_to s h evs (rg_known s)"
    and "deliver ev (reroute i c n (eg_registry g)) = (evs, eg_registry h) \<Longrightarrow> runs_to s h evs (rg_known s)"
proof -
  have g: "rg_registry s = eg_registry g" "rg_destroyed s = eg_destroyed g" using assms(1) by (simp_all add: implements_def)
  show "runs_to s h [] (rg_known s)" if "eg_registry h = reroute i c n (eg_registry g)"
    by (rule runs_toI [OF reroute_runs]) (use that g assms(2) in \<open>auto simp: implements_def\<close>)
  show "runs_to s h evs (rg_known s)" if "deliver ev (eg_registry g) = (evs, eg_registry h)"
    by (rule runs_toI [OF deliver_steps]) (use that g assms(2) in \<open>auto simp: implements_def\<close>)
  show "runs_to s h evs (rg_known s)" if d: "deliver ev (reroute i c n (eg_registry g)) = (evs, eg_registry h)"
  proof -
    let ?s1 = "s\<lparr>rg_registry := reroute i c n (rg_registry s)\<rparr>"
    have "reachable (\<lambda>x. x = ?s1) registry_trans (?s1\<lparr>rg_registry := eg_registry h, rg_trace := rg_trace ?s1 @ evs\<rparr>)"
      by (rule deliver_steps) (use d g(1) in simp)
    then have "reachable (\<lambda>x. x = s) registry_trans (?s1\<lparr>rg_registry := eg_registry h, rg_trace := rg_trace ?s1 @ evs\<rparr>)"
      by (induction rule: reachable.induct) (auto intro: reroute_runs reachable_step)
    then show ?thesis by (rule runs_toI) (use assms(2) g in \<open>auto simp: implements_def\<close>)
  qed
qed

lemma follow_redirect_runs:
  assumes "implements g s" "follow_redirect accepts closed thread_starts j nj g = (r, g')"
  shows "runs_to s g' (cl_events r) (rg_known s)"
proof -
  have g: "rg_registry s = eg_registry g" "rg_destroyed s = eg_destroyed g" using assms(1) by (simp_all add: implements_def)
  show ?thesis
  proof (cases "jk_cached_response (jb_cache nj) \<noteq> None")
    case True
    obtain ok q where q: "queue_cached_job thread_starts nj (eg_queue g) = (ok, q)" by fastforce
    show ?thesis
    proof (cases ok)
      case True
      then have "cl_events r = []" "eg_registry g' = reroute (jb_id j) None (jb_redirect_count nj) (eg_registry g)"
        "eg_destroyed g' = eg_destroyed g"
        using assms(2) q \<open>jk_cached_response (jb_cache nj) \<noteq> None\<close> by (auto simp: follow_redirect_def Let_def)
      then show ?thesis using redirect_steps_run(1) [OF assms(1)] by simp
    next
      case False
      then have "deliver (dispatch_error j ERR_NOMEM) (reroute (jb_id j) None (jb_redirect_count nj) (eg_registry g)) =
          (cl_events r, eg_registry g')" "eg_destroyed g' = eg_destroyed g"
        using assms(2) q True by (auto simp: follow_redirect_def Let_def split: prod.splits)
      then show ?thesis using redirect_steps_run(3) [OF assms(1)] by blast
    qed
  next
    case False
    obtain found p gone where f: "get_or_create_client accepts closed (jb_url nj) (eg_pool g) = (found, p, gone)"
      by (metis prod_cases3)
    show ?thesis
    proof (cases found)
      case None
      then have "deliver (dispatch_error j ERR_CONNECTION_LIMIT) (rg_registry s) = (cl_events r, eg_registry g')"
        "eg_destroyed g' = eg_destroyed g"
        using assms(2) f False g(1) by (auto simp: follow_redirect_def Let_def split: prod.splits)
      then show ?thesis using redirect_steps_run(2) [OF assms(1)] g(1) by auto
    next
      case (Some c)
      then have "cl_events r = []" "eg_registry g' = reroute (jb_id j) (Some c) (jb_redirect_count nj) (eg_registry g)"
        "eg_destroyed g' = eg_destroyed g"
        using assms(2) f False by (auto simp: follow_redirect_def Let_def)
      then show ?thesis using redirect_steps_run(1) [OF assms(1)] by simp
    qed
  qed
qed

lemma cancel_runs:
  assumes "implements g s" "cancel i g = (c, evs, g')"
  shows "runs_to s g' evs (rg_known s)"
proof (cases "cancel_entry i (eg_registry g)")
  case (Pair found reg)
  have g: "rg_registry s = eg_registry g" "rg_destroyed s = eg_destroyed g" using assms(1) by (simp_all add: implements_def)
  show ?thesis
  proof (cases found)
    case None
    then have "evs = []" "g' = g" using assms(2) Pair by (simp_all add: cancel_def)
    then show ?thesis using assms(1) by (auto intro: runs_toI [of s s] reachable_start)
  next
    case (Some e)
    have "registry_trans s (Ra_cancel i) (s\<lparr>rg_registry := reg,
        rg_trace := rg_trace s @ invoke_callback (re_cb e) (error_event i ERR_CANCELLED)\<rparr>)"
      by (rule r_cancel) (use Pair Some g in simp)
    from runs_toI [OF one_step [OF this]] show ?thesis
      using assms(2) Pair Some g by (auto simp: cancel_def implements_def)
  qed
qed

lemma owed_runs:
  "reachable (\<lambda>x. x = s) registry_trans (t\<lparr>rg_owed := os, rg_trace := tr\<rparr>) \<Longrightarrow>
   reachable (\<lambda>x. x = s) registry_trans (t\<lparr>rg_owed := [],
     rg_trace := tr @ concat (map (\<lambda>(i, cb). invoke_callback cb (error_event i ERR_CLOSED)) os)\<rparr>)"
proof (induction os arbitrary: tr)
  case (Cons o1 os)
  obtain i cb where o1: "o1 = (i, cb)" by fastforce
  have "registry_trans (t\<lparr>rg_owed := o1 # os, rg_trace := tr\<rparr>) Ra_owed
      (t\<lparr>rg_owed := os, rg_trace := tr @ invoke_callback cb (error_event i ERR_CLOSED)\<rparr>)"
    using r_owed [of "t\<lparr>rg_owed := o1 # os, rg_trace := tr\<rparr>" i cb os] o1 by simp
  from Cons.IH [OF reachable_step [OF Cons.prems this]] o1 show ?case by simp
qed simp

lemma destroy_runs:
  assumes "implements g s" "rg_owed s = []" "set ids = dom (eg_registry g)" "distinct ids"
    and "destroy ids g = (gone, evs, g')"
  shows "runs_to s g' evs (rg_known s)"
proof (cases "eg_destroyed g")
  case True
  then show ?thesis using assms by (auto simp: destroy_def intro: runs_toI [of s s] reachable_start)
next
  case False
  have g: "rg_registry s = eg_registry g" "rg_destroyed s = eg_destroyed g" using assms(1) by (simp_all add: implements_def)
  let ?t = "s\<lparr>rg_destroyed := True, rg_registry := Map.empty\<rparr>"
  have "registry_trans s (Ra_destroy ids)
      (s\<lparr>rg_destroyed := True, rg_owed := sweep ids (rg_registry s), rg_registry := Map.empty\<rparr>)"
    by (rule r_destroy) (use False assms(3,4) g in auto)
  moreover have "s\<lparr>rg_destroyed := True, rg_owed := sweep ids (rg_registry s), rg_registry := Map.empty\<rparr> =
      ?t\<lparr>rg_owed := sweep ids (rg_registry s), rg_trace := rg_trace s\<rparr>"
    by (rule registry_state.equality) simp_all
  ultimately have "reachable (\<lambda>x. x = s) registry_trans (?t\<lparr>rg_owed := sweep ids (rg_registry s), rg_trace := rg_trace s\<rparr>)"
    by (metis one_step)
  from owed_runs [OF this] have "reachable (\<lambda>x. x = s) registry_trans (?t\<lparr>rg_owed := [], rg_trace := rg_trace s @ evs\<rparr>)"
    using assms(5) False g by (auto simp: destroy_def)
  then show ?thesis by (rule runs_toI) (use assms(2,5) False in \<open>auto simp: implements_def destroy_def\<close>)
qed

text \<open>Property C10: the C ABI calls refine the registry.  Started in any reachable state, \<^verbatim>\<open>execute\<close>,
  \<^verbatim>\<open>on_job_headers\<close>'s redirect branch, a delivery, \<^verbatim>\<open>cancel\<close> and \<^verbatim>\<open>destroy\<close> are runs of the step relation that
  make exactly the events of the call; \<^verbatim>\<open>execute\<close> either reports one error and leaves the registry as it
  was, or registers the request and hands its job to the dispatcher's queue or to a connection of the
  pool.\<close>

theorem engine_calls_refine_registry:
  assumes "reachable registry_start registry_trans s" "implements g s"
  shows "(rg_known s i = None \<and> execute env accepts closed thread_starts req i cb g = (r, g1) \<longrightarrow>
      (rejected_call cb i g r g1 \<or> accepted_call cb i g r g1) \<and>
      runs_to s g1 (cl_events r) ((rg_known s)(i \<mapsto> cb))) \<and>
    (follow_redirect accepts closed thread_starts j nj g = (r2, g2) \<longrightarrow> runs_to s g2 (cl_events r2) (rg_known s)) \<and>
    (deliver ev (eg_registry g) = (evs3, reg) \<longrightarrow> runs_to s (g\<lparr>eg_registry := reg\<rparr>) evs3 (rg_known s)) \<and>
    (cancel k g = (c, evs4, g4) \<longrightarrow> runs_to s g4 evs4 (rg_known s)) \<and>
    (rg_owed s = [] \<and> set ids = dom (eg_registry g) \<and> distinct ids \<and> destroy ids g = (gone, evs5, g5) \<longrightarrow>
       runs_to s g5 evs5 (rg_known s))"
proof (intro conjI impI; (elim conjE)?)
  have "registry_ok s" by (rule registry_system.reachable_inv [OF assms(1)])
  then have r: "request_ok s i" by (simp add: registry_ok_def)
  assume e: "rg_known s i = None" "execute env accepts closed thread_starts req i cb g = (r, g1)"
  then have "eg_registry g i = None" using r assms(2) by (simp add: request_ok_def implements_def)
  then show "runs_to s g1 (cl_events r) ((rg_known s)(i \<mapsto> cb))" using execute_runs assms(2) e by blast
  show "rejected_call cb i g r g1 \<or> accepted_call cb i g r g1" using execute_outcome e(2) by blast
next
  assume "follow_redirect accepts closed thread_starts j nj g = (r2, g2)"
  then show "runs_to s g2 (cl_events r2) (rg_known s)" by (rule follow_redirect_runs [OF assms(2)])
next
  assume "deliver ev (eg_registry g) = (evs3, reg)"
  then show "runs_to s (g\<lparr>eg_registry := reg\<rparr>) evs3 (rg_known s)"
    using assms(2) by (intro runs_toI [OF deliver_steps]) (auto simp: implements_def)
next
  assume "cancel k g = (c, evs4, g4)"
  then show "runs_to s g4 evs4 (rg_known s)" by (rule cancel_runs [OF assms(2)])
next
  assume "rg_owed s = []" "set ids = dom (eg_registry g)" "distinct ids" "destroy ids g = (gone, evs5, g5)"
  then show "runs_to s g5 evs5 (rg_known s)" by (rule destroy_runs [OF assms(2)])
qed

definition one_worker_engine :: engine where
  "one_worker_engine =
     new_engine (the (engine_config_of 512 ((fill_default_options 256)\<lparr>op_max_connection_workers := 1\<rparr>)))"

definition get_request :: "string \<Rightarrow> request" where
  "get_request u = new_request ''GET'' u"

text \<open>Two requests for one origin, the first connection having stopped taking jobs in between.\<close>

definition after_first :: engine where
  "after_first = snd (execute example_env (\<lambda>c. True) (\<lambda>c. False) True (get_request ''https://a.example/1'') 1 True one_worker_engine)"

definition second_call :: "call_result \<times> engine" where
  "second_call = execute example_env (\<lambda>c. False) (\<lambda>c. False) True (get_request ''https://a.example/2'') 2 True after_first"

theorem engine_calls_refine_registry_witness:
  "\<exists>s::registry_state. reachable registry_start registry_trans s \<and> implements after_first s \<and> rg_known s 1 = Some True"
proof -
  let ?s0 = "\<lparr>rg_registry = Map.empty, rg_finishing = [], rg_owed = [], rg_known = Map.empty,
              rg_destroyed = False, rg_trace = []\<rparr>"
  have 0: "reachable registry_start registry_trans ?s0" by (rule reachable_start) (simp add: registry_start_def)
  have i: "implements one_worker_engine ?s0" by (simp add: implements_def one_worker_engine_def new_engine_def)
  obtain r where e: "execute example_env (\<lambda>c. True) (\<lambda>c. False) True (get_request ''https://a.example/1'') 1 True
      one_worker_engine = (r, after_first)" unfolding after_first_def by (metis prod.collapse)
  have "runs_to ?s0 after_first (cl_events r) ((rg_known ?s0)(1 \<mapsto> True))"
    using engine_calls_refine_registry [OF 0 i] e by (metis registry_state.select_convs(4))
  then obtain s' where s': "reachable (\<lambda>x. x = ?s0) registry_trans s'" "implements after_first s'"
    "rg_known s' = [1 \<mapsto> True]" by (auto simp: runs_to_def)
  from s'(1) have "reachable registry_start registry_trans s'"
    by (induction rule: reachable.induct) (auto intro: 0 reachable_step)
  with s'(2,3) show ?thesis by (intro exI [of _ s']) simp
qed

subsection \<open>Three faults\<close>

text \<open>The connection that no longer takes jobs is destroyed as soon as a new request comes for its origin,
  while the registry still sends the calls for the old request to it: after that \<^verbatim>\<open>cancel\<close>, \<^verbatim>\<open>consume\<close> and
  \<^verbatim>\<open>append_request_body\<close> use a freed object.\<close>

lemma draining_client_leaves_dangling_entry:
  "let (r, g) = second_call in
   cl_gone r = [0] \<and> map snd (pl_clients (eg_pool g)) = [1] \<and> call_route 1 (eg_registry g) = Inr 0 \<and>
   fst (cancel 1 g) = Some 0"
  by code_simp

text \<open>A redirect to the same origin is followed on the connection's own worker; when that connection is
  draining it destroys itself there, and joins its own thread.\<close>

lemma redirect_destroys_own_connection:
  "let j = new_job 1 (get_request ''https://a.example/1'') (https_url ''a.example'' ''/1'');
       nj = (new_job 1 (get_request ''https://a.example/3'') (https_url ''a.example'' ''/3''))\<lparr>jb_redirect_count := 1\<rparr>;
       (r, g) = follow_redirect (\<lambda>c. False) (\<lambda>c. False) True j nj after_first
   in call_route 1 (eg_registry after_first) = Inr 0 \<and> 0 \<in> set (cl_gone r)"
  by code_simp

text \<open>The admission limit: \<^verbatim>\<open>execute\<close> deletes the request although the job that owns it is about to delete it.\<close>

lemma admission_limit_deletes_twice:
  "let (r, g) = execute example_env (\<lambda>c. True) (\<lambda>c. False) True (get_request ''https://b.example/'') 2 True after_first in
   map ev_kind (cl_events r) = [Ev_error ERR_CONNECTION_LIMIT] \<and> cl_deletes r = 2"
  by code_simp

end
