(* ===== verification/Job_Types.thy ===== *)
theory Job_Types
  imports Engine_Registry Response_Cache_Props
begin

text \<open>
  The type of the jobs the engine hands to connections: what HTTP/3 relies on when it prints them, of the first job
  of a request (\<^verbatim>\<open>Engine::execute\<close>) as of every job a redirect makes (\<^verbatim>\<open>Engine::on_job_headers\<close>).
\<close>

definition wire_value :: "string \<Rightarrow> bool" where
  "wire_value v \<longleftrightarrow> CHR 0x0D \<notin> set v \<and> CHR 0x0A \<notin> set v"

definition wire_header :: "header \<Rightarrow> bool" where
  "wire_header h \<longleftrightarrow>
     h_name h \<noteq> [] \<and> (\<forall>c\<in>set (h_name h). token_char c \<and> \<not> is_upper c) \<and>
     \<not> forbidden_http3_header (h_name h) \<and> (h_name h = ''te'' \<longrightarrow> valid_te_value (h_value h)) \<and> wire_value (h_value h)"

text \<open>The validators kept in the cache are values of response fields, which nghttp3 has checked.\<close>

definition store_typed :: "engine_store \<Rightarrow> bool" where
  "store_typed s \<longleftrightarrow>
     jar_ok (es_jar s) \<and>
     (\<forall>e\<in>set (cs_entries (es_cache s)). \<forall>v. cr_etag e = Some v \<or> cr_last_modified e = Some v \<longrightarrow> wire_value v)"

definition request_typed :: "request \<Rightarrow> bool" where
  "request_typed r \<longleftrightarrow>
     rq_method r \<noteq> [] \<and> (\<forall>c\<in>set (rq_method r). token_char c) \<and> (\<forall>h\<in>set (rq_headers r). wire_header h) \<and>
     (rq_streaming_body r \<longrightarrow> rq_body r = [])"

definition job_typed :: "(string \<Rightarrow> bool) \<Rightarrow> job \<Rightarrow> bool" where
  "job_typed pton6 j \<longleftrightarrow>
     url_wf pton6 (jb_url j) \<and> request_typed (jb_request j) \<and>
     (\<forall>h\<in>set (original_cache_request_headers j). wire_header h)"

lemma header_ok_wire: "header_ok h \<Longrightarrow> wire_header h"
proof -
  have "\<not> field_value_char (CHR 0x0D)" "\<not> field_value_char (CHR 0x0A)" by code_simp+
  then show "header_ok h \<Longrightarrow> wire_header h" unfolding header_ok_def wire_header_def wire_value_def by blast
qed

lemma request_ok_typed: "Request.request_ok r \<Longrightarrow> request_typed r"
  by (auto simp: Request.request_ok_def request_typed_def header_ok_wire)

definition wire_name :: "string \<Rightarrow> bool" where
  "wire_name n \<longleftrightarrow> n \<noteq> [] \<and> list_all (\<lambda>c. token_char c \<and> \<not> is_upper c) n \<and> \<not> forbidden_http3_header n \<and> n \<noteq> ''te''"

lemma wire_names: "wire_name ''cookie''" "wire_name ''if-none-match''" "wire_name ''if-modified-since''"
  by (simp_all add: wire_name_def token_char_def is_digit_def is_lower_def is_upper_def forbidden_http3_header_def)

lemma named_wire: "wire_value v \<Longrightarrow> wire_name n \<Longrightarrow> wire_header (mk_header n v)"
  by (simp add: wire_header_def mk_header_def wire_name_def list_all_iff)

lemma add_cookie_typed:
  assumes "add_cookie_header env u r s = (r', s')" "request_typed r" "store_typed s"
  shows "request_typed r'" "store_typed s'"
proof -
  let ?c = "fst (cookie_header (ck_wall (en_clock env)) u (es_jar s))"
  have "\<forall>c\<in>set (selected_cookies (ck_wall (en_clock env)) u (filter (\<lambda>c. \<not> cookie_expired (ck_wall (en_clock env)) c) (es_jar s))). cookie_text_ok c"
    using assms(3) by (auto simp: selected_cookies_def jar_ok_def store_typed_def)
  then have "wire_value ?c" using render_cookies_safe by (simp add: wire_value_def cookie_header_def Let_def)
  then have "wire_header (mk_header ''cookie'' ?c)" by (rule named_wire) (rule wire_names)
  then show "request_typed r'" using assms(1,2)
    by (auto simp: add_cookie_header_def request_typed_def hl_add_def Let_def split: prod.splits if_splits)
  have "jar_ok (snd (cookie_header (ck_wall (en_clock env)) u (es_jar s)))"
    using assms(3) by (simp add: cookie_header_def Let_def jar_ok_filter store_typed_def)
  then show "store_typed s'" using assms(1,3)
    by (auto simp: add_cookie_header_def store_typed_def Let_def split: prod.splits if_splits)
qed

lemma lookup_validators:
  assumes "cache_lookup clock rq c = (Cache_needs_validation r ids, c')"
  shows "\<exists>e\<in>set (cs_entries c). cr_etag r = cr_etag e \<and> cr_last_modified r = cr_last_modified e"
proof -
  let ?k = "parse_cache_control (cq_headers rq)"
  have l: "lookup_locked clock rq ?k c = (Cache_needs_validation r ids, c')"
    using assms by (auto simp: cache_lookup_def Let_def split: if_splits)
  obtain b where b: "best_index (entry_matches rq) (cs_entries c) = Some b"
    using l by (auto simp: lookup_locked_def Let_def split: option.splits)
  have "cr_etag r = cr_etag (cs_entries c ! b) \<and> cr_last_modified r = cr_last_modified (cs_entries c ! b)"
    using l b by (auto simp: lookup_locked_def Let_def split: if_splits)
  then show ?thesis using best_index_Some(1) [OF b] nth_mem by blast
qed

lemma prepare_cache_typed:
  assumes "prepare_cache env j s = (j', s')" "job_typed pton6 j" "store_typed s"
  shows "job_typed pton6 j'"
proof (cases "en_cache env")
  case None
  then show ?thesis using assms by (simp add: prepare_cache_def)
next
  case (Some p)
  let ?j1 = "j\<lparr>jb_cache := (jb_cache j)\<lparr>jk_request_headers := Some (rq_headers (jb_request j))\<rparr>\<rparr>"
  let ?rq = "cache_request_of ?j1 (rq_headers (jb_request j)) (jb_streaming j \<or> rq_streaming_body (jb_request j))"
  obtain found c where l: "cache_lookup (en_clock env) ?rq (es_cache s) = (found, c)" by fastforce
  have j1: "job_typed pton6 ?j1"
    using assms(2) by (simp add: job_typed_def original_cache_request_headers_def request_typed_def)
  show ?thesis
  proof (cases found)
    case (Cache_needs_validation r ids)
    obtain ims j2 where v: "add_cache_validator ?j1 r = (ims, j2)" by fastforce
    obtain e where e: "e \<in> set (cs_entries (es_cache s))" "cr_etag r = cr_etag e" "cr_last_modified r = cr_last_modified e"
      using lookup_validators l Cache_needs_validation by blast
    then have "\<forall>x. cr_etag r = Some x \<or> cr_last_modified r = Some x \<longrightarrow> wire_value x"
      using assms(3) unfolding store_typed_def by metis
    then have "job_typed pton6 j2"
      using v j1 by (auto simp: add_cache_validator_def job_typed_def request_typed_def original_cache_request_headers_def
          hl_add_def named_wire wire_names Let_def split: if_splits)
    then show ?thesis
      using assms(1) Some l v Cache_needs_validation
      by (auto simp: prepare_cache_def Let_def set_validation_def job_typed_def original_cache_request_headers_def split: option.splits)
  qed (use assms(1) Some l j1 in \<open>auto simp: prepare_cache_def Let_def job_typed_def original_cache_request_headers_def\<close>)
qed

lemma kept_headers:
  "set (foldl (\<lambda>hs h. if P h then hs else hl_add hs (h_name h) (h_value h)) acc hs) \<subseteq> set acc \<union> set hs"
proof (induction hs arbitrary: acc)
  case (Cons h hs)
  then show ?case using Cons [of acc] Cons [of "hl_add acc (h_name h) (h_value h)"]
    by (cases h) (auto simp: hl_add_def mk_header_def)
qed simp

lemma redirect_request_typed:
  assumes "redirect_target env status headers j = Some (dec, target)" "job_typed pton6 j"
  shows "request_typed (redirect_request dec target j)"
proof -
  have "rd_new_method dec = rq_method (jb_request j) \<or> rd_new_method dec = ''GET''"
    using assms(1)
    by (auto simp: redirect_target_def evaluate_redirect_def no_redirect_def Let_def split: if_splits option.splits)
  moreover have "\<forall>c\<in>set ''GET''. token_char c" by code_simp
  moreover have "\<forall>h\<in>set (rq_headers (redirect_request dec target j)). wire_header h"
    using kept_headers [of "\<lambda>h. rd_cross_origin dec \<and> sensitive_header (h_name h) \<or> rd_drop_body dec \<and> body_header (h_name h)" "[]"
        "original_cache_request_headers j"] assms(2)
    by (auto simp: redirect_request_def job_typed_def Let_def)
  ultimately show ?thesis
    using assms(2) by (auto simp: request_typed_def job_typed_def redirect_request_def Let_def new_request_def)
qed

lemma framing_typed: "validate_request_body_framing r = (b, r') \<Longrightarrow> request_typed r \<Longrightarrow> request_typed r'"
  by (auto simp: validate_request_body_framing_def request_typed_def split: sum.splits option.splits if_splits)

lemma new_job_typed:
  assumes "url_wf pton6 u" "request_typed r"
  shows "job_typed pton6 ((new_job i r u)\<lparr>jb_redirect_count := n, jb_cache := (jb_cache (new_job i r u))\<lparr>jk_request_wall := w\<rparr>\<rparr>)"
    "job_typed pton6 ((new_job i r u)\<lparr>jb_cache := (jb_cache (new_job i r u))\<lparr>jk_request_wall := w\<rparr>\<rparr>)"
  using assms by (simp_all add: job_typed_def new_job_def original_cache_request_headers_def request_typed_def)

lemma executed_job_typed:
  assumes "\<And>x. en_pton6 env x \<Longrightarrow> CHR '':'' \<in> set x" "Request.request_ok req" "store_typed (eg_store g)"
    "cl_submit (fst (execute env accepts closed thread_starts req i cb g)) = Some (c, j)"
  shows "job_typed (en_pton6 env) j"
proof -
  obtain r1 where r1: "validate_request_body_framing req = (True, r1)"
    using assms(4) by (auto simp: execute_def call_error_def split: if_splits prod.splits bool.splits)
  obtain u where u: "parse_url (en_pton6 env) (rq_url r1) = Some u"
    using assms(4) r1 by (auto simp: execute_def call_error_def split: if_splits option.splits)
  obtain r2 s1 where r2: "(if en_cookies env then add_cookie_header env u r1 (eg_store g) else (r1, eg_store g)) = (r2, s1)" by fastforce
  let ?j = "(new_job i r2 u)\<lparr>jb_cache := (jb_cache (new_job i r2 u))\<lparr>jk_request_wall := ck_wall (en_clock env)\<rparr>\<rparr>"
  obtain j2 s2 where j2: "prepare_cache env ?j s1 = (j2, s2)" by fastforce
  have "request_typed r1" by (rule framing_typed [OF r1 request_ok_typed [OF assms(2)]])
  then have t: "request_typed r2" "store_typed s1"
    using r2 assms(3) add_cookie_typed [of env u r1 "eg_store g" r2 s1] by (auto split: if_splits)
  have "job_typed (en_pton6 env) ?j"
    by (rule new_job_typed(2) [OF parse_url_wf [OF u assms(1)] t(1)])
  then have "job_typed (en_pton6 env) j2" by (rule prepare_cache_typed [OF j2 _ t(2)])
  moreover have "j = j2"
    using assms(4) r1 u r2 j2
    by (auto simp: execute_def call_error_def Let_def split: if_splits option.splits prod.splits bool.splits)
  ultimately show ?thesis by simp
qed

lemma redirected_job_typed:
  assumes "\<And>x. en_pton6 env x \<Longrightarrow> CHR '':'' \<in> set x" "job_typed (en_pton6 env) j" "store_typed s"
    "redirect_target env status headers j = Some (dec, target)"
  shows "job_typed (en_pton6 env) (fst (redirect_job env dec target j s))"
proof -
  obtain r s1 where r: "(if en_cookies env then add_cookie_header env target (redirect_request dec target j) s
      else (redirect_request dec target j, s)) = (r, s1)" by fastforce
  have t: "request_typed r" "store_typed s1"
    using r redirect_request_typed [OF assms(4,2)] assms(3) add_cookie_typed [of env target "redirect_request dec target j" s r s1]
    by (auto split: if_splits)
  have "parse_url (en_pton6 env) (rd_new_url dec) = Some target"
    using assms(4) by (auto simp: redirect_target_def Let_def split: if_splits option.splits)
  then have u: "url_wf (en_pton6 env) target" by (rule parse_url_wf [OF _ assms(1)])
  show ?thesis
    using prepare_cache_typed [OF _ new_job_typed(1) [OF u t(1)] t(2)] r
    by (auto simp: redirect_job_def Let_def fst_def split: prod.splits)
qed

text \<open>Property C28 (type): every job the engine submits is well typed, for any request the builder can make: its URL
  is a well-formed \<^verbatim>\<open>https\<close> URL, its method a token, every field name a lower-case token that is not
  connection-specific, no field value has a line break, and a streaming body has no buffered bytes.  This holds of the
  job of \<open>execute\<close> with the cookies and validators the engine adds, and of the job a redirect makes of a job of that type,
  whatever the \<^verbatim>\<open>Location\<close> field says.\<close>

theorem submitted_jobs_are_typed:
  assumes "\<And>x. en_pton6 env x \<Longrightarrow> CHR '':'' \<in> set x" "Request.request_ok req" "store_typed (eg_store g)"
  shows "(\<forall>c j. cl_submit (fst (execute env accepts closed thread_starts req i cb g)) = Some (c, j) \<longrightarrow>
       job_typed (en_pton6 env) j) \<and>
    (\<forall>j s status headers dec target. job_typed (en_pton6 env) j \<and> store_typed s \<and>
       redirect_target env status headers j = Some (dec, target) \<longrightarrow>
       job_typed (en_pton6 env) (fst (redirect_job env dec target j s)))"
  using executed_job_typed [OF assms] redirected_job_typed [OF assms(1)] by blast

text \<open>A request with a cookie from the jar.\<close>

definition jar_engine :: engine where
  "jar_engine = one_worker_engine\<lparr>eg_store := \<lparr>es_jar = jar_store no_ipv6 no_ipv6 (Some 900) (https_url ''a.example'' ''/'')
     [mk_header ''set-cookie'' ''k=v''] [], es_cache = empty_cache\<rparr>\<rparr>"

theorem submitted_jobs_are_typed_witness:
  "\<exists>c j. cl_submit (fst (execute example_env (\<lambda>c. True) (\<lambda>c. False) True (get_request ''https://a.example/1'') 1 True jar_engine)) = Some (c, j) \<and>
     job_typed no_ipv6 j \<and> map h_name (rq_headers (jb_request j)) = [''cookie'']"
proof -
  let ?run = "cl_submit (fst (execute example_env (\<lambda>c. True) (\<lambda>c. False) True (get_request ''https://a.example/1'') 1 True jar_engine))"
  have "case ?run of None \<Rightarrow> False | Some (c, j) \<Rightarrow> map h_name (rq_headers (jb_request j)) = [''cookie'']" by code_simp
  then obtain c j where out: "?run = Some (c, j)" "map h_name (rq_headers (jb_request j)) = [''cookie'']"
    by (auto split: option.splits)
  have env: "en_pton6 example_env = no_ipv6" by (simp add: example_env_def)
  have req: "Request.request_ok (get_request ''https://a.example/1'')" by code_simp
  have "store_typed (eg_store jar_engine)"
    using jar_ok_store [OF jar_ok_Nil] by (simp add: store_typed_def jar_engine_def empty_cache_def)
  from submitted_jobs_are_typed [of example_env, OF _ req this] out env
  show ?thesis by (auto simp: no_ipv6_def)
qed

end
