(* ===== verification/Dns_Flights.thy ===== *)
theory Dns_Flights
  imports Dns_Cache Kat_System "HOL-Library.Multiset"
begin

text \<open>
  Asynchronous resolution (\<^verbatim>\<open>src/core/dns.cc\<close>): the bounded pool of resolver threads and the flights that
  let requests for one key share a lookup.  A flight is the number of its creation and stands for its
  task too; a waiter is the cancellation token of its caller.  The flight mutex and the pool mutex make
  each locked region one step; the resolver itself runs between two steps, with any result.  A thread that has
  finished a flight reads each waiter's cancellation flag and calls the waiter without a lock, in two steps:
  a cancellation may fall between them.
\<close>

subsection \<open>State\<close>

record dns_flight =
  df_id :: nat
  df_key :: string
  df_waiters :: "nat list"

record dns_system =
  ds_flights :: "dns_flight list"
  ds_tasks :: "nat list"
  ds_pending :: "nat list"
  ds_stopping :: bool
  ds_cancelled_flights :: "nat list"
  ds_cancelled_tokens :: "nat list"
  ds_next :: nat

definition new_dns_system :: dns_system where
  "new_dns_system = \<lparr>ds_flights = [], ds_tasks = [], ds_pending = [], ds_stopping = False,
                     ds_cancelled_flights = [], ds_cancelled_tokens = [], ds_next = 0\<rparr>"

definition max_queued_tasks :: nat where "max_queued_tasks = 32"
definition max_pending_hosts :: nat where "max_pending_hosts = 128"
definition max_dns_flight_waiters :: nat where "max_dns_flight_waiters = 1024"

subsection \<open>The pool\<close>

definition prune_queue :: "nat list \<Rightarrow> nat list \<Rightarrow> nat list" where
  "prune_queue cancelled q = filter (\<lambda>f. f \<notin> set cancelled) q"

definition promote_pending :: "nat list \<Rightarrow> nat list \<Rightarrow> nat list \<times> nat list" where
  "promote_pending tasks pending =
     (let room = max_queued_tasks - length tasks in (tasks @ take room pending, drop room pending))"

definition prune_cancelled :: "dns_system \<Rightarrow> dns_system" where
  "prune_cancelled s =
     (case promote_pending (prune_queue (ds_cancelled_flights s) (ds_tasks s))
                           (prune_queue (ds_cancelled_flights s) (ds_pending s)) of
        (t, p) \<Rightarrow> s\<lparr>ds_tasks := t, ds_pending := p\<rparr>)"

definition pool_submit :: "nat \<Rightarrow> dns_system \<Rightarrow> bool \<times> dns_system" where
  "pool_submit f s =
     (if ds_stopping s then (False, s)
      else
        let s1 = prune_cancelled s
        in if length (ds_tasks s1) < max_queued_tasks then (True, s1\<lparr>ds_tasks := ds_tasks s1 @ [f]\<rparr>)
           else if length (ds_pending s1) \<ge> max_pending_hosts then (False, s1)
           else (True, s1\<lparr>ds_pending := ds_pending s1 @ [f]\<rparr>))"

text \<open>A resolver thread takes its next task: \<open>None\<close> where it waits or ends.\<close>

definition pool_take :: "dns_system \<Rightarrow> nat option \<times> dns_system" where
  "pool_take s =
     (case ds_tasks s of
        [] \<Rightarrow> (None, s)
      | f # rest \<Rightarrow> (Some f, prune_cancelled (s\<lparr>ds_tasks := rest\<rparr>)))"

subsection \<open>Flights\<close>

text \<open>\<^verbatim>\<open>resolve_async\<close> of a caller that is not cancelled yet.\<close>

definition resolve_async :: "string \<Rightarrow> nat \<Rightarrow> dns_system \<Rightarrow> bool \<times> dns_system" where
  "resolve_async key token s =
     (if token \<in> set (ds_cancelled_tokens s) then (True, s)
      else case find_if (\<lambda>f. df_key f = key) (ds_flights s) of
        Some i \<Rightarrow>
          let f = ds_flights s ! i
          in if length (df_waiters f) \<ge> max_dns_flight_waiters then (False, s)
             else (True, s\<lparr>ds_flights := (ds_flights s)[i := f\<lparr>df_waiters := df_waiters f @ [token]\<rparr>]\<rparr>)
      | None \<Rightarrow>
          let f = \<lparr>df_id = ds_next s, df_key = key, df_waiters = [token]\<rparr>;
              s1 = s\<lparr>ds_flights := ds_flights s @ [f], ds_next := ds_next s + 1\<rparr>
          in (case pool_submit (df_id f) s1 of
                (True, s2) \<Rightarrow> (True, s2)
              | (False, s2) \<Rightarrow>
                  (False, s2\<lparr>ds_flights := filter (\<lambda>g. df_key g \<noteq> key) (ds_flights s2)\<rparr>)))"

text \<open>\<^verbatim>\<open>cancel_resolve\<close>: the token, its waiters, the flights nobody waits for any more, their tasks.\<close>

definition cancel_flights :: "nat \<Rightarrow> dns_system \<Rightarrow> dns_system" where
  "cancel_flights token s =
     (let left = map (\<lambda>f. f\<lparr>df_waiters := filter (\<lambda>w. w \<noteq> token) (df_waiters f)\<rparr>) (ds_flights s)
      in s\<lparr>ds_flights := filter (\<lambda>f. df_waiters f \<noteq> []) left,
           ds_cancelled_flights := map df_id (filter (\<lambda>f. df_waiters f = []) left) @ ds_cancelled_flights s\<rparr>)"

definition cancel_token :: "nat \<Rightarrow> dns_system \<Rightarrow> dns_system" where
  "cancel_token token s = s\<lparr>ds_cancelled_tokens := token # ds_cancelled_tokens s\<rparr>"

text \<open>The end of a flight: the waiters it takes out of the table.\<close>

definition finish_flight :: "nat \<Rightarrow> dns_system \<Rightarrow> nat list \<times> dns_system" where
  "finish_flight i s =
     (concat (map df_waiters (filter (\<lambda>f. df_id f = i) (ds_flights s))),
      s\<lparr>ds_flights := filter (\<lambda>f. df_id f \<noteq> i) (ds_flights s)\<rparr>)"

subsection \<open>Interleaving\<close>

text \<open>Around the shared state: the flights whose resolver is running, the waiters a thread has taken out of a
  finished flight, those whose flag it has read (not cancelled) and whose callback comes next, the callers whose \<^verbatim>\<open>resolve_async\<close> returned true, and the callbacks made.\<close>

record dns_run =
  dr_sys :: dns_system
  dr_running :: "nat list"
  dr_calling :: "nat list"
  dr_invoking :: "nat list"
  dr_accepted :: "nat list"
  dr_used :: "nat list"
  dr_called :: "nat list"

definition dns_start :: "dns_run \<Rightarrow> bool" where
  "dns_start r \<longleftrightarrow>
     r = \<lparr>dr_sys = new_dns_system, dr_running = [], dr_calling = [], dr_invoking = [], dr_accepted = [], dr_used = [], dr_called = []\<rparr>"

datatype dns_action =
    Da_resolve string nat
  | Da_take
  | Da_finish nat
  | Da_check nat
  | Da_call nat
  | Da_cancel nat
  | Da_drop_flights nat
  | Da_prune
  | Da_stop

text \<open>Each caller has a token of its own.  \<^verbatim>\<open>cancel_resolve\<close> is three steps, in its order.\<close>

inductive dns_trans :: "dns_run \<Rightarrow> dns_action \<Rightarrow> dns_run \<Rightarrow> bool" where
  d_resolve: "\<lbrakk>token \<notin> set (dr_used r); resolve_async key token (dr_sys r) = (ok, s)\<rbrakk> \<Longrightarrow>
     dns_trans r (Da_resolve key token)
       (r\<lparr>dr_sys := s, dr_used := token # dr_used r,
          dr_accepted := (if ok then token # dr_accepted r else dr_accepted r)\<rparr>)"
| d_take: "pool_take (dr_sys r) = (Some f, s) \<Longrightarrow>
     dns_trans r Da_take
       (r\<lparr>dr_sys := s,
          dr_running := (if f \<in> set (ds_cancelled_flights (dr_sys r)) then dr_running r else f # dr_running r)\<rparr>)"
| d_finish: "\<lbrakk>f \<in> set (dr_running r); finish_flight f (dr_sys r) = (ws, s)\<rbrakk> \<Longrightarrow>
     dns_trans r (Da_finish f)
       (r\<lparr>dr_sys := s, dr_running := remove1 f (dr_running r), dr_calling := dr_calling r @ ws\<rparr>)"
| d_check: "w \<in> set (dr_calling r) \<Longrightarrow>
     dns_trans r (Da_check w)
       (r\<lparr>dr_calling := remove1 w (dr_calling r),
          dr_invoking := (if w \<in> set (ds_cancelled_tokens (dr_sys r)) then dr_invoking r else w # dr_invoking r)\<rparr>)"
| d_call: "w \<in> set (dr_invoking r) \<Longrightarrow>
     dns_trans r (Da_call w)
       (r\<lparr>dr_invoking := remove1 w (dr_invoking r), dr_called := w # dr_called r\<rparr>)"
| d_cancel: "dns_trans r (Da_cancel token) (r\<lparr>dr_sys := cancel_token token (dr_sys r)\<rparr>)"
| d_drop_flights: "token \<in> set (ds_cancelled_tokens (dr_sys r)) \<Longrightarrow>
     dns_trans r (Da_drop_flights token) (r\<lparr>dr_sys := cancel_flights token (dr_sys r)\<rparr>)"
| d_prune: "dns_trans r Da_prune (r\<lparr>dr_sys := prune_cancelled (dr_sys r)\<rparr>)"
| d_stop: "dns_trans r Da_stop (r\<lparr>dr_sys := (dr_sys r)\<lparr>ds_stopping := True\<rparr>\<rparr>)"

inductive_cases dns_trans_cases: "dns_trans r a r'"

subsection \<open>The pool's queues\<close>

text \<open>Nothing waits for a place in the task queue while there is one.\<close>

definition queues_ok :: "dns_system \<Rightarrow> bool" where
  "queues_ok s \<longleftrightarrow>
     length (ds_tasks s) \<le> max_queued_tasks \<and> length (ds_pending s) \<le> max_pending_hosts \<and>
     (ds_pending s \<noteq> [] \<longrightarrow> length (ds_tasks s) = max_queued_tasks)"

definition queued :: "dns_system \<Rightarrow> nat set" where
  "queued s = set (ds_tasks s) \<union> set (ds_pending s)"

lemma set_take_drop: "set (take n xs) \<union> set (drop n xs) = set xs"
  by (metis append_take_drop_id set_append)

lemma prune_cancelled_facts:
  assumes "length (ds_tasks s) \<le> max_queued_tasks" "length (ds_pending s) \<le> max_pending_hosts"
  shows "queues_ok (prune_cancelled s)" "queued (prune_cancelled s) = queued s - set (ds_cancelled_flights s)"
    "ds_flights (prune_cancelled s) = ds_flights s" "ds_next (prune_cancelled s) = ds_next s"
    "ds_cancelled_flights (prune_cancelled s) = ds_cancelled_flights s"
    "ds_cancelled_tokens (prune_cancelled s) = ds_cancelled_tokens s"
proof -
  have l: "length (prune_queue c q) \<le> length q" for c q by (simp add: prune_queue_def)
  show "queues_ok (prune_cancelled s)"
    using assms l [of "ds_cancelled_flights s" "ds_tasks s"] l [of "ds_cancelled_flights s" "ds_pending s"]
    by (auto simp: queues_ok_def prune_cancelled_def promote_pending_def Let_def min_def)
  show "queued (prune_cancelled s) = queued s - set (ds_cancelled_flights s)"
    by (auto simp: queued_def prune_cancelled_def promote_pending_def Let_def prune_queue_def
        dest: in_set_takeD in_set_dropD)
      (use set_take_drop in fastforce)
qed (simp_all add: prune_cancelled_def promote_pending_def Let_def)

lemma queues_okD: "queues_ok s \<Longrightarrow> length (ds_tasks s) \<le> max_queued_tasks \<and> length (ds_pending s) \<le> max_pending_hosts"
  by (simp add: queues_ok_def)

lemma pool_submit_facts:
  assumes "queues_ok s" "pool_submit f s = (ok, s')"
  shows "queues_ok s'" "queued s' = (if ds_stopping s then queued s else
      (queued s - set (ds_cancelled_flights s)) \<union> (if ok then {f} else {}))" "ds_stopping s \<Longrightarrow> \<not> ok"
    "ds_flights s' = ds_flights s" "ds_next s' = ds_next s"
    "ds_cancelled_flights s' = ds_cancelled_flights s" "ds_cancelled_tokens s' = ds_cancelled_tokens s"
proof -
  let ?s1 = "prune_cancelled s"
  note P = prune_cancelled_facts [OF queues_okD [OF assms(1), THEN conjunct1] queues_okD [OF assms(1), THEN conjunct2]]
  consider "ds_stopping s" "\<not> ok" "s' = s" | "\<not> ds_stopping s" "\<not> ok" "s' = ?s1"
    | "\<not> ds_stopping s" ok "length (ds_tasks ?s1) < max_queued_tasks" "s' = ?s1\<lparr>ds_tasks := ds_tasks ?s1 @ [f]\<rparr>"
    | "\<not> ds_stopping s" ok "length (ds_tasks ?s1) \<ge> max_queued_tasks" "length (ds_pending ?s1) < max_pending_hosts"
      "s' = ?s1\<lparr>ds_pending := ds_pending ?s1 @ [f]\<rparr>"
    using assms(2) by (fastforce simp: pool_submit_def Let_def split: if_splits)
  note cases = this
  show "queues_ok s'"
    using P(1) assms(1) by (cases rule: cases) (auto simp: queues_ok_def)
  show "queued s' = (if ds_stopping s then queued s else
      (queued s - set (ds_cancelled_flights s)) \<union> (if ok then {f} else {}))"
    using P(2) by (cases rule: cases) (auto simp: queued_def)
  show "ds_stopping s \<Longrightarrow> \<not> ok" by (cases rule: cases) auto
qed (use assms(2) in \<open>auto simp: pool_submit_def prune_cancelled_def promote_pending_def Let_def split: if_splits\<close>)

lemma pool_take_facts:
  assumes "queues_ok s" "pool_take s = (Some f, s')"
  shows "queues_ok s'" "queued s - set (ds_cancelled_flights s) \<subseteq> insert f (queued s')" "queued s' \<subseteq> queued s"
    "f \<in> queued s" "ds_flights s' = ds_flights s" "ds_next s' = ds_next s"
    "ds_cancelled_flights s' = ds_cancelled_flights s" "ds_cancelled_tokens s' = ds_cancelled_tokens s"
proof -
  obtain rest where t: "ds_tasks s = f # rest" "s' = prune_cancelled (s\<lparr>ds_tasks := rest\<rparr>)"
    using assms(2) by (auto simp: pool_take_def split: list.splits)
  have "length (ds_tasks (s\<lparr>ds_tasks := rest\<rparr>)) \<le> max_queued_tasks"
    "length (ds_pending (s\<lparr>ds_tasks := rest\<rparr>)) \<le> max_pending_hosts"
    using queues_okD [OF assms(1)] t(1) by simp_all
  note F = prune_cancelled_facts [OF this, folded t(2)]
  show "queues_ok s'" by (rule F(1))
  show "queued s - set (ds_cancelled_flights s) \<subseteq> insert f (queued s')" "queued s' \<subseteq> queued s" "f \<in> queued s"
    using F(2) t(1) by (auto simp: queued_def)
qed (use assms(2) in \<open>auto simp: pool_take_def prune_cancelled_def promote_pending_def Let_def split: list.splits\<close>)

subsection \<open>Waiters\<close>

definition waiting :: "dns_flight list \<Rightarrow> nat multiset" where
  "waiting fs = mset (concat (map df_waiters fs))"

lemma waiting_simps [simp]:
  "waiting [] = {#}" "waiting (f # fs) = mset (df_waiters f) + waiting fs" "waiting (fs @ gs) = waiting fs + waiting gs"
  by (simp_all add: waiting_def)

lemma waiting_update:
  "i < length fs \<Longrightarrow>
   waiting (fs[i := (fs ! i)\<lparr>df_waiters := df_waiters (fs ! i) @ [t]\<rparr>]) = add_mset t (waiting fs)"
proof -
  assume i: "i < length fs"
  have "waiting fs = waiting (take i fs @ fs ! i # drop (Suc i) fs)" using i by (simp add: id_take_nth_drop [symmetric])
  then show ?thesis using i by (simp add: upd_conv_take_nth_drop)
qed

lemma waiting_filter: "waiting fs = waiting (filter P fs) + waiting (filter (\<lambda>f. \<not> P f) fs)"
  by (induction fs) (auto simp: ac_simps)

lemma waiting_without:
  "waiting (filter (\<lambda>f. df_waiters f \<noteq> []) (map (\<lambda>f. f\<lparr>df_waiters := filter (\<lambda>w. w \<noteq> t) (df_waiters f)\<rparr>) fs)) =
   filter_mset (\<lambda>w. w \<noteq> t) (waiting fs)"
  by (induction fs) (auto simp: filter_empty_conv)

subsection \<open>Flights\<close>

definition flight_ok :: "dns_system \<Rightarrow> nat list \<Rightarrow> dns_flight \<Rightarrow> bool" where
  "flight_ok s running f \<longleftrightarrow>
     df_waiters f \<noteq> [] \<and> length (df_waiters f) \<le> max_dns_flight_waiters \<and>
     df_id f \<notin> set (ds_cancelled_flights s) \<and> df_id f \<in> queued s \<union> set running \<and> df_id f < ds_next s"

definition flights_ok :: "dns_system \<Rightarrow> nat list \<Rightarrow> bool" where
  "flights_ok s running \<longleftrightarrow>
     queues_ok s \<and> distinct (map df_key (ds_flights s)) \<and> distinct (map df_id (ds_flights s)) \<and>
     (\<forall>f\<in>set (ds_flights s). flight_ok s running f) \<and> (\<forall>i\<in>set (ds_cancelled_flights s). i < ds_next s)"

text \<open>A key's first lookup.\<close>

lemma resolve_new_flight:
  assumes ok: "flights_ok s running" and new: "key \<notin> df_key ` set (ds_flights s)"
    and sub: "pool_submit (ds_next s) (s\<lparr>ds_flights := ds_flights s @ [\<lparr>df_id = ds_next s, df_key = key, df_waiters = [token]\<rparr>],
                                        ds_next := ds_next s + 1\<rparr>) = (b, s')" (is "pool_submit _ ?s1 = _")
  shows "b \<Longrightarrow> flights_ok s' running \<and> waiting (ds_flights s') = add_mset token (waiting (ds_flights s))"
    "\<not> b \<Longrightarrow> filter (\<lambda>g. df_key g \<noteq> key) (ds_flights s') = ds_flights s \<and>
       flights_ok (s'\<lparr>ds_flights := filter (\<lambda>g. df_key g \<noteq> key) (ds_flights s')\<rparr>) running"
proof -
  have q1: "queues_ok ?s1" "queued ?s1 = queued s" using ok by (simp_all add: flights_ok_def queues_ok_def queued_def)
  note F = pool_submit_facts [OF q1(1) sub, simplified]
  have old: "flight_ok s running f" if "f \<in> set (ds_flights s)" for f using ok that by (simp add: flights_ok_def)
  have keep: "flight_ok t running f" if "f \<in> set (ds_flights s)" "queued t = queued s'"
      "ds_next t = ds_next s'" "ds_cancelled_flights t = ds_cancelled_flights s'" for f t
    using old [OF that(1)] F(2,5,6) q1(2) that(2-4) by (auto simp: flight_ok_def split: if_splits)
  have keys: "filter (\<lambda>g. df_key g \<noteq> key) (ds_flights s) = ds_flights s" using new by (auto simp: filter_id_conv)
  show "flights_ok s' running \<and> waiting (ds_flights s') = add_mset token (waiting (ds_flights s))" if b
  proof
    have "flight_ok s' running \<lparr>df_id = ds_next s, df_key = key, df_waiters = [token]\<rparr>"
      using that F(2,3,5,6) ok by (auto simp: flight_ok_def flights_ok_def max_dns_flight_waiters_def split: if_splits)
    then show "flights_ok s' running"
      using F ok new keep [of _ s'] old by (force simp: flights_ok_def flight_ok_def image_iff)
    show "waiting (ds_flights s') = add_mset token (waiting (ds_flights s))" using F(4) by simp
  qed
  show "filter (\<lambda>g. df_key g \<noteq> key) (ds_flights s') = ds_flights s \<and>
       flights_ok (s'\<lparr>ds_flights := filter (\<lambda>g. df_key g \<noteq> key) (ds_flights s')\<rparr>) running" if "\<not> b"
  proof
    show f: "filter (\<lambda>g. df_key g \<noteq> key) (ds_flights s') = ds_flights s" using F(4) keys by simp
    let ?t = "s'\<lparr>ds_flights := filter (\<lambda>g. df_key g \<noteq> key) (ds_flights s')\<rparr>"
    have "queues_ok ?t" using F(1) by (simp add: queues_ok_def)
    moreover have "flight_ok ?t running f" if "f \<in> set (ds_flights s)" for f
      by (rule keep [OF that]) (simp_all add: queued_def)
    ultimately show "flights_ok ?t running" using ok F(5,6) f by (auto simp: flights_ok_def less_Suc_eq)
  qed
qed

text \<open>Joining a flight that has room for another waiter.\<close>

lemma join_flight_ok:
  assumes ok: "flights_ok s running" and i: "i < length (ds_flights s)"
    and False: "\<not> length (df_waiters (ds_flights s ! i)) \<ge> max_dns_flight_waiters"
    and s': "s' = s\<lparr>ds_flights := (ds_flights s)[i := (ds_flights s ! i)\<lparr>df_waiters := df_waiters (ds_flights s ! i) @ [token]\<rparr>]\<rparr>"
  shows "flights_ok s' running"
proof -
  let ?f = "ds_flights s ! i"
  let ?g = "?f\<lparr>df_waiters := df_waiters ?f @ [token]\<rparr>"
  have keys: "map df_key ((ds_flights s)[i := ?g]) = map df_key (ds_flights s)"
    "map df_id ((ds_flights s)[i := ?g]) = map df_id (ds_flights s)"
    using i by (simp_all add: map_update list_update_same_conv)
  have "flight_ok s running ?f" using ok i by (simp add: flights_ok_def)
  then have g: "flight_ok s' running ?g" using False s' by (simp add: flight_ok_def queued_def)
  have "flight_ok s' running f" if "f \<in> set (ds_flights s')" for f
  proof -
    have "f = ?g \<or> f \<in> set (ds_flights s)" using that s' set_update_subset_insert [of "ds_flights s" i ?g] by auto
    then show ?thesis using g ok s' by (auto simp: flights_ok_def flight_ok_def queued_def)
  qed
  then show ?thesis using ok s' keys by (simp add: flights_ok_def queues_ok_def)
qed

lemma resolve_async_ok:
  assumes ok: "flights_ok s running" and res: "resolve_async key token s = (b, s')"
  shows "flights_ok s' running" "ds_cancelled_tokens s' = ds_cancelled_tokens s"
    "waiting (ds_flights s') =
      (if b \<and> token \<notin> set (ds_cancelled_tokens s) then add_mset token (waiting (ds_flights s)) else waiting (ds_flights s))"
proof -
  have "flights_ok s' running \<and> ds_cancelled_tokens s' = ds_cancelled_tokens s \<and> waiting (ds_flights s') =
      (if b \<and> token \<notin> set (ds_cancelled_tokens s) then add_mset token (waiting (ds_flights s)) else waiting (ds_flights s))"
  proof (cases "token \<in> set (ds_cancelled_tokens s)")
    case True
    then show ?thesis using ok res by (simp add: resolve_async_def)
  next
    case nc: False
    show ?thesis
    proof (cases "find_if (\<lambda>f. df_key f = key) (ds_flights s)")
      case None
      let ?s1 = "s\<lparr>ds_flights := ds_flights s @ [\<lparr>df_id = ds_next s, df_key = key, df_waiters = [token]\<rparr>],
                   ds_next := ds_next s + 1\<rparr>"
      obtain b1 s1 where sub: "pool_submit (ds_next s) ?s1 = (b1, s1)" by fastforce
      have new: "key \<notin> df_key ` set (ds_flights s)" using None by (auto simp: find_if_None)
      have q1: "queues_ok ?s1" using ok by (simp add: flights_ok_def queues_ok_def)
      have t: "ds_cancelled_tokens s1 = ds_cancelled_tokens s" using pool_submit_facts(7) [OF q1 sub] by simp
      note N = resolve_new_flight [OF ok new sub]
      show ?thesis
      proof (cases b1)
        case True
        then have "b \<and> s' = s1" using res None nc sub by (simp add: resolve_async_def Let_def)
        then show ?thesis using N(1) True nc t by simp
      next
        case False
        then have "\<not> b \<and> s' = s1\<lparr>ds_flights := filter (\<lambda>g. df_key g \<noteq> key) (ds_flights s1)\<rparr>"
          using res None nc sub by (auto simp: resolve_async_def Let_def)
        moreover have "filter (\<lambda>g. df_key g \<noteq> key) (ds_flights s1) = ds_flights s"
          "flights_ok (s1\<lparr>ds_flights := ds_flights s\<rparr>) running"
          using N(2) [OF False] by metis+
        ultimately show ?thesis using t by simp
      qed
    next
      case (Some i)
      then have i: "i < length (ds_flights s)" by (simp add: find_if_Some)
      let ?f = "ds_flights s ! i"
      let ?g = "?f\<lparr>df_waiters := df_waiters ?f @ [token]\<rparr>"
      show ?thesis
      proof (cases "length (df_waiters ?f) \<ge> max_dns_flight_waiters")
        case True
        then show ?thesis using ok res Some nc by (auto simp: resolve_async_def Let_def)
      next
        case False
        then have s': "b" "s' = s\<lparr>ds_flights := (ds_flights s)[i := ?g]\<rparr>"
          using res Some nc by (auto simp: resolve_async_def Let_def)
        have "flights_ok s' running" by (rule join_flight_ok [OF ok i False s'(2)])
        then show ?thesis using waiting_update [OF i] s' nc by simp
      qed
    qed
  qed
  then show "flights_ok s' running" "ds_cancelled_tokens s' = ds_cancelled_tokens s"
    "waiting (ds_flights s') =
      (if b \<and> token \<notin> set (ds_cancelled_tokens s) then add_mset token (waiting (ds_flights s)) else waiting (ds_flights s))"
    by blast+
qed

lemma flights_ok_fewer:
  assumes "flights_ok s running" "set (ds_flights s') \<subseteq> set (ds_flights s)"
    and "distinct (map df_key (ds_flights s'))" "distinct (map df_id (ds_flights s'))" "queues_ok s'"
    and "ds_next s' = ds_next s" "ds_cancelled_flights s' = ds_cancelled_flights s"
    and "\<And>f. f \<in> set (ds_flights s') \<Longrightarrow> df_id f \<in> queued s \<union> set running \<Longrightarrow>
           df_id f \<notin> set (ds_cancelled_flights s) \<Longrightarrow> df_id f \<in> queued s' \<union> set running'"
  shows "flights_ok s' running'"
  using assms(1-7) assms(8) unfolding flights_ok_def flight_ok_def by (metis subset_iff)

lemma pool_take_ok:
  assumes "flights_ok s running" "pool_take s = (Some i, s')"
  shows "flights_ok s' (if i \<in> set (ds_cancelled_flights s) then running else i # running)"
proof -
  have "queues_ok s" using assms(1) by (simp add: flights_ok_def)
  note F = pool_take_facts [OF this assms(2)]
  show ?thesis
    by (rule flights_ok_fewer [OF assms(1)]) (use F assms(1) in \<open>auto simp: flights_ok_def\<close>)
qed

lemma prune_ok: "flights_ok s running \<Longrightarrow> flights_ok (prune_cancelled s) running"
proof -
  assume ok: "flights_ok s running"
  then have "queues_ok s" by (simp add: flights_ok_def)
  note F = prune_cancelled_facts [OF queues_okD [OF this, THEN conjunct1] queues_okD [OF this, THEN conjunct2]]
  show ?thesis by (rule flights_ok_fewer [OF ok]) (use F ok in \<open>auto simp: flights_ok_def\<close>)
qed

lemma finish_ok:
  assumes "flights_ok s running" "finish_flight i s = (ws, s')"
  shows "flights_ok s' (remove1 i running)" "waiting (ds_flights s) = mset ws + waiting (ds_flights s')"
    "ds_cancelled_tokens s' = ds_cancelled_tokens s"
proof -
  have s': "s' = s\<lparr>ds_flights := filter (\<lambda>f. df_id f \<noteq> i) (ds_flights s)\<rparr>"
    "mset ws = waiting (filter (\<lambda>f. df_id f = i) (ds_flights s))"
    using assms(2) by (auto simp: finish_flight_def waiting_def)
  show "flights_ok s' (remove1 i running)"
    by (rule flights_ok_fewer [OF assms(1)])
       (use assms(1) s' in \<open>auto simp: flights_ok_def queues_ok_def queued_def intro: distinct_map_filter\<close>)
  show "waiting (ds_flights s) = mset ws + waiting (ds_flights s')"
    using s' waiting_filter [of "ds_flights s" "\<lambda>f. df_id f = i"] by simp
  show "ds_cancelled_tokens s' = ds_cancelled_tokens s" using s' by simp
qed

lemma cancel_flights_ok:
  assumes "flights_ok s running"
  shows "flights_ok (cancel_flights t s) running"
    "waiting (ds_flights (cancel_flights t s)) = filter_mset (\<lambda>w. w \<noteq> t) (waiting (ds_flights s))"
    "ds_cancelled_tokens (cancel_flights t s) = ds_cancelled_tokens s"
proof -
  let ?strip = "\<lambda>f. f\<lparr>df_waiters := filter (\<lambda>w. w \<noteq> t) (df_waiters f)\<rparr>"
  let ?left = "map ?strip (ds_flights s)"
  have m: "map df_key ?left = map df_key (ds_flights s)" "map df_id ?left = map df_id (ds_flights s)"
    by (simp_all add: comp_def)
  have dis: "distinct (map df_key ?left)" "distinct (map df_id ?left)"
    using assms unfolding m by (simp_all add: flights_ok_def)
  have f: "flight_ok (cancel_flights t s) running g" if "g \<in> set ?left" "df_waiters g \<noteq> []" for g
  proof -
    from that(1) obtain f where f: "f \<in> set (ds_flights s)" "g = ?strip f" by auto
    have k: "flight_ok s running f" using assms f(1) by (simp add: flights_ok_def)
    define gone where "gone = map df_id (filter (\<lambda>f. df_waiters f = []) ?left)"
    have "df_id g \<notin> set gone"
    proof
      assume "df_id g \<in> set gone"
      then obtain h where h: "h \<in> set ?left" "df_waiters h = []" "df_id g = df_id h" unfolding gone_def by auto
      have "inj_on df_id (set ?left)" using dis(2) unfolding distinct_map by blast
      then have "g = h" by (rule inj_onD) (fact h(3) that(1) h(1))+
      with h(2) that(2) show False by simp
    qed
    moreover have "length (df_waiters g) \<le> max_dns_flight_waiters"
      using k f(2) le_trans [OF length_filter_le [of "\<lambda>w. w \<noteq> t" "df_waiters f"]] by (simp add: flight_ok_def)
    moreover have "df_id g = df_id f" using f(2) by simp
    moreover have "ds_cancelled_flights (cancel_flights t s) = gone @ ds_cancelled_flights s"
      by (simp add: cancel_flights_def Let_def gone_def)
    ultimately show ?thesis
      using k that(2) by (simp add: flight_ok_def queued_def) (simp add: cancel_flights_def Let_def)
  qed
  let ?s = "cancel_flights t s"
  have s: "ds_flights ?s = filter (\<lambda>f. df_waiters f \<noteq> []) ?left"
    "ds_cancelled_flights ?s = map df_id (filter (\<lambda>f. df_waiters f = []) ?left) @ ds_cancelled_flights s"
    "ds_next ?s = ds_next s" by (simp_all add: cancel_flights_def Let_def)
  have "\<forall>f\<in>set (ds_flights ?s). flight_ok ?s running f" unfolding s(1) using f by simp
  moreover have "distinct (map df_key (ds_flights ?s))" "distinct (map df_id (ds_flights ?s))"
    unfolding s(1) by (intro distinct_map_filter dis)+
  moreover have "df_id f < ds_next s" if "f \<in> set (ds_flights s)" for f
    using assms that by (simp add: flights_ok_def flight_ok_def)
  then have "\<forall>i\<in>set (ds_cancelled_flights ?s). i < ds_next ?s"
    using assms unfolding s by (auto simp: flights_ok_def)
  moreover have "queues_ok ?s" using assms by (simp add: flights_ok_def queues_ok_def cancel_flights_def Let_def)
  ultimately show "flights_ok (cancel_flights t s) running" by (simp add: flights_ok_def)
  show "waiting (ds_flights (cancel_flights t s)) = filter_mset (\<lambda>w. w \<noteq> t) (waiting (ds_flights s))"
    by (simp add: cancel_flights_def Let_def waiting_without)
qed (simp add: cancel_flights_def Let_def)

subsection \<open>Every caller is answered\<close>

definition callers :: "dns_run \<Rightarrow> nat multiset" where
  "callers r = waiting (ds_flights (dr_sys r)) + mset (dr_calling r) + mset (dr_invoking r) + mset (dr_called r)"

definition dns_ok :: "dns_run \<Rightarrow> bool" where
  "dns_ok r \<longleftrightarrow>
     flights_ok (dr_sys r) (dr_running r) \<and> (\<forall>t. count (callers r) t \<le> 1) \<and> set_mset (callers r) \<subseteq> set (dr_used r) \<and>
     set (dr_accepted r) \<subseteq> set (dr_used r) \<and>
     (\<forall>t\<in>set (dr_accepted r). t \<in> set (ds_cancelled_tokens (dr_sys r)) \<or> t \<in># callers r)"

lemma dns_start_ok: "dns_start r \<Longrightarrow> dns_ok r"
  by (simp add: dns_start_def dns_ok_def callers_def new_dns_system_def flights_ok_def queues_ok_def)

lemma dns_trans_ok: "dns_ok r \<Longrightarrow> dns_trans r a r' \<Longrightarrow> dns_ok r'"
proof -
  assume ok: "dns_ok r" and t: "dns_trans r a r'"
  have fl: "flights_ok (dr_sys r) (dr_running r)" using ok by (simp add: dns_ok_def)
  from t show ?thesis
  proof cases
    case (d_resolve token key b s)
    note R = resolve_async_ok [OF fl d_resolve(4)]
    have "token \<notin># callers r" using ok d_resolve(3) by (auto simp: dns_ok_def)
    then have "count (callers r) token = 0" by (simp add: not_in_iff)
    then show ?thesis using ok R d_resolve by (auto simp: dns_ok_def callers_def split: if_splits)
  next
    case (d_take f s)
    have "queues_ok (dr_sys r)" using fl by (simp add: flights_ok_def)
    note F = pool_take_facts(5,8) [OF this d_take(3)]
    show ?thesis using ok pool_take_ok [OF fl d_take(3)] F d_take(2) by (auto simp: dns_ok_def callers_def)
  next
    case (d_finish f ws s)
    note F = finish_ok [OF fl d_finish(4)]
    have "callers r' = callers r" using F(2) d_finish(2) by (simp add: callers_def ac_simps)
    then show ?thesis using ok F(1,3) d_finish(2) by (simp add: dns_ok_def)
  next
    case (d_check w)
    have c: "mset (dr_calling r) = add_mset w (mset (remove1 w (dr_calling r)))" using d_check(3) by simp
    show ?thesis
    proof (cases "w \<in> set (ds_cancelled_tokens (dr_sys r))")
      case True
      then have s: "callers r = add_mset w (callers r')" using d_check(2) by (simp add: callers_def c del: mset_remove1)
      have "count (callers r') t \<le> count (callers r) t" for t unfolding s by simp
      then have "count (callers r') t \<le> 1" for t using ok unfolding dns_ok_def by (meson le_trans)
      then show ?thesis using ok True s d_check(2) by (auto simp: dns_ok_def)
    next
      case False
      then have "callers r' = callers r" using d_check(2) by (simp add: callers_def c del: mset_remove1)
      then show ?thesis using ok d_check(2) by (simp add: dns_ok_def)
    qed
  next
    case (d_call w)
    have "mset (dr_invoking r) = add_mset w (mset (remove1 w (dr_invoking r)))" using d_call(3) by simp
    then have "callers r' = callers r" using d_call(2) by (simp add: callers_def del: mset_remove1)
    then show ?thesis using ok d_call(2) by (simp add: dns_ok_def)
  next
    case (d_cancel token)
    have "flights_ok (cancel_token token (dr_sys r)) (dr_running r)"
      using fl by (simp add: flights_ok_def flight_ok_def cancel_token_def queues_ok_def queued_def)
    moreover have "callers r' = callers r" using d_cancel(2) by (simp add: callers_def cancel_token_def)
    ultimately show ?thesis using ok d_cancel(2) by (auto simp: dns_ok_def cancel_token_def)
  next
    case (d_drop_flights token)
    note C = cancel_flights_ok [OF fl, of token]
    have "count (callers r') t \<le> count (callers r) t" for t
      using d_drop_flights(2) C(2) by (simp add: callers_def)
    then have "count (callers r') t \<le> 1" for t using ok unfolding dns_ok_def by (meson le_trans)
    moreover have other: "t \<in># callers r'" if "t \<noteq> token" "t \<in># callers r" for t
      using d_drop_flights(2) C(2) that by (simp add: callers_def)
    have "t \<in> set (ds_cancelled_tokens (dr_sys r')) \<or> t \<in># callers r'" if "t \<in> set (dr_accepted r')" for t
      using that other [of t] ok C(3) d_drop_flights(2,3) by (cases "t = token") (auto simp: dns_ok_def)
    moreover have "set_mset (callers r') \<subseteq> set_mset (callers r)"
      using d_drop_flights(2) C(2) by (auto simp: callers_def)
    ultimately show ?thesis
      using ok C(1) d_drop_flights(2) by (auto simp: dns_ok_def)
  next
    case d_prune
    have "queues_ok (dr_sys r)" using fl by (simp add: flights_ok_def)
    note F = prune_cancelled_facts(3,6) [OF queues_okD [OF this, THEN conjunct1] queues_okD [OF this, THEN conjunct2]]
    show ?thesis using ok prune_ok [OF fl] F d_prune by (simp add: dns_ok_def callers_def)
  next
    case d_stop
    have "flights_ok ((dr_sys r)\<lparr>ds_stopping := True\<rparr>) (dr_running r)"
      using fl by (simp add: flights_ok_def flight_ok_def queues_ok_def queued_def)
    then show ?thesis using ok d_stop by (simp add: dns_ok_def callers_def)
  qed
qed

interpretation dns_flights: transition_system dns_start dns_trans dns_ok
  by unfold_locales (use dns_start_ok dns_trans_ok in blast)+

text \<open>A caller that has cancelled and whose callback is not the next thing a thread does is out of it for good.\<close>

lemma cancelled_stays_out:
  assumes "reachable (\<lambda>x. x = r) dns_trans r'" "dns_ok r"
    and "u \<in> set (ds_cancelled_tokens (dr_sys r))" "u \<notin> set (dr_invoking r)" "u \<notin> set (dr_called r)"
  shows "dns_ok r' \<and> u \<in> set (ds_cancelled_tokens (dr_sys r')) \<and> u \<notin> set (dr_invoking r') \<and> u \<notin> set (dr_called r')"
  using assms(1)
proof (induction rule: reachable.induct)
  case (reachable_start s)
  then show ?case using assms(2-) by simp
next
  case (reachable_step s a s')
  then have ok: "dns_ok s" and fl: "flights_ok (dr_sys s) (dr_running s)" by (simp_all add: dns_ok_def)
  then have q: "queues_ok (dr_sys s)" by (simp add: flights_ok_def)
  note Q = queues_okD [OF q, THEN conjunct1] queues_okD [OF q, THEN conjunct2]
  have out: "u \<in> set (ds_cancelled_tokens (dr_sys s))" "u \<notin> set (dr_invoking s)" "u \<notin> set (dr_called s)"
    using reachable_step.IH by simp_all
  from \<open>dns_trans s a s'\<close> have "u \<in> set (ds_cancelled_tokens (dr_sys s')) \<and> u \<notin> set (dr_invoking s') \<and> u \<notin> set (dr_called s')"
  proof cases
    case (d_resolve token key b t)
    then show ?thesis using out resolve_async_ok(2) [OF fl d_resolve(4)] by simp
  next
    case (d_take f t)
    then show ?thesis using out pool_take_facts(8) [OF q d_take(3)] by simp
  next
    case (d_finish f ws t)
    then show ?thesis using out finish_ok(3) [OF fl d_finish(4)] by simp
  next
    case (d_check w)
    then show ?thesis using out by auto
  next
    case (d_call w)
    then show ?thesis using out by (auto dest: notin_set_remove1)
  next
    case (d_drop_flights token)
    then show ?thesis using out cancel_flights_ok(3) [OF fl] by simp
  next
    case d_prune
    then show ?thesis using out prune_cancelled_facts(6) [OF Q] by simp
  qed (use out in \<open>simp_all add: cancel_token_def\<close>)
  then show ?case using dns_trans_ok [OF ok \<open>dns_trans s a s'\<close>] by simp
qed

text \<open>Property C22: a shared lookup answers each of its callers, at most once, and not after a cancellation.  In any
  interleaving of callers, cancellations and resolver threads, a caller whose \<^verbatim>\<open>resolve_async\<close> was accepted and who
  has not cancelled has been called back exactly once, or it is the next thing a thread does, or a thread has it in its
  list, or it waits in a flight whose task is queued or running and not cancelled; nobody is called
  twice.  Once a caller has cancelled it is never called, neither in that state nor in any that follows, unless it has been called already
  or a thread had read its flag before: the flag is read and the callback made without a lock, so that one
  callback may follow the cancellation, and \<open>cancelled_but_called\<close> is a run in which it does.  There
  are at most 32 tasks, 128 waiting hosts and 1024 waiters per flight, and a host waits only
  while the task queue is full, so that a cancelled lookup never blocks one behind it.\<close>

theorem shared_lookup_answers_callers:
  assumes "reachable dns_start dns_trans r"
  shows "let s = dr_sys r in
    (\<forall>t\<in>set (dr_accepted r). t \<in> set (ds_cancelled_tokens s) \<or>
       count_list (dr_called r) t = 1 \<or> t \<in> set (dr_invoking r) \<or> t \<in> set (dr_calling r) \<or>
       (\<exists>f\<in>set (ds_flights s). t \<in> set (df_waiters f) \<and> df_id f \<notin> set (ds_cancelled_flights s) \<and>
          (df_id f \<in> set (ds_tasks s) \<or> df_id f \<in> set (ds_pending s) \<or> df_id f \<in> set (dr_running r)))) \<and>
    (\<forall>u. count_list (dr_called r) u \<le> 1 \<and> (u \<in> set (dr_called r) \<longrightarrow> u \<notin> set (dr_invoking r))) \<and>
    (\<forall>u r'. u \<in> set (ds_cancelled_tokens s) \<longrightarrow> reachable (\<lambda>x. x = r) dns_trans r' \<longrightarrow>
       u \<in> set (dr_invoking r) \<or> u \<in> set (dr_called r) \<or> u \<notin> set (dr_called r')) \<and>
    length (ds_tasks s) \<le> 32 \<and> length (ds_pending s) \<le> 128 \<and> (\<forall>f\<in>set (ds_flights s). length (df_waiters f) \<le> 1024) \<and>
    (ds_pending s \<noteq> [] \<longrightarrow> length (ds_tasks s) = 32)"
proof -
  have ok: "dns_ok r" by (rule dns_flights.reachable_inv [OF assms(1)])
  then have fl: "flights_ok (dr_sys r) (dr_running r)" by (simp add: dns_ok_def)
  have f: "flight_ok (dr_sys r) (dr_running r) f" if "f \<in> set (ds_flights (dr_sys r))" for f
    using fl that by (simp add: flights_ok_def)
  have count: "count_list (dr_invoking r) u + count_list (dr_called r) u \<le> 1" for u
  proof -
    have "count (callers r) u \<le> 1" using ok by (simp add: dns_ok_def)
    then show ?thesis by (simp add: callers_def count_mset)
  qed
  have once: "count_list (dr_called r) u \<le> 1 \<and> (u \<in> set (dr_called r) \<longrightarrow> u \<notin> set (dr_invoking r))" for u
    using count [of u] count_list_0_iff [of "dr_called r" u] count_list_0_iff [of "dr_invoking r" u] by linarith
  have answered: "t \<in> set (ds_cancelled_tokens (dr_sys r)) \<or>
      count_list (dr_called r) t = 1 \<or> t \<in> set (dr_invoking r) \<or> t \<in> set (dr_calling r) \<or>
      (\<exists>f\<in>set (ds_flights (dr_sys r)). t \<in> set (df_waiters f) \<and> df_id f \<notin> set (ds_cancelled_flights (dr_sys r)) \<and>
         (df_id f \<in> set (ds_tasks (dr_sys r)) \<or> df_id f \<in> set (ds_pending (dr_sys r)) \<or> df_id f \<in> set (dr_running r)))"
    if "t \<in> set (dr_accepted r)" for t
  proof (cases "t \<in> set (ds_cancelled_tokens (dr_sys r))")
    case False
    then have "t \<in># callers r" using ok that by (auto simp: dns_ok_def)
    then consider "t \<in> set (dr_called r)" | "t \<in> set (dr_calling r)" | "t \<in> set (dr_invoking r)"
      | g where "g \<in> set (ds_flights (dr_sys r))" "t \<in> set (df_waiters g)"
      by (auto simp: callers_def waiting_def)
    then show ?thesis
    proof cases
      case 1
      then have "count_list (dr_called r) t \<noteq> 0" by (simp add: count_list_0_iff)
      then show ?thesis using once [of t] by auto
    next
      case (4 g)
      then show ?thesis using f [of g] by (auto simp: flight_ok_def queued_def)
    qed simp_all
  qed simp
  have silent: "u \<in> set (dr_invoking r) \<or> u \<in> set (dr_called r) \<or> u \<notin> set (dr_called r')"
    if "u \<in> set (ds_cancelled_tokens (dr_sys r))" "reachable (\<lambda>x. x = r) dns_trans r'" for u r'
    using cancelled_stays_out [OF that(2) ok that(1)] by blast
  have bounds: "length (ds_tasks (dr_sys r)) \<le> 32" "length (ds_pending (dr_sys r)) \<le> 128"
    "\<forall>f\<in>set (ds_flights (dr_sys r)). length (df_waiters f) \<le> 1024"
    "ds_pending (dr_sys r) \<noteq> [] \<longrightarrow> length (ds_tasks (dr_sys r)) = 32"
    using f fl
    by (auto simp: flights_ok_def queues_ok_def flight_ok_def max_queued_tasks_def max_pending_hosts_def
        max_dns_flight_waiters_def)
  show ?thesis unfolding Let_def by (intro conjI ballI allI impI answered once [THEN conjunct1]
      once [THEN conjunct2, rule_format] silent bounds)
qed

text \<open>Two callers of one key, the first of whom gives up while the lookup is running.\<close>

definition fresh_run :: dns_run where
  "fresh_run = \<lparr>dr_sys = new_dns_system, dr_running = [], dr_calling = [], dr_invoking = [], dr_accepted = [], dr_used = [],
                dr_called = []\<rparr>"

definition shared_run :: dns_run where
  "shared_run =
     (let s = snd (resolve_async ''k'' 2 (snd (resolve_async ''k'' 1 new_dns_system)))
      in fresh_run\<lparr>dr_sys := snd (pool_take s), dr_used := [2, 1], dr_accepted := [2, 1], dr_running := [0]\<rparr>)"

lemma shared_run_reachable: "reachable dns_start dns_trans shared_run"
proof -
  define s1 where "s1 = snd (resolve_async ''k'' 1 new_dns_system)"
  define s2 where "s2 = snd (resolve_async ''k'' 2 s1)"
  define s3 where "s3 = snd (pool_take s2)"
  have e1: "resolve_async ''k'' 1 new_dns_system = (True, s1)" unfolding s1_def by code_simp
  have e2: "resolve_async ''k'' 2 s1 = (True, s2)" unfolding s2_def s1_def by code_simp
  have e3: "pool_take s2 = (Some 0, s3)" "ds_cancelled_flights s2 = []" unfolding s3_def s2_def s1_def by code_simp+
  define r1 where "r1 = fresh_run\<lparr>dr_sys := s1, dr_used := [1], dr_accepted := [1]\<rparr>"
  define r2 where "r2 = fresh_run\<lparr>dr_sys := s2, dr_used := [2, 1], dr_accepted := [2, 1]\<rparr>"
  have "dns_trans fresh_run (Da_resolve ''k'' 1) r1"
    using d_resolve [of 1 fresh_run "''k''" True s1] e1 by (simp add: r1_def fresh_run_def)
  then have 1: "reachable dns_start dns_trans r1"
    by (rule reachable_step [rotated]) (simp add: reachable_start dns_start_def fresh_run_def)
  have "dns_trans r1 (Da_resolve ''k'' 2) r2"
    using d_resolve [of 2 r1 "''k''" True s2] e2 by (simp add: r1_def r2_def fresh_run_def)
  with 1 have 2: "reachable dns_start dns_trans r2" by (rule reachable_step)
  have "dns_trans r2 Da_take (fresh_run\<lparr>dr_sys := s3, dr_used := [2, 1], dr_accepted := [2, 1], dr_running := [0]\<rparr>)"
    using d_take [of r2 0 s3] e3 by (simp add: r2_def fresh_run_def)
  moreover have "shared_run = fresh_run\<lparr>dr_sys := s3, dr_used := [2, 1], dr_accepted := [2, 1], dr_running := [0]\<rparr>"
    by (simp add: shared_run_def s3_def s2_def s1_def)
  ultimately show ?thesis using reachable_step [OF 2] by simp
qed

theorem shared_lookup_answers_callers_witness:
  "2 \<in> set (dr_accepted shared_run) \<and> 0 \<in> set (dr_running shared_run) \<and>
   (\<exists>f\<in>set (ds_flights (dr_sys shared_run)). 2 \<in> set (df_waiters f)) \<and>
   (\<nexists>r'. reachable (\<lambda>x. x = shared_run\<lparr>dr_sys := cancel_token 1 (dr_sys shared_run)\<rparr>) dns_trans r' \<and> 1 \<in> set (dr_called r'))"
proof -
  let ?r = "shared_run\<lparr>dr_sys := cancel_token 1 (dr_sys shared_run)\<rparr>"
  have r: "reachable dns_start dns_trans ?r" by (rule reachable_step [OF shared_run_reachable d_cancel])
  have v: "dr_accepted shared_run = [2, 1]" "dr_running shared_run = [0]" "dr_invoking ?r = []" "dr_called ?r = []"
    by (simp_all add: shared_run_def Let_def fresh_run_def)
  have w: "1 \<in> set (ds_cancelled_tokens (dr_sys ?r))" by (simp add: cancel_token_def)
  have "\<exists>f\<in>set (ds_flights (dr_sys shared_run)). 2 \<in> set (df_waiters f)" by code_simp
  then show ?thesis using shared_lookup_answers_callers [OF r] v w by (simp add: Let_def)
qed

text \<open>The window between the two steps: the flag is read, the caller cancels, and its callback is made all the same.\<close>

lemma cancelled_but_called:
  "\<exists>r r'. reachable dns_start dns_trans r \<and> 1 \<in> set (ds_cancelled_tokens (dr_sys r)) \<and> 1 \<notin> set (dr_called r) \<and>
     dns_trans r (Da_call 1) r' \<and> 1 \<in> set (dr_called r')"
proof -
  define s where "s = snd (finish_flight 0 (dr_sys shared_run))"
  define r1 where "r1 = shared_run\<lparr>dr_sys := s, dr_running := [], dr_calling := [1, 2]\<rparr>"
  define r2 where "r2 = r1\<lparr>dr_calling := [2], dr_invoking := [1]\<rparr>"
  define r3 where "r3 = r2\<lparr>dr_sys := cancel_token 1 s\<rparr>"
  have v: "dr_running shared_run = [0]" "dr_calling shared_run = []" "dr_invoking shared_run = []" "dr_called shared_run = []"
    by (simp_all add: shared_run_def Let_def fresh_run_def)
  have f: "finish_flight 0 (dr_sys shared_run) = ([1, 2], s)" "ds_cancelled_tokens s = []"
    unfolding s_def by code_simp+
  have "dns_trans shared_run (Da_finish 0) r1" using d_finish [of 0 shared_run] f(1) v by (simp add: r1_def)
  with shared_run_reachable have 1: "reachable dns_start dns_trans r1" by (rule reachable_step)
  have "dns_trans r1 (Da_check 1) r2" using d_check [of 1 r1] f(2) v by (simp add: r2_def r1_def)
  with 1 have 2: "reachable dns_start dns_trans r2" by (rule reachable_step)
  have "dns_trans r2 (Da_cancel 1) r3" using d_cancel [of r2 1] by (simp add: r3_def r2_def r1_def)
  with 2 have 3: "reachable dns_start dns_trans r3" by (rule reachable_step)
  have "1 \<in> set (ds_cancelled_tokens (dr_sys r3))" "1 \<notin> set (dr_called r3)" "1 \<in> set (dr_invoking r3)"
    using v by (simp_all add: r3_def r2_def r1_def cancel_token_def)
  with 3 d_call [of 1 r3] show ?thesis by fastforce
qed

end
