(* ===== verification/Client_Abi.thy ===== *)
theory Client_Abi
  imports Engine_Pool
begin

text \<open>
  The options of a client as the C ABI passes them (\<^verbatim>\<open>src/core/kathttp3.h\<close> and the C functions of
  \<^verbatim>\<open>src/core/engine.cc\<close>): a structure in memory with its size in front, which callers built against an
  older header pass shorter.  Memory is a list of bytes; the layout is that of a 64-bit little-endian platform.
\<close>

subsection \<open>Layout\<close>

text \<open>The fields in order, with their sizes, which are their alignments too.\<close>

definition option_fields :: "(string \<times> nat) list" where
  "option_fields =
     [(''struct_size'', 4), (''abi_version'', 4), (''connect_timeout_ms'', 8), (''request_timeout_ms'', 8),
      (''idle_timeout_ms'', 8), (''max_redirects'', 4), (''max_connections_per_origin'', 4), (''enable_0rtt'', 1),
      (''ca_cert_file'', 8), (''verify_cert'', 1), (''insecure_cert'', 1), (''trust_mode'', 4), (''keylog_file'', 8),
      (''quic_version'', 4), (''resolve_cb'', 8), (''resolve_cb_userdata'', 8), (''dns_timeout_ms'', 8),
      (''handshake_timeout_ms'', 8), (''response_headers_timeout_ms'', 8), (''read_timeout_ms'', 8),
      (''write_timeout_ms'', 8), (''call_timeout_ms'', 8), (''enable_cookies'', 1), (''qlog_path_prefix'', 8),
      (''consumer_stall_timeout_ms'', 8), (''enable_qlog'', 1), (''qlog_sink_cb'', 8), (''qlog_sink_userdata'', 8),
      (''max_connection_workers'', 4), (''network_change_policy'', 4), (''enable_http_cache'', 1),
      (''http_cache_max_entries'', 4), (''http_cache_max_bytes'', 8), (''http_cache_max_entry_bytes'', 8)]"

definition align_up :: "nat \<Rightarrow> nat \<Rightarrow> nat" where
  "align_up pos a = (pos + a - 1) div a * a"

fun layout_from :: "nat \<Rightarrow> (string \<times> nat) list \<Rightarrow> (string \<times> nat \<times> nat) list" where
  "layout_from pos [] = []"
| "layout_from pos ((name, n) # fs) =
     (let off = align_up pos n in (name, off, n) # layout_from (off + n) fs)"

definition option_layout :: "(string \<times> nat \<times> nat) list" where
  "option_layout = layout_from 0 option_fields"

definition options_size :: nat where
  "options_size = (case last option_layout of (name, off, n) \<Rightarrow> align_up (off + n) 8)"

definition offset_of :: "string \<Rightarrow> nat" where
  "offset_of name = fst (the (map_of option_layout name))"

definition size_of :: "string \<Rightarrow> nat" where
  "size_of name = snd (the (map_of option_layout name))"

definition legacy_size :: nat where "legacy_size = offset_of ''enable_http_cache''"

definition required_size :: nat where "required_size = offset_of ''resolve_cb_userdata'' + 8"

subsection \<open>Memory\<close>

fun le_bytes :: "nat \<Rightarrow> nat \<Rightarrow> bytes" where
  "le_bytes 0 v = []"
| "le_bytes (Suc n) v = of_nat v # le_bytes n (v div 256)"

fun le_value :: "bytes \<Rightarrow> nat" where
  "le_value [] = 0"
| "le_value (b # bs) = unat b + 256 * le_value bs"

definition get_field :: "string \<Rightarrow> bytes \<Rightarrow> nat" where
  "get_field name mem = le_value (take (size_of name) (drop (offset_of name) mem))"

definition put_field :: "string \<times> nat \<Rightarrow> bytes \<Rightarrow> bytes" where
  "put_field fv mem =
     (case fv of (name, v) \<Rightarrow> take (offset_of name) mem @ le_bytes (size_of name) v @ drop (offset_of name + size_of name) mem)"

text \<open>\<^verbatim>\<open>memcpy\<close> of the first \<open>n\<close> bytes.\<close>

definition copy_bytes :: "nat \<Rightarrow> bytes \<Rightarrow> bytes \<Rightarrow> bytes" where
  "copy_bytes n src dst = take n src @ drop n dst"

text \<open>What \<^verbatim>\<open>fill_default_options\<close> assigns; every other byte of the structure is zero.\<close>

definition default_values :: "nat \<Rightarrow> (string \<times> nat) list" where
  "default_values sz =
     [(''struct_size'', sz mod 4294967296), (''abi_version'', 1), (''connect_timeout_ms'', 10000), (''request_timeout_ms'', 30000),
      (''idle_timeout_ms'', 30000), (''max_redirects'', 10), (''max_connections_per_origin'', 1), (''enable_0rtt'', 1),
      (''verify_cert'', 1), (''dns_timeout_ms'', 10000), (''handshake_timeout_ms'', 10000),
      (''response_headers_timeout_ms'', 30000), (''read_timeout_ms'', 30000), (''write_timeout_ms'', 30000),
      (''call_timeout_ms'', 30000), (''consumer_stall_timeout_ms'', 30000), (''max_connection_workers'', 32),
      (''http_cache_max_entries'', 128), (''http_cache_max_bytes'', 32 * 1024 * 1024),
      (''http_cache_max_entry_bytes'', 4 * 1024 * 1024)]"

definition default_options :: "nat \<Rightarrow> bytes" where
  "default_options sz = fold put_field (default_values sz) (replicate options_size 0)"

subsection \<open>The C functions\<close>

definition init_options_storage :: "bytes option \<Rightarrow> nat \<Rightarrow> bytes option" where
  "init_options_storage storage requested =
     (case storage of
        None \<Rightarrow> None
      | Some mem \<Rightarrow> let sz = min requested options_size in Some (copy_bytes sz (default_options sz) mem))"

definition client_options_init :: "bytes option \<Rightarrow> bytes option" where
  "client_options_init storage = init_options_storage storage legacy_size"

definition client_options_init_size :: "bytes option \<Rightarrow> nat \<Rightarrow> bytes option" where
  "client_options_init_size storage sz = init_options_storage storage sz"

text \<open>What the engine gets of the caller's options, or \<open>None\<close> where the call is refused.\<close>

definition normalized_options :: "bytes option \<Rightarrow> bytes option" where
  "normalized_options options =
     (case options of
        None \<Rightarrow> None
      | Some mem \<Rightarrow>
          if get_field ''struct_size'' mem < required_size then None
          else if get_field ''abi_version'' mem \<noteq> 1 then None
          else Some (copy_bytes (min (get_field ''struct_size'' mem) options_size) mem (default_options options_size)))"

text \<open>The options record of the engine, read from memory; \<open>text_at\<close> is what a pointer points to.\<close>

definition options_of :: "(nat \<Rightarrow> string) \<Rightarrow> bytes \<Rightarrow> client_options" where
  "options_of text_at mem =
     (let g = (\<lambda>name. get_field name mem)
      in \<lparr>op_struct_size = g ''struct_size'', op_abi_version = g ''abi_version'',
          op_timeouts = \<lparr>tm_connect = g ''connect_timeout_ms'', tm_request = g ''request_timeout_ms'',
            tm_idle = g ''idle_timeout_ms'', tm_dns = g ''dns_timeout_ms'', tm_handshake = g ''handshake_timeout_ms'',
            tm_response_headers = g ''response_headers_timeout_ms'', tm_read = g ''read_timeout_ms'',
            tm_write = g ''write_timeout_ms'', tm_call = g ''call_timeout_ms'',
            tm_consumer_stall = g ''consumer_stall_timeout_ms''\<rparr>,
          op_max_redirects = g ''max_redirects'', op_max_connections_per_origin = g ''max_connections_per_origin'',
          op_enable_0rtt = (g ''enable_0rtt'' \<noteq> 0), op_verify_cert = (g ''verify_cert'' \<noteq> 0),
          op_insecure_cert = (g ''insecure_cert'' \<noteq> 0), op_trust_mode = g ''trust_mode'',
          op_enable_cookies = (g ''enable_cookies'' \<noteq> 0), op_enable_qlog = (g ''enable_qlog'' \<noteq> 0),
          op_qlog_path_prefix = (if g ''qlog_path_prefix'' = 0 then None else Some (text_at (g ''qlog_path_prefix''))),
          op_qlog_sink = (g ''qlog_sink_cb'' \<noteq> 0), op_max_connection_workers = g ''max_connection_workers'',
          op_network_change_policy = g ''network_change_policy'', op_enable_http_cache = (g ''enable_http_cache'' \<noteq> 0),
          op_cache_max_entries = g ''http_cache_max_entries'', op_cache_max_bytes = g ''http_cache_max_bytes'',
          op_cache_max_entry_bytes = g ''http_cache_max_entry_bytes''\<rparr>)"

text \<open>\<^verbatim>\<open>kathttp3_client_create\<close>: the engine's configuration, or \<open>None\<close> for a null client.  The engine's
  constructor throws where the qlog options are inconsistent or its TLS context cannot be set up.\<close>

definition client_create :: "(nat \<Rightarrow> string) \<Rightarrow> nat \<Rightarrow> (client_options \<Rightarrow> bool) \<Rightarrow> bytes option \<Rightarrow> engine_config option" where
  "client_create text_at object_size tls_init options =
     (case normalized_options options of
        None \<Rightarrow> None
      | Some mem \<Rightarrow>
          (case engine_config_of object_size (options_of text_at mem) of
             None \<Rightarrow> None
           | Some c \<Rightarrow> if tls_init (options_of text_at mem) then Some c else None))"

text \<open>The other functions keep exceptions from crossing the ABI.\<close>

datatype 'a outcome = Returned 'a | Threw

definition client_consume_body :: "bool \<Rightarrow> kat_error outcome \<Rightarrow> kat_error" where
  "client_consume_body has_client out =
     (if \<not> has_client then ERR_INVALID_ARG else case out of Returned e \<Rightarrow> e | Threw \<Rightarrow> ERR_CLOSED)"

definition client_request_body_append :: "bool \<Rightarrow> bytes option \<Rightarrow> nat \<Rightarrow> kat_error outcome \<Rightarrow> kat_error" where
  "client_request_body_append has_client data len out =
     (if \<not> has_client \<or> data = None \<and> len \<noteq> 0 then ERR_INVALID_ARG
      else case out of Returned e \<Rightarrow> e | Threw \<Rightarrow> ERR_NOMEM)"

text \<open>\<^verbatim>\<open>kathttp3_client_execute\<close>: the events it makes itself and how often the request is deleted.  \<open>out\<close> tells whether
  the engine threw, and then whether its job owned the request already.\<close>

definition client_execute :: "bool \<Rightarrow> bool \<Rightarrow> bool \<Rightarrow> int \<Rightarrow> (unit + bool) \<Rightarrow> event list \<times> nat" where
  "client_execute has_client has_request cb i out =
     (if \<not> has_client \<or> \<not> has_request then ([], if has_request then 1 else 0)
      else case out of
             Inl _ \<Rightarrow> ([], 0)
           | Inr job_owns \<Rightarrow>
               (if cb then [\<lparr>ev_request_id = i, ev_kind = Ev_error ERR_NOMEM\<rparr>] else [], if job_owns then 2 else 1))"

text \<open>An exception after the job was made deletes the request twice.\<close>

lemma exception_deletes_twice: "snd (client_execute True True cb i (Inr True)) = 2"
  by (simp add: client_execute_def)

subsection \<open>Fields\<close>

lemma option_layout_table [code]: "option_layout =
  [(''struct_size'', 0, 4), (''abi_version'', 4, 4),
  (''connect_timeout_ms'', 8, 8), (''request_timeout_ms'', 16, 8),
  (''idle_timeout_ms'', 24, 8), (''max_redirects'', 32, 4),
  (''max_connections_per_origin'', 36, 4), (''enable_0rtt'', 40, 1),
  (''ca_cert_file'', 48, 8), (''verify_cert'', 56, 1),
  (''insecure_cert'', 57, 1), (''trust_mode'', 60, 4),
  (''keylog_file'', 64, 8), (''quic_version'', 72, 4),
  (''resolve_cb'', 80, 8), (''resolve_cb_userdata'', 88, 8),
  (''dns_timeout_ms'', 96, 8), (''handshake_timeout_ms'', 104, 8),
  (''response_headers_timeout_ms'', 112, 8), (''read_timeout_ms'', 120, 8),
  (''write_timeout_ms'', 128, 8), (''call_timeout_ms'', 136, 8),
  (''enable_cookies'', 144, 1), (''qlog_path_prefix'', 152, 8),
  (''consumer_stall_timeout_ms'', 160, 8), (''enable_qlog'', 168, 1),
  (''qlog_sink_cb'', 176, 8), (''qlog_sink_userdata'', 184, 8),
  (''max_connection_workers'', 192, 4), (''network_change_policy'', 196, 4),
  (''enable_http_cache'', 200, 1), (''http_cache_max_entries'', 204, 4),
  (''http_cache_max_bytes'', 208, 8),
  (''http_cache_max_entry_bytes'', 216, 8)]"
  by code_simp

lemma layout_facts: "\<forall>(name, off, k) \<in> set option_layout. offset_of name = off \<and> size_of name = k \<and> off + k \<le> 224 \<and> (name \<noteq> ''struct_size'' \<longrightarrow> 4 \<le> off)"
  by code_simp

lemma option_sizes: "options_size = 224" "legacy_size = 200" "required_size = 96" "offset_of ''struct_size'' = 0" "size_of ''struct_size'' = 4"
  by code_simp+

lemma le_value_le_bytes: "v < 256 ^ n \<Longrightarrow> le_value (le_bytes n v) = v"
proof (induction n arbitrary: v)
  case (Suc n)
  then have "v div 256 < 256 ^ n" by (simp add: less_mult_imp_div_less)
  then show ?case using Suc.IH by (simp add: unat_of_nat)
qed simp

lemma length_le_bytes [simp]: "length (le_bytes n v) = n"
  by (induction n arbitrary: v) simp_all

text \<open>A field within the copied bytes is the source's, a field beyond them the destination's.\<close>

lemma get_field_copy:
  assumes "n \<le> length src"
  shows "offset_of name + size_of name \<le> n \<Longrightarrow> get_field name (copy_bytes n src dst) = get_field name src"
    "n \<le> offset_of name \<Longrightarrow> get_field name (copy_bytes n src dst) = get_field name dst"
  using assms by (simp_all add: get_field_def copy_bytes_def take_drop min_def)

lemma put_field_behind:
  assumes "length a = 4" "4 \<le> offset_of name"
  shows "put_field (name, v) (a @ m) =
    a @ take (offset_of name - 4) m @ le_bytes (size_of name) v @ drop (offset_of name + size_of name - 4) m"
  using assms by (simp add: put_field_def)

lemma put_fields_behind:
  assumes "\<forall>fv\<in>set fvs. 4 \<le> offset_of (fst fv)"
  obtains m' where "\<And>a. length a = 4 \<Longrightarrow> fold put_field fvs (a @ m) = a @ m'"
  using assms
proof (induction fvs arbitrary: m thesis)
  case (Cons fv fvs)
  obtain name v where fv: "fv = (name, v)" by (cases fv)
  let ?m = "take (offset_of name - 4) m @ le_bytes (size_of name) v @ drop (offset_of name + size_of name - 4) m"
  obtain m' where "\<And>a. length a = 4 \<Longrightarrow> fold put_field fvs (a @ ?m) = a @ m'"
    using Cons.IH [of ?m] Cons.prems(2) by auto
  then show ?case using Cons.prems fv put_field_behind by simp
qed auto

lemma default_options_split:
  obtains m where "\<And>sz. default_options sz = le_bytes 4 (sz mod 4294967296) @ m"
proof -
  have behind: "\<forall>fv\<in>set (tl (default_values 0)). 4 \<le> offset_of (fst fv)" by code_simp
  obtain m where m: "\<And>a. length a = 4 \<Longrightarrow> fold put_field (tl (default_values 0)) (a @ replicate 220 0) = a @ m"
    using put_fields_behind [OF behind] by metis
  have "default_options sz = le_bytes 4 (sz mod 4294967296) @ m" for sz
  proof -
    have "default_values sz = (''struct_size'', sz mod 4294967296) # tl (default_values 0)" by (simp add: default_values_def)
    moreover have "put_field (''struct_size'', sz mod 4294967296) (replicate 224 0) = le_bytes 4 (sz mod 4294967296) @ replicate 220 0"
      by (simp add: put_field_def option_sizes)
    ultimately show ?thesis by (simp add: default_options_def option_sizes m)
  qed
  then show ?thesis using that by blast
qed

lemma default_fields:
  "get_field ''struct_size'' (default_options sz) = sz mod 4294967296"
  "4 \<le> offset_of name \<Longrightarrow> get_field name (default_options sz) = get_field name (default_options 0)"
proof -
  obtain m where m: "\<And>sz. default_options sz = le_bytes 4 (sz mod 4294967296) @ m"
    using default_options_split by blast
  show "get_field ''struct_size'' (default_options sz) = sz mod 4294967296"
    by (simp add: get_field_def option_sizes m le_value_le_bytes)
  show "4 \<le> offset_of name \<Longrightarrow> get_field name (default_options sz) = get_field name (default_options 0)"
    by (simp add: get_field_def m)
qed

lemma length_default_options: "length (default_options sz) = options_size"
proof -
  obtain m where m: "\<And>sz. default_options sz = le_bytes 4 (sz mod 4294967296) @ m"
    using default_options_split by blast
  have "length (default_options 0) = options_size" by code_simp
  then show ?thesis by (simp add: m)
qed

text \<open>The default structure, byte by byte.\<close>

lemma default_memory: "default_options 0 =
  [0, 0, 0, 0, 1, 0, 0, 0, 16, 39, 0, 0, 0, 0, 0, 0, 48, 117, 0, 0, 0, 0, 0, 0, 48, 117, 0, 0, 0, 0, 0, 0, 10,
   0, 0, 0, 1, 0, 0, 0, 1, 0, 0, 0, 0, 0, 0, 0, 0, 0, 0, 0, 0, 0, 0, 0, 1, 0, 0, 0, 0, 0, 0, 0, 0, 0, 0, 0, 0, 0,
   0, 0, 0, 0, 0, 0, 0, 0, 0, 0, 0, 0, 0, 0, 0, 0, 0, 0, 0, 0, 0, 0, 0, 0, 0, 0, 16, 39, 0, 0, 0, 0, 0, 0, 16,
   39, 0, 0, 0, 0, 0, 0, 48, 117, 0, 0, 0, 0, 0, 0, 48, 117, 0, 0, 0, 0, 0, 0, 48, 117, 0, 0, 0, 0, 0, 0, 48,
   117, 0, 0, 0, 0, 0, 0, 0, 0, 0, 0, 0, 0, 0, 0, 0, 0, 0, 0, 0, 0, 0, 0, 48, 117, 0, 0, 0, 0, 0, 0, 0, 0, 0, 0,
   0, 0, 0, 0, 0, 0, 0, 0, 0, 0, 0, 0, 0, 0, 0, 0, 0, 0, 0, 0, 32, 0, 0, 0, 0, 0, 0, 0, 0, 0, 0, 0, 128, 0, 0, 0,
   0, 0, 0, 2, 0, 0, 0, 0, 0, 0, 64, 0, 0, 0, 0, 0]"
  by code_simp

lemma zero_defaults: "options_of (\<lambda>_. []) (default_options 0) = fill_default_options 0"
  unfolding default_memory by code_simp

lemma abi_field: "offset_of ''abi_version'' = 4" "size_of ''abi_version'' = 4" "get_field ''abi_version'' (default_options 0) = 1"
  by (code_simp, code_simp, unfold default_memory, code_simp)

lemma options_of_defaults: "options_of t (default_options sz) = (fill_default_options sz)"
proof -
  have get: "get_field name (default_options sz) = get_field name (default_options 0)"
    if "(name, off, k) \<in> set option_layout" "name \<noteq> ''struct_size''" for name off k
    using default_fields(2) [of name sz] layout_facts that by fastforce
  have null: "get_field ''qlog_path_prefix'' (default_options 0) = 0"
    unfolding default_memory by code_simp
  have zero: "options_of t (default_options 0) = fill_default_options 0"
    using zero_defaults null by (simp add: options_of_def Let_def)
  have "options_of t (default_options sz) = (options_of t (default_options 0))\<lparr>op_struct_size := sz mod 4294967296\<rparr>"
    by (simp add: options_of_def Let_def default_fields(1) get [unfolded option_layout_table])
  then show ?thesis by (simp add: zero fill_default_options_def)
qed

text \<open>Property C29: initialising the options writes only the bytes the caller says it has.  Options initialised that way are
  accepted as soon as the caller knows the required fields, and give every default.  And for options a caller has
  filled in, whatever version of the header it was built against, the engine sees the caller's value of each field
  its structure holds and the default of each field that was appended later, with no byte read beyond the
  size the caller states.\<close>

theorem older_callers_get_defaults:
  assumes "client_options_init_size (Some mem) sz = Some m1" "sz \<le> length mem" "required_size \<le> sz"
    "s = get_field ''struct_size'' m2" "s \<le> length m2" "required_size \<le> s" "get_field ''abi_version'' m2 = 1"
    "(name, off, k) \<in> set option_layout"
  shows "length m1 = length mem \<and> drop sz m1 = drop sz mem \<and>
    (\<exists>n. normalized_options (Some m1) = Some n \<and> options_of t n = fill_default_options (min sz options_size)) \<and>
    (\<exists>n. normalized_options (Some m2) = Some n \<and> normalized_options (Some (take s m2)) = Some n \<and> length n = options_size \<and>
      (off + k \<le> s \<longrightarrow> get_field name n = get_field name m2) \<and>
      (s \<le> off \<longrightarrow> get_field name n = get_field name (default_options options_size)))"
proof -
  let ?z = "min sz options_size" and ?d = "default_options options_size"
  have m1: "m1 = copy_bytes ?z (default_options ?z) mem"
    using assms(1) by (simp add: client_options_init_size_def init_options_storage_def Let_def)
  have facts: "offset_of name = off" "size_of name = k" using layout_facts assms(8) by auto
  have abi: "offset_of ''abi_version'' = 4" "size_of ''abi_version'' = 4" "get_field ''abi_version'' (default_options 0) = 1"
    using abi_field by simp_all
  have z: "required_size \<le> ?z" "?z mod 4294967296 = ?z" using assms(3) by (simp_all add: option_sizes)
  have "get_field ''struct_size'' m1 = ?z" "get_field ''abi_version'' m1 = 1"
    using z by (simp_all add: m1 get_field_copy length_default_options option_sizes abi default_fields)
  then have norm1: "normalized_options (Some m1) = Some (copy_bytes ?z m1 ?d)"
    using z(1) by (simp add: normalized_options_def not_less del: min.bounded_iff)
  obtain m where m: "\<And>x. default_options x = le_bytes 4 (x mod 4294967296) @ m"
    using default_options_split by blast
  have "copy_bytes ?z m1 ?d = default_options ?z"
    using z assms(2) length_default_options [of 0]
    by (simp add: m1 copy_bytes_def m option_sizes append_take_drop_id take_drop)
  then have one: "normalized_options (Some m1) = Some (default_options ?z)" using norm1 by simp
  have same: "get_field x (take s m2) = get_field x m2" if "offset_of x + size_of x \<le> s" for x
    using that by (simp add: get_field_def take_drop min_def)
  have norm2: "normalized_options (Some m2) = Some (copy_bytes (min s options_size) m2 ?d)"
    using assms(4,6,7) by (simp add: normalized_options_def)
  have norm3: "normalized_options (Some (take s m2)) = Some (copy_bytes (min s options_size) m2 ?d)"
    using assms(4,6,7) same [of "''struct_size''"] same [of "''abi_version''"]
    by (simp add: normalized_options_def option_sizes abi copy_bytes_def)
  have k: "off + k \<le> options_size" using layout_facts assms(8) by (auto simp: option_sizes)
  have "length (copy_bytes (min s options_size) m2 ?d) = options_size"
    using assms(5) by (simp add: copy_bytes_def length_default_options)
  moreover have "off + k \<le> s \<longrightarrow> get_field name (copy_bytes (min s options_size) m2 ?d) = get_field name m2"
    using get_field_copy(1) [of "min s options_size" m2 name ?d] assms(5) facts k by simp
  moreover have "s \<le> off \<longrightarrow> get_field name (copy_bytes (min s options_size) m2 ?d) = get_field name ?d"
    using get_field_copy(2) [of "min s options_size" m2 name ?d] assms(5) facts by simp
  moreover have "length m1 = length mem" "drop sz m1 = drop sz mem"
    using assms(2) by (simp_all add: m1 copy_bytes_def length_default_options min_def)
  ultimately show ?thesis using one norm2 norm3 by (auto simp: options_of_defaults)
qed

text \<open>A caller of a version whose structure ended before the cache fields.\<close>

definition older_options :: bytes where
  "older_options = copy_bytes 200 (default_options 200) (replicate 208 7)"

theorem older_callers_get_defaults_witness:
  "normalized_options (Some older_options) \<noteq> None \<and>
   get_field ''connect_timeout_ms'' (the (normalized_options (Some older_options))) = get_field ''connect_timeout_ms'' older_options"
proof -
  have init: "client_options_init_size (Some (replicate 208 7)) 200 = Some older_options"
    by (simp add: client_options_init_size_def init_options_storage_def older_options_def option_sizes Let_def)
  have s: "200 = get_field ''struct_size'' older_options" "get_field ''abi_version'' older_options = 1"
    by (simp_all add: older_options_def get_field_copy length_default_options option_sizes abi_field default_fields)
  have field: "(''connect_timeout_ms'', 8, 8) \<in> set option_layout" by (simp add: option_layout_table)
  have len: "length older_options = 208"
    by (simp add: older_options_def copy_bytes_def length_default_options option_sizes)
  show ?thesis
    using older_callers_get_defaults [OF init _ _ s(1) _ _ s(2) field, of "\<lambda>_. []"] len
    by (auto simp: option_sizes)
qed

end
