(* ===== verification/Jni_Bridge.thy ===== *)
theory Jni_Bridge
  imports Jni_Handles Request Dns_Cache Client_Abi
begin

text \<open>
  The calls between Java and the native library (\<^verbatim>\<open>src/jni/kathttp3_jni.cc\<close>): the class cache, the adapter
  that asks a Java resolver, and the native methods \<^verbatim>\<open>createClient\<close>, \<^verbatim>\<open>execute\<close>, \<^verbatim>\<open>consume\<close>,
  \<^verbatim>\<open>appendRequestBody\<close>, \<^verbatim>\<open>cancel\<close>, \<^verbatim>\<open>closeClient\<close> and \<^verbatim>\<open>networkChanged\<close>.  The JVM is a parameter: it decides
  which of its calls fail and what the Java objects answer.  Every reference, string or object that
  has to be given back is a \<open>jni_resource\<close>, and the native methods record taking it and giving it back.
\<close>

subsection \<open>The Java resolver\<close>

text \<open>One element of the list a resolver returns: what \<^verbatim>\<open>getIp\<close> and \<^verbatim>\<open>getPort\<close> answer (\<open>None\<close> is a null string)
  and whether the characters of the string can be had.\<close>

record java_address =
  ja_ip :: "string option outcome"
  ja_port :: "int outcome"
  ja_chars :: bool

text \<open>The list itself: \<^verbatim>\<open>size\<close> and \<^verbatim>\<open>get\<close>, whose answer may be null.\<close>

record java_list =
  jl_size :: "int outcome"
  jl_get :: "nat \<Rightarrow> java_address option outcome"

text \<open>\<^verbatim>\<open>strncpy\<close> into the 64 characters of \<^verbatim>\<open>out[written].ip\<close>, with the last one set to NUL.\<close>

definition copied_ip :: "string \<Rightarrow> string" where
  "copied_ip ip = take 63 (c_str ip @ replicate 63 (CHR 0x00)) @ [CHR 0x00]"

definition address_family :: "(int \<Rightarrow> string \<Rightarrow> bool) \<Rightarrow> string option \<Rightarrow> int" where
  "address_family pton ip =
     (case ip of
        None \<Rightarrow> 0
      | Some s \<Rightarrow> if pton af_inet s then af_inet else if pton af_inet6 s then af_inet6 else 0)"

text \<open>One turn of the loop: \<open>None\<close> is \<^verbatim>\<open>failed\<close>, otherwise the address it writes, if any.\<close>

definition read_address :: "(int \<Rightarrow> string \<Rightarrow> bool) \<Rightarrow> java_address option outcome \<Rightarrow> resolved_address option option" where
  "read_address pton elem =
     (case elem of
        Threw \<Rightarrow> None
      | Returned None \<Rightarrow> Some None
      | Returned (Some a) \<Rightarrow>
          (case (ja_ip a, ja_port a) of
             (Returned ip, Returned aport) \<Rightarrow>
               if ip \<noteq> None \<and> \<not> ja_chars a then None
               else
                 let family = address_family pton ip in
                 if family \<noteq> 0 \<and> aport > 0 \<and> aport \<le> int u16_max
                 then Some (Some \<lparr>ra_ip = copied_ip (the ip), ra_port = nat aport, ra_family = family\<rparr>)
                 else Some None
           | _ \<Rightarrow> None))"

fun resolve_loop :: "(int \<Rightarrow> string \<Rightarrow> bool) \<Rightarrow> nat \<Rightarrow> java_address option outcome list \<Rightarrow>
    resolved_address list \<Rightarrow> bool \<times> resolved_address list" where
  "resolve_loop pton cap [] out = (False, out)"
| "resolve_loop pton cap (elem # rest) out =
     (if \<not> length out < cap then (False, out)
      else case read_address pton elem of
             None \<Rightarrow> (True, out)
           | Some None \<Rightarrow> resolve_loop pton cap rest out
           | Some (Some a) \<Rightarrow> resolve_loop pton cap rest (out @ [a]))"

text \<open>\<open>attached\<close> is \<^verbatim>\<open>g_thread_env.get()\<close>, \<open>new_string\<close> whether \<^verbatim>\<open>NewStringUTF\<close> succeeds, and \<open>resolver\<close> what
  the Java resolver answers, \<open>Returned None\<close> being null.  The result is the return code, \<^verbatim>\<open>*out_count\<close>
  and the addresses written.\<close>

definition jni_resolve_cb ::
  "(int \<Rightarrow> string \<Rightarrow> bool) \<Rightarrow> bool \<Rightarrow> bool \<Rightarrow> (string \<Rightarrow> int \<Rightarrow> java_list option outcome) \<Rightarrow> nat \<Rightarrow>
     string \<Rightarrow> nat \<Rightarrow> int \<times> nat \<times> resolved_address list" where
  "jni_resolve_cb pton attached new_string resolver cap host port =
     (if \<not> attached then (-1, cap, [])
      else if \<not> new_string then (-1, cap, [])
      else case resolver host (int port) of
             Threw \<Rightarrow> (-1, cap, [])
           | Returned None \<Rightarrow> (-1, cap, [])
           | Returned (Some lst) \<Rightarrow>
               (case jl_size lst of
                  Threw \<Rightarrow> (-1, cap, [])
                | Returned n \<Rightarrow>
                    if n < 0 then (-1, cap, [])
                    else
                      let (failed, out) = resolve_loop pton cap (map (jl_get lst) [0..<nat n]) []
                      in (if failed then -1 else 0, if failed then 0 else length out, out)))"

text \<open>The resolver the engine installs for it asks with a buffer of 64 addresses.\<close>

definition java_resolver_addresses ::
  "(int \<Rightarrow> string \<Rightarrow> bool) \<Rightarrow> bool \<Rightarrow> bool \<Rightarrow> (string \<Rightarrow> int \<Rightarrow> java_list option outcome) \<Rightarrow> string \<Rightarrow> nat \<Rightarrow> endpoint list" where
  "java_resolver_addresses pton attached new_string resolver host port =
     resolve_with_c_callback pton
       (Some (\<lambda>h p. jni_resolve_cb pton attached new_string resolver callback_buffer_size h p)) host port"

text \<open>What a caller may expect of one element: its address where it names one, with a port of 1 to 65535.\<close>

definition named_endpoint :: "(int \<Rightarrow> string \<Rightarrow> bool) \<Rightarrow> java_address option outcome \<Rightarrow> endpoint option" where
  "named_endpoint pton elem =
     (case elem of
        Returned (Some a) \<Rightarrow>
          (case (ja_ip a, ja_port a) of
             (Returned (Some ip), Returned p) \<Rightarrow>
               if 0 < p \<and> p \<le> 65535 \<and> (pton af_inet ip \<or> pton af_inet6 ip)
               then Some (mk_endpoint ip (nat p) (if pton af_inet ip then af_inet else af_inet6))
               else None
           | _ \<Rightarrow> None)
      | _ \<Rightarrow> None)"

text \<open>\<^verbatim>\<open>inet_pton\<close> accepts only texts without NUL of at most \<^verbatim>\<open>INET6_ADDRSTRLEN - 1\<close> characters.\<close>

definition pton_texts :: "(int \<Rightarrow> string \<Rightarrow> bool) \<Rightarrow> bool" where
  "pton_texts pton \<longleftrightarrow> (\<forall>f s. pton f s \<longrightarrow> length s \<le> 45 \<and> CHR 0x00 \<notin> set s)"


lemma copied_ip_short:
  assumes "length ip \<le> 45" "CHR 0x00 \<notin> set ip"
  shows "find_char (CHR 0x00) (copied_ip ip) = Some (length ip) \<and> take (length ip) (copied_ip ip) = ip \<and>
    c_str (copied_ip ip) = ip"
proof -
  let ?pad = "replicate (63 - length ip) (CHR 0x00) @ [CHR 0x00]"
  have eq: "copied_ip ip = ip @ CHR 0x00 # replicate (63 - length ip) (CHR 0x00)"
    using assms by (simp add: copied_ip_def c_str_id replicate_append_same min_def)
  have "find_if (\<lambda>d. d = CHR 0x00) (ip @ CHR 0x00 # t) = Some (length ip)" for t
    using assms(2) by (induction ip) auto
  moreover have "c_str (ip @ CHR 0x00 # t) = ip" for t
    using assms(2) by (induction ip) (auto simp: c_str_def)
  ultimately show ?thesis by (simp add: eq find_char_def)
qed

lemma read_address_named:
  assumes "pton_texts pton" "read_address pton elem = Some r"
  shows "named_endpoint pton elem = (case r of None \<Rightarrow> None | Some a \<Rightarrow> callback_endpoint pton a)"
    and "r = Some a \<Longrightarrow> named_endpoint pton elem \<noteq> None"
proof -
  have short: "pton f s \<Longrightarrow> length s \<le> 45 \<and> CHR 0x00 \<notin> set s" for f s
    using assms(1) by (auto simp: pton_texts_def)
  show "named_endpoint pton elem = (case r of None \<Rightarrow> None | Some a \<Rightarrow> callback_endpoint pton a)"
    using assms(2) short
    by (auto simp: read_address_def named_endpoint_def callback_endpoint_def address_family_def Let_def u16_max_def
        af_inet_def af_inet6_def copied_ip_short split: outcome.splits option.splits if_splits)
  then show "r = Some a \<Longrightarrow> named_endpoint pton elem \<noteq> None"
    using assms(2) short
    by (auto simp: read_address_def callback_endpoint_def address_family_def Let_def u16_max_def
        af_inet_def af_inet6_def copied_ip_short split: outcome.splits option.splits if_splits)
qed

lemma resolve_loop_exact:
  assumes "pton_texts pton" "resolve_loop pton cap es out = (False, res)" "length out \<le> cap"
  shows "length res \<le> cap \<and> List.map_filter (callback_endpoint pton) res =
    List.map_filter (callback_endpoint pton) out @ take (cap - length out) (List.map_filter (named_endpoint pton) es)"
  using assms(2,3)
proof (induction es arbitrary: out)
  case (Cons e es)
  show ?case
  proof (cases "length out < cap")
    case room: True
    then obtain r where r: "read_address pton e = Some r" using Cons.prems by (auto split: option.splits)
    note named = read_address_named [OF assms(1) r]
    show ?thesis
    proof (cases r)
      case None
      then show ?thesis using Cons room r named(1) by (simp add: map_filter_simps)
    next
      case (Some a)
      then obtain q where "callback_endpoint pton a = Some q" "named_endpoint pton e = Some q"
        using named by fastforce
      then show ?thesis
        using Cons.IH [of "out @ [a]"] Cons.prems room r Some
        by (simp add: map_filter_simps map_filter_def take_Cons' Suc_diff_Suc flip: Suc_diff_Suc)
    qed
  qed (use Cons.prems in simp)
qed (simp add: map_filter_simps)

text \<open>The element makes the adapter give up: a Java call on it throws, or its text cannot be had.\<close>

definition java_raises :: "java_address option outcome \<Rightarrow> bool" where
  "java_raises elem =
     (case elem of
        Threw \<Rightarrow> True
      | Returned None \<Rightarrow> False
      | Returned (Some a) \<Rightarrow>
          (case (ja_ip a, ja_port a) of
             (Returned ip, Returned p) \<Rightarrow> ip \<noteq> None \<and> \<not> ja_chars a
           | _ \<Rightarrow> True))"

lemma read_address_raises: "read_address pton elem = None \<longleftrightarrow> java_raises elem"
  by (auto simp: read_address_def java_raises_def Let_def split: outcome.splits option.splits)

lemma resolve_loop_fails:
  assumes "pton_texts pton"
  shows "fst (resolve_loop pton cap es out) \<longleftrightarrow>
    (\<exists>k<length es. java_raises (es ! k) \<and>
       length out + length (List.map_filter (named_endpoint pton) (take k es)) < cap)"
proof (induction es arbitrary: out)
  case (Cons e es)
  show ?case
  proof (cases "length out < cap")
    case room: True
    show ?thesis
    proof (cases "read_address pton e")
      case None
      then have "java_raises e" by (simp add: read_address_raises)
      then show ?thesis using None room by (auto intro: exI [of _ 0] simp: map_filter_simps)
    next
      case (Some r)
      then have "\<not> java_raises e" by (metis read_address_raises option.distinct(1))
      then show ?thesis
        using Some room read_address_named [OF assms Some] Cons.IH
        by (cases r) (auto simp: map_filter_simps Ex_less_Suc2)
    qed
  qed auto
qed simp

text \<open>Property C36: a client with a Java resolver gets exactly the addresses the resolver's list names, in order
  and at most 64 of them: elements that are null, name no IP address or have a port outside 1 to
  65535 are passed over, and nothing at all is taken from a list one of whose elements raises
  before 64 addresses were found, or on a thread without a JVM.\<close>

theorem java_resolver_exact:
  assumes "pton_texts pton" "resolver (c_str host) (int port) = Returned (Some lst)" "jl_size lst = Returned n"
    "es = map (jl_get lst) [0..<nat n]" "wanted = List.map_filter (named_endpoint pton)"
  shows "java_resolver_addresses pton attached new_string resolver host port =
    (if attached \<and> new_string \<and> (\<forall>k<length es. java_raises (es ! k) \<longrightarrow> 64 \<le> length (wanted (take k es)))
     then take 64 (wanted es) else [])"
proof -
  obtain failed out where l: "resolve_loop pton 64 es [] = (failed, out)" by fastforce
  have f: "failed \<longleftrightarrow> (\<exists>k<length es. java_raises (es ! k) \<and> length (wanted (take k es)) < 64)"
    using resolve_loop_fails [OF assms(1), of 64 es "[]"] by (simp add: l assms(5))
  have ok: "\<not> failed \<Longrightarrow> length out \<le> 64 \<and> List.map_filter (callback_endpoint pton) out = take 64 (wanted es)"
    using resolve_loop_exact [OF assms(1), of 64 es "[]" out] l by (simp add: map_filter_simps assms(5))
  have neg: "es = []" if "n < 0" using that by (simp add: assms(4))
  have "java_resolver_addresses pton attached new_string resolver host port =
    (if attached \<and> new_string \<and> \<not> failed then List.map_filter (callback_endpoint pton) out else [])"
    using l ok neg
    by (simp add: java_resolver_addresses_def resolve_with_c_callback_def jni_resolve_cb_def callback_buffer_size_def
        assms(2,3) not_less map_filter_simps flip: assms(4)) auto
  also have "\<not> failed \<longleftrightarrow> (\<forall>k<length es. java_raises (es ! k) \<longrightarrow> 64 \<le> length (wanted (take k es)))"
    using f by (auto simp: not_less)
  finally show ?thesis using ok f by (auto simp: not_less)
qed

text \<open>A resolver that answers a null element, a port out of range, and an address.\<close>

definition example_pton :: "int \<Rightarrow> string \<Rightarrow> bool" where
  "example_pton f s \<longleftrightarrow> f = 2 \<and> s = ''10.0.0.1''"

definition example_java_list :: java_list where
  "example_java_list = \<lparr>jl_size = Returned 3, jl_get =
     (\<lambda>i. if i = 0 then Returned None
          else Returned (Some \<lparr>ja_ip = Returned (Some ''10.0.0.1''),
                               ja_port = Returned (if i = 1 then 70000 else 443), ja_chars = True\<rparr>))\<rparr>"

theorem java_resolver_exact_witness:
  "java_resolver_addresses example_pton True True (\<lambda>h p. Returned (Some example_java_list)) ''a'' 443 =
     [mk_endpoint ''10.0.0.1'' 443 2]"
proof -
  have "pton_texts example_pton" by (simp add: pton_texts_def example_pton_def)
  then have "java_resolver_addresses example_pton True True (\<lambda>h p. Returned (Some example_java_list)) ''a'' 443 =
    (let es = map (jl_get example_java_list) [0..<nat 3]; wanted = List.map_filter (named_endpoint example_pton)
     in if True \<and> True \<and> (\<forall>k<length es. java_raises (es ! k) \<longrightarrow> 64 \<le> length (wanted (take k es)))
        then take 64 (wanted es) else [])"
    unfolding Let_def by (rule java_resolver_exact [OF _ refl _ refl refl]) (simp add: example_java_list_def)
  also have "\<dots> = [mk_endpoint ''10.0.0.1'' 443 2]" by code_simp
  finally show ?thesis .
qed

subsection \<open>What a native method takes and gives back\<close>

text \<open>Leases, the characters of strings, elements of arrays (with their index), native objects and global
  references.  \<open>ok q\<close> says whether the JVM or the allocator hands out \<open>q\<close> when asked.\<close>

datatype jni_resource =
    R_lease | R_method | R_url | R_request | R_name nat | R_value nat | R_name_chars nat | R_value_chars nat
  | R_body | R_state | R_callback | R_ca_file | R_qlog_path | R_sink | R_resolver_ctx | R_resolver | R_client | R_entry
  | R_local_class nat | R_class nat

datatype jni_effect = Take jni_resource | Give jni_resource | Execute nat int request

definition net :: "jni_effect list \<Rightarrow> jni_resource \<Rightarrow> int" where
  "net es q = int (count_list es (Take q)) - int (count_list es (Give q))"

definition executed :: "jni_effect list \<Rightarrow> (nat \<times> int \<times> request) list" where
  "executed es = List.map_filter (\<lambda>e. case e of Execute c i r \<Rightarrow> Some (c, i, r) | _ \<Rightarrow> None) es"

lemma balance_simps [simp]:
  "net [] q = 0" "net (Take p # es) q = (if p = q then 1 else 0) + net es q"
  "net (Give p # es) q = net es q - (if p = q then 1 else 0)" "net (Execute c i r # es) q = net es q"
  "net (es @ fs) q = net es q + net fs q"
  by (simp_all add: net_def)

lemma executed_simps [simp]:
  "executed [] = []" "executed (Take p # es) = executed es" "executed (Give p # es) = executed es"
  "executed (Execute c i r # es) = (c, i, r) # executed es" "executed (es @ fs) = executed es @ executed fs"
  by (simp_all add: executed_def map_filter_def)

lemma net_lists [simp]:
  "net (map Take qs) q = int (count_list qs q)" "net (map Give qs) q = - int (count_list qs q)"
  "executed (map Take qs) = []" "executed (map Give qs) = []"
  by (induction qs) auto

subsection \<open>Executing a request\<close>

record java_request =
  jq_method :: "string option"
  jq_url :: "string option"
  jq_names :: "string option list option"
  jq_values :: "string option list option"
  jq_body :: "bytes option"
  jq_redirects :: bool
  jq_streaming :: bool
  jq_streaming_body :: bool
  jq_content_length :: int
  jq_callback :: bool

text \<open>The loop over the headers; \<open>None\<close> is \<^verbatim>\<open>return JNI_FALSE\<close>.\<close>

fun java_header_loop :: "(jni_resource \<Rightarrow> bool) \<Rightarrow> nat \<Rightarrow> (string option \<times> string option) list \<Rightarrow> request \<Rightarrow>
    jni_effect list \<times> request option" where
  "java_header_loop ok i [] r = ([], Some r)"
| "java_header_loop ok i ((nm, vl) # rest) r =
     (let n = (if ok (R_name i) then nm else None);
          v = (if ok (R_value i) then vl else None);
          refs = (if n \<noteq> None then [R_name i] else []) @ (if v \<noteq> None then [R_value i] else [])
      in if n = None \<or> v = None then (map Take refs @ map Give refs @ [Give R_request], None)
         else
           let (es, rc, r1) =
                 (if \<not> ok (R_name_chars i) then ([], ERR_NOMEM, r)
                  else if \<not> ok (R_value_chars i)
                  then ([Take (R_name_chars i), Give (R_name_chars i)], ERR_NOMEM, r)
                  else let (rc, r1) = add_header r n v
                       in ([Take (R_name_chars i), Take (R_value_chars i), Give (R_value_chars i),
                            Give (R_name_chars i)], rc, r1))
           in if rc \<noteq> KAT_OK then (map Take refs @ es @ map Give refs @ [Give R_request], None)
              else let (fs, out) = java_header_loop ok (Suc i) rest r1
                   in (map Take refs @ es @ map Give refs @ fs, out))"

definition add_java_headers :: "(jni_resource \<Rightarrow> bool) \<Rightarrow> java_request \<Rightarrow> request \<Rightarrow> jni_effect list \<times> request option" where
  "add_java_headers ok a r =
     (let count = (case jq_names a of None \<Rightarrow> 0 | Some ns \<Rightarrow> length ns)
      in case jq_values a of
           None \<Rightarrow> ([Give R_request], None)
         | Some vs \<Rightarrow>
             if length vs \<noteq> count then ([Give R_request], None)
             else java_header_loop ok 0 (zip (case jq_names a of None \<Rightarrow> [] | Some ns \<Rightarrow> ns) vs) r)"

definition set_java_body :: "(jni_resource \<Rightarrow> bool) \<Rightarrow> java_request \<Rightarrow> request \<Rightarrow> jni_effect list \<times> request option" where
  "set_java_body ok a r =
     (case jq_body a of
        None \<Rightarrow> ([], Some r)
      | Some body \<Rightarrow>
          if length body \<noteq> 0 \<and> \<not> ok R_body then ([Give R_request], None)
          else
            let es = (if length body = 0 then [] else [Take R_body, Give R_body]);
                (rc, r1) = set_body r (if length body = 0 then None else Some body) (length body)
            in if rc \<noteq> KAT_OK then (es @ [Give R_request], None) else (es, Some r1))"

definition set_java_flags :: "java_request \<Rightarrow> request \<Rightarrow> jni_effect list \<times> request option" where
  "set_java_flags a r =
     (let r1 = set_follow_redirects r (if jq_redirects a then 1 else 0);
          r2 = set_streaming r1 (if jq_streaming a then 1 else 0)
      in if jq_streaming_body a
         then let (rc, r3) = set_streaming_body r2 (jq_content_length a)
              in if rc \<noteq> KAT_OK then ([Give R_request], None) else ([], Some r3)
         else ([], Some r2))"

definition launch :: "(jni_resource \<Rightarrow> bool) \<Rightarrow> nat \<Rightarrow> int \<Rightarrow> request \<Rightarrow> bool \<times> jni_effect list" where
  "launch ok client i r =
     (if \<not> ok R_state then (False, [Give R_request])
      else if \<not> ok R_callback then (False, [Take R_state, Give R_state, Give R_request])
      else (True, [Take R_state, Take R_callback, Execute client i r]))"

definition then_request :: "jni_effect list \<times> request option \<Rightarrow> (request \<Rightarrow> jni_effect list \<times> 'a option) \<Rightarrow>
    jni_effect list \<times> 'a option" where
  "then_request p f = (case p of (es, None) \<Rightarrow> (es, None) | (es, Some r) \<Rightarrow> (let (fs, out) = f r in (es @ fs, out)))"

definition build_java_request :: "(jni_resource \<Rightarrow> bool) \<Rightarrow> java_request \<Rightarrow> request \<Rightarrow> jni_effect list \<times> request option" where
  "build_java_request ok a r =
     then_request (then_request (add_java_headers ok a r) (set_java_body ok a)) (set_java_flags a)"

definition jni_execute :: "(jni_resource \<Rightarrow> bool) \<Rightarrow> handle_table \<Rightarrow> nat \<Rightarrow> int \<Rightarrow> java_request \<Rightarrow> bool \<times> jni_effect list" where
  "jni_execute ok t h i a =
     (case fst (acquire_client h t) of
        None \<Rightarrow> (False, [])
      | Some e \<Rightarrow>
          if jq_method a = None \<or> jq_url a = None \<or> \<not> jq_callback a \<or> \<not> ok R_method
          then (False, [Take R_lease, Give R_lease])
          else if \<not> ok R_url then (False, [Take R_lease, Take R_method, Give R_method, Give R_lease])
          else
            let (accepted, es) =
                  (case request_create (jq_method a) (jq_url a) of
                     None \<Rightarrow> (False, [])
                   | Some r0 \<Rightarrow>
                       let (es, out) = build_java_request ok a r0
                       in case out of
                            None \<Rightarrow> (False, Take R_request # es)
                          | Some r \<Rightarrow>
                              let (accepted, fs) = launch ok (he_client (ht_entries t ! e)) i r
                              in (accepted, Take R_request # es @ fs))
            in (accepted, Take R_lease # Take R_method # Take R_url # es @ [Give R_url, Give R_method, Give R_lease]))"

text \<open>Every part of building the request gives back what it took, and the request itself where it fails.\<close>

definition gives_back :: "jni_effect list \<times> 'a option \<Rightarrow> bool" where
  "gives_back p \<longleftrightarrow> executed (fst p) = [] \<and>
     (\<forall>q. net (fst p) q = (if q = R_request \<and> snd p = None then -1 else 0))"

lemma gives_back_then:
  "gives_back p \<Longrightarrow> (\<And>r. snd p = Some r \<Longrightarrow> gives_back (f r)) \<Longrightarrow> gives_back (then_request p f)"
  by (auto simp: gives_back_def then_request_def split: prod.splits option.splits)

lemma java_header_loop_gives_back: "gives_back (java_header_loop ok i hs r)"
proof (induction ok i hs r rule: java_header_loop.induct)
  case (2 ok i nm vl rest r)
  show ?case
  proof (cases "ok (R_name i) \<and> ok (R_value i) \<and> nm \<noteq> None \<and> vl \<noteq> None \<and> ok (R_name_chars i) \<and> ok (R_value_chars i)")
    case True
    then show ?thesis
      using "2.IH" by (auto simp: gives_back_def Let_def split: prod.splits)
  qed (auto simp: gives_back_def Let_def)
qed (simp add: gives_back_def)

lemma build_gives_back: "gives_back (build_java_request ok a r)"
  unfolding build_java_request_def
  by (intro gives_back_then)
     (auto simp: add_java_headers_def set_java_body_def set_java_flags_def Let_def java_header_loop_gives_back
       gives_back_def [of "([Give R_request], None)"] gives_back_def [of "([], Some _)"]
       gives_back_def [of "([Take R_body, Give R_body], Some _)"] gives_back_def [of "([Take R_body, Give R_body, Give R_request], None)"]
       split: option.splits prod.splits)

text \<open>The request the caller described: \<open>as_given a r\<close>.\<close>

definition given_headers :: "java_request \<Rightarrow> header_list" where
  "given_headers a =
     map (\<lambda>(n, v). mk_header (lower_header_name (the n)) (c_str (the v)))
       (zip (case jq_names a of None \<Rightarrow> [] | Some ns \<Rightarrow> ns) (the (jq_values a)))"

definition as_given :: "java_request \<Rightarrow> request \<Rightarrow> bool" where
  "as_given a r \<longleftrightarrow>
     rq_method r = c_str (the (jq_method a)) \<and> rq_url r = c_str (the (jq_url a)) \<and> rq_headers r = given_headers a \<and>
     rq_body_present r = (jq_body a \<noteq> None \<or> jq_streaming_body a) \<and>
     rq_body r = (if jq_streaming_body a \<or> jq_body a = None then [] else the (jq_body a)) \<and>
     rq_streaming_body r = jq_streaming_body a \<and>
     rq_streaming_body_length r = (if jq_streaming_body a then jq_content_length a else -1) \<and>
     rq_follow_redirects r = jq_redirects a \<and> rq_streaming r = jq_streaming a \<and> rq_addresses r = []"

lemma add_header_accepts:
  "add_header r (Some n) (Some v) = (KAT_OK, r1) \<Longrightarrow>
     r1 = r\<lparr>rq_headers := rq_headers r @ [mk_header (lower_header_name n) (c_str v)]\<rparr>"
  by (auto simp: add_header_def Let_def hl_add_def split: if_splits)

lemma java_header_loop_headers:
  "snd (java_header_loop ok i hs r) = Some r' \<Longrightarrow>
     r' = r\<lparr>rq_headers := rq_headers r @ map (\<lambda>(n, v). mk_header (lower_header_name (the n)) (c_str (the v))) hs\<rparr>
     \<and> (request_ok r \<longrightarrow> request_ok r')"
proof (induction ok i hs r arbitrary: r' rule: java_header_loop.induct)
  case (2 ok i nm vl rest r)
  then have ok: "ok (R_name i)" "ok (R_value i)" "nm \<noteq> None" "vl \<noteq> None" "ok (R_name_chars i)" "ok (R_value_chars i)"
    by (auto simp: Let_def split: if_splits)
  then obtain n v where nv: "nm = Some n" "vl = Some v" by auto
  obtain rc r1 where h: "add_header r (Some n) (Some v) = (rc, r1)" by fastforce
  have rc: "rc = KAT_OK" and rest: "snd (java_header_loop ok (Suc i) rest r1) = Some r'"
    using "2.prems" ok nv h by (auto simp: Let_def split: if_splits prod.splits)
  have "request_ok r \<longrightarrow> request_ok r1" using add_header_ok [of r "Some n" "Some v"] h by simp
  then show ?case
    using "2.IH" [OF refl refl refl] rest ok nv h rc add_header_accepts [of r n v r1] by (auto simp: Let_def)
qed simp

lemma build_java_request_given:
  assumes "request_create (jq_method a) (jq_url a) = Some r0" "snd (build_java_request ok a r0) = Some r"
  shows "as_given a r \<and> request_ok r"
proof -
  let ?hs = "zip (case jq_names a of None \<Rightarrow> [] | Some ns \<Rightarrow> ns) (the (jq_values a))"
  obtain r1 r2 where steps: "snd (add_java_headers ok a r0) = Some r1" "snd (set_java_body ok a r1) = Some r2"
      "snd (set_java_flags a r2) = Some r"
    using assms(2) by (auto simp: build_java_request_def then_request_def split: prod.splits option.splits)
  have start: "r0 = new_request (c_str (the (jq_method a))) (c_str (the (jq_url a)))" "request_ok r0"
    using assms(1) request_create_ok by (auto simp: request_create_def split: option.splits if_splits)
  have "r1 = r0\<lparr>rq_headers := rq_headers r0 @ given_headers a\<rparr> \<and> request_ok r1"
    using steps(1) java_header_loop_headers [of ok 0 ?hs r0 r1] start(2)
    by (auto simp: add_java_headers_def given_headers_def split: option.splits if_splits)
  moreover have "request_ok r2" "request_ok r" if "request_ok r1"
  proof -
    show two: "request_ok r2"
      using steps(2) that builder_step_ok [OF that, of "Call_set_body x n" for x n]
      by (auto simp: set_java_body_def Let_def split: option.splits if_splits prod.splits) (metis snd_conv)+
    have three: "request_ok (set_streaming (set_follow_redirects r2 x) y)" for x y
      using builder_step_ok [OF builder_step_ok [OF two], of "Call_set_follow_redirects x" "Call_set_streaming y"] by simp
    show "request_ok r"
      using steps(3) three builder_step_ok [OF three, of x y "Call_set_streaming_body n" for x y n]
      by (auto simp: set_java_flags_def Let_def split: if_splits prod.splits) (metis snd_conv)+
  qed
  ultimately show ?thesis
    using steps(2,3) start(1)
    by (auto simp: as_given_def new_request_def set_java_body_def set_java_flags_def set_body_def set_streaming_body_def
        set_follow_redirects_def set_streaming_def Let_def split: option.splits if_splits prod.splits)
qed

text \<open>Property C35: whatever the JVM refuses and wherever \<^verbatim>\<open>execute\<close> returns, it gives back every string, array
  element, local reference and lease it took.  When it returns true, one request was handed to the leased
  client, with its callback state and global reference, while the lease was held: a well-formed request that
  carries the method, URL, headers in order, body and flags Java gave.  When it returns false nothing was
  handed over, and the request, the state and the reference are gone as well.\<close>

theorem execute_hands_over_or_gives_back:
  assumes "jni_execute ok t h i a = (accepted, es)"
  shows "(\<forall>q. net es q = (if accepted \<and> q \<in> {R_request, R_state, R_callback} then 1 else 0)) \<and>
    (if accepted
     then \<exists>e r. fst (acquire_client h t) = Some e \<and> executed es = [(he_client (ht_entries t ! e), i, r)] \<and>
            as_given a r \<and> request_ok r \<and> hd es = Take R_lease \<and> last es = Give R_lease
     else executed es = [])"
proof (cases "fst (acquire_client h t)")
  case (Some e)
  show ?thesis
  proof (cases "jq_method a = None \<or> jq_url a = None \<or> \<not> jq_callback a \<or> \<not> ok R_method \<or> \<not> ok R_url \<or>
      request_create (jq_method a) (jq_url a) = None")
    case False
    then obtain r0 where r0: "request_create (jq_method a) (jq_url a) = Some r0" by auto
    obtain fs out where b: "build_java_request ok a r0 = (fs, out)" by fastforce
    have bal: "executed fs = []" "\<And>q. net fs q = (if q = R_request \<and> out = None then -1 else 0)"
      using build_gives_back [of ok a r0] by (simp_all add: gives_back_def b)
    show ?thesis
    proof (cases out)
      case None
      then show ?thesis using assms Some False r0 b bal by (auto simp: jni_execute_def)
    next
      case r: (Some r)
      have "as_given a r \<and> request_ok r" using build_java_request_given [OF r0, of ok r] b r by simp
      then show ?thesis
        using assms Some False r0 b r bal by (auto simp: jni_execute_def launch_def split: if_splits)
    qed
  qed (use assms Some in \<open>auto simp: jni_execute_def split: if_splits\<close>)
qed (use assms in \<open>simp add: jni_execute_def\<close>)

text \<open>A request with one header and a body, on a client registered before.\<close>

definition example_table :: handle_table where
  "example_table = snd (register_client 7 None empty_table)"

definition example_java_request :: java_request where
  "example_java_request = \<lparr>jq_method = Some ''POST'', jq_url = Some ''https://a/'', jq_names = Some [Some ''X-A''],
     jq_values = Some [Some ''1''], jq_body = Some [1, 2], jq_redirects = True, jq_streaming = False,
     jq_streaming_body = False, jq_content_length = -1, jq_callback = True\<rparr>"

theorem execute_hands_over_or_gives_back_witness:
  "fst (jni_execute (\<lambda>q. True) example_table 1 5 example_java_request) \<and>
   net (snd (jni_execute (\<lambda>q. q \<noteq> R_callback) example_table 1 5 example_java_request)) R_request = 0"
proof -
  obtain accepted es where e: "jni_execute (\<lambda>q. q \<noteq> R_callback) example_table 1 5 example_java_request = (accepted, es)"
    by fastforce
  have "\<not> fst (jni_execute (\<lambda>q. q \<noteq> R_callback) example_table 1 5 example_java_request)" by code_simp
  then have "net es R_request = 0" using execute_hands_over_or_gives_back [OF e] e by simp
  moreover have "fst (jni_execute (\<lambda>q. True) example_table 1 5 example_java_request)" by code_simp
  ultimately show ?thesis using e by simp
qed

subsection \<open>Creating a client\<close>

record java_options =
  jo_connect :: int  jo_request :: int  jo_idle :: int  jo_dns :: int  jo_handshake :: int
  jo_response_headers :: int  jo_read :: int  jo_write :: int  jo_call :: int  jo_consumer_stall :: int
  jo_redirects :: int  jo_trust_mode :: int
  jo_insecure :: bool  jo_cookies :: bool  jo_0rtt :: bool  jo_qlog :: bool  jo_qlog_logcat :: bool
  jo_ca_file :: "string option"  jo_qlog_path :: "string option"
  jo_workers :: int  jo_network_policy :: int
  jo_http_cache :: bool  jo_cache_entries :: int  jo_cache_bytes :: int  jo_cache_entry_bytes :: int
  jo_resolver :: "nat option"

text \<open>\<^verbatim>\<open>static_cast\<close> of a \<^verbatim>\<open>jlong\<close> to \<^verbatim>\<open>uint64_t\<close> and of a \<^verbatim>\<open>jint\<close> to \<^verbatim>\<open>uint32_t\<close>.\<close>

definition u64_of :: "int \<Rightarrow> nat" where "u64_of x = nat (x mod 2 ^ 64)"
definition u32_of :: "int \<Rightarrow> nat" where "u32_of x = nat (x mod 2 ^ 32)"

definition native_options :: "java_options \<Rightarrow> bool \<Rightarrow> client_options" where
  "native_options o' sink =
     (fill_default_options options_size)
       \<lparr>op_timeouts := \<lparr>tm_connect = u64_of (jo_connect o'), tm_request = u64_of (jo_request o'), tm_idle = u64_of (jo_idle o'),
          tm_dns = u64_of (jo_dns o'), tm_handshake = u64_of (jo_handshake o'),
          tm_response_headers = u64_of (jo_response_headers o'), tm_read = u64_of (jo_read o'),
          tm_write = u64_of (jo_write o'), tm_call = u64_of (jo_call o'), tm_consumer_stall = u64_of (jo_consumer_stall o')\<rparr>,
        op_max_redirects := u32_of (jo_redirects o'), op_trust_mode := u32_of (jo_trust_mode o'),
        op_insecure_cert := jo_insecure o', op_enable_cookies := jo_cookies o', op_enable_0rtt := jo_0rtt o',
        op_enable_qlog := jo_qlog o',
        op_max_connection_workers := (if jo_workers o' > 0 then u32_of (jo_workers o') else 0),
        op_network_change_policy := (if jo_network_policy o' = 1 then 1 else 0),
        op_enable_http_cache := jo_http_cache o',
        op_cache_max_entries := (if jo_cache_entries o' > 0 then u32_of (jo_cache_entries o') else 0),
        op_cache_max_bytes := (if jo_cache_bytes o' > 0 then u64_of (jo_cache_bytes o') else 0),
        op_cache_max_entry_bytes := (if jo_cache_entry_bytes o' > 0 then u64_of (jo_cache_entry_bytes o') else 0),
        op_qlog_sink := sink, op_qlog_path_prefix := jo_qlog_path o'\<rparr>"

text \<open>The context of the Java resolver; without it the client is created with the default resolver.\<close>

definition resolver_context :: "(jni_resource \<Rightarrow> bool) \<Rightarrow> nat option \<Rightarrow> jni_effect list \<times> nat option" where
  "resolver_context ok resolver =
     (case resolver of
        None \<Rightarrow> ([], None)
      | Some x \<Rightarrow>
          if \<not> ok R_resolver_ctx then ([], None)
          else if ok R_resolver then ([Take R_resolver_ctx, Take R_resolver], Some x)
          else ([Take R_resolver_ctx, Give R_resolver_ctx], None))"

definition free_resolver_ctx :: "nat option \<Rightarrow> jni_effect list" where
  "free_resolver_ctx ctx = (case ctx of None \<Rightarrow> [] | Some x \<Rightarrow> [Give R_resolver, Give R_resolver_ctx])"

text \<open>What follows \<^verbatim>\<open>kathttp3_client_create\<close>, for the client it returned.  \<open>R_entry\<close> stands for the allocations of
  the registration; where they fail the client and its resolver are destroyed again.\<close>

definition adopt_client :: "(jni_resource \<Rightarrow> bool) \<Rightarrow> nat \<Rightarrow> nat option \<Rightarrow> handle_table \<Rightarrow> nat \<times> jni_effect list \<times> handle_table" where
  "adopt_client ok c ctx t =
     (let next_handle = ht_next t
      in if next_handle = 0 \<or> next_handle > jlong_max \<or> ok R_entry
         then let (handle, t1) = register_client c ctx t
              in (handle, if handle = 0 then Give R_client # free_resolver_ctx ctx else [], t1)
         else (0, Give R_client # free_resolver_ctx ctx,
               t\<lparr>ht_next := wrap64 (next_handle + 1),
                 ht_calls := ht_calls t @ [Client_destroy c] @ (case ctx of None \<Rightarrow> [] | Some r \<Rightarrow> [Resolver_free r])\<rparr>))"

text \<open>\<open>create\<close> is \<^verbatim>\<open>kathttp3_client_create\<close> with the options, the CA file and the resolver it is given.  The sink of
  qlog records on Android is owned by the entry; it dies with the call when there is no entry.\<close>

definition jni_create_client ::
  "(jni_resource \<Rightarrow> bool) \<Rightarrow> bool \<Rightarrow> (client_options \<Rightarrow> string option \<Rightarrow> nat option \<Rightarrow> nat option) \<Rightarrow> java_options \<Rightarrow>
     handle_table \<Rightarrow> nat \<times> jni_effect list \<times> handle_table" where
  "jni_create_client ok android create o' t =
     (let want_sink = (android \<and> jo_qlog o' \<and> jo_qlog_logcat o');
          sink = (if want_sink then [R_sink] else []);
          ca = (if jo_ca_file o' = None then [] else [R_ca_file]);
          path = (if jo_qlog_path o' = None then [] else [R_qlog_path])
      in if want_sink \<and> \<not> ok R_sink then (0, [], t)
         else if jo_ca_file o' \<noteq> None \<and> \<not> ok R_ca_file then (0, map Take sink @ map Give sink, t)
         else if jo_qlog_path o' \<noteq> None \<and> \<not> ok R_qlog_path
         then (0, map Take sink @ map Take ca @ map Give ca @ map Give sink, t)
         else
           let (es, ctx) = resolver_context ok (jo_resolver o');
               before = map Take sink @ map Take ca @ map Take path @ es
           in case create (native_options o' want_sink) (jo_ca_file o') ctx of
                None \<Rightarrow> (0, before @ map Give ca @ map Give path @ free_resolver_ctx ctx @ map Give sink, t)
              | Some c \<Rightarrow>
                  let (handle, fs, t1) = adopt_client ok c ctx t
                  in (handle, before @ [Take R_client] @ map Give ca @ map Give path @ fs
                        @ (if handle = 0 then map Give sink else []), t1))"

lemma resolver_context_facts:
  assumes "resolver_context ok rv = (es, ctx)"
  shows "executed es = []" "net es q = (if q \<in> {R_resolver_ctx, R_resolver} \<and> ctx \<noteq> None then 1 else 0)"
    "ctx = (if ok R_resolver_ctx \<and> ok R_resolver then rv else None)"
  using assms by (auto simp: resolver_context_def split: option.splits if_splits)

lemma adopt_client_facts:
  assumes "adopt_client ok c ctx t = (handle, es, t')"
  shows "net es q = (if handle = 0 \<and> (q = R_client \<or> q \<in> {R_resolver_ctx, R_resolver} \<and> ctx \<noteq> None) then -1 else 0)"
    "handle = 0 \<Longrightarrow> ht_handles t' = ht_handles t \<and> ht_entries t' = ht_entries t \<and> Client_destroy c \<in> set (ht_calls t')"
    "handle \<noteq> 0 \<Longrightarrow> (handle, t') = register_client c ctx t"
  using assms
  by (auto simp: adopt_client_def register_client_def free_resolver_ctx_def Let_def split: option.splits if_splits)

text \<open>\<^verbatim>\<open>createClient\<close> either returns the handle of a new entry, which owns the client and, where there are
  any, the Java resolver's reference and the sink, or returns 0 with the handle table as it was, the client, if it
  was made at all, destroyed, and everything it took given back.  The strings are given back in both cases.\<close>

lemma create_client_owns_or_gives_back:
  assumes "jni_create_client ok android create o' t = (handle, es, t')"
    "sink \<longleftrightarrow> android \<and> jo_qlog o' \<and> jo_qlog_logcat o'"
    "ctx = (if ok R_resolver_ctx \<and> ok R_resolver then jo_resolver o' else None)"
    "made = create (native_options o' sink) (jo_ca_file o') ctx"
  shows "(\<forall>q. net es q =
      (if handle \<noteq> 0 \<and> (q = R_client \<or> q = R_sink \<and> sink \<or> q \<in> {R_resolver_ctx, R_resolver} \<and> ctx \<noteq> None)
       then 1 else 0)) \<and>
    (if handle = 0
     then ht_handles t' = ht_handles t \<and> ht_entries t' = ht_entries t \<and>
       (t' = t \<or> (\<exists>c. made = Some c \<and> Client_destroy c \<in> set (ht_calls t')))
     else \<exists>c. made = Some c \<and> (handle, t') = register_client c ctx t)"
proof -
  let ?refused = "sink \<and> \<not> ok R_sink \<or> jo_ca_file o' \<noteq> None \<and> \<not> ok R_ca_file \<or> jo_qlog_path o' \<noteq> None \<and> \<not> ok R_qlog_path"
  obtain rs where r: "resolver_context ok (jo_resolver o') = (rs, ctx)"
    using resolver_context_facts(3) assms(3) by (metis surj_pair)
  note context_facts = resolver_context_facts [OF r]
  show ?thesis
  proof (cases "?refused \<or> made = None")
    case True
    then show ?thesis
      using assms(1,4) context_facts r
      by (auto simp: jni_create_client_def Let_def free_resolver_ctx_def simp flip: assms(2) split: if_splits option.splits)
  next
    case False
    then obtain c where c: "made = Some c" by auto
    obtain h fs t1 where adopt: "adopt_client ok c ctx t = (h, fs, t1)" by (metis surj_pair)
    let ?ca = "if jo_ca_file o' = None then [] else [R_ca_file]" and ?p = "if jo_qlog_path o' = None then [] else [R_qlog_path]"
    let ?s = "if sink then [R_sink] else []"
    have eqs: "handle = h" "t' = t1"
      "es = (map Take ?s @ map Take ?ca @ map Take ?p @ rs) @ [Take R_client] @ map Give ?ca @ map Give ?p @ fs @
         (if handle = 0 then map Give ?s else [])"
      using assms(1,4) False r c adopt
      by (auto simp: jni_create_client_def Let_def simp flip: assms(2) split: if_splits)
    show ?thesis
      unfolding eqs(3) using adopt_client_facts [OF adopt] context_facts(2) eqs(1,2) c
      by auto
  qed
qed

text \<open>A client with a Java resolver, once with a handle and once where the registration has no memory left.\<close>

definition example_java_options :: java_options where
  "example_java_options = \<lparr>jo_connect = 1000, jo_request = 0, jo_idle = 0, jo_dns = 0, jo_handshake = 0,
     jo_response_headers = 0, jo_read = 0, jo_write = 0, jo_call = 0, jo_consumer_stall = 0, jo_redirects = 5,
     jo_trust_mode = 0, jo_insecure = False, jo_cookies = True, jo_0rtt = False, jo_qlog = False, jo_qlog_logcat = False,
     jo_ca_file = Some ''/ca'', jo_qlog_path = None, jo_workers = -1, jo_network_policy = 2, jo_http_cache = False,
     jo_cache_entries = 0, jo_cache_bytes = 0, jo_cache_entry_bytes = 0, jo_resolver = Some 3\<rparr>"

lemma create_client_owns_or_gives_back_witness:
  "fst (jni_create_client (\<lambda>q. True) True (\<lambda>p ca r. Some 9) example_java_options empty_table) = 1 \<and>
   net (fst (snd (jni_create_client (\<lambda>q. q \<noteq> R_entry) True (\<lambda>p ca r. Some 9) example_java_options empty_table))) R_resolver = 0"
proof -
  obtain handle es t' where e:
    "jni_create_client (\<lambda>q. q \<noteq> R_entry) True (\<lambda>p ca r. Some 9) example_java_options empty_table = (handle, es, t')"
    by (metis surj_pair)
  have "fst (jni_create_client (\<lambda>q. q \<noteq> R_entry) True (\<lambda>p ca r. Some 9) example_java_options empty_table) = 0" by code_simp
  then have "net es R_resolver = 0" using create_client_owns_or_gives_back [OF e refl refl refl] e by simp
  moreover have "fst (jni_create_client (\<lambda>q. True) True (\<lambda>p ca r. Some 9) example_java_options empty_table) = 1" by code_simp
  ultimately show ?thesis using e by simp
qed

subsection \<open>The other native methods\<close>

datatype native_request = N_close nat | N_cancel nat int | N_network nat nat nat

definition jni_close_client :: "handle_table \<Rightarrow> nat \<Rightarrow> native_request list" where
  "jni_close_client t h = (case fst (acquire_client h t) of None \<Rightarrow> [] | Some e \<Rightarrow> [N_close (he_client (ht_entries t ! e))])"

definition jni_cancel :: "handle_table \<Rightarrow> nat \<Rightarrow> int \<Rightarrow> native_request list" where
  "jni_cancel t h i = (case fst (acquire_client h t) of None \<Rightarrow> [] | Some e \<Rightarrow> [N_cancel (he_client (ht_entries t ! e)) i])"

definition jni_network_changed :: "handle_table \<Rightarrow> nat \<Rightarrow> int \<Rightarrow> int \<Rightarrow> native_request list" where
  "jni_network_changed t h generation network =
     (case fst (acquire_client h t) of
        None \<Rightarrow> []
      | Some e \<Rightarrow>
          if generation > 0 then [N_network (he_client (ht_entries t ! e)) (u64_of generation) (u64_of network)] else [])"

text \<open>\<open>consume_body\<close> and \<open>enqueue\<close> are the functions of the C ABI.\<close>

definition jni_consume :: "(nat \<Rightarrow> int \<Rightarrow> nat \<Rightarrow> kat_error) \<Rightarrow> handle_table \<Rightarrow> nat \<Rightarrow> int \<Rightarrow> int \<Rightarrow> bool" where
  "jni_consume consume_body t h i amount =
     (case fst (acquire_client h t) of
        None \<Rightarrow> False
      | Some e \<Rightarrow> if amount < 0 then False else consume_body (he_client (ht_entries t ! e)) i (nat amount) = KAT_OK)"

definition jni_append_request_body ::
  "(nat \<Rightarrow> int \<Rightarrow> bytes option \<Rightarrow> nat \<Rightarrow> bool \<Rightarrow> kat_error) \<Rightarrow> (jni_resource \<Rightarrow> bool) \<Rightarrow> handle_table \<Rightarrow> nat \<Rightarrow> int \<Rightarrow>
     bytes option \<Rightarrow> bool \<Rightarrow> kat_error" where
  "jni_append_request_body enqueue ok t h i data finished =
     (case fst (acquire_client h t) of
        None \<Rightarrow> ERR_CLOSED
      | Some e \<Rightarrow>
          let len = (case data of None \<Rightarrow> 0 | Some d \<Rightarrow> length d);
              elements = (if len \<noteq> 0 \<and> ok R_body then data else None)
          in if len \<noteq> 0 \<and> elements = None then ERR_NOMEM
             else enqueue (he_client (ht_entries t ! e)) i elements len finished)"

lemma acquire_destroyed:
  "fst (acquire_client h (destroy_client h t)) = None"
  by (auto simp: acquire_client_def destroy_client_def start_destroy_def update_entry_def Let_def split: option.splits)

text \<open>After \<^verbatim>\<open>destroyClient\<close> the handle reaches no client any more.\<close>

lemma destroyed_handle_is_dead:
  "jni_close_client (destroy_client h t) h = [] \<and> jni_cancel (destroy_client h t) h i = [] \<and>
   jni_network_changed (destroy_client h t) h g n = [] \<and> \<not> jni_consume f (destroy_client h t) h i b \<and>
   jni_append_request_body w ok (destroy_client h t) h i d fin = ERR_CLOSED \<and>
   jni_execute ok (destroy_client h t) h i a = (False, [])"
  by (simp add: jni_close_client_def jni_cancel_def jni_network_changed_def jni_consume_def
      jni_append_request_body_def jni_execute_def acquire_destroyed)

subsection \<open>Loading the library\<close>

text \<open>The five classes by number; a class is found as a local reference and kept as a global one.\<close>

definition cache_class :: "(jni_resource \<Rightarrow> bool) \<Rightarrow> nat \<Rightarrow> bool \<times> jni_effect list" where
  "cache_class ok k =
     (if \<not> ok (R_local_class k) then (False, [])
      else if ok (R_class k) then (True, [Take (R_local_class k), Take (R_class k), Give (R_local_class k)])
      else (False, [Take (R_local_class k), Give (R_local_class k)]))"

fun cache_classes :: "(jni_resource \<Rightarrow> bool) \<Rightarrow> nat list \<Rightarrow> nat list \<Rightarrow> bool \<times> nat list \<times> jni_effect list" where
  "cache_classes ok [] cached = (True, cached, [])"
| "cache_classes ok (k # ks) cached =
     (let (found, es) = cache_class ok k
      in if \<not> found then (False, cached, es)
         else let (ready, cached1, fs) = cache_classes ok ks (cached @ [k]) in (ready, cached1, es @ fs))"

definition release_jni_cache :: "nat list \<Rightarrow> jni_effect list" where
  "release_jni_cache cached = map (\<lambda>k. Give (R_class k)) cached"

text \<open>\<open>methods\<close>: all nine method identifiers were found and no exception is pending.\<close>

definition initialize_jni_cache :: "(jni_resource \<Rightarrow> bool) \<Rightarrow> bool \<Rightarrow> bool \<times> nat list \<times> jni_effect list" where
  "initialize_jni_cache ok methods =
     (let (found, cached, es) = cache_classes ok [0..<5] []
      in if \<not> found then (False, [], es @ release_jni_cache cached)
         else if \<not> methods then (False, [], es @ release_jni_cache cached)
         else (True, cached, es))"

definition jni_on_load :: "(jni_resource \<Rightarrow> bool) \<Rightarrow> bool \<Rightarrow> bool \<Rightarrow> nat option \<Rightarrow> nat option \<Rightarrow>
    bool \<times> nat list \<times> jni_effect list \<times> nat option" where
  "jni_on_load ok has_env methods android_verifier registered =
     (if \<not> has_env then (False, [], [], registered)
      else
        let (ready, cached, es) = initialize_jni_cache ok methods
        in if \<not> ready then (False, cached, es, registered)
           else (True, cached, es, if android_verifier \<noteq> None then android_verifier else registered))"

definition jni_on_unload :: "bool \<Rightarrow> nat list \<Rightarrow> jni_effect list" where
  "jni_on_unload has_env cached = (if has_env then release_jni_cache cached else [])"

lemma cache_classes_net:
  "cache_classes ok ks cached = (ready, cached1, es) \<Longrightarrow>
     \<exists>got. cached1 = cached @ got \<and> (ready \<longrightarrow> got = ks) \<and>
       (\<forall>q. net es q = net (map (\<lambda>k. Take (R_class k)) got) q)"
proof (induction ok ks cached arbitrary: ready cached1 es rule: cache_classes.induct)
  case (2 ok k ks cached)
  show ?case
  proof (cases "fst (cache_class ok k)")
    case True
    then obtain cached2 fs where rest: "cache_classes ok ks (cached @ [k]) = (ready, cached1, fs)"
        "es = [Take (R_local_class k), Take (R_class k), Give (R_local_class k)] @ fs"
      using "2.prems" by (auto simp: cache_class_def split: if_splits prod.splits)
    obtain got where "cached1 = (cached @ [k]) @ got" "ready \<longrightarrow> got = ks"
        "\<forall>q. net fs q = net (map (\<lambda>k. Take (R_class k)) got) q"
      using "2.IH" [OF _ refl _ rest(1)] True by (auto simp: cache_class_def split: if_splits)
    then show ?thesis using rest(2) by (intro exI [of _ "k # got"]) auto
  next
    case False
    then show ?thesis using "2.prems" by (auto simp: cache_class_def split: if_splits)
  qed
qed simp

lemma net_release: "net (release_jni_cache ks) q = - net (map (\<lambda>k. Take (R_class k)) ks) q"
  by (induction ks) (auto simp: release_jni_cache_def)

text \<open>Loading keeps one global reference to each class or none at all, and unloading gives them back.\<close>

lemma jni_cache_balanced:
  assumes "jni_on_load ok has_env methods v registered = (loaded, cached, es, registered')"
  shows "net (es @ jni_on_unload True cached) q = 0" "loaded \<Longrightarrow> cached = [0..<5]" "\<not> loaded \<Longrightarrow> net es q = 0"
proof -
  obtain ready c1 fs where c: "cache_classes ok [0..<5] [] = (ready, c1, fs)" by (metis surj_pair)
  from cache_classes_net [OF c] obtain got where
    g: "c1 = got" "ready \<longrightarrow> got = [0..<5]" "\<And>p. net fs p = net (map (\<lambda>k. Take (R_class k)) got) p" by auto
  show "net (es @ jni_on_unload True cached) q = 0" "loaded \<Longrightarrow> cached = [0..<5]" "\<not> loaded \<Longrightarrow> net es q = 0"
    using assms c g
    by (auto simp: jni_on_load_def initialize_jni_cache_def jni_on_unload_def net_release release_jni_cache_def [of "[]"]
        split: if_splits)
qed

subsection \<open>The JVM of a thread\<close>

text \<open>\<^verbatim>\<open>thread_local ThreadEnv\<close>: \<open>getenv\<close> and \<open>attach\<close> are the answers of the JVM.\<close>

record thread_env =
  te_env :: bool
  te_attached :: bool

definition thread_env_get :: "bool \<Rightarrow> bool \<Rightarrow> bool \<Rightarrow> thread_env \<Rightarrow> bool \<times> thread_env" where
  "thread_env_get vm getenv attach te =
     (if te_env te then (True, te)
      else if \<not> vm then (False, te)
      else if getenv then (True, te\<lparr>te_env := True\<rparr>)
      else if attach then (True, te\<lparr>te_env := True, te_attached := True\<rparr>)
      else (False, te\<lparr>te_env := False\<rparr>))"

text \<open>The destructor, at the end of the thread: does it detach?\<close>

definition thread_env_exit :: "bool \<Rightarrow> thread_env \<Rightarrow> bool" where
  "thread_env_exit vm te = (te_attached te \<and> vm)"

text \<open>A thread is detached at its end exactly when one of its uses attached it, however often it asked.\<close>

lemma thread_attached_once:
  "te = foldl (\<lambda>te (vm, getenv, attach). snd (thread_env_get vm getenv attach te)) \<lparr>te_env = False, te_attached = False\<rparr> uses
   \<Longrightarrow> thread_env_exit True te \<longleftrightarrow>
     (\<exists>k<length uses. (case uses ! k of (vm, getenv, attach) \<Rightarrow> vm \<and> \<not> getenv \<and> attach) \<and>
        (\<forall>j<k. case uses ! j of (vm, getenv, attach) \<Rightarrow> \<not> (vm \<and> (getenv \<or> attach))))"
proof -
  let ?f = "\<lambda>te (vm, getenv, attach). snd (thread_env_get vm getenv attach te)"
  have stays: "te_env te \<Longrightarrow> foldl ?f te us = te" for te and us :: "(bool \<times> bool \<times> bool) list"
    by (induction us) (auto simp: thread_env_get_def)
  have "te_attached (foldl ?f \<lparr>te_env = False, te_attached = False\<rparr> us) \<longleftrightarrow>
     (\<exists>k<length us. (case us ! k of (vm, getenv, attach) \<Rightarrow> vm \<and> \<not> getenv \<and> attach) \<and>
        (\<forall>j<k. case us ! j of (vm, getenv, attach) \<Rightarrow> \<not> (vm \<and> (getenv \<or> attach))))" for us
  proof (induction us)
    case (Cons u us)
    obtain vm getenv attach where u: "u = (vm, getenv, attach)" by (cases u)
    consider "vm" "getenv" | "vm" "\<not> getenv" "attach" | "\<not> (vm \<and> (getenv \<or> attach))" by blast
    then show ?case
    proof cases
      case 3
      then have "?f \<lparr>te_env = False, te_attached = False\<rparr> u = \<lparr>te_env = False, te_attached = False\<rparr>"
        by (auto simp: u thread_env_get_def)
      then show ?thesis using Cons.IH 3 by (simp add: u Ex_less_Suc2 All_less_Suc2) blast
    next
      case 1
      then have "?f \<lparr>te_env = False, te_attached = False\<rparr> u = \<lparr>te_env = True, te_attached = False\<rparr>"
        by (simp add: u thread_env_get_def)
      then show ?thesis using 1 stays [of "\<lparr>te_env = True, te_attached = False\<rparr>" us]
        by (simp add: u Ex_less_Suc2 All_less_Suc2)
    next
      case 2
      then have "?f \<lparr>te_env = False, te_attached = False\<rparr> u = \<lparr>te_env = True, te_attached = True\<rparr>"
        by (simp add: u thread_env_get_def)
      then show ?thesis using 2 stays [of "\<lparr>te_env = True, te_attached = True\<rparr>" us]
        by (simp add: u Ex_less_Suc2 All_less_Suc2)
    qed
  qed simp
  moreover assume "te = foldl ?f \<lparr>te_env = False, te_attached = False\<rparr> uses"
  ultimately show ?thesis by (simp add: thread_env_exit_def)
qed

end
