(* ===== verification/Qlog.thy ===== *)
theory Qlog
  imports Kat_Prelude Kat_Decimal Kat_System
begin

text \<open>
  Diagnostics: the bounded queue between the connections and Logcat (\<^verbatim>\<open>src/jni/android_qlog_sink.cc\<close>) and the qlog
  files of connections (\<^verbatim>\<open>src/core/quic_client.cc\<close>).  Files and the log are what their calls answer.
\<close>

subsection \<open>The Logcat sink\<close>

definition max_sink_bytes :: nat where "max_sink_bytes = 256 * 1024"
definition max_record_bytes :: nat where "max_record_bytes = 16 * 1024"
definition max_logcat_bytes :: nat where "max_logcat_bytes = 3500"

record qlog_sink =
  ql_queue :: "bytes list"
  ql_bytes :: nat
  ql_stopping :: bool
  ql_dropped_records :: nat
  ql_dropped_bytes :: nat

definition new_qlog_sink :: qlog_sink where
  "new_qlog_sink = \<lparr>ql_queue = [], ql_bytes = 0, ql_stopping = False, ql_dropped_records = 0, ql_dropped_bytes = 0\<rparr>"

text \<open>\<open>locked\<close> tells whether \<^verbatim>\<open>try_lock\<close> succeeded.\<close>

definition qlog_enqueue :: "bool \<Rightarrow> bytes \<Rightarrow> qlog_sink \<Rightarrow> qlog_sink" where
  "qlog_enqueue locked data s =
     (if data = [] then s
      else
        let accepted = min (length data) max_record_bytes
        in if \<not> locked \<or> ql_stopping s \<or> accepted > max_sink_bytes \<or> ql_bytes s + accepted > max_sink_bytes
           then s\<lparr>ql_dropped_records := ql_dropped_records s + 1, ql_dropped_bytes := ql_dropped_bytes s + length data\<rparr>
           else
             let s1 = s\<lparr>ql_queue := ql_queue s @ [take accepted data], ql_bytes := ql_bytes s + accepted\<rparr>
             in if accepted \<noteq> length data
                then s1\<lparr>ql_dropped_records := ql_dropped_records s1 + 1,
                        ql_dropped_bytes := ql_dropped_bytes s1 + (length data - accepted)\<rparr>
                else s1)"

text \<open>One turn of the drain thread: the notice of drops, if any, and the record to write; \<open>None\<close> where the
  thread waits or ends.\<close>

definition qlog_take :: "qlog_sink \<Rightarrow> ((nat \<times> nat) option \<times> bytes) option \<times> qlog_sink" where
  "qlog_take s =
     (case ql_queue s of
        [] \<Rightarrow> (None, s)
      | r # rest \<Rightarrow>
          (Some (if ql_dropped_records s \<noteq> 0 then Some (ql_dropped_records s, ql_dropped_bytes s) else None, r),
           s\<lparr>ql_queue := rest, ql_bytes := ql_bytes s - length r, ql_dropped_records := 0, ql_dropped_bytes := 0\<rparr>))"

definition qlog_stop :: "qlog_sink \<Rightarrow> qlog_sink" where
  "qlog_stop s = s\<lparr>ql_stopping := True, ql_queue := [], ql_bytes := 0\<rparr>"

text \<open>The messages a record is cut into.\<close>

function write_record :: "bytes \<Rightarrow> bytes list" where
  "write_record r =
     (if r = [] then [] else let n = min max_logcat_bytes (length r) in take n r # write_record (drop n r))"
  by pat_completeness auto
termination by (relation "measure length") (auto simp: max_logcat_bytes_def)

declare write_record.simps [simp del]

lemma write_record_pieces:
  "concat (write_record r) = r \<and> (\<forall>m\<in>set (write_record r). m \<noteq> [] \<and> length m \<le> max_logcat_bytes)"
proof (induction r rule: write_record.induct)
  case (1 r)
  show ?case
  proof (cases "r = []")
    case False
    let ?n = "min max_logcat_bytes (length r)"
    have unf: "write_record r = take ?n r # write_record (drop ?n r)"
      using False by (simp add: write_record.simps [of r] Let_def)
    have "take ?n r \<noteq> []" "length (take ?n r) \<le> max_logcat_bytes" using False by (simp_all add: max_logcat_bytes_def)
    moreover have "concat (write_record r) = take ?n r @ drop ?n r" using 1 [OF False refl] by (simp only: unf concat.simps)
    ultimately show ?thesis using 1 [OF False refl, THEN conjunct2] by (simp only: unf append_take_drop_id list.set ball_simps simp_thms)
  qed (simp add: write_record.simps [of "[]"])
qed

definition sink_ok :: "qlog_sink \<Rightarrow> bool" where
  "sink_ok s \<longleftrightarrow> ql_bytes s = sum_list (map length (ql_queue s)) \<and> ql_bytes s \<le> max_sink_bytes \<and>
     (\<forall>r\<in>set (ql_queue s). r \<noteq> [] \<and> length r \<le> max_record_bytes) \<and> (ql_stopping s \<longrightarrow> ql_queue s = [])"

datatype sink_op = Sink_enqueue bool bytes | Sink_take | Sink_stop

fun sink_step :: "qlog_sink \<Rightarrow> sink_op \<Rightarrow> qlog_sink" where
  "sink_step s (Sink_enqueue locked data) = qlog_enqueue locked data s"
| "sink_step s Sink_take = snd (qlog_take s)"
| "sink_step s Sink_stop = qlog_stop s"

lemma sink_step_ok: "sink_ok s \<Longrightarrow> sink_ok (sink_step s op)"
  by (cases op)
     (auto simp: sink_ok_def qlog_enqueue_def qlog_take_def qlog_stop_def max_record_bytes_def Let_def split: list.splits)

interpretation sinks: bounded_system sink_step sink_ok ql_bytes max_sink_bytes
  by unfold_locales (rule sink_step_ok, assumption, simp add: sink_ok_def)

text \<open>The backlog stays within 256 KiB, the counter is exact and no stopped sink keeps a record.\<close>

lemma qlog_backlog_bounded: "sink_ok (foldl sink_step new_qlog_sink ops)" "ql_bytes (foldl sink_step new_qlog_sink ops) \<le> max_sink_bytes"
proof -
  have start: "sink_ok new_qlog_sink" by (simp add: sink_ok_def new_qlog_sink_def)
  show "sink_ok (foldl sink_step new_qlog_sink ops)" by (rule sinks.run_inv [OF start])
  show "ql_bytes (foldl sink_step new_qlog_sink ops) \<le> max_sink_bytes" by (rule sinks.run_bound [OF start])
qed

subsection \<open>Files\<close>

datatype open_result = Opened nat | File_exists | Open_error

text \<open>\<^verbatim>\<open>open_qlog_file\<close>: at most 16 names are tried, with numbers drawn from a counter of the process.\<close>

fun open_attempts :: "nat \<Rightarrow> (string \<Rightarrow> open_result) \<Rightarrow> string \<Rightarrow> nat \<Rightarrow> nat \<Rightarrow> nat option \<times> nat" where
  "open_attempts 0 fs prefix pid next_id = (None, next_id)"
| "open_attempts (Suc n) fs prefix pid next_id =
     (case fs (prefix @ ''-'' @ to_string pid @ ''-'' @ to_string next_id @ ''.qlog'') of
        Opened fd \<Rightarrow> (Some fd, next_id + 1)
      | File_exists \<Rightarrow> open_attempts n fs prefix pid (next_id + 1)
      | Open_error \<Rightarrow> (None, next_id + 1))"

definition open_qlog_file :: "(string \<Rightarrow> open_result) \<Rightarrow> string \<Rightarrow> nat \<Rightarrow> nat \<Rightarrow> nat option \<times> nat" where
  "open_qlog_file fs prefix pid next_id =
     (if prefix = '''' then (None, next_id) else open_attempts 16 fs prefix pid next_id)"

datatype write_result = Wrote nat | Interrupted | Write_error

text \<open>\<^verbatim>\<open>write_qlog_fd\<close>: what reaches the file, given the answers of \<^verbatim>\<open>write\<close>; a call writes at least one byte and
  no more than it is given.\<close>

fun write_qlog_fd :: "write_result list \<Rightarrow> bytes \<Rightarrow> bytes" where
  "write_qlog_fd [] data = []"
| "write_qlog_fd (w # ws) data =
     (if data = [] then []
      else case w of
             Wrote n \<Rightarrow> if n = 0 then [] else take n data @ write_qlog_fd ws (drop n data)
           | Interrupted \<Rightarrow> write_qlog_fd ws data
           | Write_error \<Rightarrow> [])"

definition write_qlog_for_file :: "nat option \<Rightarrow> bool \<Rightarrow> write_result list \<Rightarrow> bytes \<Rightarrow> bytes \<times> bytes option" where
  "write_qlog_for_file fd has_sink ws data =
     (case fd of None \<Rightarrow> [] | Some _ \<Rightarrow> write_qlog_fd ws data,
      if \<not> has_sink \<or> data = [] then None else Some data)"

text \<open>A file gets a prefix of every record, and the sink the whole of it.\<close>

lemma qlog_file_prefix: "\<exists>k. write_qlog_fd ws data = take k data"
proof (induction ws data rule: write_qlog_fd.induct)
  case (2 w ws data)
  show ?case
  proof (cases "\<exists>n. w = Wrote n \<and> n \<noteq> 0 \<and> data \<noteq> []")
    case True
    then obtain n k where "w = Wrote n" "n \<noteq> 0" "data \<noteq> []" "write_qlog_fd ws (drop n data) = take k (drop n data)"
      using 2(1) by blast
    then have "write_qlog_fd (w # ws) data = take (n + k) data" by (simp add: take_add)
    then show ?thesis by blast
  next
    case False
    then show ?thesis using 2(2) by (cases w) (auto intro: exI [of _ 0])
  qed
qed (auto intro: exI [of _ 0])

lemma open_attempts_bounded: "snd (open_attempts n fs prefix pid i) \<le> i + n"
proof (induction n arbitrary: i)
  case (Suc n)
  then show ?case using Suc.IH [of "Suc i"] by (auto split: open_result.split)
qed simp

end
