(* ===== verification/Spec2Isabelle.thy ===== *)
theory Spec2Isabelle
  imports Request Redirect Http_Date Kat_Api Cookie_Jar Response_Cache_Props Transport_Policy Dns_Cache
    Jni_Handles Jni_Delivery
    Quic_System Receive_Credit Quic_Run Quic_Race_Loop Quic_Loop Quic_Callbacks Quic_Setup Http3_Codec
    Engine_Registry Job_Types Dns_Flights Tls_Sessions Client_Abi Jni_Bridge Qlog
begin

text \<open>
  A verification development for KatHttp3, an HTTP/3 client engine in C++ with a C ABI and a Java binding.

  \<^bold>\<open>The program.\<close>  An application creates a client (\<^verbatim>\<open>kathttp3_client_create\<close>, or \<^verbatim>\<open>createClient\<close> through JNI), builds
  requests and executes them; it is told of headers, body, completion or an error by events.  The \<^verbatim>\<open>Engine\<close>
  (\<^verbatim>\<open>src/core/engine.cc\<close>) keeps the registry of requests that have not ended, the cookie jar, the private cache, the DNS cache
  and the pool of connections; it makes a \<^verbatim>\<open>Job\<close> of each request and hands it to a \<^verbatim>\<open>QuicClient\<close>
  (\<^verbatim>\<open>src/core/quic_client.cc\<close>).  Every \<^verbatim>\<open>QuicClient\<close> has a worker thread that resolves the origin, races or tries
  its addresses, runs the handshake and then the event loop around ngtcp2 and nghttp3 (\<^verbatim>\<open>src/core/http3_session.cc\<close>).
  What it learns of a job goes back to the engine (\<^verbatim>\<open>on_job_headers\<close>, \<^verbatim>\<open>on_job_body\<close>, \<^verbatim>\<open>on_job_complete\<close>,
  \<^verbatim>\<open>on_job_error\<close>), which redirects, stores, validates and finally calls the application back.

  \<^bold>\<open>How it is modelled.\<close>  Structures are records, enumerations datatypes, and every function of the code is one HOL function of
  the same name where HOL allows it.  A function that changes state takes the state and returns it; a failure is an
  option, a sum or a boolean next to the state, as in the code.  Bytes are 8-bit words; unsigned integers are natural numbers with
  the code's saturation, wrap-around or limit written out; times are nanoseconds or milliseconds as the code has them.
  A region under a mutex is one step, and what other threads may do in between is another step of the same transition
  system.  Outside the program, and so parameters, are: ngtcp2, nghttp3 and BoringSSL (the answers to each call, the
  callbacks made during it), the kernel (results of socket calls and \<^verbatim>\<open>poll\<close>), the clocks, random bytes, \<^verbatim>\<open>getaddrinfo\<close>
  and \<^verbatim>\<open>inet_pton\<close>, the JVM (which calls fail, what Java objects answer) and the application.  What is assumed of them is named:
  for instance that \<^verbatim>\<open>inet_pton\<close> accepts only short texts without NUL.

  \<^bold>\<open>The theories.\<close>
  \<^item> Shared: \<open>Kat_Prelude\<close> (bounds, saturating arithmetic, string searches), \<open>Kat_Decimal\<close> (decimal text), \<open>Kat_Api\<close> (error codes,
    events), \<open>Kat_System\<close> (the interfaces of stateful components: \<open>step_system\<close>, \<open>bounded_system\<close>, \<open>transition_system\<close>;
    each component interprets one of them on its own operations), \<open>Header_List\<close>.
  \<^item> Messages: \<open>Url\<close>, \<open>Request\<close>, \<open>Redirect\<close>, \<open>Http_Date\<close>, \<open>Cache_Control\<close> for the files of these names.
  \<^item> Stores: \<open>Cookie_Jar\<close>; \<open>Response_Cache\<close> (operations) and \<open>Response_Cache_Props\<close>; \<open>Dns_Cache\<close> (resolvers, address order, cache; its
    result lifetime is the interface \<open>expiring_store\<close>) and \<open>Dns_Flights\<close> (the resolver pool and shared lookups of \<^verbatim>\<open>dns.cc\<close>).
  \<^item> TLS: \<open>Cert_Verifier\<close>, \<open>Tls\<close>, \<open>Tls_Sessions\<close> for \<^verbatim>\<open>cert_verifier.cc\<close>, \<^verbatim>\<open>android_cert_verifier.cc\<close> and \<^verbatim>\<open>tls.cc\<close>.
  \<^item> Transport: \<open>Transport_Policy\<close> (the decisions in the small headers of \<^verbatim>\<open>src/core\<close>), \<open>Udp_Socket\<close>.
  \<^item> A connection: \<open>Job\<close> (\<^verbatim>\<open>Job\<close> of \<^verbatim>\<open>quic_client.h\<close>), \<open>Http3_Headers\<close>, \<open>Http3_Upload\<close>, \<open>Http3_Codec\<close>
    (\<^verbatim>\<open>http3_session.cc\<close>), \<open>Quic_Jobs\<close> (job lists and stream map), \<open>Quic_Timeouts\<close> (\<^verbatim>\<open>expire_requests\<close>), \<open>Quic_System\<close> (all of that as a
    transition system), \<open>Receive_Credit\<close>, \<open>Quic_Setup\<close> (\<^verbatim>\<open>setup_connection\<close>, \<^verbatim>\<open>start_handshake_candidate\<close>), \<open>Quic_Race\<close> and
    \<open>Quic_Race_Loop\<close> (\<^verbatim>\<open>run_handshake_race\<close>, \<^verbatim>\<open>adopt_handshake_winner\<close>), \<open>Quic_Run\<close> (\<^verbatim>\<open>run\<close>), \<open>Quic_Write\<close> (\<^verbatim>\<open>pump_write\<close>,
    \<^verbatim>\<open>write_pending\<close>), \<open>Quic_Loop\<close> (\<^verbatim>\<open>event_loop\<close> composed of all of them), \<open>Quic_Callbacks\<close> (the two callback tables), \<open>Qlog\<close>.
  \<^item> The engine: \<open>Engine_Jobs\<close> (the handlers of a job's notes), \<open>Engine_Exchange\<close> (a whole exchange), \<open>Engine_Pool\<close>
    (configuration, connection pool, cached dispatcher), \<open>Engine_Registry\<close> (\<^verbatim>\<open>execute\<close>, \<^verbatim>\<open>deliver\<close>, \<^verbatim>\<open>cancel\<close>, \<^verbatim>\<open>destroy\<close> as
    interleaved steps), \<open>Job_Types\<close> (the type of the jobs handed to connections).
  \<^item> The boundary: \<open>Client_Abi\<close> (options in memory, C functions), \<open>Jni_Handles\<close> (ownership of clients by Java handles),
    \<open>Jni_Bridge\<close> (native methods, Java resolver, class cache), \<open>Jni_Delivery\<close> (events to Java).

  \<^bold>\<open>What is shown.\<close>  Each text block that starts with a property's number states one result; they fall into these groups.
  \<^item> Parsers and printers agree: URLs round-trip, dot segments are removed as RFC 3986 says, the framing check accepts exactly the
    consistent requests, cookies go to and come from their own domain only.
  \<^item> Stores stay within their bounds along every sequence of operations and answer only what was stored for the same request.
  \<^item> Requests: jobs are not owned twice, nor lost but for one a failed attempt left behind, streams lead to live jobs, early data
    carries only requests that may be replayed, every registered request ends exactly once; the registry and the event loop are refined by the engine's
    calls and by the loop's turns.
  \<^item> Exchanges: the application sees headers and body in order with the right end; redirects shed credentials, except where a
    relative reference meets a URL without a path; validated and stored responses are the delivered ones.
  \<^item> Transport: datagrams leave once and in order, credit is granted once, write turns respect their quantum and lose only what is
    refused, the race adopts a sound winner or records why there is none, shared lookups answer each caller once, a peer is
    accepted only if it was verified (or the insecure option waives it), cached credentials stay within their host and network.
  \<^item> The boundary: older callers get defaults for fields they do not know, JNI calls give back all they take, clients die once
    and never under a lease, Java sees one outcome.
  \<^item> Lemmas that show where the code does something else than it says stand next to the definitions they are about, such as
    \<open>raced_connection_times_out\<close>, \<open>redirect_empty_path_leaks_credentials\<close>, \<open>leftover_job_is_dropped\<close>, \<open>cancelled_but_called\<close> or \<open>blocked_streams_stay_blocked\<close>.

  Where a result has an exception its statement names it, and a lemma next to it shows that the exception occurs.

  \<^bold>\<open>Bounds and termination.\<close>  There is no fuel: loops over data are structural recursion or \<open>function\<close> with a measure on what is
  left of the input.  A loop over the outside world (\<open>event_loop\<close>, the race, the attempts of \<open>run\<close>, writing) recurses over
  the list of what the world answers, turn by turn; a run that has not ended after those turns says so (\<open>None\<close> for
  \<open>event_loop\<close>), and statements about the end do not presume it.  Limits are the code's: 300 cookies and 50 per domain, 64
  resolver addresses, 1024 queued datagrams, 4 MiB of upload, 64 KiB vectors, 256 header fields, ten redirects.

  \<^bold>\<open>Not modelled.\<close>  Logging (\<^verbatim>\<open>log.h\<close>) and the text of the CA bundle (\<^verbatim>\<open>ca_bundle.h\<close>, data); declarations of classes without code of their
  own; memory exhaustion except where the code handles it; the memory model below mutexes and atomics (an atomic
  access is a step); what other threads do while one \<^verbatim>\<open>write_pending\<close> or one \<^verbatim>\<open>process_wakeup\<close> of the event loop runs; the internals of ngtcp2, nghttp3, BoringSSL, the kernel and the JVM; the Kotlin layer, tests, fuzzers and
  build files.
\<close>

end
